(* ===== verification/App_Error.thy ===== *)
theory App_Error
  imports Prelude "HOL-Library.AList"
begin

text \<open>
  The application error of \<^verbatim>\<open>crates/spm-core/src/error.rs\<close> and the enumerations of
  \<^verbatim>\<open>crates/spm-core/src/dto/mod.rs\<close> that are stored as text. Every such enumeration is a pair
  of functions \<^verbatim>\<open>as_str\<close> / \<^verbatim>\<open>parse\<close>; the locale \<open>wire_enum\<close> states what the pair promises
  and is interpreted on each of them.
\<close>

section \<open>Error codes\<close>

datatype app_error_code =
    Unauthorized
  | Forbidden
  | NotFound
  | Conflict
  | Validation
  | QuotaExceeded
  | LengthRequired
  | InvalidToken
  | TokenExpired
  | LastActiveAdmin
  | TooManyRequests
  | Internal

definition all_codes :: "app_error_code list" where
  "all_codes =
     [Unauthorized, Forbidden, NotFound, Conflict, Validation, QuotaExceeded, LengthRequired,
      InvalidToken, TokenExpired, LastActiveAdmin, TooManyRequests, Internal]"

fun code_as_str :: "app_error_code \<Rightarrow> str" where
  "code_as_str Unauthorized = lit ''Unauthorized''"
| "code_as_str Forbidden = lit ''Forbidden''"
| "code_as_str NotFound = lit ''NotFound''"
| "code_as_str Conflict = lit ''Conflict''"
| "code_as_str Validation = lit ''Validation''"
| "code_as_str QuotaExceeded = lit ''QuotaExceeded''"
| "code_as_str LengthRequired = lit ''LengthRequired''"
| "code_as_str InvalidToken = lit ''InvalidToken''"
| "code_as_str TokenExpired = lit ''TokenExpired''"
| "code_as_str LastActiveAdmin = lit ''LastActiveAdmin''"
| "code_as_str TooManyRequests = lit ''TooManyRequests''"
| "code_as_str Internal = lit ''Internal''"

definition code_parse :: "str \<Rightarrow> app_error_code option" where
  "code_parse value = find (\<lambda>code. code_as_str code = value) all_codes"

section \<open>The error value\<close>

datatype json =
    JNull
  | JBool bool
  | JNum int
  | JStr str
  | JArr "json list"
  | JObj "(str \<times> json) list"

type_synonym details = "(str \<times> json) list"

record app_error =
  err_code :: app_error_code
  err_message :: str
  err_details :: "details option"
  err_cause :: "str option"

type_synonym 'a result = "app_error + 'a"

text \<open>
  A function that indexes slices or calls \<^verbatim>\<open>expect\<close> can also panic; such a function returns
  \<open>fault + 'a\<close>.
\<close>

datatype fault = Panic | Failed app_error

type_synonym 'a outcome = "fault + 'a"

definition new_error :: "app_error_code \<Rightarrow> str \<Rightarrow> app_error" where
  "new_error code message =
     \<lparr>err_code = code, err_message = message, err_details = None, err_cause = None\<rparr>"

definition with_details :: "app_error \<Rightarrow> details \<Rightarrow> app_error" where
  "with_details e ds = e\<lparr>err_details := Some ds\<rparr>"

definition unauthorized :: "str \<Rightarrow> app_error" where
  "unauthorized = new_error Unauthorized"

definition forbidden :: "str \<Rightarrow> app_error" where
  "forbidden = new_error Forbidden"

definition not_found :: "str \<Rightarrow> app_error" where
  "not_found = new_error NotFound"

definition conflict :: "str \<Rightarrow> app_error" where
  "conflict = new_error Conflict"

definition validation :: "str \<Rightarrow> app_error" where
  "validation = new_error Validation"

definition invalid_token :: "str \<Rightarrow> app_error" where
  "invalid_token = new_error InvalidToken"

definition internal :: "str \<Rightarrow> app_error" where
  "internal cause =
     \<lparr>err_code = Internal, err_message = lit ''internal error'', err_details = None,
      err_cause = Some cause\<rparr>"

definition quota_exceeded :: "int \<Rightarrow> int \<Rightarrow> int \<Rightarrow> app_error" where
  "quota_exceeded usage_bytes quota_bytes incoming_bytes =
     with_details (new_error QuotaExceeded (lit ''storage quota exceeded''))
       (AList.update (lit ''incomingBytes'') (JNum incoming_bytes)
         (AList.update (lit ''quotaBytes'') (JNum quota_bytes)
           (AList.update (lit ''usageBytes'') (JNum usage_bytes) [])))"

record error_body =
  body_code :: app_error_code
  body_message :: str
  body_details :: details

definition to_envelope :: "app_error \<Rightarrow> error_body" where
  "to_envelope e =
     \<lparr>body_code = err_code e, body_message = err_message e,
      body_details = (case err_details e of None \<Rightarrow> [] | Some ds \<Rightarrow> ds)\<rparr>"

lemmas error_defs =
  new_error_def with_details_def unauthorized_def forbidden_def not_found_def conflict_def
  validation_def invalid_token_def internal_def

section \<open>Stored enumerations\<close>

datatype user_status = Pending | Active | Disabled

fun user_status_as_str :: "user_status \<Rightarrow> str" where
  "user_status_as_str Pending = lit ''pending''"
| "user_status_as_str Active = lit ''active''"
| "user_status_as_str Disabled = lit ''disabled''"

definition user_status_parse :: "str \<Rightarrow> user_status option" where
  "user_status_parse value =
     (if value = lit ''pending'' then Some Pending
      else if value = lit ''active'' then Some Active
      else if value = lit ''disabled'' then Some Disabled
      else None)"

datatype file_kind = Model | SlicerProject | OtherFile

fun file_kind_as_str :: "file_kind \<Rightarrow> str" where
  "file_kind_as_str Model = lit ''model''"
| "file_kind_as_str SlicerProject = lit ''slicer_project''"
| "file_kind_as_str OtherFile = lit ''other''"

definition file_kind_parse :: "str \<Rightarrow> file_kind option" where
  "file_kind_parse value =
     (if value = lit ''model'' then Some Model
      else if value = lit ''slicer_project'' then Some SlicerProject
      else if value = lit ''other'' then Some OtherFile
      else None)"

datatype slicer_id = Cura | Prusaslicer | Anycubic | Bambu | Orca

fun slicer_id_as_str :: "slicer_id \<Rightarrow> str" where
  "slicer_id_as_str Cura = lit ''cura''"
| "slicer_id_as_str Prusaslicer = lit ''prusaslicer''"
| "slicer_id_as_str Anycubic = lit ''anycubic''"
| "slicer_id_as_str Bambu = lit ''bambu''"
| "slicer_id_as_str Orca = lit ''orca''"

definition slicer_id_parse :: "str \<Rightarrow> slicer_id option" where
  "slicer_id_parse value =
     (if value = lit ''cura'' then Some Cura
      else if value = lit ''prusaslicer'' then Some Prusaslicer
      else if value = lit ''anycubic'' then Some Anycubic
      else if value = lit ''bambu'' then Some Bambu
      else if value = lit ''orca'' then Some Orca
      else None)"

datatype preview_state = PvPending | PvReady | PvFailed | PvUnsupported

fun preview_state_as_str :: "preview_state \<Rightarrow> str" where
  "preview_state_as_str PvPending = lit ''pending''"
| "preview_state_as_str PvReady = lit ''ready''"
| "preview_state_as_str PvFailed = lit ''failed''"
| "preview_state_as_str PvUnsupported = lit ''unsupported''"

definition preview_state_parse :: "str \<Rightarrow> preview_state option" where
  "preview_state_parse value =
     (if value = lit ''pending'' then Some PvPending
      else if value = lit ''ready'' then Some PvReady
      else if value = lit ''failed'' then Some PvFailed
      else if value = lit ''unsupported'' then Some PvUnsupported
      else None)"

datatype project_state = ProjOk | ProjMissing

fun project_state_as_str :: "project_state \<Rightarrow> str" where
  "project_state_as_str ProjOk = lit ''ok''"
| "project_state_as_str ProjMissing = lit ''missing''"

definition project_state_parse :: "str \<Rightarrow> project_state option" where
  "project_state_parse value =
     (if value = lit ''ok'' then Some ProjOk
      else if value = lit ''missing'' then Some ProjMissing
      else None)"

section \<open>What a stored enumeration promises\<close>

locale wire_enum =
  fixes as_str :: "'c \<Rightarrow> str"
    and parse :: "str \<Rightarrow> 'c option"
  assumes parse_as_str: "parse (as_str c) = Some c"
    and as_str_parse: "parse v = Some c \<Longrightarrow> as_str c = v"
begin

lemma parse_iff: "parse v = Some c \<longleftrightarrow> as_str c = v"
  using parse_as_str as_str_parse by blast

lemma as_str_inj: "as_str c = as_str d \<longleftrightarrow> c = d"
  using parse_as_str by (metis option.inject)

lemma parse_None_iff: "parse v = None \<longleftrightarrow> v \<notin> range as_str"
  using parse_iff by (metis not_None_eq rangeE rangeI)

end

interpretation error_code: wire_enum code_as_str code_parse
  apply unfold_locales
  subgoal for c by (cases c) (simp_all add: code_parse_def all_codes_def)
  subgoal by (auto simp: code_parse_def find_Some_iff)
  done

interpretation user_status: wire_enum user_status_as_str user_status_parse
  apply unfold_locales
  subgoal for c by (cases c) (simp_all add: user_status_parse_def)
  subgoal by (auto simp: user_status_parse_def split: if_splits)
  done

interpretation file_kind: wire_enum file_kind_as_str file_kind_parse
  apply unfold_locales
  subgoal for c by (cases c) (simp_all add: file_kind_parse_def)
  subgoal by (auto simp: file_kind_parse_def split: if_splits)
  done

interpretation slicer_id: wire_enum slicer_id_as_str slicer_id_parse
  apply unfold_locales
  subgoal for c by (cases c) (simp_all add: slicer_id_parse_def)
  subgoal by (auto simp: slicer_id_parse_def split: if_splits)
  done

interpretation preview_state: wire_enum preview_state_as_str preview_state_parse
  apply unfold_locales
  subgoal for c by (cases c) (simp_all add: preview_state_parse_def)
  subgoal by (auto simp: preview_state_parse_def split: if_splits)
  done

interpretation project_state: wire_enum project_state_as_str project_state_parse
  apply unfold_locales
  subgoal for c by (cases c) (simp_all add: project_state_parse_def)
  subgoal by (auto simp: project_state_parse_def split: if_splits)
  done

end
