(* ===== verification/Rate_Limiter.thy ===== *)
theory Rate_Limiter
  imports App_Error
begin

text \<open>
  The fixed-window, per-key request counter of \<^verbatim>\<open>crates/spm-http/src/rate_limit.rs\<close>.

  \<^verbatim>\<open>State\<close> is the record \<open>limiter\<close>: the \<^verbatim>\<open>HashMap\<close> of buckets is an association list with
  distinct keys, the \<^verbatim>\<open>BTreeMap\<close> of insertion order an association list in ascending key order.
  Times are epoch milliseconds (\<^verbatim>\<open>i64\<close>) modelled as integers; the attempt counter keeps its 32 bits
  and wraps as the release build does. \<open>check\<close> is one call under the mutex.

  The locale \<open>window_limiter\<close> is what the routes rely on, stated over the live view of the buckets;
  it is interpreted on \<open>check\<close> at the end.
\<close>

section \<open>State\<close>

record rate_limit_rule =
  rule_limit :: u32
  rule_window_ms :: int

record bucket =
  bk_window_start :: int
  bk_window_ms :: int
  bk_count :: u32
  bk_seq :: nat

record limiter =
  rl_buckets :: "(str \<times> bucket) list"
  rl_order :: "(nat \<times> str) list"
  rl_next_seq :: nat
  rl_last_sweep_at :: "int option"

definition MAX_TRACKED_KEYS :: nat where
  "MAX_TRACKED_KEYS = 20000"

definition EVICTION_BATCH :: nat where
  "EVICTION_BATCH = 2000"

definition new_limiter :: limiter where
  "new_limiter =
     \<lparr>rl_buckets = [], rl_order = [], rl_next_seq = 0, rl_last_sweep_at = None\<rparr>"

section \<open>Operations\<close>

definition btree_insert :: "nat \<Rightarrow> 'v \<Rightarrow> (nat \<times> 'v) list \<Rightarrow> (nat \<times> 'v) list" where
  "btree_insert k v m = insort_key fst (k, v) (AList.delete k m)"

definition limiter_remove :: "str \<Rightarrow> limiter \<Rightarrow> limiter" where
  "limiter_remove key s =
     (case map_of (rl_buckets s) key of
        None \<Rightarrow> s
      | Some b \<Rightarrow> s\<lparr>rl_buckets := AList.delete key (rl_buckets s),
                    rl_order := AList.delete (bk_seq b) (rl_order s)\<rparr>)"

definition bucket_expired :: "int \<Rightarrow> bucket \<Rightarrow> bool" where
  "bucket_expired now b \<longleftrightarrow> now - bk_window_start b \<ge> bk_window_ms b"

definition sweep :: "int \<Rightarrow> int \<Rightarrow> limiter \<Rightarrow> limiter" where
  "sweep now interval_ms s =
     (if (case rl_last_sweep_at s of None \<Rightarrow> False | Some swept \<Rightarrow> now - swept < interval_ms)
      then s
      else
        (let s1 = s\<lparr>rl_last_sweep_at := Some now\<rparr>;
             expired = map fst (filter (\<lambda>(_, b). bucket_expired now b) (rl_buckets s1))
         in fold limiter_remove expired s1))"

fun evict_loop :: "nat \<Rightarrow> limiter \<Rightarrow> limiter" where
  "evict_loop 0 s = s"
| "evict_loop (Suc remaining) s =
     (case rl_order s of
        [] \<Rightarrow> s
      | (_, key) # rest \<Rightarrow>
          evict_loop remaining
            (s\<lparr>rl_order := rest, rl_buckets := AList.delete key (rl_buckets s)\<rparr>))"

definition evict_overflow :: "limiter \<Rightarrow> limiter" where
  "evict_overflow s =
     (if length (rl_buckets s) \<le> MAX_TRACKED_KEYS + EVICTION_BATCH then s
      else evict_loop (length (rl_buckets s) - MAX_TRACKED_KEYS) s)"

definition too_many_requests :: "int \<Rightarrow> app_error" where
  "too_many_requests retry_after_seconds =
     with_details (new_error TooManyRequests (lit ''too many requests, slow down''))
       (AList.update (lit ''retryAfterSeconds'') (JNum retry_after_seconds) [])"

definition retry_after :: "int \<Rightarrow> int \<Rightarrow> int" where
  "retry_after window_end now = (max (window_end - now) 0 + 999) div 1000"

definition open_window :: "str \<Rightarrow> int \<Rightarrow> int \<Rightarrow> limiter \<Rightarrow> limiter" where
  "open_window key window_ms now s =
     (let s1 = limiter_remove key s; q = rl_next_seq s1 in
      evict_overflow
        (s1\<lparr>rl_next_seq := q + 1,
            rl_order := btree_insert q key (rl_order s1),
            rl_buckets := AList.update key
              \<lparr>bk_window_start = now, bk_window_ms = window_ms, bk_count = 0, bk_seq = q\<rparr>
              (rl_buckets s1)\<rparr>))"

definition bucket_live :: "int \<Rightarrow> limiter \<Rightarrow> str \<Rightarrow> bool" where
  "bucket_live now s key =
     (case map_of (rl_buckets s) key of
        None \<Rightarrow> False
      | Some b \<Rightarrow> now - bk_window_start b < bk_window_ms b)"

definition check :: "str \<Rightarrow> rate_limit_rule \<Rightarrow> int \<Rightarrow> limiter \<Rightarrow> unit outcome \<times> limiter" where
  "check key rule now s =
     (let s1 = sweep now (rule_window_ms rule) s;
          s2 = (if bucket_live now s1 key then s1
                else open_window key (rule_window_ms rule) now s1)
      in case map_of (rl_buckets s2) key of
           None \<Rightarrow> (Inl Panic, s2)
         | Some b \<Rightarrow>
             let b' = b\<lparr>bk_count := bk_count b + 1\<rparr>;
                 s3 = s2\<lparr>rl_buckets := AList.update key b' (rl_buckets s2)\<rparr>
             in if bk_count b' > rule_limit rule
                then (Inl (Failed (too_many_requests
                       (retry_after (bk_window_start b' + bk_window_ms b') now))), s3)
                else (Inr (), s3))"

definition limiter_size :: "limiter \<Rightarrow> nat" where
  "limiter_size s = length (rl_buckets s)"

section \<open>Invariant\<close>

definition order_matches :: "limiter \<Rightarrow> bool" where
  "order_matches s \<longleftrightarrow> set (rl_order s) = (\<lambda>(k, b). (bk_seq b, k)) ` set (rl_buckets s)"

definition limiter_inv :: "limiter \<Rightarrow> bool" where
  "limiter_inv s \<longleftrightarrow>
     distinct (map fst (rl_buckets s)) \<and> distinct (map fst (rl_order s)) \<and>
     sorted (map fst (rl_order s)) \<and> order_matches s \<and>
     (\<forall>q \<in> fst ` set (rl_order s). q < rl_next_seq s)"

lemma limiter_inv_new [invariants]: "limiter_inv new_limiter"
  by (simp add: limiter_inv_def order_matches_def new_limiter_def)

lemma distinct_fst_unique:
  "distinct (map fst xs) \<Longrightarrow> (k, v) \<in> set xs \<Longrightarrow> (k, w) \<in> set xs \<Longrightarrow> v = w"
  by (metis map_of_is_SomeI option.inject)

lemma order_seq_iff:
  assumes inv: "limiter_inv s" and b: "map_of (rl_buckets s) key = Some b"
  shows "(q, key) \<in> set (rl_order s) \<longleftrightarrow> q = bk_seq b"
proof -
  have dist: "distinct (map fst (rl_buckets s))"
    and om: "set (rl_order s) = (\<lambda>(k, b). (bk_seq b, k)) ` set (rl_buckets s)"
    using inv by (auto simp: limiter_inv_def order_matches_def)
  have "(q, key) \<in> set (rl_order s) \<longleftrightarrow> (\<exists>c. (key, c) \<in> set (rl_buckets s) \<and> bk_seq c = q)"
    unfolding om by force
  also have "\<dots> \<longleftrightarrow> q = bk_seq b"
    using dist b by (metis map_of_eq_Some_iff option.inject)
  finally show ?thesis .
qed

lemma bucket_of_order:
  assumes "limiter_inv s" "(q, key) \<in> set (rl_order s)"
  shows "\<exists>b. map_of (rl_buckets s) key = Some b"
  using assms by (force simp: limiter_inv_def order_matches_def)

lemma delete_set: "set (AList.delete k xs) = {(k', v) \<in> set xs. k' \<noteq> k}"
  by (auto simp: AList.delete_eq)

lemma order_without_key:
  assumes inv: "limiter_inv s" and b: "map_of (rl_buckets s) key = Some b"
  shows "{(q, k) \<in> set (rl_order s). q \<noteq> bk_seq b}
       = (\<lambda>(k, b). (bk_seq b, k)) ` {(k', v) \<in> set (rl_buckets s). k' \<noteq> key}"
proof -
  have dist: "distinct (map fst (rl_buckets s))" "distinct (map fst (rl_order s))"
    and om: "set (rl_order s) = (\<lambda>(k, b). (bk_seq b, k)) ` set (rl_buckets s)"
    using inv by (auto simp: limiter_inv_def order_matches_def)
  have mem: "(bk_seq b, key) \<in> set (rl_order s)"
    using order_seq_iff [OF inv b] by simp
  have only: "(q, k) \<in> set (rl_order s) \<Longrightarrow> (q = bk_seq b) = (k = key)" for q k
    using distinct_fst_unique [OF dist(2) _ mem] order_seq_iff [OF inv b] by auto
  have "{(q, k) \<in> set (rl_order s). q \<noteq> bk_seq b} = {(q, k) \<in> set (rl_order s). k \<noteq> key}"
    using only by blast
  also have "\<dots> = (\<lambda>(k, b). (bk_seq b, k)) ` {(k', v) \<in> set (rl_buckets s). k' \<noteq> key}"
    unfolding om by auto
  finally show ?thesis .
qed

lemma sorted_delete: "sorted (map fst xs) \<Longrightarrow> sorted (map fst (AList.delete k xs))"
  by (simp add: AList.delete_eq sorted_filter)

lemma limiter_inv_remove [invariants]:
  assumes "limiter_inv s"
  shows "limiter_inv (limiter_remove key s)"
proof (cases "map_of (rl_buckets s) key")
  case None
  with assms show ?thesis by (simp add: limiter_remove_def)
next
  case (Some b)
  have "order_matches (limiter_remove key s)"
    using order_without_key [OF assms Some]
    by (simp add: order_matches_def limiter_remove_def Some delete_set)
  with assms Some show ?thesis
    by (auto simp: limiter_inv_def limiter_remove_def distinct_delete sorted_delete delete_set)
qed

lemma limiter_inv_fold_remove [invariants]:
  "limiter_inv s \<Longrightarrow> limiter_inv (fold limiter_remove ks s)"
  by (induction ks arbitrary: s) (auto intro: limiter_inv_remove)

lemma limiter_inv_sweep_time: "limiter_inv (s\<lparr>rl_last_sweep_at := t\<rparr>) = limiter_inv s"
  by (simp add: limiter_inv_def order_matches_def)

lemma limiter_inv_sweep [invariants]: "limiter_inv s \<Longrightarrow> limiter_inv (sweep now i s)"
  by (simp add: sweep_def Let_def limiter_inv_fold_remove limiter_inv_sweep_time)

definition insert_window :: "str \<Rightarrow> int \<Rightarrow> int \<Rightarrow> limiter \<Rightarrow> limiter" where
  "insert_window key window_ms now s =
     (let q = rl_next_seq s in
      s\<lparr>rl_next_seq := q + 1,
        rl_order := btree_insert q key (rl_order s),
        rl_buckets := AList.update key
          \<lparr>bk_window_start = now, bk_window_ms = window_ms, bk_count = 0, bk_seq = q\<rparr>
          (rl_buckets s)\<rparr>)"

lemma open_window_alt:
  "open_window key w now s = evict_overflow (insert_window key w now (limiter_remove key s))"
  by (simp add: open_window_def insert_window_def Let_def)

lemma update_fresh: "k \<notin> fst ` set xs \<Longrightarrow> AList.update k v xs = xs @ [(k, v)]"
  by (induction xs) auto

lemma insort_key_last:
  "\<forall>y \<in> set xs. f y < f x \<Longrightarrow> insort_key f x xs = xs @ [x]"
  by (induction xs) auto

lemma btree_insert_fresh:
  assumes "\<forall>q \<in> fst ` set m. q < k"
  shows "btree_insert k v m = m @ [(k, v)]"
proof -
  have "AList.delete k m = m" using assms by (intro delete_id) auto
  with assms show ?thesis by (simp add: btree_insert_def insort_key_last)
qed

lemma limiter_removed_fresh: "key \<notin> fst ` set (rl_buckets (limiter_remove key s))"
  by (auto simp: limiter_remove_def map_of_eq_None_iff delete_set split: option.splits)

lemma insert_window_fields:
  assumes inv: "limiter_inv s" and fresh: "key \<notin> fst ` set (rl_buckets s)"
  shows "rl_order (insert_window key w now s) = rl_order s @ [(rl_next_seq s, key)]"
    and "rl_buckets (insert_window key w now s) = rl_buckets s @
      [(key, \<lparr>bk_window_start = now, bk_window_ms = w, bk_count = 0, bk_seq = rl_next_seq s\<rparr>)]"
    and "rl_next_seq (insert_window key w now s) = rl_next_seq s + 1"
  using inv fresh
  by (simp_all add: insert_window_def Let_def limiter_inv_def btree_insert_fresh update_fresh)

lemma limiter_inv_insert [invariants]:
  assumes inv: "limiter_inv s" and fresh: "key \<notin> fst ` set (rl_buckets s)"
  shows "limiter_inv (insert_window key w now s)"
proof -
  let ?s' = "insert_window key w now s"
  have lt: "q < rl_next_seq s" if "(q, k) \<in> set (rl_order s)" for q k
    using inv that by (force simp: limiter_inv_def)
  have "order_matches ?s'"
    using inv by (simp add: order_matches_def limiter_inv_def insert_window_fields [OF inv fresh])
  moreover have "distinct (map fst (rl_order ?s'))" "sorted (map fst (rl_order ?s'))"
    using inv lt
    by (auto simp: insert_window_fields [OF inv fresh] limiter_inv_def sorted_append
        intro: less_imp_le dest: lt)
  moreover have "\<forall>q \<in> fst ` set (rl_order ?s'). q < rl_next_seq ?s'"
    using lt by (auto simp: insert_window_fields [OF inv fresh] intro: less_SucI)
  ultimately show ?thesis
    using inv fresh by (simp add: limiter_inv_def insert_window_fields [OF inv fresh])
qed

lemma length_delete_present:
  "distinct (map fst xs) \<Longrightarrow> k \<in> fst ` set xs \<Longrightarrow> Suc (length (AList.delete k xs)) = length xs"
proof (induction xs)
  case Nil
  then show ?case by simp
next
  case (Cons x xs)
  then show ?case by (cases "fst x = k") auto
qed

text \<open>Eviction pops the oldest entry and its bucket.\<close>

lemma evict_step:
  assumes inv: "limiter_inv s" and ord: "rl_order s = (q, key) # rest"
  shows "limiter_inv (s\<lparr>rl_order := rest, rl_buckets := AList.delete key (rl_buckets s)\<rparr>)"
    and "Suc (length (AList.delete key (rl_buckets s))) = length (rl_buckets s)"
proof -
  have dist: "distinct (map fst (rl_buckets s))" "distinct (map fst (rl_order s))"
    and om: "set (rl_order s) = (\<lambda>(k, b). (bk_seq b, k)) ` set (rl_buckets s)"
    using inv by (auto simp: limiter_inv_def order_matches_def)
  have "(q, key) \<in> set (rl_order s)" by (simp add: ord)
  then obtain b where b: "map_of (rl_buckets s) key = Some b"
    using bucket_of_order [OF inv] by blast
  then have "(key, b) \<in> set (rl_buckets s)" by (rule map_of_SomeD)
  have q: "q = bk_seq b" using order_seq_iff [OF inv b] \<open>(q, key) \<in> set (rl_order s)\<close> by simp
  have "set rest = {(q', k) \<in> set (rl_order s). q' \<noteq> bk_seq b}"
    using dist(2) q by (auto simp: ord image_iff)
  then have "set rest = (\<lambda>(k, b). (bk_seq b, k)) ` set (AList.delete key (rl_buckets s))"
    by (simp add: order_without_key [OF inv b] delete_set)
  with inv ord show "limiter_inv (s\<lparr>rl_order := rest, rl_buckets := AList.delete key (rl_buckets s)\<rparr>)"
    by (auto simp: limiter_inv_def order_matches_def distinct_delete)
  have "key \<in> fst ` set (rl_buckets s)"
    using \<open>(key, b) \<in> set (rl_buckets s)\<close> by force
  with dist(1) show "Suc (length (AList.delete key (rl_buckets s))) = length (rl_buckets s)"
    by (rule length_delete_present)
qed

lemma length_order:
  assumes "limiter_inv s"
  shows "length (rl_order s) = length (rl_buckets s)"
proof -
  have dist: "distinct (map fst (rl_buckets s))" "distinct (map fst (rl_order s))"
    and om: "set (rl_order s) = (\<lambda>(k, b). (bk_seq b, k)) ` set (rl_buckets s)"
    using assms by (auto simp: limiter_inv_def order_matches_def)
  have "inj_on (\<lambda>(k, b). (bk_seq b, k)) (set (rl_buckets s))"
    using dist(1) by (auto simp: inj_on_def intro: distinct_fst_unique)
  then have "card (set (rl_order s)) = card (set (rl_buckets s))"
    unfolding om by (rule card_image)
  then show ?thesis
    using dist by (metis distinct_card distinct_map)
qed

lemma evict_loop_inv:
  "limiter_inv s \<Longrightarrow> n \<le> length (rl_buckets s) \<Longrightarrow>
     limiter_inv (evict_loop n s) \<and> length (rl_buckets (evict_loop n s)) = length (rl_buckets s) - n"
proof (induction n s rule: evict_loop.induct)
  case (1 s)
  then show ?case by simp
next
  case (2 n s)
  then obtain q key rest where ord: "rl_order s = (q, key) # rest"
    using length_order [of s] by (cases "rl_order s") auto
  note step = evict_step [OF "2.prems"(1) ord]
  show ?case
    using "2.IH" [OF ord refl step(1)] "2.prems"(2) step(2) by (auto simp: ord)
qed

lemma evict_loop_keeps_last:
  "limiter_inv s \<Longrightarrow> rl_order s = xs @ [(q, key)] \<Longrightarrow> n \<le> length xs \<Longrightarrow>
     map_of (rl_buckets (evict_loop n s)) key = map_of (rl_buckets s) key"
proof (induction n s arbitrary: xs rule: evict_loop.induct)
  case (1 s)
  then show ?case by simp
next
  case (2 n s)
  then obtain q' key' ys where xs: "xs = (q', key') # ys" by (cases xs) auto
  then have ord: "rl_order s = (q', key') # (ys @ [(q, key)])" using "2.prems" by simp
  note step = evict_step [OF "2.prems"(1) ord]
  have "(q', key') \<in> set (rl_order s)" "(q, key) \<in> set (rl_order s)" "q' \<noteq> q"
    using "2.prems"(1) by (auto simp: ord limiter_inv_def)
  then have "key \<noteq> key'"
    using bucket_of_order [OF "2.prems"(1)] order_seq_iff [OF "2.prems"(1)] by metis
  with "2.IH" [OF ord refl step(1)] "2.prems"(3) xs show ?case by (simp add: ord)
qed

section \<open>The open window and the call\<close>

lemma evict_overflow_inv [invariants]:
  "limiter_inv s \<Longrightarrow> limiter_inv (evict_overflow s)"
  by (simp add: evict_overflow_def evict_loop_inv)

lemma evict_overflow_size:
  "limiter_inv s \<Longrightarrow> length (rl_buckets (evict_overflow s)) \<le> MAX_TRACKED_KEYS + EVICTION_BATCH"
  by (simp add: evict_overflow_def evict_loop_inv)

lemma open_window_inv [invariants]: "limiter_inv s \<Longrightarrow> limiter_inv (open_window key w now s)"
  by (simp add: open_window_alt evict_overflow_inv limiter_inv_insert limiter_inv_remove
      limiter_removed_fresh)

lemma open_window_size:
  "limiter_inv s \<Longrightarrow> length (rl_buckets (open_window key w now s)) \<le> MAX_TRACKED_KEYS + EVICTION_BATCH"
  by (simp add: open_window_alt evict_overflow_size limiter_inv_insert limiter_inv_remove
      limiter_removed_fresh)

lemma open_window_lookup:
  assumes inv: "limiter_inv s"
  shows "map_of (rl_buckets (open_window key w now s)) key =
    Some \<lparr>bk_window_start = now, bk_window_ms = w, bk_count = 0,
          bk_seq = rl_next_seq (limiter_remove key s)\<rparr>"
proof -
  let ?r = "limiter_remove key s"
  let ?i = "insert_window key w now ?r"
  have r: "limiter_inv ?r" by (rule limiter_inv_remove [OF inv])
  have i: "limiter_inv ?i" by (rule limiter_inv_insert [OF r limiter_removed_fresh])
  note fields = insert_window_fields [OF r limiter_removed_fresh, of w now]
  have none: "map_of (rl_buckets ?r) key = None"
    using limiter_removed_fresh [of key s] by (simp add: map_of_eq_None_iff)
  have look: "map_of (rl_buckets ?i) key =
    Some \<lparr>bk_window_start = now, bk_window_ms = w, bk_count = 0, bk_seq = rl_next_seq ?r\<rparr>"
    using none by (simp add: fields map_add_def)
  have "length (rl_buckets ?i) - MAX_TRACKED_KEYS \<le> length (rl_order ?r)"
    using length_order [OF r] by (simp add: fields MAX_TRACKED_KEYS_def)
  from evict_loop_keeps_last [OF i fields(1) this] look show ?thesis
    by (simp add: open_window_alt evict_overflow_def)
qed

lemma limiter_inv_bump:
  assumes "limiter_inv s" "map_of (rl_buckets s) key = Some b" "bk_seq b' = bk_seq b"
  shows "limiter_inv (s\<lparr>rl_buckets := AList.update key b' (rl_buckets s)\<rparr>)"
    and "length (AList.update key b' (rl_buckets s)) = length (rl_buckets s)"
proof -
  have d: "distinct (map fst (rl_buckets s))" using assms(1) by (simp add: limiter_inv_def)
  have img: "(\<lambda>(k, b). (bk_seq b, k)) ` set (AList.update key b' xs) = (\<lambda>(k, b). (bk_seq b, k)) ` set xs"
    and keys: "map fst (AList.update key b' xs) = map fst xs"
    if "map_of xs key = Some b" for xs
    using that assms(3) by (induction xs) (auto split: if_splits)
  from assms img [OF assms(2)] keys [OF assms(2)]
  show "limiter_inv (s\<lparr>rl_buckets := AList.update key b' (rl_buckets s)\<rparr>)"
    by (simp add: limiter_inv_def order_matches_def)
  show "length (AList.update key b' (rl_buckets s)) = length (rl_buckets s)"
    using keys [OF assms(2)] by (metis length_map)
qed

definition ready_state :: "str \<Rightarrow> int \<Rightarrow> int \<Rightarrow> limiter \<Rightarrow> limiter" where
  "ready_state key w now s =
     (let s1 = sweep now w s in if bucket_live now s1 key then s1 else open_window key w now s1)"

lemma ready_state_lookup:
  assumes "limiter_inv s"
  obtains b where "map_of (rl_buckets (ready_state key w now s)) key = Some b"
proof (cases "bucket_live now (sweep now w s) key")
  case True
  then show ?thesis using that
    by (auto simp: ready_state_def Let_def bucket_live_def split: option.splits)
next
  case False
  then show ?thesis
    using that open_window_lookup [OF limiter_inv_sweep [OF assms], of key w now now w]
    by (simp add: ready_state_def Let_def)
qed

lemma ready_state_inv [invariants]:
  "limiter_inv s \<Longrightarrow> limiter_inv (ready_state key w now s)"
  by (simp add: ready_state_def Let_def open_window_inv limiter_inv_sweep)

lemma check_alt:
  "check key rule now s =
     (case map_of (rl_buckets (ready_state key (rule_window_ms rule) now s)) key of
        None \<Rightarrow> (Inl Panic, ready_state key (rule_window_ms rule) now s)
      | Some b \<Rightarrow>
          (if bk_count b + 1 > rule_limit rule
           then Inl (Failed (too_many_requests
                  (retry_after (bk_window_start b + bk_window_ms b) now)))
           else Inr (),
           (ready_state key (rule_window_ms rule) now s)
             \<lparr>rl_buckets := AList.update key (b\<lparr>bk_count := bk_count b + 1\<rparr>)
                (rl_buckets (ready_state key (rule_window_ms rule) now s))\<rparr>))"
  by (simp add: check_def ready_state_def Let_def split: option.splits)

lemma check_inv [invariants]: "limiter_inv s \<Longrightarrow> limiter_inv (snd (check key rule now s))"
  using ready_state_inv [of s key "rule_window_ms rule" now]
  by (auto simp: check_alt intro!: limiter_inv_bump(1) split: option.splits)

lemma check_no_panic: "limiter_inv s \<Longrightarrow> fst (check key rule now s) \<noteq> Inl Panic"
  by (rule ready_state_lookup [of s key "rule_window_ms rule" now]) (auto simp: check_alt)

lemma fold_remove_length: "length (rl_buckets (fold limiter_remove ks s)) \<le> length (rl_buckets s)"
proof (induction ks arbitrary: s)
  case Nil
  then show ?case by simp
next
  case (Cons k ks)
  have "length (rl_buckets (limiter_remove k s)) \<le> length (rl_buckets s)"
    by (auto simp: limiter_remove_def length_delete_le split: option.splits)
  with Cons [of "limiter_remove k s"] show ?case by simp
qed

lemma sweep_length: "length (rl_buckets (sweep now i s)) \<le> length (rl_buckets s)"
  using fold_remove_length [of _ "s\<lparr>rl_last_sweep_at := Some now\<rparr>"]
  by (auto simp: sweep_def Let_def)

lemma check_size:
  assumes inv: "limiter_inv s" and le: "length (rl_buckets s) \<le> MAX_TRACKED_KEYS + EVICTION_BATCH"
  shows "length (rl_buckets (snd (check key rule now s))) \<le> MAX_TRACKED_KEYS + EVICTION_BATCH"
proof -
  let ?r = "ready_state key (rule_window_ms rule) now s"
  have "length (rl_buckets ?r) \<le> MAX_TRACKED_KEYS + EVICTION_BATCH"
    using le sweep_length [of now "rule_window_ms rule" s] open_window_size [OF limiter_inv_sweep [OF inv]]
    by (auto simp: ready_state_def Let_def intro: order_trans)
  with ready_state_lookup [OF inv] limiter_inv_bump(2) [OF ready_state_inv [OF inv]]
  show ?thesis by (auto simp: check_alt split: option.splits)
qed

section \<open>The live view\<close>

text \<open>
  What a caller can observe of a key at time \<open>t\<close>: the window it is in (start, length, attempts
  counted), or nothing when its window is over.
\<close>

definition live_view :: "int \<Rightarrow> limiter \<Rightarrow> str \<Rightarrow> (int \<times> int \<times> u32) option" where
  "live_view t s key =
     (case map_of (rl_buckets s) key of
        None \<Rightarrow> None
      | Some b \<Rightarrow>
          if t - bk_window_start b < bk_window_ms b
          then Some (bk_window_start b, bk_window_ms b, bk_count b) else None)"

definition limiter_room :: "limiter \<Rightarrow> nat" where
  "limiter_room s = MAX_TRACKED_KEYS + EVICTION_BATCH - length (rl_buckets s)"

lemma bucket_live_view: "bucket_live t s key \<longleftrightarrow> live_view t s key \<noteq> None"
  by (simp add: bucket_live_def live_view_def split: option.splits)

lemma remove_lookup [table_simps]:
  "map_of (rl_buckets (limiter_remove k s)) k' = (if k' = k then None else map_of (rl_buckets s) k')"
  by (auto simp: limiter_remove_def delete_conv split: option.splits)

lemma fold_remove_lookup [table_simps]:
  "map_of (rl_buckets (fold limiter_remove ks s)) k =
     (if k \<in> set ks then None else map_of (rl_buckets s) k)"
  by (induction ks arbitrary: s) (auto simp: table_simps)

lemma sweep_live_view:
  assumes inv: "limiter_inv s" and t: "now \<le> t"
  shows "live_view t (sweep now i s) k = live_view t s k"
proof -
  let ?ks = "map fst (filter (\<lambda>(_, b). bucket_expired now b) (rl_buckets s))"
  have "live_view t s k = None" if "k \<in> set ?ks"
  proof -
    from that obtain b where "(k, b) \<in> set (rl_buckets s)" "bucket_expired now b" by auto
    moreover have "distinct (map fst (rl_buckets s))" using inv by (simp add: limiter_inv_def)
    ultimately show ?thesis using t by (simp add: live_view_def bucket_expired_def)
  qed
  then show ?thesis
    by (auto simp: sweep_def Let_def live_view_def table_simps)
qed

lemma open_window_lookup_all:
  assumes inv: "limiter_inv s" and room: "0 < limiter_room s"
  shows "map_of (rl_buckets (open_window key w now s)) =
    (map_of (rl_buckets s))(key \<mapsto>
      \<lparr>bk_window_start = now, bk_window_ms = w, bk_count = 0,
       bk_seq = rl_next_seq (limiter_remove key s)\<rparr>)"
proof -
  let ?r = "limiter_remove key s"
  have r: "limiter_inv ?r" by (rule limiter_inv_remove [OF inv])
  have "length (rl_buckets ?r) \<le> length (rl_buckets s)"
    using fold_remove_length [of "[key]" s] by simp
  with room have "evict_overflow (insert_window key w now ?r) = insert_window key w now ?r"
    by (simp add: evict_overflow_def limiter_room_def insert_window_fields [OF r limiter_removed_fresh])
  then have eq: "rl_buckets (open_window key w now s) = AList.update key
      \<lparr>bk_window_start = now, bk_window_ms = w, bk_count = 0, bk_seq = rl_next_seq ?r\<rparr> (rl_buckets ?r)"
    by (simp add: open_window_alt insert_window_def Let_def)
  show ?thesis
    by (rule ext) (simp add: eq update_conv' table_simps)
qed

definition current_window :: "int \<Rightarrow> rate_limit_rule \<Rightarrow> limiter \<Rightarrow> str \<Rightarrow> int \<times> int \<times> u32" where
  "current_window now rule s key =
     (case live_view now s key of None \<Rightarrow> (now, rule_window_ms rule, 0) | Some v \<Rightarrow> v)"

lemma limiter_room_sweep: "limiter_room s \<le> limiter_room (sweep now i s)"
  using sweep_length [of now i s] by (simp add: limiter_room_def)

lemma ready_state_bucket:
  assumes inv: "limiter_inv s"
    and b: "map_of (rl_buckets (ready_state key (rule_window_ms rule) now s)) key = Some b"
  shows "(bk_window_start b, bk_window_ms b, bk_count b) = current_window now rule s key"
proof (cases "bucket_live now (sweep now (rule_window_ms rule) s) key")
  case True
  with b have "live_view now (sweep now (rule_window_ms rule) s) key =
      Some (bk_window_start b, bk_window_ms b, bk_count b)"
    by (auto simp: ready_state_def Let_def bucket_live_def live_view_def split: option.splits)
  then show ?thesis by (simp add: current_window_def sweep_live_view [OF inv])
next
  case False
  with b open_window_lookup [OF limiter_inv_sweep [OF inv],
      of key "rule_window_ms rule" now now "rule_window_ms rule"]
  have "b = \<lparr>bk_window_start = now, bk_window_ms = rule_window_ms rule, bk_count = 0,
      bk_seq = rl_next_seq (limiter_remove key (sweep now (rule_window_ms rule) s))\<rparr>"
    by (simp add: ready_state_def Let_def)
  moreover have "live_view now s key = None"
    using False by (cases "live_view now s key") (auto simp: bucket_live_view sweep_live_view [OF inv])
  ultimately show ?thesis by (simp add: current_window_def)
qed

lemma check_result:
  assumes "limiter_inv s" and "current_window now rule s key = (st, w, c)"
  shows "fst (check key rule now s) =
    (if c + 1 > rule_limit rule then Inl (Failed (too_many_requests (retry_after (st + w) now)))
     else Inr ())"
proof (rule ready_state_lookup [OF assms(1), of key "rule_window_ms rule" now])
  fix b assume b: "map_of (rl_buckets (ready_state key (rule_window_ms rule) now s)) key = Some b"
  from ready_state_bucket [OF assms(1) b] assms(2)
  have "bk_window_start b = st" "bk_window_ms b = w" "bk_count b = c" by auto
  with b show ?thesis by (simp add: check_alt)
qed

lemma ready_state_view:
  assumes inv: "limiter_inv s" and room: "0 < limiter_room s" and t: "now \<le> t" and k: "k \<noteq> key"
  shows "live_view t (ready_state key w now s) k = live_view t s k"
proof -
  have "0 < limiter_room (sweep now w s)"
    using room limiter_room_sweep [of s now w] by simp
  then have "live_view t (ready_state key w now s) k = live_view t (sweep now w s) k"
    using k open_window_lookup_all [OF limiter_inv_sweep [OF inv]]
    by (simp add: ready_state_def Let_def live_view_def)
  then show ?thesis by (simp add: sweep_live_view [OF inv t])
qed

lemma check_view:
  assumes inv: "limiter_inv s" and room: "0 < limiter_room s" and t: "now \<le> t"
    and cur: "current_window now rule s key = (st, w, c)"
  shows "live_view t (snd (check key rule now s)) =
    (live_view t s)(key := (if t - st < w then Some (st, w, c + 1) else None))"
proof (rule ready_state_lookup [OF inv, of key "rule_window_ms rule" now])
  fix b assume b: "map_of (rl_buckets (ready_state key (rule_window_ms rule) now s)) key = Some b"
  from ready_state_bucket [OF inv b] cur
  have f: "bk_window_start b = st" "bk_window_ms b = w" "bk_count b = c" by auto
  show ?thesis
  proof (rule ext)
    fix k
    show "live_view t (snd (check key rule now s)) k =
      ((live_view t s)(key := (if t - st < w then Some (st, w, c + 1) else None))) k"
      using b f ready_state_view [OF inv room t, of k key "rule_window_ms rule"]
      by (cases "k = key") (simp_all add: check_alt live_view_def update_conv')
  qed
qed

lemma check_room:
  assumes inv: "limiter_inv s"
  shows "limiter_room s \<le> Suc (limiter_room (snd (check key rule now s)))"
proof (cases "limiter_room s = 0")
  case True
  then show ?thesis by simp
next
  case False
  let ?w = "rule_window_ms rule"
  let ?s1 = "sweep now ?w s"
  have s1: "limiter_inv ?s1" by (rule limiter_inv_sweep [OF inv])
  have r: "limiter_inv (limiter_remove key ?s1)" by (rule limiter_inv_remove [OF s1])
  have le: "length (rl_buckets (limiter_remove key ?s1)) \<le> length (rl_buckets ?s1)"
    using fold_remove_length [of "[key]" ?s1] by simp
  have "length (rl_buckets (ready_state key ?w now s)) \<le> Suc (length (rl_buckets s))"
    using False le sweep_length [of now ?w s]
    by (auto simp: ready_state_def Let_def open_window_alt evict_overflow_def limiter_room_def
        insert_window_fields [OF r limiter_removed_fresh])
  with ready_state_lookup [OF inv] limiter_inv_bump(2) [OF ready_state_inv [OF inv]]
  show ?thesis by (auto simp: check_alt limiter_room_def split: option.splits)
qed

section \<open>What a throttled route relies on\<close>

fun run_attempts ::
  "('k \<Rightarrow> rate_limit_rule \<Rightarrow> int \<Rightarrow> 's \<Rightarrow> unit outcome \<times> 's) \<Rightarrow>
     ('k \<times> rate_limit_rule \<times> int) list \<Rightarrow> 's \<Rightarrow> ('k \<times> bool) list \<times> 's" where
  "run_attempts att [] s = ([], s)"
| "run_attempts att ((k, r, now) # xs) s =
     (let (outcome, s1) = att k r now s; (rest, s2) = run_attempts att xs s1
      in ((k, is_ok outcome) # rest, s2))"

definition accepted :: "'k \<Rightarrow> ('k \<times> bool) list \<Rightarrow> nat" where
  "accepted k outs = length (filter (\<lambda>(k', ok). k' = k \<and> ok) outs)"

definition attempts_on :: "'k \<Rightarrow> ('k \<times> rate_limit_rule \<times> int) list \<Rightarrow> nat" where
  "attempts_on k xs = length (filter (\<lambda>(k', _, _). k' = k) xs)"

locale window_limiter =
  fixes attempt :: "'k \<Rightarrow> rate_limit_rule \<Rightarrow> int \<Rightarrow> 's \<Rightarrow> unit outcome \<times> 's"
    and view :: "int \<Rightarrow> 's \<Rightarrow> 'k \<Rightarrow> (int \<times> int \<times> u32) option"
    and room :: "'s \<Rightarrow> nat"
    and valid :: "'s \<Rightarrow> bool"
  assumes attempt_valid: "valid s \<Longrightarrow> valid (snd (attempt k r now s))"
    and attempt_room: "valid s \<Longrightarrow> room s \<le> Suc (room (snd (attempt k r now s)))"
    and attempt_open: "valid s \<Longrightarrow> view now s k = Some (st, w, c) \<Longrightarrow>
          is_ok (fst (attempt k r now s)) \<longleftrightarrow> c + 1 \<le> rule_limit r"
    and attempt_fresh: "valid s \<Longrightarrow> view now s k = None \<Longrightarrow>
          is_ok (fst (attempt k r now s)) \<longleftrightarrow> 1 \<le> rule_limit r"
    and view_open: "valid s \<Longrightarrow> 0 < room s \<Longrightarrow> now \<le> t \<Longrightarrow> view now s k = Some (st, w, c) \<Longrightarrow>
          t - st < w \<Longrightarrow> view t (snd (attempt k r now s)) k = Some (st, w, c + 1)"
    and view_fresh: "valid s \<Longrightarrow> 0 < room s \<Longrightarrow> now \<le> t \<Longrightarrow> view now s k = None \<Longrightarrow>
          t - now < rule_window_ms r \<Longrightarrow>
          view t (snd (attempt k r now s)) k = Some (now, rule_window_ms r, 1)"
    and view_other: "valid s \<Longrightarrow> 0 < room s \<Longrightarrow> now \<le> t \<Longrightarrow> k' \<noteq> k \<Longrightarrow>
          view t (snd (attempt k r now s)) k' = view t s k'"
begin

lemma budget_in_open_window:
  assumes "valid s" "length xs \<le> room s" "unat c + length xs < 2 ^ 32"
    and "\<And>t. t0 \<le> t \<Longrightarrow> t - st < w \<Longrightarrow> view t s k = Some (st, w, c)"
    and "sorted (map (\<lambda>(_, _, now). now) xs)"
    and "\<forall>(k', r, now) \<in> set xs. t0 \<le> now \<and> now - st < w \<and> (k' = k \<longrightarrow> rule_limit r = l)"
  shows "accepted k (fst (run_attempts attempt xs s)) = min (unat l - unat c) (attempts_on k xs)"
  using assms
proof (induction xs arbitrary: s c t0)
  case Nil
  then show ?case by (simp add: accepted_def attempts_on_def)
next
  case (Cons x xs)
  obtain k' r now where x: "x = (k', r, now)" by (cases x)
  let ?s' = "snd (attempt k' r now s)"
  have now: "t0 \<le> now" "now - st < w" and l: "k' = k \<Longrightarrow> rule_limit r = l"
    using Cons.prems(6) by (auto simp: x)
  have v: "view now s k = Some (st, w, c)" by (rule Cons.prems(4) [OF now])
  have room: "0 < room s" "length xs \<le> room ?s'"
    using Cons.prems(2) attempt_room [OF Cons.prems(1), of k' r now] by auto
  have valid': "valid ?s'" by (rule attempt_valid [OF Cons.prems(1)])
  have run: "fst (run_attempts attempt (x # xs) s) =
      (k', is_ok (fst (attempt k' r now s))) # fst (run_attempts attempt xs ?s')"
    by (simp add: x split: prod.splits)
  have later: "\<forall>(k', r, t) \<in> set xs. now \<le> t \<and> t - st < w \<and> (k' = k \<longrightarrow> rule_limit r = l)"
    using Cons.prems(5,6) by (auto simp: x)
  have sorted: "sorted (map (\<lambda>(_, _, now). now) xs)" using Cons.prems(5) by (simp add: x)
  show ?case
  proof (cases "k' = k")
    case False
    have "\<And>t. now \<le> t \<Longrightarrow> t - st < w \<Longrightarrow> view t ?s' k = Some (st, w, c)"
      using view_other [OF Cons.prems(1) room(1)] Cons.prems(4) now(1) False by auto
    from Cons.IH [OF valid' room(2) _ this sorted later] Cons.prems(3) False
    show ?thesis unfolding run by (simp add: accepted_def attempts_on_def x)
  next
    case True
    have c1: "unat (c + 1) = unat c + 1"
      using Cons.prems(3) by (simp add: unat_word_ariths)
    have "\<And>t. now \<le> t \<Longrightarrow> t - st < w \<Longrightarrow> view t ?s' k = Some (st, w, c + 1)"
      using view_open [OF Cons.prems(1) room(1) _ v] True by simp
    from Cons.IH [OF valid' room(2) _ this sorted later] Cons.prems(3)
    have ih: "accepted k (fst (run_attempts attempt xs ?s')) = min (unat l - (unat c + 1)) (attempts_on k xs)"
      by (simp add: c1)
    have ok: "is_ok (fst (attempt k r now s)) \<longleftrightarrow> unat c + 1 \<le> unat l"
      using attempt_open [OF Cons.prems(1) v, of r] l True c1 by (simp add: word_le_nat_alt)
    show ?thesis
      unfolding run using True ih ok by (auto simp: accepted_def attempts_on_def x)
  qed
qed

lemma budget_from_fresh:
  assumes "valid s" "length xs < room s" "length xs < 2 ^ 32 - 1" "view t0 s k = None"
    and "rule_limit r = l" "rule_window_ms r = w"
    and "sorted (t0 # map (\<lambda>(_, _, now). now) xs)"
    and "\<forall>(k', r', now) \<in> set xs. now - t0 < w \<and> (k' = k \<longrightarrow> rule_limit r' = l)"
  shows "accepted k (fst (run_attempts attempt ((k, r, t0) # xs) s)) = min (unat l) (Suc (attempts_on k xs))"
proof -
  let ?s' = "snd (attempt k r t0 s)"
  have room: "0 < room s" "length xs \<le> room ?s'"
    using assms(2) attempt_room [OF assms(1), of k r t0] by auto
  have v: "\<And>t. t0 \<le> t \<Longrightarrow> t - t0 < w \<Longrightarrow> view t ?s' k = Some (t0, w, 1)"
    using view_fresh [OF assms(1) room(1) _ assms(4)] assms(6) by simp
  have run: "fst (run_attempts attempt ((k, r, t0) # xs) s) =
      (k, is_ok (fst (attempt k r t0 s))) # fst (run_attempts attempt xs ?s')"
    by (simp split: prod.splits)
  have ok: "is_ok (fst (attempt k r t0 s)) \<longleftrightarrow> 1 \<le> unat l"
    using attempt_fresh [OF assms(1,4)] assms(5) by (simp add: word_le_nat_alt)
  have "accepted k (fst (run_attempts attempt xs ?s')) = min (unat l - unat (1::u32)) (attempts_on k xs)"
    by (rule budget_in_open_window [OF attempt_valid [OF assms(1)] room(2) _ v])
      (use assms(3,7,8) in auto)
  with ok show ?thesis unfolding run by (auto simp: accepted_def)
qed

end

interpretation rl: window_limiter check live_view limiter_room limiter_inv
proof unfold_locales
  fix s :: limiter and k r now assume inv: "limiter_inv s"
  show "limiter_inv (snd (check k r now s))" by (rule check_inv [OF inv])
  show "limiter_room s \<le> Suc (limiter_room (snd (check k r now s)))" by (rule check_room [OF inv])
  {
    fix st w c assume "live_view now s k = Some (st, w, c)"
    then have cur: "current_window now r s k = (st, w, c)" by (simp add: current_window_def)
    show "is_ok (fst (check k r now s)) \<longleftrightarrow> c + 1 \<le> rule_limit r"
      by (auto simp: check_result [OF inv cur] not_le [symmetric])
    fix t assume "0 < limiter_room s" "now \<le> t" "t - st < w"
    with check_view [OF inv _ _ cur] show "live_view t (snd (check k r now s)) k = Some (st, w, c + 1)"
      by simp
  }
  {
    assume "live_view now s k = None"
    then have cur: "current_window now r s k = (now, rule_window_ms r, 0)" by (simp add: current_window_def)
    show "is_ok (fst (check k r now s)) \<longleftrightarrow> 1 \<le> rule_limit r"
      by (auto simp: check_result [OF inv cur] not_le [symmetric])
    fix t assume "0 < limiter_room s" "now \<le> t" "t - now < rule_window_ms r"
    with check_view [OF inv _ _ cur]
    show "live_view t (snd (check k r now s)) k = Some (now, rule_window_ms r, 1)" by simp
  }
  fix t k' assume "0 < limiter_room s" "now \<le> t" "k' \<noteq> k"
  moreover obtain st w c where "current_window now r s k = (st, w, c)" by (cases "current_window now r s k")
  ultimately show "live_view t (snd (check k r now s)) k' = live_view t s k'"
    by (simp add: check_view [OF inv])
qed

section \<open>The throttled route\<close>

text \<open>
  \<^verbatim>\<open>rate_limit_layer\<close> of \<^verbatim>\<open>routes/mod.rs\<close>: the key is the peer address and the route's registered
  pattern, and a refused attempt never reaches the handler \<open>handler\<close>.
\<close>

definition rate_limit_key :: "str option \<Rightarrow> str \<Rightarrow> str" where
  "rate_limit_key peer key =
     (case peer of None \<Rightarrow> lit ''unknown'' | Some ip \<Rightarrow> ip) @ lit ''|'' @ key"

definition rate_limit_layer ::
  "str option \<Rightarrow> str \<Rightarrow> rate_limit_rule \<Rightarrow> int \<Rightarrow> 'r outcome \<Rightarrow> limiter \<Rightarrow> 'r outcome \<times> limiter" where
  "rate_limit_layer peer key rule now handler s =
     (case check (rate_limit_key peer key) rule now s of
        (Inl f, s1) \<Rightarrow> (Inl f, s1)
      | (Inr _, s1) \<Rightarrow> (handler, s1))"

definition AUTH_RATE_LIMIT :: rate_limit_rule where
  "AUTH_RATE_LIMIT = \<lparr>rule_limit = 10, rule_window_ms = 60000\<rparr>"

lemma bar_split_eq:
  assumes "x \<notin> set p" "x \<notin> set q"
  shows "p @ x # k = q @ x # k' \<longleftrightarrow> p = q \<and> k = k'"
  using assms
proof (induction p arbitrary: q)
  case Nil
  then show ?case by (cases q) auto
next
  case (Cons a p)
  then show ?case by (cases q) auto
qed

lemma rate_limit_key_inj:
  assumes "124 \<notin> set p" "124 \<notin> set q"
  shows "rate_limit_key (Some p) k = rate_limit_key (Some q) k' \<longleftrightarrow> p = q \<and> k = k'"
  using bar_split_eq [OF assms] by (simp add: rate_limit_key_def lit_def)

lemma rate_limit_layer_state [simp]:
  "snd (rate_limit_layer peer key rule now handler s) = snd (check (rate_limit_key peer key) rule now s)"
  by (cases "check (rate_limit_key peer key) rule now s"; cases "fst (check (rate_limit_key peer key) rule now s)")
    (simp_all add: rate_limit_layer_def)

lemma run_attempts_inv:
  "limiter_inv s \<Longrightarrow> length (rl_buckets s) \<le> MAX_TRACKED_KEYS + EVICTION_BATCH \<Longrightarrow>
     limiter_inv (snd (run_attempts check xs s)) \<and>
     length (rl_buckets (snd (run_attempts check xs s))) \<le> MAX_TRACKED_KEYS + EVICTION_BATCH"
proof (induction xs arbitrary: s)
  case Nil
  then show ?case by simp
next
  case (Cons x xs)
  obtain k r now where x: "x = (k, r, now)" by (cases x)
  show ?case
    using Cons.IH [OF check_inv [OF Cons.prems(1)] check_size [OF Cons.prems], of k r now]
    by (simp add: x case_prod_beta Let_def)
qed

section \<open>Properties\<close>

text \<open>C3
  A key whose window is over at time \<open>t0\<close> opens a new one with its next attempt; of all the
  attempts made against it until that window ends, interleaved in any way with attempts against
  other keys, exactly \<open>limit\<close> succeed (or all, when fewer were made), as long as the flood of
  distinct keys stays within the limiter's capacity.
\<close>

theorem limiter_budget:
  assumes "limiter_inv s" "length xs < limiter_room s" "live_view t0 s k = None"
    and "rule_limit r = l" "rule_window_ms r = w"
    and "sorted (t0 # map (\<lambda>(_, _, now). now) xs)"
    and "\<forall>(k', r', now) \<in> set xs. now - t0 < w \<and> (k' = k \<longrightarrow> rule_limit r' = l)"
  shows "accepted k (fst (run_attempts check ((k, r, t0) # xs) s)) = min (unat l) (Suc (attempts_on k xs))"
proof -
  have "length xs < 2 ^ 32 - 1"
    using assms(2) by (simp add: limiter_room_def MAX_TRACKED_KEYS_def EVICTION_BATCH_def)
  with rl.budget_from_fresh [OF assms(1,2) _ assms(3-7)] show ?thesis by blast
qed

theorem limiter_budget_witness:
  "accepted (lit ''a'') (fst (run_attempts check
     ((lit ''a'', \<lparr>rule_limit = 2, rule_window_ms = 100\<rparr>, 0) #
      [(lit ''b'', \<lparr>rule_limit = 1, rule_window_ms = 100\<rparr>, 5),
       (lit ''a'', \<lparr>rule_limit = 2, rule_window_ms = 100\<rparr>, 7),
       (lit ''a'', \<lparr>rule_limit = 2, rule_window_ms = 100\<rparr>, 99)]) new_limiter)) = 2"
  by (subst limiter_budget [OF limiter_inv_new, where l = 2 and w = 100])
    (simp_all add: attempts_on_def limiter_room_def live_view_def new_limiter_def
      MAX_TRACKED_KEYS_def EVICTION_BATCH_def)

text \<open>
  Whatever sequence of attempts a limiter has seen since it was created, with any keys, rules and
  clock readings (the clock may even go back), it tracks at most 22000 keys and its next check does
  not panic: the bucket just opened is never the one evicted.
\<close>

theorem limiter_bounded:
  "limiter_size (snd (run_attempts check xs new_limiter)) \<le> MAX_TRACKED_KEYS + EVICTION_BATCH \<and>
   fst (check key rule now (snd (run_attempts check xs new_limiter))) \<noteq> Inl Panic"
  using run_attempts_inv [OF limiter_inv_new, of xs] check_no_panic
  by (simp add: new_limiter_def limiter_size_def)

text \<open>
  One call of \<open>check\<close> implements the abstract fixed-window counter: it refuses exactly when the
  incremented count of the key's current window exceeds the rule's limit, announcing the seconds
  until that window ends rounded up, it counts the attempt either way, and it changes no other
  key's window.
\<close>

theorem limiter_check_spec:
  assumes "limiter_inv s" "0 < limiter_room s" "now \<le> t" "current_window now rule s key = (st, w, c)"
  shows "fst (check key rule now s) =
      (if c + 1 > rule_limit rule then Inl (Failed (too_many_requests (retry_after (st + w) now)))
       else Inr ())
    \<and> live_view t (snd (check key rule now s)) =
      (live_view t s)(key := (if t - st < w then Some (st, w, c + 1) else None))"
  using check_result [OF assms(1,4)] check_view [OF assms] by blast

theorem limiter_check_spec_witness:
  "fst (check (lit ''a'') \<lparr>rule_limit = 0, rule_window_ms = 1500\<rparr> 10 new_limiter) =
     Inl (Failed (too_many_requests 2))"
  using limiter_check_spec [OF limiter_inv_new, of 10 10 "\<lparr>rule_limit = 0, rule_window_ms = 1500\<rparr>"
      "lit ''a''" 10 1500 0]
  by (simp add: limiter_room_def live_view_def new_limiter_def current_window_def retry_after_def
      MAX_TRACKED_KEYS_def EVICTION_BATCH_def)

text \<open>
  A throttled route charges only the requesting peer's own budget for that route: after a request
  from peer \<open>p\<close> to the route with pattern \<open>k\<close>, the window of every other peer and of every other
  route is what it was. Peer addresses are printed IP addresses, which hold no bar character.
\<close>

theorem peer_isolation:
  assumes "limiter_inv s" "0 < limiter_room s" "now \<le> t"
    and "124 \<notin> set p" "124 \<notin> set q" "p \<noteq> q \<or> k \<noteq> k'"
  shows "live_view t (snd (rate_limit_layer (Some p) k rule now handler s)) (rate_limit_key (Some q) k')
       = live_view t s (rate_limit_key (Some q) k')"
  using rl.view_other [OF assms(1-3), of "rate_limit_key (Some q) k'" "rate_limit_key (Some p) k"]
    rate_limit_key_inj [OF assms(4,5), of k k'] assms(6)
  by auto

theorem peer_isolation_witness:
  "live_view 3 (snd (rate_limit_layer (Some (lit ''10.0.0.1'')) (lit ''POST /x'') AUTH_RATE_LIMIT 3
      (Inr ()) new_limiter)) (rate_limit_key (Some (lit ''10.0.0.2'')) (lit ''POST /x'')) = None"
  by (subst peer_isolation [OF limiter_inv_new])
    (simp_all add: limiter_room_def live_view_def new_limiter_def lit_def
      MAX_TRACKED_KEYS_def EVICTION_BATCH_def)

end
