(* ===== verification/Fs_Io.thy ===== *)
theory Fs_Io
  imports App_Error
begin

text \<open>
  Positional file reads, \<^verbatim>\<open>crates/spm-core/src/files/fsio.rs\<close>. A file is its bytes; the operating
  system is the argument \<open>os\<close>, which decides at each position whether a read delivers, and how many
  bytes at most, or fails. Whatever it decides, a successful read is a non-empty prefix of what was
  asked for unless the file has ended. A read interrupted by a signal is retried by every caller,
  so it is not an outcome of its own.
\<close>

datatype io_error = UnexpectedEof | Other_Io str

datatype os_read = Deliver nat | Refuse str

type_synonym os = "nat \<Rightarrow> os_read"

definition app_error_of_io :: "io_error \<Rightarrow> app_error" where
  "app_error_of_io e =
     internal (case e of UnexpectedEof \<Rightarrow> lit ''unexpected end of file'' | Other_Io s \<Rightarrow> s)"

definition read_at :: "os \<Rightarrow> bytes \<Rightarrow> nat \<Rightarrow> nat \<Rightarrow> io_error + bytes" where
  "read_at os data position len =
     (case os position of
        Refuse e \<Rightarrow> Inl (Other_Io e)
      | Deliver n \<Rightarrow> Inr (slice_of position (min len (max 1 n)) data))"

function read_exact_at :: "os \<Rightarrow> bytes \<Rightarrow> nat \<Rightarrow> nat \<Rightarrow> io_error + bytes" where
  "read_exact_at os data position len =
     (if len = 0 then Inr []
      else bindE (read_at os data position len) (\<lambda>got.
        if got = [] then Inl UnexpectedEof
        else bindE (read_exact_at os data (position + length got) (len - length got))
               (\<lambda>rest. Inr (got @ rest))))"
  by pat_completeness auto
termination
  by (relation "measure (\<lambda>(os, data, position, len). len)")
    (auto simp: read_at_def split: os_read.splits)

declare read_exact_at.simps [simp del]

definition os_delivers :: "os \<Rightarrow> bool" where
  "os_delivers os \<longleftrightarrow> (\<forall>p. \<exists>n. os p = Deliver n)"

lemma read_at_delivers:
  assumes "os_delivers os" "0 < len"
  obtains n where "0 < n" "n \<le> len" "read_at os data position len = Inr (slice_of position n data)"
proof -
  obtain n where "os position = Deliver n" using assms(1) by (auto simp: os_delivers_def)
  with assms(2) show ?thesis by (intro that [of "min len (max 1 n)"]) (auto simp: read_at_def)
qed

lemma slice_of_split:
  "n \<le> len \<Longrightarrow> position + n \<le> length data \<Longrightarrow>
     slice_of position n data @ slice_of (position + n) (len - n) data = slice_of position len data"
proof -
  assume "n \<le> len"
  then have "take len (drop position data) = take n (drop position data) @
      take (len - n) (drop n (drop position data))"
    by (metis append_take_drop_id add_diff_cancel_left' le_Suc_ex take_add)
  then show ?thesis by (simp add: slice_of_def add.commute)
qed

lemma read_exact_at_ok:
  assumes "os_delivers os" "position + len \<le> length data"
  shows "read_exact_at os data position len = Inr (slice_of position len data)"
  using assms
proof (induction len arbitrary: position rule: less_induct)
  case (less len)
  show ?case
  proof (cases "len = 0")
    case True
    then show ?thesis by (simp add: read_exact_at.simps slice_of_def)
  next
    case False
    with read_at_delivers [OF less.prems(1)] obtain n where
      n: "0 < n" "n \<le> len" "read_at os data position len = Inr (slice_of position n data)" by blast
    have len_n: "length (slice_of position n data) = n" using less.prems(2) n(2) by simp
    have "read_exact_at os data (position + n) (len - n) = Inr (slice_of (position + n) (len - n) data)"
      using less.IH [of "len - n" "position + n"] less.prems n(1,2) by auto
    moreover have "slice_of position n data \<noteq> []" using len_n n(1) by (metis list.size(3) less_irrefl)
    ultimately show ?thesis
      using n less.prems(2) False by (subst read_exact_at.simps) (simp add: len_n slice_of_split del: length_slice_of)
  qed
qed

lemma read_exact_at_length:
  "read_exact_at os data position len = Inr bs \<Longrightarrow> length bs = len \<and> bs = slice_of position len data"
proof (induction len arbitrary: position bs rule: less_induct)
  case (less len)
  show ?case
  proof (cases "len = 0")
    case True
    then show ?thesis using less.prems by (simp add: read_exact_at.simps slice_of_def)
  next
    case False
    with less.prems obtain got rest where got: "read_at os data position len = Inr got" "got \<noteq> []"
      and rest: "read_exact_at os data (position + length got) (len - length got) = Inr rest" "bs = got @ rest"
      by (subst (asm) read_exact_at.simps) (auto simp: bindE_eq_Inr split: if_splits)
    from got(1) obtain n where n: "got = slice_of position (min len n) data"
      by (auto simp: read_at_def split: os_read.splits)
    then have le: "length got \<le> len" "position + length got \<le> length data"
      using got(2) by (auto simp: slice_of_def)
    have "slice_of position (length got) data = got"
      using n by (auto simp: slice_of_def min_def)
    moreover have "len - length got < len" using got(2) le(1) by (cases got) auto
    note ih = less.IH [OF this rest(1)]
    ultimately have "bs = slice_of position len data"
      using slice_of_split [OF le] rest(2) ih by simp
    moreover have "length bs = len" using ih le(1) unfolding rest(2) length_append by linarith
    ultimately show ?thesis by blast
  qed
qed

lemma slice_of_nonempty: "length (slice_of position len data) = len \<Longrightarrow> 0 < len \<Longrightarrow> position + len \<le> length data"
  by simp

end
