(* ===== verification/Utf8.thy ===== *)
theory Utf8
  imports Prelude
begin

text \<open>
  UTF-8 as Rust's standard library defines it: the bytes of a \<^verbatim>\<open>String\<close> (\<open>utf8_encode\<close>), strict
  decoding with the position and length of the first error (\<^verbatim>\<open>str::from_utf8\<close>, \<open>from_utf8\<close>) and
  the lossy decoding that replaces each maximal broken sequence by U+FFFD
  (\<^verbatim>\<open>String::from_utf8_lossy\<close>, \<open>utf8_lossy\<close>). A \<open>str\<close> is a list of Unicode scalar values.
\<close>

section \<open>Encoding\<close>

definition scalar :: "nat \<Rightarrow> bool" where
  "scalar c \<longleftrightarrow> c < 0xD800 \<or> 0xE000 \<le> c \<and> c \<le> 0x10FFFF"

definition utf8_char :: "nat \<Rightarrow> bytes" where
  "utf8_char c =
     (if c < 0x80 then [of_nat c]
      else if c < 0x800 then [of_nat (0xC0 + c div 64), of_nat (0x80 + c mod 64)]
      else if c < 0x10000 then
        [of_nat (0xE0 + c div 4096), of_nat (0x80 + c div 64 mod 64), of_nat (0x80 + c mod 64)]
      else
        [of_nat (0xF0 + c div 262144), of_nat (0x80 + c div 4096 mod 64),
         of_nat (0x80 + c div 64 mod 64), of_nat (0x80 + c mod 64)])"

definition utf8_encode :: "str \<Rightarrow> bytes" where
  "utf8_encode s = concat (map utf8_char s)"

section \<open>Decoding\<close>

text \<open>
  What stands at the front of some bytes: a scalar value and how many bytes follow its first, an
  invalid sequence with the number of bytes after the first that it swallows, or a sequence the
  input is too short to complete.
\<close>

datatype utf8_head = Scalar nat nat | Bad nat | Short

definition cont_byte :: "byte \<Rightarrow> bool" where
  "cont_byte b \<longleftrightarrow> 0x80 \<le> unat b \<and> unat b < 0xC0"

definition second_byte :: "byte \<Rightarrow> byte \<Rightarrow> bool" where
  "second_byte b0 b1 \<longleftrightarrow>
     (if unat b0 = 0xE0 then 0xA0 \<le> unat b1 \<and> unat b1 < 0xC0
      else if unat b0 = 0xED then 0x80 \<le> unat b1 \<and> unat b1 < 0xA0
      else if unat b0 = 0xF0 then 0x90 \<le> unat b1 \<and> unat b1 < 0xC0
      else if unat b0 = 0xF4 then 0x80 \<le> unat b1 \<and> unat b1 < 0x90
      else cont_byte b1)"

definition tail_bits :: "byte \<Rightarrow> nat" where
  "tail_bits b = unat b - 0x80"

definition utf8_head :: "byte \<Rightarrow> bytes \<Rightarrow> utf8_head" where
  "utf8_head b0 bs =
     (let n = unat b0 in
      if n < 0x80 then Scalar n 0
      else if 0xC2 \<le> n \<and> n < 0xE0 then
        (case bs of [] \<Rightarrow> Short
         | b1 # _ \<Rightarrow> if cont_byte b1 then Scalar ((n - 0xC0) * 64 + tail_bits b1) 1 else Bad 0)
      else if 0xE0 \<le> n \<and> n < 0xF0 then
        (case bs of [] \<Rightarrow> Short
         | b1 # bs1 \<Rightarrow>
             if \<not> second_byte b0 b1 then Bad 0
             else (case bs1 of [] \<Rightarrow> Short
                   | b2 # _ \<Rightarrow>
                       if cont_byte b2
                       then Scalar ((n - 0xE0) * 4096 + tail_bits b1 * 64 + tail_bits b2) 2
                       else Bad 1))
      else if 0xF0 \<le> n \<and> n < 0xF5 then
        (case bs of [] \<Rightarrow> Short
         | b1 # bs1 \<Rightarrow>
             if \<not> second_byte b0 b1 then Bad 0
             else (case bs1 of [] \<Rightarrow> Short
                   | b2 # bs2 \<Rightarrow>
                       if \<not> cont_byte b2 then Bad 1
                       else (case bs2 of [] \<Rightarrow> Short
                             | b3 # _ \<Rightarrow>
                                 if cont_byte b3
                                 then Scalar ((n - 0xF0) * 262144 + tail_bits b1 * 4096
                                              + tail_bits b2 * 64 + tail_bits b3) 3
                                 else Bad 2)))
      else Bad 0)"

text \<open>
  Strict decoding: the text up to the first error, and, when there is one, the bytes from there on
  and \<^verbatim>\<open>Utf8Error::error_len\<close> (\<open>None\<close> when the input ends inside a sequence).
\<close>

function from_utf8 :: "bytes \<Rightarrow> str \<times> (bytes \<times> nat option) option" where
  "from_utf8 [] = ([], None)"
| "from_utf8 (b # bs) =
     (case utf8_head b bs of
        Scalar c n \<Rightarrow> (let (s, err) = from_utf8 (drop n bs) in (c # s, err))
      | Bad n \<Rightarrow> ([], Some (b # bs, Some (Suc n)))
      | Short \<Rightarrow> ([], Some (b # bs, None)))"
  by pat_completeness auto
termination by (relation "measure length") (auto simp: less_Suc_eq_le)

text \<open>Decoding with replacement; the second component is an incomplete sequence at the end.\<close>

function utf8_decode :: "bytes \<Rightarrow> str \<times> bytes" where
  "utf8_decode [] = ([], [])"
| "utf8_decode (b # bs) =
     (case utf8_head b bs of
        Scalar c n \<Rightarrow> (let (s, t) = utf8_decode (drop n bs) in (c # s, t))
      | Bad n \<Rightarrow> (let (s, t) = utf8_decode (drop n bs) in (0xFFFD # s, t))
      | Short \<Rightarrow> ([], b # bs))"
  by pat_completeness auto
termination by (relation "measure length") (auto simp: less_Suc_eq_le)

definition utf8_lossy :: "bytes \<Rightarrow> str" where
  "utf8_lossy bs =
     (case utf8_decode bs of (s, t) \<Rightarrow> if t = [] then s else s @ [0xFFFD])"

section \<open>Decoding piece by piece\<close>

lemma utf8_head_append:
  "utf8_head b bs \<noteq> Short \<Longrightarrow> utf8_head b (bs @ ys) = utf8_head b bs"
  by (auto simp: utf8_head_def Let_def split: list.splits if_splits)

lemma utf8_head_extent:
  "utf8_head b bs = Scalar c n \<Longrightarrow> n \<le> length bs"
  "utf8_head b bs = Bad n \<Longrightarrow> n \<le> length bs"
  by (auto simp: utf8_head_def Let_def split: list.splits if_splits)

lemma utf8_decode_append:
  "utf8_decode (xs @ ys) =
     (fst (utf8_decode xs) @ fst (utf8_decode (snd (utf8_decode xs) @ ys)),
      snd (utf8_decode (snd (utf8_decode xs) @ ys)))"
proof (induction xs rule: utf8_decode.induct)
  case 1
  then show ?case by simp
next
  case (2 b bs)
  show ?case
  proof (cases "utf8_head b bs")
    case (Scalar c n)
    then show ?thesis
      using 2(1) [OF Scalar] utf8_head_append [of b bs ys] utf8_head_extent(1) [OF Scalar]
      by (simp add: case_prod_beta Let_def)
  next
    case (Bad n)
    then show ?thesis
      using 2(2) [OF Bad] utf8_head_append [of b bs ys] utf8_head_extent(2) [OF Bad]
      by (simp add: case_prod_beta Let_def)
  next
    case Short
    then show ?thesis by simp
  qed
qed

lemma utf8_decode_tail:
  "snd (utf8_decode bs) = [] \<or>
     (\<exists>b rest. snd (utf8_decode bs) = b # rest \<and> utf8_head b rest = Short)"
  by (induction bs rule: utf8_decode.induct)
    (auto simp: case_prod_beta Let_def split: utf8_head.splits)

text \<open>An incomplete sequence is at most three bytes long.\<close>

lemma utf8_head_Short: "utf8_head b bs = Short \<Longrightarrow> length bs \<le> 2"
  by (auto simp: utf8_head_def Let_def split: list.splits if_splits)

lemma utf8_decode_tail_length: "length (snd (utf8_decode bs)) \<le> 3"
  using utf8_decode_tail [of bs] by (auto dest: utf8_head_Short)

section \<open>Encoding then decoding\<close>

lemma unat_of_nat_byte: "n < 256 \<Longrightarrow> unat (of_nat n :: byte) = n"
  by (simp add: unat_of_nat)

lemma split64:
  fixes c :: nat
  shows "c div 4096 * 4096 + c div 64 mod 64 * 64 + c mod 64 = c"
    and "c div 262144 * 262144 + c div 4096 mod 64 * 4096 + c div 64 mod 64 * 64 + c mod 64 = c"
proof -
  have a: "c = c div 64 * 64 + c mod 64" by simp
  have b: "c div 64 = c div 4096 * 64 + c div 64 mod 64"
    using div_mult_mod_eq [of "c div 64" 64] by (simp add: div_mult2_eq [symmetric])
  have d: "c div 4096 = c div 262144 * 64 + c div 4096 mod 64"
    using div_mult_mod_eq [of "c div 4096" 64] by (simp add: div_mult2_eq [symmetric])
  show "c div 4096 * 4096 + c div 64 mod 64 * 64 + c mod 64 = c" using a b by linarith
  then show "c div 262144 * 262144 + c div 4096 mod 64 * 4096 + c div 64 mod 64 * 64 + c mod 64 = c"
    using d by linarith
qed

lemma utf8_head_char:
  assumes "scalar c"
  shows "\<exists>b bs. utf8_char c = b # bs \<and> (\<forall>rest. utf8_head b (bs @ rest) = Scalar c (length bs))"
proof -
  have c: "c \<le> 0x10FFFF" using assms by (auto simp: scalar_def)
  consider "c < 0x80" | "0x80 \<le> c" "c < 0x800" | "0x800 \<le> c" "c < 0x10000" | "0x10000 \<le> c"
    by linarith
  then show ?thesis
  proof cases
    case 1
    then show ?thesis by (simp add: utf8_char_def utf8_head_def unat_of_nat_byte)
  next
    case 2
    obtain q r where qr: "c div 64 = q" "c mod 64 = r" by blast
    have c64: "c = q * 64 + r" and r: "r < 64" using qr by auto
    have q: "q < 32" "2 \<le> q" "c = q * 64 + r" "r < 64"
      using 2 c64 r by linarith+
    have "utf8_char c = [of_nat (192 + q), of_nat (128 + r)]"
      using 2 by (simp add: utf8_char_def qr)
    moreover have "utf8_head (of_nat (192 + q)) ([of_nat (128 + r)] @ rest) = Scalar c 1" for rest
      using q(1,2,4) by (simp add: q(3) utf8_head_def unat_of_nat_byte cont_byte_def tail_bits_def
          Let_def del: of_nat_add)
    ultimately show ?thesis by simp
  next
    case 3
    obtain p q r where pqr: "c div 4096 = p" "c div 64 mod 64 = q" "c mod 64 = r" by blast
    have c3: "c = p * 4096 + q * 64 + r" "q < 64" "r < 64"
      using split64(1) [of c] pqr by auto
    have p: "p < 16" "p = 0 \<Longrightarrow> 32 \<le> q" "p = 13 \<Longrightarrow> q < 32"
      using 3 c3 assms by (auto simp: scalar_def)
    have "utf8_char c = [of_nat (224 + p), of_nat (128 + q), of_nat (128 + r)]"
      using 3 by (simp add: utf8_char_def pqr)
    moreover have "second_byte (of_nat (224 + p)) (of_nat (128 + q))"
      using p c3(2) by (simp add: second_byte_def cont_byte_def unat_of_nat_byte del: of_nat_add)
    then have "utf8_head (of_nat (224 + p)) ([of_nat (128 + q), of_nat (128 + r)] @ rest) = Scalar c 2" for rest
      using p(1) c3(2,3) by (simp add: c3(1) utf8_head_def unat_of_nat_byte cont_byte_def
          tail_bits_def Let_def del: of_nat_add)
    ultimately show ?thesis by simp
  next
    case 4
    obtain k p q r where pqr: "c div 262144 = k" "c div 4096 mod 64 = p" "c div 64 mod 64 = q" "c mod 64 = r"
      by blast
    have c4: "c = k * 262144 + p * 4096 + q * 64 + r" "p < 64" "q < 64" "r < 64"
      using split64(2) [of c] pqr by auto
    have p: "k < 5" "k = 0 \<Longrightarrow> 16 \<le> p" "k = 4 \<Longrightarrow> p < 16"
      using 4 c c4 by auto
    have "utf8_char c = [of_nat (240 + k), of_nat (128 + p), of_nat (128 + q), of_nat (128 + r)]"
      using 4 by (simp add: utf8_char_def pqr)
    moreover have "second_byte (of_nat (240 + k)) (of_nat (128 + p))"
      using p c4(2) by (simp add: second_byte_def cont_byte_def unat_of_nat_byte del: of_nat_add)
    then have "utf8_head (of_nat (240 + k)) ([of_nat (128 + p), of_nat (128 + q), of_nat (128 + r)] @ rest)
        = Scalar c 3" for rest
      using p(1) c4(2-4) by (simp add: c4(1) utf8_head_def unat_of_nat_byte cont_byte_def
          tail_bits_def Let_def del: of_nat_add)
    ultimately show ?thesis by simp
  qed
qed

lemma utf8_decode_char:
  assumes "scalar c"
  shows "utf8_decode (utf8_char c @ rest) = (c # fst (utf8_decode rest), snd (utf8_decode rest))"
proof -
  obtain b bs where "utf8_char c = b # bs" "utf8_head b (bs @ rest) = Scalar c (length bs)"
    using utf8_head_char [OF assms] by blast
  then show ?thesis by (simp add: case_prod_beta Let_def)
qed

lemma utf8_decode_encode:
  "\<forall>c \<in> set s. scalar c \<Longrightarrow>
     utf8_decode (utf8_encode s @ rest) = (s @ fst (utf8_decode rest), snd (utf8_decode rest))"
  by (induction s) (simp_all add: utf8_encode_def utf8_decode_char)

lemma utf8_lossy_encode: "\<forall>c \<in> set s. scalar c \<Longrightarrow> utf8_lossy (utf8_encode s) = s"
  using utf8_decode_encode [of s "[]"] by (simp add: utf8_lossy_def)

lemma utf8_decode_scalar: "\<forall>c \<in> set (fst (utf8_decode bs)). scalar c"
proof (induction bs rule: utf8_decode.induct)
  case 1
  then show ?case by simp
next
  case (2 b bs)
  have "scalar c" if "utf8_head b bs = Scalar c n" for c n
    using that
    apply (simp add: utf8_head_def Let_def cont_byte_def second_byte_def tail_bits_def
        split: list.splits if_splits)
            apply (simp_all add: scalar_def)
           apply arith+
    done
  moreover have "scalar 0xFFFD" by (simp add: scalar_def)
  ultimately show ?case
    using 2 by (auto simp: case_prod_beta Let_def split: utf8_head.splits)
qed

lemma utf8_lossy_scalar: "\<forall>c \<in> set (utf8_lossy bs). scalar c"
proof -
  obtain s t where "utf8_decode bs = (s, t)" by (cases "utf8_decode bs")
  moreover have "scalar 0xFFFD" by (simp add: scalar_def)
  ultimately show ?thesis using utf8_decode_scalar [of bs] by (auto simp: utf8_lossy_def)
qed

lemma length_utf8_char: "1 \<le> length (utf8_char c) \<and> length (utf8_char c) \<le> 4"
  by (simp add: utf8_char_def)

section \<open>UTF-16 length\<close>

text \<open>\<^verbatim>\<open>encode_utf16().count()\<close>, the length JavaScript measures.\<close>

definition utf16_len :: "str \<Rightarrow> nat" where
  "utf16_len s = sum_list (map (\<lambda>c. if c < 0x10000 then 1 else 2) s)"

lemma utf16_le_bytes: "utf16_len s \<le> length (utf8_encode s)"
  by (induction s) (auto simp: utf16_len_def utf8_encode_def utf8_char_def)

lemma utf16_len_append: "utf16_len (s @ t) = utf16_len s + utf16_len t"
  by (simp add: utf16_len_def)

end
