(* ===== verification/Chunks.thy ===== *)
theory Chunks
  imports Fs_Io Utf8
begin

text \<open>
  Feeding a parser its input a piece at a time, \<^verbatim>\<open>crates/spm-core/src/files/chunks.rs\<close>: sinks,
  chunk sources, the file source \<open>file_chunks\<close> and the line splitter \<open>line_sink\<close>. A sink is its
  state with a \<open>push\<close> and a \<open>finish\<close> function; the visitor of a line sink is a function on a
  state of its own that may refuse a line. \<open>drain_sink\<close> may run for ever on an arbitrary source, so
  it is partial; over a file it is proved to end.
\<close>

section \<open>Sinks and sources\<close>

definition feed_sink ::
  "(bytes \<Rightarrow> 's \<Rightarrow> app_error + 's) \<Rightarrow> ('s \<Rightarrow> app_error + 'o) \<Rightarrow> 's \<Rightarrow> bytes \<Rightarrow> app_error + 'o" where
  "feed_sink push finish sink bs =
     bindE (if bs \<noteq> [] then push bs sink else Inr sink) finish"

partial_function (option) drain_sink ::
  "(bytes \<Rightarrow> 's \<Rightarrow> app_error + 's) \<Rightarrow> ('s \<Rightarrow> app_error + 'o) \<Rightarrow>
   ('c \<Rightarrow> app_error + (bytes \<times> 'c) option) \<Rightarrow> 's \<Rightarrow> 'c \<Rightarrow> (app_error + 'o) option" where
  "drain_sink push finish pull sink source =
     (case pull source of
        Inl e \<Rightarrow> Some (Inl e)
      | Inr None \<Rightarrow> Some (finish sink)
      | Inr (Some (chunk, source1)) \<Rightarrow>
          if chunk = [] then drain_sink push finish pull sink source1
          else (case push chunk sink of
                  Inl e \<Rightarrow> Some (Inl e)
                | Inr sink1 \<Rightarrow> drain_sink push finish pull sink1 source1))"

section \<open>A file as a source\<close>

definition DEFAULT_FILE_CHUNK_BYTES :: nat where
  "DEFAULT_FILE_CHUNK_BYTES = 256 * 1024"

record open_file =
  of_data :: bytes
  of_size :: nat

record file_chunks =
  fc_data :: bytes
  fc_buffer :: nat
  fc_position :: nat

definition open_file_open :: "bytes \<Rightarrow> open_file" where
  "open_file_open data = \<lparr>of_data = data, of_size = length data\<rparr>"

text \<open>The read loop of \<^verbatim>\<open>OpenFile::head\<close>: up to \<open>len\<close> bytes, fewer at the end of the file.\<close>

function read_up_to :: "os \<Rightarrow> bytes \<Rightarrow> nat \<Rightarrow> nat \<Rightarrow> io_error + bytes" where
  "read_up_to os data read len =
     (if len \<le> read then Inr []
      else bindE (read_at os data read (len - read)) (\<lambda>got.
        if got = [] then Inr []
        else bindE (read_up_to os data (read + length got) len) (\<lambda>rest. Inr (got @ rest))))"
  by pat_completeness auto
termination
  by (relation "measure (\<lambda>(os, data, read, len). len - read)")
    (auto simp: read_at_def slice_of_def split: os_read.splits)

declare read_up_to.simps [simp del]

definition open_file_head :: "os \<Rightarrow> open_file \<Rightarrow> nat \<Rightarrow> app_error + bytes" where
  "open_file_head os f max_bytes =
     (case read_up_to os (of_data f) 0 (max max_bytes 1) of
        Inl e \<Rightarrow> Inl (app_error_of_io e)
      | Inr bs \<Rightarrow> Inr bs)"

definition open_file_chunks :: "open_file \<Rightarrow> nat \<Rightarrow> file_chunks" where
  "open_file_chunks f chunk_bytes =
     \<lparr>fc_data = of_data f, fc_buffer = max (min chunk_bytes (of_size f)) 1, fc_position = 0\<rparr>"

definition read_file_chunks :: "bytes \<Rightarrow> nat \<Rightarrow> file_chunks" where
  "read_file_chunks data chunk_bytes = open_file_chunks (open_file_open data) chunk_bytes"

definition pull_file :: "os \<Rightarrow> file_chunks \<Rightarrow> app_error + (bytes \<times> file_chunks) option" where
  "pull_file os fc =
     (case read_at os (fc_data fc) (fc_position fc) (fc_buffer fc) of
        Inl e \<Rightarrow> Inl (app_error_of_io e)
      | Inr got \<Rightarrow>
          if got = [] then Inr None
          else Inr (Some (got, fc\<lparr>fc_position := fc_position fc + length got\<rparr>)))"

section \<open>The line sink\<close>

definition MAX_LINE_CHARS :: nat where
  "MAX_LINE_CHARS = 2 ^ 20"

record line_sink =
  ls_pending :: bytes
  ls_carry :: str

definition make_line_sink :: line_sink where
  "make_line_sink = \<lparr>ls_pending = [], ls_carry = []\<rparr>"

lemma from_utf8_after:
  "from_utf8 bs = (s, Some (after, err_len)) \<Longrightarrow> after \<noteq> [] \<and> length after \<le> length bs \<and> err_len \<noteq> Some 0"
proof (induction bs arbitrary: s rule: from_utf8.induct)
  case 1
  then show ?case by simp
next
  case (2 b bs)
  show ?case
  proof (cases "utf8_head b bs")
    case (Scalar c n)
    then obtain s' where "from_utf8 (drop n bs) = (s', Some (after, err_len))"
      using 2(2) by (auto simp: case_prod_beta Let_def prod_eq_iff)
    with 2(1) [OF Scalar] show ?thesis by fastforce
  qed (use 2(2) in auto)
qed

function decode_loop :: "bool \<Rightarrow> bytes \<Rightarrow> str \<times> bytes" where
  "decode_loop flush rest =
     (case from_utf8 rest of
        (valid, None) \<Rightarrow> (valid, [])
      | (valid, Some (after, Some len)) \<Rightarrow>
          (let (text', pending) = decode_loop flush (drop len after)
           in (valid @ [0xFFFD] @ text', pending))
      | (valid, Some (after, None)) \<Rightarrow>
          (if flush then (valid @ [0xFFFD], []) else (valid, after)))"
  by pat_completeness auto
termination
  apply (relation "measure (length \<circ> snd)")
   apply simp
  apply (clarsimp dest!: from_utf8_after [OF sym])
  apply (fastforce simp: neq_Nil_conv)
  done

declare decode_loop.simps [simp del]

definition sink_decode :: "bytes \<Rightarrow> bool \<Rightarrow> line_sink \<Rightarrow> str \<times> line_sink" where
  "sink_decode chunk flush sink =
     (let (t, pending) = decode_loop flush (ls_pending sink @ chunk)
      in (t, sink\<lparr>ls_pending := pending\<rparr>))"

definition line_too_long :: app_error where
  "line_too_long =
     with_details (validation (lit ''text line is longer than 1048576 characters''))
       [(lit ''maxLineChars'', JNum (int MAX_LINE_CHARS))]"

text \<open>The loop of \<^verbatim>\<open>LineSink::push\<close>: visits the complete lines, and returns the new carry.\<close>

function push_lines ::
  "(str \<Rightarrow> 'v \<Rightarrow> app_error + 'v) \<Rightarrow> str \<Rightarrow> str \<Rightarrow> 'v \<Rightarrow> app_error + str \<times> 'v" where
  "push_lines visit carry rest v =
     (if 10 \<in> set rest then
        let line = takeWhile (\<lambda>c. c \<noteq> 10) rest; tail = dropWhile (\<lambda>c. c \<noteq> 10) rest in
        bindE (if carry = [] then visit line v else visit (carry @ line) v) (\<lambda>v1.
          push_lines visit [] (drop 1 tail) v1)
      else Inr (carry @ rest, v))"
  by pat_completeness auto
termination
proof (relation "measure (\<lambda>(visit, carry, rest, v). length rest)", goal_cases)
  case 1
  then show ?case by simp
next
  case (2 visit carry rest v line tail v1)
  then have "tail \<noteq> []" "length tail \<le> length rest"
    by (auto simp: dropWhile_eq_Nil_conv length_dropWhile_le)
  then show ?case by (cases tail) auto
qed

declare push_lines.simps [simp del]

definition line_push ::
  "(str \<Rightarrow> 'v \<Rightarrow> app_error + 'v) \<Rightarrow> bytes \<Rightarrow> line_sink \<times> 'v \<Rightarrow> app_error + line_sink \<times> 'v" where
  "line_push visit chunk st =
     (let (sink, v) = st; (fresh, sink1) = sink_decode chunk False sink in
      bindE (push_lines visit (ls_carry sink) fresh v) (\<lambda>(carry, v1).
        if length (utf8_encode carry) > MAX_LINE_CHARS \<and> utf16_len carry > MAX_LINE_CHARS
        then Inl line_too_long
        else Inr (sink1\<lparr>ls_carry := carry\<rparr>, v1)))"

definition line_end ::
  "(str \<Rightarrow> 'v \<Rightarrow> app_error + 'v) \<Rightarrow> line_sink \<times> 'v \<Rightarrow> app_error + 'v" where
  "line_end visit st =
     (let (sink, v) = st; (t, sink1) = sink_decode [] True (sink\<lparr>ls_carry := []\<rparr>)
      in visit (ls_carry sink @ t) v)"

section \<open>The reference: lines of the whole text\<close>

fun lines_of :: "str \<Rightarrow> str list" where
  "lines_of [] = [[]]"
| "lines_of (c # cs) =
     (if c = 10 then [] # lines_of cs
      else (case lines_of cs of [] \<Rightarrow> [[c]] | l # ls \<Rightarrow> (c # l) # ls))"

fun visit_all :: "('l \<Rightarrow> 'v \<Rightarrow> 'e + 'v) \<Rightarrow> 'l list \<Rightarrow> 'v \<Rightarrow> 'e + 'v" where
  "visit_all visit [] v = Inr v"
| "visit_all visit (l # ls) v = bindE (visit l v) (visit_all visit ls)"

lemma visit_all_append: "visit_all f (xs @ ys) v = bindE (visit_all f xs v) (visit_all f ys)"
proof (induction xs arbitrary: v)
  case Nil
  then show ?case by simp
next
  case (Cons x xs)
  then show ?case by (cases "f x v") simp_all
qed

lemma lines_of_not_Nil [simp]: "lines_of s \<noteq> []"
  by (cases s) (auto split: list.splits)

lemma lines_of_plain: "10 \<notin> set s \<Longrightarrow> lines_of s = [s]"
  by (induction s) auto

lemma lines_of_prepend:
  "10 \<notin> set p \<Longrightarrow> lines_of (p @ s) = (p @ hd (lines_of s)) # tl (lines_of s)"
proof (induction p)
  case Nil
  then show ?case by simp
next
  case (Cons c p)
  then show ?case by simp
qed

lemma lines_of_newline: "10 \<notin> set p \<Longrightarrow> lines_of (p @ 10 # s) = p # lines_of s"
  by (simp add: lines_of_prepend)

lemma lines_of_append:
  "lines_of (s @ t) = butlast (lines_of s) @ lines_of (last (lines_of s) @ t)"
proof (induction s)
  case Nil
  then show ?case by simp
next
  case (Cons c s)
  obtain l ls where l: "lines_of s = l # ls" by (cases "lines_of s") auto
  show ?case
  proof (cases "c = 10")
    case True
    with Cons l show ?thesis by simp
  next
    case False
    show ?thesis
    proof (cases ls)
      case Nil
      with Cons l False show ?thesis by (cases "lines_of (l @ t)") auto
    next
      case (Cons a as)
      with Cons.IH l False show ?thesis by simp
    qed
  qed
qed

lemma lines_of_no_newline: "l \<in> set (lines_of s) \<Longrightarrow> 10 \<notin> set l"
proof (induction s arbitrary: l)
  case Nil
  then show ?case by simp
next
  case (Cons c s)
  obtain k ks where "lines_of s = k # ks" by (cases "lines_of s") auto
  with Cons show ?case by (auto split: if_splits)
qed

lemma lines_of_last: "10 \<notin> set (last (lines_of s))"
  by (rule lines_of_no_newline [of _ s]) simp

lemma visit_all_one [simp]: "visit_all f [l] = f l"
proof
  show "visit_all f [l] v = f l v" for v by (cases "f l v") simp_all
qed

lemma push_lines_spec:
  assumes "10 \<notin> set carry"
  shows "push_lines visit carry rest v =
    bindE (visit_all visit (butlast (lines_of (carry @ rest))) v)
      (\<lambda>v1. Inr (last (lines_of (carry @ rest)), v1))"
  using assms
proof (induction visit carry rest v rule: push_lines.induct)
  case (1 visit carry rest v)
  show ?case
  proof (cases "10 \<in> set rest")
    case False
    then show ?thesis using "1.prems" by (simp add: push_lines.simps lines_of_plain)
  next
    case True
    let ?line = "takeWhile (\<lambda>c. c \<noteq> 10) rest"
    have tail: "dropWhile (\<lambda>c. c \<noteq> 10) rest = 10 # drop 1 (dropWhile (\<lambda>c. c \<noteq> 10) rest)"
      using True by (metis (mono_tags, lifting) One_nat_def drop0 drop_Suc_Cons dropWhile_eq_Nil_conv
          hd_dropWhile list.collapse)
    let ?tail = "drop 1 (dropWhile (\<lambda>c. c \<noteq> 10) rest)"
    have rest: "rest = ?line @ 10 # ?tail"
      using tail by (metis takeWhile_dropWhile_id)
    have plain: "10 \<notin> set (carry @ ?line)" using "1.prems" by (auto dest: set_takeWhileD)
    have "lines_of (carry @ rest) = (carry @ ?line) # lines_of ?tail"
      using lines_of_newline [OF plain, of ?tail] rest by simp
    moreover have "push_lines visit carry rest v =
        bindE (visit (carry @ ?line) v) (push_lines visit [] ?tail)"
      using True by (subst push_lines.simps) (auto simp: Let_def)
    moreover have "push_lines visit [] ?tail v1 = bindE (visit_all visit (butlast (lines_of ?tail)) v1)
      (\<lambda>v2. Inr (last (lines_of ?tail), v2))" if "visit (carry @ ?line) v = Inr v1" for v1
      using "1.IH" [OF True refl refl, of v1] that by (cases "carry = []") auto
    ultimately show ?thesis by (cases "visit (carry @ ?line) v") (auto simp: bindE_assoc)
  qed
qed

section \<open>Streaming equals decoding and splitting the whole\<close>

lemma from_utf8_decode:
  "from_utf8 bs = (s, err) \<Longrightarrow>
     utf8_decode bs =
       (case err of None \<Rightarrow> (s, [])
        | Some (after, None) \<Rightarrow> (s, after)
        | Some (after, Some n) \<Rightarrow>
            (s @ 0xFFFD # fst (utf8_decode (drop n after)), snd (utf8_decode (drop n after))))"
proof (induction bs arbitrary: s rule: from_utf8.induct)
  case 1
  then show ?case by auto
next
  case (2 b bs)
  show ?case
  proof (cases "utf8_head b bs")
    case (Scalar c n)
    obtain s' where f: "from_utf8 (drop n bs) = (s', err)"
      using 2(2) Scalar by (cases "from_utf8 (drop n bs)") auto
    with 2(2) Scalar have "s = c # s'" by auto
    with 2(1) [OF Scalar f] f Scalar show ?thesis
      by (auto simp: case_prod_beta Let_def split: option.splits)
  qed (use 2(2) in \<open>auto simp: case_prod_beta Let_def\<close>)
qed

lemma decode_loop_eq:
  "decode_loop flush bs =
     (let (s, t) = utf8_decode bs
      in if flush \<and> t \<noteq> [] then (s @ [0xFFFD], []) else (s, t))"
proof (induction flush bs rule: decode_loop.induct)
  case (1 flush bs)
  obtain s err where f: "from_utf8 bs = (s, err)" by (cases "from_utf8 bs")
  note d = from_utf8_decode [OF f]
  show ?case
  proof (cases err)
    case None
    with d f show ?thesis by (simp add: decode_loop.simps [of flush bs])
  next
    case (Some x)
    obtain after e where x: "x = (after, e)" by (cases x)
    show ?thesis
    proof (cases e)
      case None
      with d f Some x from_utf8_after [of bs s after e] show ?thesis
        by (simp add: decode_loop.simps [of flush bs])
    next
      case e: (Some n)
      have "decode_loop flush (drop n after) = (let (s, t) = utf8_decode (drop n after)
          in if flush \<and> t \<noteq> [] then (s @ [0xFFFD], []) else (s, t))"
        using "1.IH" f Some x e by force
      with d f Some x e show ?thesis
        by (simp add: decode_loop.simps [of flush bs] case_prod_beta Let_def)
    qed
  qed
qed

lemma utf8_lossy_step:
  "utf8_decode (p @ xs) = (f, q) \<Longrightarrow> utf8_lossy (p @ xs @ ys) = f @ utf8_lossy (q @ ys)"
  using utf8_decode_append [of "p @ xs" ys] by (simp add: utf8_lossy_def split: prod.splits)

lemma utf8_decode_tail_fix: "utf8_decode bs = (s, t) \<Longrightarrow> utf8_decode t = ([], t)"
  using utf8_decode_tail [of bs] by auto

lemma line_push_spec:
  assumes "10 \<notin> set (ls_carry sink)" "utf8_decode (ls_pending sink @ chunk) = (f, q)"
  shows "line_push visit chunk (sink, v) =
    bindE (visit_all visit (butlast (lines_of (ls_carry sink @ f))) v) (\<lambda>v1.
      if utf16_len (last (lines_of (ls_carry sink @ f))) > MAX_LINE_CHARS then Inl line_too_long
      else Inr (\<lparr>ls_pending = q, ls_carry = last (lines_of (ls_carry sink @ f))\<rparr>, v1))"
proof -
  let ?last = "last (lines_of (ls_carry sink @ f))"
  have "utf16_len ?last > MAX_LINE_CHARS \<Longrightarrow> length (utf8_encode ?last) > MAX_LINE_CHARS"
    using utf16_le_bytes [of ?last] by simp
  then show ?thesis
    by (cases "visit_all visit (butlast (lines_of (ls_carry sink @ f))) v")
      (auto simp: line_push_def sink_decode_def decode_loop_eq assms push_lines_spec)
qed

lemma lines_of_carry_long:
  assumes "utf16_len (last (lines_of s)) > n"
  shows "\<exists>l \<in> set (lines_of (s @ t)). utf16_len l > n"
proof -
  let ?c = "last (lines_of s)"
  have "10 \<notin> set ?c" by (rule lines_of_last)
  then have "(?c @ hd (lines_of t)) \<in> set (lines_of (?c @ t))" by (simp add: lines_of_prepend)
  then have "(?c @ hd (lines_of t)) \<in> set (lines_of (s @ t))" by (simp add: lines_of_append [of s t])
  with assms show ?thesis by (intro bexI [of _ "?c @ hd (lines_of t)"]) (simp_all add: utf16_len_append)
qed

lemma drain_lines:
  assumes "os_delivers os" "0 < fc_buffer fc" "utf8_decode (ls_pending sink) = ([], ls_pending sink)"
    and "10 \<notin> set (ls_carry sink)"
    and "whole = ls_carry sink @ utf8_lossy (ls_pending sink @ drop (fc_position fc) (fc_data fc))"
  shows "\<exists>r. drain_sink (line_push visit) (line_end visit) (pull_file os) (sink, v) fc = Some r \<and>
    (r = visit_all visit (lines_of whole) v \<or>
     r = Inl line_too_long \<and> (\<exists>l \<in> set (lines_of whole). utf16_len l > MAX_LINE_CHARS))"
  using assms(2-)
proof (induction "length (fc_data fc) - fc_position fc" arbitrary: fc sink v whole rule: less_induct)
  case less
  obtain n where n: "0 < n" "read_at os (fc_data fc) (fc_position fc) (fc_buffer fc) =
      Inr (slice_of (fc_position fc) n (fc_data fc))"
    using read_at_delivers [OF assms(1) less.prems(1)] by metis
  let ?chunk = "slice_of (fc_position fc) n (fc_data fc)"
  let ?fc' = "fc\<lparr>fc_position := fc_position fc + length ?chunk\<rparr>"
  show ?case
  proof (cases "length (fc_data fc) \<le> fc_position fc")
    case True
    then have "pull_file os fc = Inr None" using n by (simp add: pull_file_def slice_of_def)
    moreover have "line_end visit (sink, v) = visit_all visit (lines_of whole) v"
    proof -
      have "10 \<notin> set whole" using less.prems(3,4) True less.prems(2) by (auto simp: utf8_lossy_def)
      moreover have "line_end visit (sink, v) = visit whole v"
        using less.prems(2,4) True
        by (auto simp: line_end_def sink_decode_def decode_loop_eq utf8_lossy_def)
      ultimately show ?thesis by (cases "visit whole v") (simp_all add: lines_of_plain)
    qed
    ultimately show ?thesis by (simp add: drain_sink.simps)
  next
    case False
    then have ne: "?chunk \<noteq> []" using n(1) by (simp add: slice_of_def)
    have pull: "pull_file os fc = Inr (Some (?chunk, ?fc'))" using n(2) ne by (simp add: pull_file_def)
    have rest: "drop (fc_position fc) (fc_data fc) = ?chunk @ drop (fc_position ?fc') (fc_data fc)"
      by (simp add: slice_of_def min_def) (metis append_take_drop_id drop_drop add.commute)
    obtain f q where fq: "utf8_decode (ls_pending sink @ ?chunk) = (f, q)"
      by (cases "utf8_decode (ls_pending sink @ ?chunk)")
    let ?carry = "last (lines_of (ls_carry sink @ f))"
    let ?whole' = "?carry @ utf8_lossy (q @ drop (fc_position ?fc') (fc_data fc))"
    have "whole = (ls_carry sink @ f) @ utf8_lossy (q @ drop (fc_position ?fc') (fc_data fc))"
      using less.prems(4) rest utf8_lossy_step [OF fq] by simp
    then have whole: "lines_of whole = butlast (lines_of (ls_carry sink @ f)) @ lines_of ?whole'"
      by (simp only: lines_of_append [of "ls_carry sink @ f"])
    note push = line_push_spec [OF less.prems(3) fq, of visit v]
    note va = visit_all_append [of visit "butlast (lines_of (ls_carry sink @ f))" "lines_of ?whole'" v]
    show ?thesis
    proof (cases "visit_all visit (butlast (lines_of (ls_carry sink @ f))) v")
      case (Inl e)
      then show ?thesis using pull ne push va by (simp add: drain_sink.simps whole)
    next
      case (Inr v1)
      show ?thesis
      proof (cases "utf16_len ?carry > MAX_LINE_CHARS")
        case True
        have "lines_of ?carry = [?carry]" by (rule lines_of_plain [OF lines_of_last])
        with True lines_of_carry_long [of MAX_LINE_CHARS ?carry]
        have "\<exists>l \<in> set (lines_of ?whole'). utf16_len l > MAX_LINE_CHARS" by simp
        then have "\<exists>l \<in> set (lines_of whole). utf16_len l > MAX_LINE_CHARS"
          unfolding whole by auto
        with True Inr show ?thesis using pull ne push by (simp add: drain_sink.simps)
      next
        case False
        let ?sink' = "\<lparr>ls_pending = q, ls_carry = ?carry\<rparr>"
        have "length (fc_data ?fc') - fc_position ?fc' < length (fc_data fc) - fc_position fc"
          using ne \<open>\<not> length (fc_data fc) \<le> fc_position fc\<close> by (cases ?chunk) auto
        moreover have "10 \<notin> set ?carry" by (rule lines_of_last)
        ultimately have "\<exists>r. drain_sink (line_push visit) (line_end visit) (pull_file os) (?sink', v1) ?fc' = Some r \<and>
          (r = visit_all visit (lines_of ?whole') v1 \<or>
           r = Inl line_too_long \<and> (\<exists>l \<in> set (lines_of ?whole'). utf16_len l > MAX_LINE_CHARS))"
          using less.hyps [of ?fc' ?sink' ?whole' v1] less.prems(1) utf8_decode_tail_fix [OF fq] by simp
        moreover have "drain_sink (line_push visit) (line_end visit) (pull_file os) (sink, v) fc =
            drain_sink (line_push visit) (line_end visit) (pull_file os) (?sink', v1) ?fc'"
          using pull ne push Inr False by (simp add: drain_sink.simps)
        ultimately show ?thesis using va Inr by (auto simp: whole)
      qed
    qed
  qed
qed

section \<open>Properties\<close>

text \<open>
  Splitting a file into lines chunk by chunk, whatever the chunk size and however short the reads
  the operating system returns, always ends, and it visits exactly the lines of the whole file's
  lossy UTF-8 decoding, in order, up to the visitor's first refusal. The only other outcome is the
  line limit's error, and then some line really is longer than the limit.
\<close>

theorem line_stream_spec:
  assumes "os_delivers os"
  shows "\<exists>r. drain_sink (line_push visit) (line_end visit) (pull_file os) (make_line_sink, v)
            (read_file_chunks data chunk_bytes) = Some r \<and>
    (r = visit_all visit (lines_of (utf8_lossy data)) v \<or>
     r = Inl line_too_long \<and> (\<exists>l \<in> set (lines_of (utf8_lossy data)). utf16_len l > MAX_LINE_CHARS))"
  by (rule drain_lines [OF assms])
    (simp_all add: read_file_chunks_def open_file_chunks_def open_file_open_def make_line_sink_def)

theorem line_stream_spec_witness:
  "drain_sink (line_push (\<lambda>l v. Inr (v @ [l]))) (line_end (\<lambda>l v. Inr (v @ [l])))
     (pull_file (\<lambda>_. Deliver 1)) (make_line_sink, []) (read_file_chunks [97, 0xC3, 0xA9, 10, 98] 3)
   = Some (Inr [[97, 0xE9], [98]])"
proof -
  have "utf8_lossy [97, 0xC3, 0xA9, 10, 98] = [97, 0xE9, 10, 98]"
    by (simp add: utf8_lossy_def utf8_head_def cont_byte_def tail_bits_def)
  then have l: "lines_of (utf8_lossy [97, 0xC3, 0xA9, 10, 98]) = [[97, 0xE9], [98]]" by simp
  have "os_delivers (\<lambda>_. Deliver 1)" by (simp add: os_delivers_def)
  from line_stream_spec [OF this, where visit = "\<lambda>l v. Inr (v @ [l])" and v = "[]"
      and data = "[97, 0xC3, 0xA9, 10, 98]" and chunk_bytes = 3]
  show ?thesis by (auto simp: l MAX_LINE_CHARS_def utf16_len_def)
qed

text \<open>
  A buffered run (\<^verbatim>\<open>feed_sink\<close>) applies the line limit to the last line only: a file whose other
  lines are longer than the limit is accepted, while a stream that sees such a line cut by a chunk
  boundary refuses it.
\<close>

theorem buffered_line_limit:
  "feed_sink (line_push visit) (line_end visit) (make_line_sink, v)
      (utf8_encode (replicate (Suc MAX_LINE_CHARS) 97) @ [10]) =
    visit_all visit [replicate (Suc MAX_LINE_CHARS) 97, []] v \<and>
   line_push visit (utf8_encode (replicate (Suc MAX_LINE_CHARS) 97)) (make_line_sink, v) = Inl line_too_long"
proof -
  let ?s = "replicate (Suc MAX_LINE_CHARS) (97::nat)"
  have sc: "\<forall>c \<in> set ?s. scalar c" by (simp add: scalar_def)
  have nl: "10 \<notin> set ?s" by simp
  have d10: "utf8_decode [10] = ([10], [])" by (simp add: utf8_head_def)
  have d: "utf8_decode (utf8_encode ?s @ [10]) = (?s @ [10], [])" "utf8_decode (utf8_encode ?s) = (?s, [])"
    using utf8_decode_encode [OF sc, of "[10]"] utf8_decode_encode [OF sc, of "[]"] d10 by simp_all
  have l: "lines_of (?s @ [10]) = [?s, []]" "lines_of ?s = [?s]"
    using lines_of_newline [OF nl, of "[]"] lines_of_plain [OF nl] by simp_all
  have u: "utf16_len ?s = Suc MAX_LINE_CHARS"
    by (simp add: utf16_len_def sum_list_replicate del: replicate_Suc)
  have "line_push visit (utf8_encode ?s) (make_line_sink, v) = Inl line_too_long"
    using line_push_spec [of make_line_sink "utf8_encode ?s" ?s "[]" visit v] d(2) l(2) u
    by (simp add: make_line_sink_def del: replicate_Suc)
  moreover have "line_push visit (utf8_encode ?s @ [10]) (make_line_sink, v) =
      bindE (visit ?s v) (\<lambda>v1. Inr (make_line_sink, v1))"
    using line_push_spec [of make_line_sink "utf8_encode ?s @ [10]" "?s @ [10]" "[]" visit v] d(1) l(1)
    by (cases "visit ?s v") (simp_all add: make_line_sink_def utf16_len_def MAX_LINE_CHARS_def del: replicate_Suc)
  ultimately show ?thesis
    by (cases "visit ?s v"; cases "visit [] (projr (visit ?s v))")
      (simp_all add: feed_sink_def line_end_def sink_decode_def decode_loop_eq make_line_sink_def
        del: replicate_Suc)
qed

end
