(* ===== verification/Zip_Reader.thy ===== *)
theory Zip_Reader
  imports Fs_Io Utf8
begin

text \<open>
  The zip reader, \<^verbatim>\<open>crates/spm-core/src/files/zip.rs\<close>: the central directory (zip64 included) and
  one entry at a time, buffered or in chunks. Slice indexing that could go out of range is \<open>Panic\<close>,
  so "never panics" is a theorem. \<^verbatim>\<open>u64\<close> and \<^verbatim>\<open>usize\<close> are natural numbers (every value that reaches
  an addition is bounded by the file or by \<open>MAX_SAFE_INTEGER\<close>; \<^verbatim>\<open>checked_add\<close> is written out);
  16- and 32-bit fields keep their width. Allocation failure is not modelled. The inflater of the
  \<^verbatim>\<open>flate2\<close> crate is a pair of arguments: \<open>inflate_new\<close> starts it on a byte range of the archive,
  \<open>inflate_read\<close> is its \<^verbatim>\<open>Read::read\<close>.
\<close>

section \<open>Records and constants\<close>

record zip_entry =
  ze_name :: str
  ze_method :: u16
  ze_compressed_size :: nat
  ze_uncompressed_size :: nat
  ze_local_header_offset :: nat
  ze_flags :: u16
  ze_crc :: u32
  ze_mod_time :: u16
  ze_mod_date :: u16
  ze_version_made_by :: u16
  ze_version_needed :: u16
  ze_internal_attributes :: u16
  ze_external_attributes :: u32

definition EOCD_SIG :: u32 where "EOCD_SIG = 0x06054b50"
definition CD_SIG :: u32 where "CD_SIG = 0x02014b50"
definition LOCAL_SIG :: u32 where "LOCAL_SIG = 0x04034b50"
definition ZIP64_LOCATOR_SIG :: u32 where "ZIP64_LOCATOR_SIG = 0x07064b50"
definition ZIP64_EOCD_SIG :: u32 where "ZIP64_EOCD_SIG = 0x06064b50"
definition EOCD_MIN :: nat where "EOCD_MIN = 22"
definition CD_MIN :: nat where "CD_MIN = 46"
definition ZIP64_LOCATOR_SIZE :: nat where "ZIP64_LOCATOR_SIZE = 20"
definition ZIP64_EOCD_MIN :: nat where "ZIP64_EOCD_MIN = 56"
definition ZIP64_EXTRA_ID :: u16 where "ZIP64_EXTRA_ID = 1"
definition MAX_COMMENT :: nat where "MAX_COMMENT = 0xffff"
definition U32_MAX :: nat where "U32_MAX = 0xffffffff"
definition U16_MAX :: nat where "U16_MAX = 0xffff"
definition MAX_SAFE_INTEGER :: nat where "MAX_SAFE_INTEGER = 2 ^ 53 - 1"
definition DEFAULT_ZIP_CHUNK_BYTES :: nat where "DEFAULT_ZIP_CHUNK_BYTES = 2 ^ 20"

lemmas zip_sizes =
  EOCD_MIN_def CD_MIN_def ZIP64_LOCATOR_SIZE_def ZIP64_EOCD_MIN_def MAX_COMMENT_def U32_MAX_def
  U16_MAX_def

definition zip_error :: "str \<Rightarrow> app_error" where
  "zip_error message = validation message"

definition zip_error_with :: "str \<Rightarrow> str \<Rightarrow> json \<Rightarrow> app_error" where
  "zip_error_with message key v = with_details (validation message) [(key, v)]"

definition lift_fault :: "app_error + 'a \<Rightarrow> 'a outcome" where
  "lift_fault r = (case r of Inl e \<Rightarrow> Inl (Failed e) | Inr x \<Rightarrow> Inr x)"

definition zip_fail :: "str \<Rightarrow> 'a outcome" where
  "zip_fail message = Inl (Failed (zip_error message))"

definition decode_utf8 :: "bytes \<Rightarrow> str" where
  "decode_utf8 bs =
     (case utf8_lossy bs of
        c # rest \<Rightarrow> if c = 0xFEFF then rest else c # rest
      | [] \<Rightarrow> [])"

section \<open>Fields\<close>

definition bytes_at :: "nat \<Rightarrow> bytes \<Rightarrow> nat \<Rightarrow> bytes outcome" where
  "bytes_at n bs at = (if at + n \<le> length bs then Inr (slice_of at n bs) else Inl Panic)"

definition u16_at :: "bytes \<Rightarrow> nat \<Rightarrow> u16 outcome" where
  "u16_at bs at = bindE (bytes_at 2 bs at) (\<lambda>w. Inr (of_nat (le_nat w)))"

definition u32_at :: "bytes \<Rightarrow> nat \<Rightarrow> u32 outcome" where
  "u32_at bs at = bindE (bytes_at 4 bs at) (\<lambda>w. Inr (of_nat (le_nat w)))"

definition u64_at :: "bytes \<Rightarrow> nat \<Rightarrow> nat outcome" where
  "u64_at bs at = bindE (bytes_at 8 bs at) (\<lambda>w. Inr (le_nat w))"

section \<open>The archive file\<close>

record source =
  src_os :: os
  src_data :: bytes
  src_size :: nat

definition source_open :: "os \<Rightarrow> bytes \<Rightarrow> source" where
  "source_open os data = \<lparr>src_os = os, src_data = data, src_size = length data\<rparr>"

definition source_error :: "io_error \<Rightarrow> app_error" where
  "source_error e =
     (case e of UnexpectedEof \<Rightarrow> zip_error (lit ''unexpected end of zip file'')
      | Other_Io s \<Rightarrow> app_error_of_io e)"

definition checked_add :: "nat \<Rightarrow> nat \<Rightarrow> nat option" where
  "checked_add a b = (if a + b < 2 ^ 64 then Some (a + b) else None)"

definition ends_past :: "nat option \<Rightarrow> nat \<Rightarrow> bool" where
  "ends_past stop limit = (case stop of None \<Rightarrow> True | Some e \<Rightarrow> e > limit)"

definition source_read_at :: "source \<Rightarrow> nat \<Rightarrow> nat \<Rightarrow> bytes outcome" where
  "source_read_at src position len =
     (if position > MAX_SAFE_INTEGER
      then Inl (Failed (zip_error_with (lit ''zip declares an impossible offset'')
             (lit ''position'') (JNum (int position))))
      else if ends_past (checked_add position len) (src_size src)
      then zip_fail (lit ''unexpected end of zip file'')
      else (case read_exact_at (src_os src) (src_data src) position len of
              Inl e \<Rightarrow> Inl (Failed (source_error e))
            | Inr buffer \<Rightarrow> Inr buffer))"

definition to_safe :: "nat \<Rightarrow> str \<Rightarrow> nat outcome" where
  "to_safe v what =
     (if v > MAX_SAFE_INTEGER
      then Inl (Failed (zip_error_with (lit ''zip64 '' @ what @ lit '' is too large to read'')
             (lit ''value'') (JStr (dec_str v))))
      else Inr v)"

section \<open>Zip64\<close>

record zip64_end =
  z64_total :: nat
  z64_cd_size :: nat
  z64_cd_offset :: nat

definition read_zip64_end :: "source \<Rightarrow> nat \<Rightarrow> zip64_end outcome" where
  "read_zip64_end src eocd_at =
     (let missing = zip_error (lit ''zip64 end-of-central-directory locator is missing'') in
      if eocd_at < ZIP64_LOCATOR_SIZE then Inl (Failed missing)
      else bindE (source_read_at src (eocd_at - ZIP64_LOCATOR_SIZE) ZIP64_LOCATOR_SIZE) (\<lambda>locator.
        bindE (u32_at locator 0) (\<lambda>sig.
        if sig \<noteq> ZIP64_LOCATOR_SIG then Inl (Failed missing)
        else bindE (u64_at locator 8) (\<lambda>v.
          bindE (to_safe v (lit ''end-of-central-directory record offset'')) (\<lambda>record_at.
          if record_at + ZIP64_EOCD_MIN > src_size src
          then zip_fail (lit ''truncated zip64 end-of-central-directory record'')
          else bindE (source_read_at src record_at ZIP64_EOCD_MIN) (\<lambda>rec.
            bindE (u32_at rec 0) (\<lambda>rsig.
            if rsig \<noteq> ZIP64_EOCD_SIG
            then zip_fail (lit ''corrupt zip64 end-of-central-directory record'')
            else bindE (u64_at rec 32) (\<lambda>t. bindE (to_safe t (lit ''entry count'')) (\<lambda>total.
              bindE (u64_at rec 40) (\<lambda>s.
              bindE (to_safe s (lit ''central directory size'')) (\<lambda>cd_size.
              bindE (u64_at rec 48) (\<lambda>f.
              bindE (to_safe f (lit ''central directory offset'')) (\<lambda>cd_offset.
              Inr \<lparr>z64_total = total, z64_cd_size = cd_size, z64_cd_offset = cd_offset\<rparr>)))))))))))))"

record zip64_sizes =
  z_compressed_size :: nat
  z_uncompressed_size :: nat
  z_local_header_offset :: nat

text \<open>The closure \<^verbatim>\<open>take\<close>: the next 64-bit word of the field, if the base value is saturated.\<close>

definition zip64_take :: "bytes \<Rightarrow> nat \<Rightarrow> str \<Rightarrow> nat \<Rightarrow> nat \<Rightarrow> (nat \<times> nat) outcome" where
  "zip64_take cd limit what base p =
     (if base \<noteq> U32_MAX then Inr (base, p)
      else if p + 8 > limit
      then zip_fail (lit ''zip64 extra field is missing the '' @ what)
      else bindE (u64_at cd p) (\<lambda>w. bindE (to_safe w what) (\<lambda>v. Inr (v, p + 8))))"

function apply_zip64_extra :: "bytes \<Rightarrow> nat \<Rightarrow> nat \<Rightarrow> zip64_sizes \<Rightarrow> zip64_sizes outcome" where
  "apply_zip64_extra cd at extra_end base =
     (if at + 4 > extra_end
      then zip_fail (lit ''zip entry needs a zip64 extra field but has none'')
      else bindE (u16_at cd at) (\<lambda>id. bindE (u16_at cd (at + 2)) (\<lambda>sz.
        let body = at + 4; size = unat sz in
        if body + size > extra_end then zip_fail (lit ''corrupt zip extra field'')
        else if id \<noteq> ZIP64_EXTRA_ID then apply_zip64_extra cd (body + size) extra_end base
        else
          bindE (zip64_take cd (body + size) (lit ''uncompressed size'')
                   (z_uncompressed_size base) body) (\<lambda>(uncompressed, p1).
          bindE (zip64_take cd (body + size) (lit ''compressed size'')
                   (z_compressed_size base) p1) (\<lambda>(compressed, p2).
          bindE (zip64_take cd (body + size) (lit ''local header offset'')
                   (z_local_header_offset base) p2) (\<lambda>(offset, _).
          Inr \<lparr>z_compressed_size = compressed, z_uncompressed_size = uncompressed,
               z_local_header_offset = offset\<rparr>))))))"
  by pat_completeness auto
termination
  by (relation "measure (\<lambda>(cd, at, extra_end, base). extra_end - at)") auto

declare apply_zip64_extra.simps [simp del]

section \<open>The central directory\<close>

fun eocd_scan :: "bytes \<Rightarrow> nat \<Rightarrow> nat option outcome" where
  "eocd_scan tail 0 =
     bindE (u32_at tail 0) (\<lambda>sig. Inr (if sig = EOCD_SIG then Some 0 else None))"
| "eocd_scan tail (Suc i) =
     bindE (u32_at tail (Suc i)) (\<lambda>sig.
       if sig = EOCD_SIG then Inr (Some (Suc i)) else eocd_scan tail i)"

definition entry_sizes :: "bytes \<Rightarrow> nat \<Rightarrow> nat \<Rightarrow> zip64_sizes \<Rightarrow> zip64_sizes outcome" where
  "entry_sizes cd extra_start extra_end base =
     (if z_compressed_size base = U32_MAX \<or> z_uncompressed_size base = U32_MAX
         \<or> z_local_header_offset base = U32_MAX
      then apply_zip64_extra cd extra_start extra_end base
      else Inr base)"

definition read_entry_at :: "bytes \<Rightarrow> nat \<Rightarrow> (zip_entry \<times> nat) outcome" where
  "read_entry_at cd p =
     (if p + CD_MIN > length cd then zip_fail (lit ''corrupt zip central directory'')
      else bindE (u32_at cd p) (\<lambda>sig.
      if sig \<noteq> CD_SIG then zip_fail (lit ''corrupt zip central directory'')
      else bindE (u16_at cd (p + 28)) (\<lambda>nl. bindE (u16_at cd (p + 30)) (\<lambda>el.
        bindE (u16_at cd (p + 32)) (\<lambda>cl.
        let name_length = unat nl; extra_length = unat el;
            next_at = p + CD_MIN + name_length + extra_length + unat cl in
        if next_at > length cd then zip_fail (lit ''corrupt zip central directory'')
        else bindE (u32_at cd (p + 20)) (\<lambda>cs. bindE (u32_at cd (p + 24)) (\<lambda>us.
          bindE (u32_at cd (p + 42)) (\<lambda>lo.
          let base = \<lparr>z_compressed_size = unat cs, z_uncompressed_size = unat us,
                      z_local_header_offset = unat lo\<rparr> in
          bindE (entry_sizes cd (p + CD_MIN + name_length)
                   (p + CD_MIN + name_length + extra_length) base) (\<lambda>sizes.
          bindE (u16_at cd (p + 10)) (\<lambda>method.
          bindE (bytes_at name_length cd (p + CD_MIN)) (\<lambda>name.
          bindE (u16_at cd (p + 4)) (\<lambda>made_by. bindE (u16_at cd (p + 6)) (\<lambda>needed.
          bindE (u16_at cd (p + 8)) (\<lambda>flags. bindE (u16_at cd (p + 12)) (\<lambda>mtime.
          bindE (u16_at cd (p + 14)) (\<lambda>mdate. bindE (u32_at cd (p + 16)) (\<lambda>crc.
          bindE (u16_at cd (p + 36)) (\<lambda>iattr. bindE (u32_at cd (p + 38)) (\<lambda>eattr.
          Inr (\<lparr>ze_name = decode_utf8 name, ze_method = method,
                ze_compressed_size = z_compressed_size sizes,
                ze_uncompressed_size = z_uncompressed_size sizes,
                ze_local_header_offset = z_local_header_offset sizes,
                ze_flags = flags, ze_crc = crc, ze_mod_time = mtime, ze_mod_date = mdate,
                ze_version_made_by = made_by, ze_version_needed = needed,
                ze_internal_attributes = iattr, ze_external_attributes = eattr\<rparr>,
               next_at))))))))))))))))))))"

fun read_records :: "nat \<Rightarrow> bytes \<Rightarrow> nat \<Rightarrow> zip_entry list outcome" where
  "read_records 0 cd p = Inr []"
| "read_records (Suc n) cd p =
     bindE (read_entry_at cd p) (\<lambda>(entry, next_at).
       bindE (read_records n cd next_at) (\<lambda>entries. Inr (entry # entries)))"

definition read_entries :: "source \<Rightarrow> zip_entry list outcome" where
  "read_entries src =
     (let size = src_size src in
      if size < EOCD_MIN then zip_fail (lit ''file is too small to be a zip'')
      else let tail_length = min size (EOCD_MIN + MAX_COMMENT); tail_start = size - tail_length in
        bindE (source_read_at src tail_start tail_length) (\<lambda>tail.
        bindE (eocd_scan tail (length tail - EOCD_MIN)) (\<lambda>found.
        case found of
          None \<Rightarrow> zip_fail (lit ''no zip end-of-central-directory record'')
        | Some eocd \<Rightarrow>
            bindE (u16_at tail (eocd + 10)) (\<lambda>t.
            bindE (u32_at tail (eocd + 12)) (\<lambda>s.
            bindE (u32_at tail (eocd + 16)) (\<lambda>f.
            let total = unat t; cd_size = unat s; cd_offset = unat f in
            bindE (if total = U16_MAX \<or> cd_size = U32_MAX \<or> cd_offset = U32_MAX
                   then bindE (read_zip64_end src (tail_start + eocd)) (\<lambda>e.
                     Inr (if total = U16_MAX then z64_total e else total,
                          if cd_size = U32_MAX then z64_cd_size e else cd_size,
                          if cd_offset = U32_MAX then z64_cd_offset e else cd_offset))
                   else Inr (total, cd_size, cd_offset)) (\<lambda>(total, cd_size, cd_offset).
            if cd_offset + cd_size > size
            then zip_fail (lit ''zip central directory lies outside the file'')
            else bindE (source_read_at src cd_offset cd_size) (\<lambda>cd.
              read_records total cd 0))))))))"

definition read_zip_entries :: "os \<Rightarrow> bytes \<Rightarrow> zip_entry list outcome" where
  "read_zip_entries os data = read_entries (source_open os data)"

definition find_zip_entry :: "zip_entry list \<Rightarrow> str \<Rightarrow> zip_entry option" where
  "find_zip_entry entries name = find (\<lambda>entry. ze_name entry = name) entries"

section \<open>One entry, buffered\<close>

definition data_offset_of :: "source \<Rightarrow> zip_entry \<Rightarrow> nat outcome" where
  "data_offset_of src entry =
     bindE (source_read_at src (ze_local_header_offset entry) 30) (\<lambda>header.
     bindE (u32_at header 0) (\<lambda>sig.
     if sig \<noteq> LOCAL_SIG then zip_fail (lit ''corrupt zip local header'')
     else bindE (u16_at header 26) (\<lambda>nl. bindE (u16_at header 28) (\<lambda>el.
       let data_offset = ze_local_header_offset entry + 30 + unat nl + unat el in
       if ends_past (checked_add data_offset (ze_compressed_size entry)) (src_size src)
       then zip_fail (lit ''unexpected end of zip file'')
       else Inr data_offset))))"

definition assert_declared_size :: "nat \<Rightarrow> nat \<Rightarrow> unit outcome" where
  "assert_declared_size actual declared =
     (if actual \<noteq> declared
      then Inl (Failed (with_details
             (zip_error (lit ''zip entry does not yield its declared uncompressed size''))
             [(lit ''declared'', JNum (int declared)), (lit ''actual'', JNum (int actual))]))
      else Inr ())"

definition unsupported_method :: "u16 \<Rightarrow> app_error" where
  "unsupported_method method =
     zip_error (lit ''unsupported zip compression method '' @ dec_str (unat method))"

text \<open>
  What an inflater reports when a read fails: the failure of the archive file it recorded
  (\<^verbatim>\<open>SourceFailure\<close>), if any, and its own error.
\<close>

record inflate_fault =
  if_recorded :: "io_error option"
  if_error :: str

definition explain :: "inflate_fault \<Rightarrow> app_error" where
  "explain failure =
     (case if_recorded failure of
        Some UnexpectedEof \<Rightarrow> zip_error (lit ''unexpected end of zip file'')
      | Some (Other_Io s) \<Rightarrow> app_error_of_io (Other_Io s)
      | None \<Rightarrow> zip_error_with (lit ''zip entry could not be inflated'') (lit ''cause'')
                  (JStr (if_error failure)))"

definition saturating_add :: "nat \<Rightarrow> nat \<Rightarrow> nat" where
  "saturating_add a b = min (a + b) (2 ^ 64 - 1)"

text \<open>\<^verbatim>\<open>Read::take(limit).read_to_end\<close> on any reader.\<close>

function read_to_end ::
  "('r \<Rightarrow> nat \<Rightarrow> ('e + bytes) \<times> 'r) \<Rightarrow> nat \<Rightarrow> 'r \<Rightarrow> ('e + bytes) \<times> 'r" where
  "read_to_end rd limit r =
     (if limit = 0 then (Inr [], r)
      else (case rd r limit of
              (Inl e, r1) \<Rightarrow> (Inl e, r1)
            | (Inr got, r1) \<Rightarrow>
                if got = [] then (Inr [], r1)
                else (case read_to_end rd (limit - length got) r1 of
                        (Inl e, r2) \<Rightarrow> (Inl e, r2)
                      | (Inr rest, r2) \<Rightarrow> (Inr (got @ rest), r2))))"
  by pat_completeness auto
termination
  by (relation "measure (\<lambda>(rd, limit, r). limit)") auto

declare read_to_end.simps [simp del]

definition inflate_entry ::
  "(source \<Rightarrow> nat \<Rightarrow> nat \<Rightarrow> 'd) \<Rightarrow> ('d \<Rightarrow> nat \<Rightarrow> (inflate_fault + bytes) \<times> 'd) \<Rightarrow>
   source \<Rightarrow> nat \<Rightarrow> zip_entry \<Rightarrow> bytes outcome" where
  "inflate_entry inflate_new inflate_read src data_offset entry =
     (let decoder = inflate_new src data_offset (ze_compressed_size entry);
          declared = ze_uncompressed_size entry in
      case fst (read_to_end inflate_read (saturating_add declared 1) decoder) of
        Inl failure \<Rightarrow> Inl (Failed (explain failure))
      | Inr inflated \<Rightarrow>
          bindE (assert_declared_size (length inflated) declared) (\<lambda>_. Inr inflated))"

definition read_entry_from ::
  "(source \<Rightarrow> nat \<Rightarrow> nat \<Rightarrow> 'd) \<Rightarrow> ('d \<Rightarrow> nat \<Rightarrow> (inflate_fault + bytes) \<times> 'd) \<Rightarrow>
   source \<Rightarrow> zip_entry \<Rightarrow> bytes outcome" where
  "read_entry_from inflate_new inflate_read src entry =
     bindE (data_offset_of src entry) (\<lambda>data_offset.
       if ze_method entry = 0 then
         bindE (source_read_at src data_offset (ze_compressed_size entry)) (\<lambda>data.
         bindE (assert_declared_size (length data) (ze_uncompressed_size entry)) (\<lambda>_. Inr data))
       else if ze_method entry = 8 then
         inflate_entry inflate_new inflate_read src data_offset entry
       else Inl (Failed (unsupported_method (ze_method entry))))"

definition read_zip_entry_text ::
  "(source \<Rightarrow> nat \<Rightarrow> nat \<Rightarrow> 'd) \<Rightarrow> ('d \<Rightarrow> nat \<Rightarrow> (inflate_fault + bytes) \<times> 'd) \<Rightarrow>
   source \<Rightarrow> zip_entry \<Rightarrow> str outcome" where
  "read_zip_entry_text inflate_new inflate_read src entry =
     bindE (read_entry_from inflate_new inflate_read src entry) (\<lambda>bs. Inr (decode_utf8 bs))"

definition reads_as_zip :: "os \<Rightarrow> bytes \<Rightarrow> bool" where
  "reads_as_zip os data = is_ok (read_zip_entries os data)"

section \<open>One entry, in chunks\<close>

record range_reader =
  rr_os :: os
  rr_data :: bytes
  rr_position :: nat
  rr_end :: nat

definition range_new :: "source \<Rightarrow> nat \<Rightarrow> nat \<Rightarrow> range_reader" where
  "range_new src start len =
     \<lparr>rr_os = src_os src, rr_data = src_data src, rr_position = start,
      rr_end = saturating_add start len\<rparr>"

definition range_read :: "range_reader \<Rightarrow> nat \<Rightarrow> (io_error + bytes) \<times> range_reader" where
  "range_read r n =
     (if rr_position r \<ge> rr_end r then (Inr [], r)
      else let want = min (rr_end r - rr_position r) n in
        (case read_at (rr_os r) (rr_data r) (rr_position r) want of
           Inl e \<Rightarrow> (Inl e, r)
         | Inr got \<Rightarrow>
             if got = [] then (Inl UnexpectedEof, r)
             else (Inr got, r\<lparr>rr_position := rr_position r + length got\<rparr>)))"

datatype 'd chunk_reader = Stored range_reader | Deflated 'd

record 'd entry_chunks =
  ec_buffer :: nat
  ec_declared :: nat
  ec_produced :: nat
  ec_finished :: bool
  ec_reader :: "'d chunk_reader"

definition chunks_from ::
  "(source \<Rightarrow> nat \<Rightarrow> nat \<Rightarrow> 'd) \<Rightarrow> source \<Rightarrow> zip_entry \<Rightarrow> nat option \<Rightarrow> 'd entry_chunks outcome" where
  "chunks_from inflate_new src entry max_chunk_bytes =
     (let max_chunk = max (case max_chunk_bytes of None \<Rightarrow> DEFAULT_ZIP_CHUNK_BYTES | Some n \<Rightarrow> n) 1 in
      if ze_method entry \<noteq> 0 \<and> ze_method entry \<noteq> 8
      then Inl (Failed (unsupported_method (ze_method entry)))
      else bindE (data_offset_of src entry) (\<lambda>data_offset.
        bindE (if ze_method entry = 0
               then bindE (assert_declared_size (ze_compressed_size entry) (ze_uncompressed_size entry))
                      (\<lambda>_. Inr (Stored (range_new src data_offset (ze_compressed_size entry))))
               else Inr (Deflated (inflate_new src data_offset (ze_compressed_size entry)))) (\<lambda>reader.
        Inr \<lparr>ec_buffer = min (max (saturating_add (ze_uncompressed_size entry) 1) 1) max_chunk,
             ec_declared = ze_uncompressed_size entry, ec_produced = 0, ec_finished = False,
             ec_reader = reader\<rparr>)))"

definition chunk_read ::
  "('d \<Rightarrow> nat \<Rightarrow> (inflate_fault + bytes) \<times> 'd) \<Rightarrow> 'd chunk_reader \<Rightarrow> nat \<Rightarrow>
   (app_error + bytes) \<times> 'd chunk_reader" where
  "chunk_read inflate_read reader n =
     (case reader of
        Stored rr \<Rightarrow>
          (case range_read rr n of
             (Inl e, r1) \<Rightarrow> (Inl (source_error e), Stored r1)
           | (Inr got, r1) \<Rightarrow> (Inr got, Stored r1))
      | Deflated d \<Rightarrow>
          (case inflate_read d n of
             (Inl failure, d1) \<Rightarrow> (Inl (explain failure), Deflated d1)
           | (Inr got, d1) \<Rightarrow> (Inr got, Deflated d1)))"

text \<open>
  The loop of \<^verbatim>\<open>EntryChunks::fill\<close>: bytes up to the buffer's free space, and whether the entry
  ended.
\<close>

function fill_loop ::
  "('r \<Rightarrow> nat \<Rightarrow> ('e + bytes) \<times> 'r) \<Rightarrow> nat \<Rightarrow> 'r \<Rightarrow> ('e + bytes \<times> bool) \<times> 'r" where
  "fill_loop rd free r =
     (if free = 0 then (Inr ([], False), r)
      else (case rd r free of
              (Inl e, r1) \<Rightarrow> (Inl e, r1)
            | (Inr got, r1) \<Rightarrow>
                if got = [] then (Inr ([], True), r1)
                else (case fill_loop rd (free - length got) r1 of
                        (Inl e, r2) \<Rightarrow> (Inl e, r2)
                      | (Inr (rest, ended), r2) \<Rightarrow> (Inr (got @ rest, ended), r2))))"
  by pat_completeness auto
termination
  by (relation "measure (\<lambda>(rd, free, r). free)") auto

declare fill_loop.simps [simp del]

definition pull_chunk ::
  "('d \<Rightarrow> nat \<Rightarrow> (inflate_fault + bytes) \<times> 'd) \<Rightarrow> 'd entry_chunks \<Rightarrow>
   bytes option outcome \<times> 'd entry_chunks" where
  "pull_chunk inflate_read ec =
     (if ec_finished ec then (Inr None, ec)
      else (case fill_loop (chunk_read inflate_read) (ec_buffer ec) (ec_reader ec) of
              (Inl e, r1) \<Rightarrow> (Inl (Failed e), ec\<lparr>ec_reader := r1, ec_finished := True\<rparr>)
            | (Inr (chunk, ended), r1) \<Rightarrow>
                let ec1 = ec\<lparr>ec_reader := r1, ec_finished := ended,
                             ec_produced := ec_produced ec + length chunk\<rparr> in
                if ec_produced ec1 > ec_declared ec1
                   \<or> ec_finished ec1 \<and> ec_produced ec1 \<noteq> ec_declared ec1
                then (case assert_declared_size (ec_produced ec1) (ec_declared ec1) of
                        Inl f \<Rightarrow> (Inl f, ec1\<lparr>ec_finished := True\<rparr>)
                      | Inr _ \<Rightarrow> (Inl Panic, ec1\<lparr>ec_finished := True\<rparr>))
                else if chunk = [] then (Inr None, ec1)
                else (Inr (Some chunk), ec1)))"

text \<open>All the chunks of a stream, as its \<^verbatim>\<open>Iterator\<close> yields them until the first error or the end.\<close>

function collect_chunks ::
  "('d \<Rightarrow> nat \<Rightarrow> (inflate_fault + bytes) \<times> 'd) \<Rightarrow> 'd entry_chunks \<Rightarrow> bytes outcome" where
  "collect_chunks inflate_read ec =
     (case pull_chunk inflate_read ec of
        (Inl f, _) \<Rightarrow> Inl f
      | (Inr None, _) \<Rightarrow> Inr []
      | (Inr (Some chunk), ec1) \<Rightarrow>
          bindE (collect_chunks inflate_read ec1) (\<lambda>rest. Inr (chunk @ rest)))"
  by pat_completeness auto
termination
  by (relation "measure (\<lambda>(_, ec). Suc (ec_declared ec) - ec_produced ec)")
    (auto simp: pull_chunk_def Let_def neq_Nil_conv split: if_splits prod.splits sum.splits)

declare collect_chunks.simps [simp del]

section \<open>Nothing panics\<close>

definition no_panic :: "'a outcome \<Rightarrow> bool" where
  "no_panic r \<longleftrightarrow> r \<noteq> Inl Panic"

named_theorems no_panics "computations that do not index out of range"

lemma no_panic_simps [simp]: "no_panic (Inr x)" "no_panic (Inl (Failed e))" "no_panic (zip_fail m)"
  by (simp_all add: no_panic_def zip_fail_def)

lemma no_panic_bind [no_panics]:
  "no_panic m \<Longrightarrow> (\<And>x. m = Inr x \<Longrightarrow> no_panic (k x)) \<Longrightarrow> no_panic (bindE m k)"
  by (cases m) (auto simp: no_panic_def)

lemma no_panic_if [no_panics]:
  "(b \<Longrightarrow> no_panic x) \<Longrightarrow> (\<not> b \<Longrightarrow> no_panic y) \<Longrightarrow> no_panic (if b then x else y)"
  by simp

lemma no_panic_fields [no_panics]:
  "at + n \<le> length bs \<Longrightarrow> no_panic (bytes_at n bs at)"
  "at + 2 \<le> length bs \<Longrightarrow> no_panic (u16_at bs at)"
  "at + 4 \<le> length bs \<Longrightarrow> no_panic (u32_at bs at)"
  "at + 8 \<le> length bs \<Longrightarrow> no_panic (u64_at bs at)"
  by (simp_all add: bytes_at_def u16_at_def u32_at_def u64_at_def)

lemma no_panic_source [no_panics]: "no_panic (source_read_at src position len)"
  by (auto simp: source_read_at_def split: sum.splits)

lemma no_panic_to_safe [no_panics]: "no_panic (to_safe v what)"
  by (simp add: to_safe_def)

lemma source_read_at_length: "source_read_at src position len = Inr bs \<Longrightarrow> length bs = len"
  by (auto simp: source_read_at_def zip_fail_def split: if_splits sum.splits dest: read_exact_at_length)

lemma source_read_at_range:
  "source_read_at src position len = Inr bs \<Longrightarrow>
     position \<le> MAX_SAFE_INTEGER \<and> position + len \<le> src_size src"
  by (auto simp: source_read_at_def zip_fail_def ends_past_def checked_add_def
      split: if_splits sum.splits option.splits)

lemma to_safe_bound: "to_safe v what = Inr w \<Longrightarrow> w = v \<and> w \<le> MAX_SAFE_INTEGER"
  by (auto simp: to_safe_def split: if_splits)

lemma no_panic_zip64_end [no_panics]: "no_panic (read_zip64_end src at)"
  unfolding read_zip64_end_def Let_def
  by (intro no_panics no_panic_simps)
    (auto dest!: source_read_at_length simp: ZIP64_LOCATOR_SIZE_def ZIP64_EOCD_MIN_def)

lemma no_panic_zip64_take [no_panics]: "limit \<le> length cd \<Longrightarrow> no_panic (zip64_take cd limit what base p)"
  unfolding zip64_take_def by (intro no_panics no_panic_simps) auto

lemma no_panic_zip64_extra [no_panics]:
  "extra_end \<le> length cd \<Longrightarrow> no_panic (apply_zip64_extra cd at extra_end base)"
proof (induction cd at extra_end base rule: apply_zip64_extra.induct)
  case (1 cd at extra_end base)
  show ?case
    by (subst apply_zip64_extra.simps, unfold Let_def split_def)
      (intro no_panics no_panic_simps; use 1 in \<open>simp add: Let_def\<close>)
qed

lemma no_panic_entry_sizes [no_panics]:
  "extra_end \<le> length cd \<Longrightarrow> no_panic (entry_sizes cd at extra_end base)"
  unfolding entry_sizes_def by (intro no_panics no_panic_simps)

lemma no_panic_read_entry_at [no_panics]: "no_panic (read_entry_at cd p)"
  unfolding read_entry_at_def Let_def
  by (intro no_panics no_panic_simps) (simp_all add: CD_MIN_def)

lemma no_panic_read_records [no_panics]: "no_panic (read_records n cd p)"
proof (induction n arbitrary: p)
  case 0
  then show ?case by simp
next
  case (Suc n)
  then show ?case by (auto intro!: no_panics simp: split_def)
qed

lemma no_panic_eocd_scan [no_panics]: "i + 4 \<le> length tail \<Longrightarrow> no_panic (eocd_scan tail i)"
  by (induction i) (auto intro!: no_panics)

lemma eocd_scan_found: "eocd_scan tail i = Inr (Some e) \<Longrightarrow> e \<le> i"
  by (induction i) (auto simp: bindE_eq_Inr split: if_splits)

lemma no_panic_read_entries [no_panics]: "no_panic (read_entries src)"
proof -
  have tail: "no_panic (case found of
      None \<Rightarrow> zip_fail (lit ''no zip end-of-central-directory record'')
    | Some eocd \<Rightarrow> k eocd)" if "\<And>eocd. found = Some eocd \<Longrightarrow> no_panic (k eocd)" for found k
    using that by (cases found) auto
  show ?thesis
    unfolding read_entries_def Let_def
    by (intro no_panics no_panic_simps tail)
      (auto simp: EOCD_MIN_def split_def dest!: source_read_at_length eocd_scan_found intro!: no_panics)
qed

section \<open>What the directory yields is in range\<close>

lemma zip64_take_bound:
  "zip64_take cd limit what base p = Inr (v, q) \<Longrightarrow> base \<le> MAX_SAFE_INTEGER \<Longrightarrow> v \<le> MAX_SAFE_INTEGER"
  by (auto simp: zip64_take_def zip_fail_def bindE_eq_Inr split: if_splits dest: to_safe_bound)

definition sizes_safe :: "zip64_sizes \<Rightarrow> bool" where
  "sizes_safe z \<longleftrightarrow> z_compressed_size z \<le> MAX_SAFE_INTEGER \<and>
     z_uncompressed_size z \<le> MAX_SAFE_INTEGER \<and> z_local_header_offset z \<le> MAX_SAFE_INTEGER"

definition entry_safe :: "zip_entry \<Rightarrow> bool" where
  "entry_safe e \<longleftrightarrow> ze_compressed_size e \<le> MAX_SAFE_INTEGER \<and>
     ze_uncompressed_size e \<le> MAX_SAFE_INTEGER \<and> ze_local_header_offset e \<le> MAX_SAFE_INTEGER"

lemma apply_zip64_extra_safe:
  "apply_zip64_extra cd at extra_end base = Inr sizes \<Longrightarrow> sizes_safe base \<Longrightarrow> sizes_safe sizes"
proof (induction cd at extra_end base rule: apply_zip64_extra.induct)
  case (1 cd at extra_end base)
  from 1(2,3) 1(1) show ?case
    by (subst (asm) apply_zip64_extra.simps)
      (auto simp: zip_fail_def bindE_eq_Inr Let_def sizes_safe_def split: if_splits
        dest!: zip64_take_bound)
qed

lemma u32_safe: "unat (w :: u32) \<le> MAX_SAFE_INTEGER"
proof -
  have "unat w < 2 ^ 32" using unsigned_less [of w] by simp
  then show ?thesis by (simp add: MAX_SAFE_INTEGER_def)
qed

lemma U32_MAX_safe: "U32_MAX \<le> MAX_SAFE_INTEGER"
  by (simp add: U32_MAX_def MAX_SAFE_INTEGER_def)

lemma entry_sizes_safe:
  "entry_sizes cd a b \<lparr>z_compressed_size = unat (c :: u32), z_uncompressed_size = unat (u :: u32),
       z_local_header_offset = unat (l :: u32)\<rparr> = Inr z \<Longrightarrow>
     z_compressed_size z \<le> MAX_SAFE_INTEGER \<and> z_uncompressed_size z \<le> MAX_SAFE_INTEGER \<and>
     z_local_header_offset z \<le> MAX_SAFE_INTEGER"
  using apply_zip64_extra_safe [of cd a b _ z]
  by (auto simp: entry_sizes_def u32_safe sizes_safe_def split: if_splits)

lemma read_entry_at_safe:
  "read_entry_at cd p = Inr (e, next_at) \<Longrightarrow> entry_safe e \<and> p + CD_MIN \<le> next_at \<and> next_at \<le> length cd"
  unfolding read_entry_at_def Let_def
  by (auto simp: zip_fail_def bindE_eq_Inr entry_safe_def split: if_splits dest!: entry_sizes_safe)

lemma read_records_safe:
  "read_records n cd p = Inr es \<Longrightarrow> p \<le> length cd \<Longrightarrow>
     (\<forall>e \<in> set es. entry_safe e) \<and> length es = n \<and> p + n * CD_MIN \<le> length cd"
proof (induction n arbitrary: p es)
  case 0
  then show ?case by simp
next
  case (Suc n)
  then obtain e next_at es' where
    e: "read_entry_at cd p = Inr (e, next_at)" and es': "read_records n cd next_at = Inr es'" "es = e # es'"
    by (auto simp: bindE_eq_Inr)
  from Suc.IH [OF es'(1)] read_entry_at_safe [OF e] es'(2) show ?case by auto
qed

lemma read_entries_safe:
  assumes "read_entries src = Inr es"
  shows "(\<forall>e \<in> set es. entry_safe e) \<and> length es * CD_MIN \<le> src_size src"
proof -
  from assms obtain total cd_offset cd_size cd where
    cd: "source_read_at src cd_offset cd_size = Inr cd" and es: "read_records total cd 0 = Inr es"
    unfolding read_entries_def Let_def
    by (auto simp: zip_fail_def bindE_eq_Inr split: if_splits option.splits)
  have "length cd \<le> src_size src"
    using source_read_at_length [OF cd] source_read_at_range [OF cd] by simp
  with read_records_safe [OF es] show ?thesis by auto
qed

section \<open>The contract of a byte reader\<close>

text \<open>
  What both read loops rely on: the reader has some bytes left; a read into \<open>n\<close> bytes of space
  yields a prefix of them, non-empty while any are left; once none are left it reports the end, or
  fails when the stream is broken there (\<open>fails\<close>).
\<close>

locale byte_reader =
  fixes rd :: "'r \<Rightarrow> nat \<Rightarrow> ('e + bytes) \<times> 'r"
    and remaining :: "'r \<Rightarrow> bytes"
    and fails :: "'r \<Rightarrow> bool"
    and valid :: "'r \<Rightarrow> bool"
  assumes rd_more: "valid r \<Longrightarrow> 0 < n \<Longrightarrow> remaining r \<noteq> [] \<Longrightarrow>
      \<exists>got r1. rd r n = (Inr got, r1) \<and> got \<noteq> [] \<and> length got \<le> n \<and>
        remaining r = got @ remaining r1 \<and> valid r1 \<and> fails r1 = fails r"
    and rd_end: "valid r \<Longrightarrow> 0 < n \<Longrightarrow> remaining r = [] \<Longrightarrow>
      if fails r then \<exists>e r1. rd r n = (Inl e, r1)
      else \<exists>r1. rd r n = (Inr [], r1) \<and> remaining r1 = [] \<and> valid r1 \<and> \<not> fails r1"
begin

lemma read_to_end_spec:
  "valid r \<Longrightarrow>
     if length (remaining r) < limit \<and> fails r then \<not> is_ok (fst (read_to_end rd limit r))
     else fst (read_to_end rd limit r) = Inr (take limit (remaining r))"
proof (induction limit arbitrary: r rule: less_induct)
  case (less limit)
  show ?case
  proof (cases "limit = 0")
    case True
    then show ?thesis by (simp add: read_to_end.simps)
  next
    case lim: False
    show ?thesis
    proof (cases "remaining r = []")
      case True
      show ?thesis
      proof (cases "fails r")
        case True
        then obtain e r1 where "rd r limit = (Inl e, r1)"
          using rd_end [OF less.prems, of limit] lim \<open>remaining r = []\<close> by auto
        with True lim \<open>remaining r = []\<close> show ?thesis by (simp add: read_to_end.simps)
      next
        case False
        then obtain r1 where "rd r limit = (Inr [], r1)"
          using rd_end [OF less.prems, of limit] lim \<open>remaining r = []\<close> by auto
        with False lim \<open>remaining r = []\<close> show ?thesis by (simp add: read_to_end.simps)
      qed
    next
      case False
      then obtain got r1 where g: "rd r limit = (Inr got, r1)" "got \<noteq> []" "length got \<le> limit"
        "remaining r = got @ remaining r1" "valid r1" "fails r1 = fails r"
        using rd_more [OF less.prems, of limit] lim by blast
      then have "limit - length got < limit" by (cases got) auto
      note ih = less.IH [OF this g(5)]
      obtain res r2 where res: "read_to_end rd (limit - length got) r1 = (res, r2)"
        by (cases "read_to_end rd (limit - length got) r1")
      have "read_to_end rd limit r =
          (case res of Inl e \<Rightarrow> (Inl e, r2) | Inr rest \<Rightarrow> (Inr (got @ rest), r2))"
        using g(1,2) lim res by (subst read_to_end.simps) (simp split: sum.splits)
      with ih g res show ?thesis by (auto split: sum.splits if_splits)
    qed
  qed
qed

lemma fill_loop_spec:
  "valid r \<Longrightarrow>
     if length (remaining r) < free \<and> fails r then \<not> is_ok (fst (fill_loop rd free r))
     else \<exists>r1. fill_loop rd free r = (Inr (take free (remaining r), length (remaining r) < free), r1) \<and>
            valid r1 \<and> fails r1 = fails r \<and> remaining r1 = drop free (remaining r)"
proof (induction free arbitrary: r rule: less_induct)
  case (less free)
  show ?case
  proof (cases "free = 0")
    case True
    then show ?thesis using less.prems by (simp add: fill_loop.simps)
  next
    case lim: False
    show ?thesis
    proof (cases "remaining r = []")
      case True
      show ?thesis
      proof (cases "fails r")
        case True
        then obtain e r1 where "rd r free = (Inl e, r1)"
          using rd_end [OF less.prems, of free] lim \<open>remaining r = []\<close> by auto
        with True lim \<open>remaining r = []\<close> show ?thesis by (simp add: fill_loop.simps)
      next
        case False
        then obtain r1 where "rd r free = (Inr [], r1)" "remaining r1 = []" "valid r1" "\<not> fails r1"
          using rd_end [OF less.prems, of free] lim \<open>remaining r = []\<close> by auto
        with False lim \<open>remaining r = []\<close> show ?thesis by (simp add: fill_loop.simps)
      qed
    next
      case False
      then obtain got r1 where g: "rd r free = (Inr got, r1)" "got \<noteq> []" "length got \<le> free"
        "remaining r = got @ remaining r1" "valid r1" "fails r1 = fails r"
        using rd_more [OF less.prems, of free] lim by blast
      then have "free - length got < free" by (cases got) auto
      note ih = less.IH [OF this g(5)]
      obtain res r2 where res: "fill_loop rd (free - length got) r1 = (res, r2)"
        by (cases "fill_loop rd (free - length got) r1")
      have "fill_loop rd free r =
          (case res of Inl e \<Rightarrow> (Inl e, r2) | Inr (rest, ended) \<Rightarrow> (Inr (got @ rest, ended), r2))"
        using g(1,2) lim res by (subst fill_loop.simps) (simp split: sum.splits)
      with ih g res show ?thesis by (auto split: sum.splits if_splits)
    qed
  qed
qed

end

definition range_remaining :: "range_reader \<Rightarrow> bytes" where
  "range_remaining r = slice_of (rr_position r) (rr_end r - rr_position r) (rr_data r)"

definition range_fails :: "range_reader \<Rightarrow> bool" where
  "range_fails r \<longleftrightarrow> length (rr_data r) < rr_end r \<and> rr_position r < rr_end r"

definition range_valid :: "range_reader \<Rightarrow> bool" where
  "range_valid r \<longleftrightarrow> os_delivers (rr_os r)"

lemma slice_of_extend:
  "k \<le> n \<Longrightarrow> slice_of p n xs = slice_of p k xs @ slice_of (p + k) (n - k) xs"
proof -
  assume "k \<le> n"
  then have "take n (drop p xs) = take k (drop p xs) @ take (n - k) (drop k (drop p xs))"
    by (metis le_add_diff_inverse take_add)
  then show ?thesis by (simp add: slice_of_def add.commute)
qed

interpretation range: byte_reader range_read range_remaining range_fails range_valid
proof unfold_locales
  fix r :: range_reader and n :: nat
  assume v: "range_valid r" and n: "0 < n"
  {
    assume ne: "range_remaining r \<noteq> []"
    then have pos: "rr_position r < rr_end r" "rr_position r < length (rr_data r)"
      by (auto simp: range_remaining_def slice_of_def)
    let ?want = "min (rr_end r - rr_position r) n"
    obtain k where k: "0 < k" "k \<le> ?want"
        "read_at (rr_os r) (rr_data r) (rr_position r) ?want = Inr (slice_of (rr_position r) k (rr_data r))"
      using read_at_delivers [of "rr_os r" ?want] v n pos by (auto simp: range_valid_def)
    let ?got = "slice_of (rr_position r) k (rr_data r)"
    let ?r1 = "r\<lparr>rr_position := rr_position r + length ?got\<rparr>"
    have got: "?got \<noteq> []" using k(1) pos(2) by (simp add: slice_of_def)
    have len: "length ?got \<le> rr_end r - rr_position r" "length ?got \<le> n" using k(2) by auto
    have read: "range_read r n = (Inr ?got, ?r1)"
      using pos k(3) got by (simp add: range_read_def)
    have "?got = slice_of (rr_position r) (length ?got) (rr_data r)"
      by (auto simp: slice_of_def min_def)
    then have rem: "range_remaining r = ?got @ range_remaining ?r1"
      using slice_of_extend [OF len(1), of "rr_position r" "rr_data r"]
      by (simp add: range_remaining_def del: length_slice_of)
    have "length ?got \<le> length (rr_data r) - rr_position r" by simp
    then have "rr_position r + length ?got \<le> length (rr_data r)" using pos(2) by linarith
    then have "range_fails ?r1 = range_fails r"
      using pos by (auto simp: range_fails_def simp del: length_slice_of)
    then show "\<exists>got r1. range_read r n = (Inr got, r1) \<and> got \<noteq> [] \<and> length got \<le> n \<and>
        range_remaining r = got @ range_remaining r1 \<and> range_valid r1 \<and> range_fails r1 = range_fails r"
      using read got len(2) rem v by (intro exI [of _ ?got] exI [of _ ?r1]) (simp add: range_valid_def)
  next
    assume e: "range_remaining r = []"
    show "if range_fails r then \<exists>e r1. range_read r n = (Inl e, r1)
      else \<exists>r1. range_read r n = (Inr [], r1) \<and> range_remaining r1 = [] \<and> range_valid r1 \<and> \<not> range_fails r1"
    proof (cases "rr_end r \<le> rr_position r")
      case True
      with e v show ?thesis by (simp add: range_read_def range_fails_def)
    next
      case False
      then have over: "length (rr_data r) \<le> rr_position r"
        using e by (auto simp: range_remaining_def slice_of_def)
      obtain k where "read_at (rr_os r) (rr_data r) (rr_position r) (min (rr_end r - rr_position r) n)
          = Inr (slice_of (rr_position r) k (rr_data r))"
        using read_at_delivers [of "rr_os r" "min (rr_end r - rr_position r) n"] v n False
        by (metis diff_is_0_eq min_less_iff_conj neq0_conv range_valid_def)
      with False over show ?thesis by (simp add: range_read_def range_fails_def slice_of_def)
    qed
  }
qed

section \<open>Chunks and buffer agree\<close>

definition chunk_remaining :: "('d \<Rightarrow> bytes) \<Rightarrow> 'd chunk_reader \<Rightarrow> bytes" where
  "chunk_remaining rem c = (case c of Stored r \<Rightarrow> range_remaining r | Deflated d \<Rightarrow> rem d)"

definition chunk_fails :: "('d \<Rightarrow> bool) \<Rightarrow> 'd chunk_reader \<Rightarrow> bool" where
  "chunk_fails fl c = (case c of Stored r \<Rightarrow> range_fails r | Deflated d \<Rightarrow> fl d)"

definition chunk_valid :: "('d \<Rightarrow> bool) \<Rightarrow> 'd chunk_reader \<Rightarrow> bool" where
  "chunk_valid val c = (case c of Stored r \<Rightarrow> range_valid r | Deflated d \<Rightarrow> val d)"

lemmas chunk_contract = chunk_remaining_def chunk_fails_def chunk_valid_def

lemma chunk_reader_contract:
  assumes "byte_reader inflate_read rem fl val"
  shows "byte_reader (chunk_read inflate_read) (chunk_remaining rem) (chunk_fails fl) (chunk_valid val)"
proof unfold_locales
  fix c :: "'a chunk_reader" and n :: nat
  assume v: "chunk_valid val c" and n: "0 < n"
  {
    assume ne: "chunk_remaining rem c \<noteq> []"
    show "\<exists>got c1. chunk_read inflate_read c n = (Inr got, c1) \<and> got \<noteq> [] \<and> length got \<le> n \<and>
        chunk_remaining rem c = got @ chunk_remaining rem c1 \<and> chunk_valid val c1 \<and>
        chunk_fails fl c1 = chunk_fails fl c"
    proof (cases c)
      case (Stored r)
      with v ne range.rd_more [of r n] n obtain got r1 where
        "range_read r n = (Inr got, r1)" "got \<noteq> []" "length got \<le> n"
        "range_remaining r = got @ range_remaining r1" "range_valid r1" "range_fails r1 = range_fails r"
        by (auto simp: chunk_contract)
      with Stored show ?thesis by (auto simp: chunk_read_def chunk_contract)
    next
      case (Deflated d)
      with v ne byte_reader.rd_more [OF assms, of d n] n obtain got d1 where
        "inflate_read d n = (Inr got, d1)" "got \<noteq> []" "length got \<le> n" "rem d = got @ rem d1"
        "val d1" "fl d1 = fl d"
        by (auto simp: chunk_contract)
      with Deflated show ?thesis by (auto simp: chunk_read_def chunk_contract)
    qed
  next
    assume e: "chunk_remaining rem c = []"
    show "if chunk_fails fl c then \<exists>e c1. chunk_read inflate_read c n = (Inl e, c1)
      else \<exists>c1. chunk_read inflate_read c n = (Inr [], c1) \<and> chunk_remaining rem c1 = [] \<and>
        chunk_valid val c1 \<and> \<not> chunk_fails fl c1"
    proof (cases c)
      case (Stored r)
      with v e range.rd_end [of r n] n show ?thesis
        by (auto simp: chunk_read_def chunk_contract split: if_splits)
    next
      case (Deflated d)
      with v e byte_reader.rd_end [OF assms, of d n] n show ?thesis
        by (auto simp: chunk_read_def chunk_contract split: if_splits)
    qed
  }
qed

lemma collect_chunks_spec:
  assumes "byte_reader (chunk_read inflate_read) rem fl val"
  shows "\<not> ec_finished ec \<Longrightarrow> 0 < ec_buffer ec \<Longrightarrow> ec_produced ec \<le> ec_declared ec \<Longrightarrow> val (ec_reader ec) \<Longrightarrow>
    collect_chunks inflate_read ec = Inr bs \<longleftrightarrow>
      \<not> fl (ec_reader ec) \<and> ec_produced ec + length (rem (ec_reader ec)) = ec_declared ec \<and>
      bs = rem (ec_reader ec)"
proof (induction "length (rem (ec_reader ec))" arbitrary: ec bs rule: less_induct)
  case less
  let ?r = "ec_reader ec" and ?b = "ec_buffer ec"
  note fill = byte_reader.fill_loop_spec [OF assms less.prems(4), of ?b]
  show ?case
  proof (cases "length (rem ?r) < ?b \<and> fl ?r")
    case True
    with fill obtain e r1 where "fill_loop (chunk_read inflate_read) ?b ?r = (Inl e, r1)"
      by (cases "fill_loop (chunk_read inflate_read) ?b ?r"; cases "fst (fill_loop (chunk_read inflate_read) ?b ?r)") auto
    with True less.prems(1) show ?thesis
      by (subst collect_chunks.simps) (simp add: pull_chunk_def)
  next
    case False
    with fill obtain r1 where r1: "fill_loop (chunk_read inflate_read) ?b ?r =
        (Inr (take ?b (rem ?r), length (rem ?r) < ?b), r1)" "val r1" "fl r1 = fl ?r" "rem r1 = drop ?b (rem ?r)"
      by auto
    let ?chunk = "take ?b (rem ?r)" and ?ended = "length (rem ?r) < ?b"
    let ?ec1 = "ec\<lparr>ec_reader := r1, ec_finished := ?ended, ec_produced := ec_produced ec + length ?chunk\<rparr>"
    show ?thesis
    proof (cases "ec_produced ?ec1 > ec_declared ?ec1 \<or> ?ended \<and> ec_produced ?ec1 \<noteq> ec_declared ?ec1")
      case True
      then have "ec_produced ec + length (rem ?r) \<noteq> ec_declared ec" by auto
      moreover have "\<not> is_ok (collect_chunks inflate_read ec)"
        using r1(1) True less.prems(1)
        by (subst collect_chunks.simps) (auto simp: pull_chunk_def assert_declared_size_def Let_def)
      ultimately show ?thesis by (auto simp: is_ok_def)
    next
      case fine: False
      show ?thesis
      proof (cases "rem ?r = []")
        case True
        then have "pull_chunk inflate_read ec = (Inr None, ?ec1)"
          using r1(1) fine less.prems(1,2) by (auto simp: pull_chunk_def Let_def)
        with True fine False less.prems(2) show ?thesis by (subst collect_chunks.simps) auto
      next
        case ne: False
        with less.prems(2) have ch: "?chunk \<noteq> []" by simp
        have pull: "pull_chunk inflate_read ec = (Inr (Some ?chunk), ?ec1)"
          using r1(1) fine less.prems(1,2) ch ne by (auto simp: pull_chunk_def Let_def)
        show ?thesis
        proof (cases ?ended)
          case True
          then have "collect_chunks inflate_read ?ec1 = Inr []"
            by (subst collect_chunks.simps) (simp add: pull_chunk_def)
          with pull True fine False show ?thesis by (subst collect_chunks.simps) auto
        next
          case more: False
          have "length (rem (ec_reader ?ec1)) < length (rem ?r)"
            using r1(4) ne less.prems(2) by simp
          then have ih: "collect_chunks inflate_read ?ec1 = Inr rest \<longleftrightarrow>
              \<not> fl ?r \<and> ec_produced ec + length (rem ?r) = ec_declared ec \<and> rest = drop ?b (rem ?r)" for rest
            using less.hyps [of ?ec1 rest] r1 less.prems fine more by (auto simp: min_def)
          have "collect_chunks inflate_read ec =
              bindE (collect_chunks inflate_read ?ec1) (\<lambda>rest. Inr (?chunk @ rest))"
            using pull by (subst collect_chunks.simps) simp
          then show ?thesis using ih by (auto simp: bindE_eq_Inr)
        qed
      qed
    qed
  qed
qed

lemma data_offset_of_range:
  "data_offset_of src entry = Inr off \<Longrightarrow> off + ze_compressed_size entry \<le> src_size src \<and> off + ze_compressed_size entry < 2 ^ 64"
  by (auto simp: data_offset_of_def bindE_eq_Inr zip_fail_def ends_past_def checked_add_def Let_def
      split: if_splits option.splits)

lemma source_read_at_ok:
  assumes "os_delivers (src_os src)" "position \<le> MAX_SAFE_INTEGER" "position + len \<le> src_size src"
    and "position + len < 2 ^ 64" "position + len \<le> length (src_data src)"
  shows "source_read_at src position len = Inr (slice_of position len (src_data src))"
  using read_exact_at_ok [OF assms(1,5)] assms(2-4)
  by (simp add: source_read_at_def ends_past_def checked_add_def)

lemma inflate_entry_spec:
  assumes "byte_reader inflate_read rem fl val" "val (inflate_new src off (ze_compressed_size entry))"
    and "ze_uncompressed_size entry \<le> MAX_SAFE_INTEGER"
  shows "inflate_entry inflate_new inflate_read src off entry = Inr bs \<longleftrightarrow>
    \<not> fl (inflate_new src off (ze_compressed_size entry)) \<and>
    length (rem (inflate_new src off (ze_compressed_size entry))) = ze_uncompressed_size entry \<and>
    bs = rem (inflate_new src off (ze_compressed_size entry))"
proof -
  let ?d = "inflate_new src off (ze_compressed_size entry)"
  let ?n = "ze_uncompressed_size entry"
  have lim: "saturating_add ?n (Suc 0) = Suc ?n"
    using assms(3) by (simp add: saturating_add_def MAX_SAFE_INTEGER_def)
  note r = byte_reader.read_to_end_spec [OF assms(1,2), of "Suc ?n"]
  show ?thesis
  proof (cases "length (rem ?d) < Suc ?n \<and> fl ?d")
    case True
    with r have "\<not> is_ok (fst (read_to_end inflate_read (Suc ?n) ?d))" by simp
    then obtain e where "fst (read_to_end inflate_read (Suc ?n) ?d) = Inl e"
      by (cases "fst (read_to_end inflate_read (Suc ?n) ?d)") auto
    with True lim show ?thesis by (simp add: inflate_entry_def)
  next
    case False
    with r have eq: "fst (read_to_end inflate_read (Suc ?n) ?d) = Inr (take (Suc ?n) (rem ?d))" by simp
    have len: "length (take (Suc ?n) (rem ?d)) = ?n \<longleftrightarrow> length (rem ?d) = ?n" by (auto simp: min_def)
    have "inflate_entry inflate_new inflate_read src off entry =
        bindE (assert_declared_size (length (take (Suc ?n) (rem ?d))) ?n) (\<lambda>_. Inr (take (Suc ?n) (rem ?d)))"
      by (simp add: inflate_entry_def Let_def lim eq del: take_Suc)
    with False show ?thesis
      by (auto simp: assert_declared_size_def bindE_eq_Inr len simp del: length_take)
  qed
qed

lemma no_panic_data_offset [no_panics]: "no_panic (data_offset_of src entry)"
  unfolding data_offset_of_def Let_def
  by (intro no_panics no_panic_simps) (auto dest!: source_read_at_length)

lemma no_panic_declared_size [no_panics]: "no_panic (assert_declared_size a d)"
  by (simp add: assert_declared_size_def)

lemma no_panic_read_entry_from [no_panics]:
  "no_panic (read_entry_from inflate_new inflate_read src entry)"
proof -
  have infl: "no_panic (inflate_entry inflate_new inflate_read src o' entry)" for o'
    unfolding inflate_entry_def Let_def by (auto split: sum.splits intro!: no_panics)
  show ?thesis unfolding read_entry_from_def by (intro no_panics no_panic_simps infl)
qed

lemma no_panic_chunks_from [no_panics]: "no_panic (chunks_from inflate_new src entry max_chunk)"
  unfolding chunks_from_def Let_def by (intro no_panics no_panic_simps)

lemma no_panic_pull_chunk [no_panics]: "no_panic (fst (pull_chunk inflate_read ec))"
  by (auto simp: pull_chunk_def Let_def assert_declared_size_def split: prod.splits sum.splits)

section \<open>Properties\<close>

text \<open>C6
  No archive makes the reader panic: for every content, every recorded length, every behaviour of
  the operating system and every inflater, reading the directory, reading an entry and pulling a
  chunk return a value or an error.
\<close>

theorem zip_never_panics:
  "read_entries src \<noteq> Inl Panic \<and>
   read_entry_from inflate_new inflate_read src entry \<noteq> Inl Panic \<and>
   chunks_from inflate_new src entry max_chunk \<noteq> Inl Panic \<and>
   fst (pull_chunk inflate_read ec) \<noteq> Inl Panic"
  using no_panic_read_entries [of src]
    no_panic_read_entry_from [of inflate_new inflate_read src entry]
    no_panic_chunks_from [of inflate_new src entry max_chunk] no_panic_pull_chunk [of inflate_read ec]
  by (simp add: no_panic_def)

text \<open>
  A directory that parses yields at most one entry per 46 bytes of the file, and no entry declares
  a size or an offset past 2^53 - 1.
\<close>

theorem zip_directory_bounded:
  assumes "read_zip_entries os data = Inr es"
  shows "(\<forall>e \<in> set es. entry_safe e) \<and> length es * CD_MIN \<le> length data"
  using read_entries_safe [OF assms [unfolded read_zip_entries_def]] by (simp add: source_open_def)

definition empty_archive :: bytes where
  "empty_archive = [0x50, 0x4b, 5, 6, 0, 0, 0, 0, 0, 0, 0, 0, 0, 0, 0, 0, 0, 0, 0, 0, 0, 0]"

lemma empty_archive_entries: "read_zip_entries (\<lambda>_. Deliver 1000) empty_archive = Inr []"
proof -
  have len: "length empty_archive = 22" by (simp add: empty_archive_def)
  have r: "source_read_at (source_open (\<lambda>_. Deliver 1000) empty_archive) p n = Inr (slice_of p n empty_archive)"
    if "p + n \<le> 22" for p n
    using that source_read_at_ok [of "source_open (\<lambda>_. Deliver 1000) empty_archive" p n]
    by (simp add: source_open_def MAX_SAFE_INTEGER_def os_delivers_def len)
  have sz: "src_size (source_open (\<lambda>_. Deliver 1000) empty_archive) = 22"
    by (simp add: source_open_def len)
  have all: "slice_of 0 22 empty_archive = empty_archive" by (simp add: slice_of_def len)
  have f: "u32_at empty_archive 0 = Inr EOCD_SIG" "u16_at empty_archive 10 = Inr 0"
      "u32_at empty_archive 12 = Inr 0" "u32_at empty_archive 16 = Inr 0"
    by (simp_all add: u16_at_def u32_at_def bytes_at_def slice_of_def empty_archive_def EOCD_SIG_def)
  show ?thesis
    unfolding read_zip_entries_def read_entries_def
    by (simp add: r all f zip_sizes len sz)
qed

theorem zip_directory_bounded_witness:
  "list_all entry_safe [] \<and> length ([] :: zip_entry list) * CD_MIN \<le> length empty_archive"
  using zip_directory_bounded [OF empty_archive_entries] by simp

text \<open>
  Whatever the archive and the inflater do, an entry that is read successfully has exactly the
  size the directory declares for it.
\<close>

theorem zip_declared_size:
  assumes "read_entry_from inflate_new inflate_read src entry = Inr bs"
  shows "length bs = ze_uncompressed_size entry"
  using assms
  by (auto simp: read_entry_from_def inflate_entry_def bindE_eq_Inr assert_declared_size_def Let_def
      split: if_splits sum.splits)

text \<open>
  Reading an entry in chunks of any size and reading it into one buffer are the same function:
  either both fail or both give the same bytes. The inflater is any reader that keeps the contract
  of \<^verbatim>\<open>Read\<close>, for an intact or a broken stream.
\<close>

theorem zip_chunks_agree:
  assumes "byte_reader inflate_read rem fl val"
    and "\<And>off. data_offset_of src entry = Inr off \<Longrightarrow> val (inflate_new src off (ze_compressed_size entry))"
    and "os_delivers (src_os src)" "src_size src \<le> MAX_SAFE_INTEGER" "entry_safe entry"
  shows "bindE (chunks_from inflate_new src entry max_chunk) (collect_chunks inflate_read) = Inr bs \<longleftrightarrow>
    read_entry_from inflate_new inflate_read src entry = Inr bs"
proof (cases "data_offset_of src entry")
  case (Inl f)
  then show ?thesis by (auto simp: chunks_from_def read_entry_from_def Let_def)
next
  case (Inr off)
  let ?n = "ze_compressed_size entry" and ?u = "ze_uncompressed_size entry"
  let ?ec = "\<lambda>reader. \<lparr>ec_buffer = min (max (saturating_add ?u 1) 1)
      (max (case max_chunk of None \<Rightarrow> DEFAULT_ZIP_CHUNK_BYTES | Some n \<Rightarrow> n) 1),
    ec_declared = ?u, ec_produced = 0, ec_finished = False, ec_reader = reader\<rparr>"
  note range = data_offset_of_range [OF Inr]
  note contract = chunk_reader_contract [OF assms(1)]
  have col: "collect_chunks inflate_read (?ec reader) = Inr bs \<longleftrightarrow>
      \<not> chunk_fails fl reader \<and> length (chunk_remaining rem reader) = ?u \<and> bs = chunk_remaining rem reader"
    if "chunk_valid val reader" for reader
    using collect_chunks_spec [OF contract, of "?ec reader" bs] that by (simp add: less_max_iff_disj)
  consider "ze_method entry = 0" | "ze_method entry = 8" | "ze_method entry \<noteq> 0" "ze_method entry \<noteq> 8"
    by blast
  then show ?thesis
  proof cases
    case 1
    let ?r = "range_new src off ?n"
    have sat: "saturating_add off ?n = off + ?n"
      using range by (simp add: saturating_add_def)
    have "chunk_valid val (Stored ?r)"
      using assms(3) by (simp add: chunk_valid_def range_valid_def range_new_def)
    note c = col [OF this]
    have rem: "range_remaining ?r = slice_of off ?n (src_data src)"
      by (simp add: range_remaining_def range_new_def sat)
    have fails: "range_fails ?r \<longleftrightarrow> length (src_data src) < off + ?n \<and> 0 < ?n"
      by (auto simp: range_fails_def range_new_def sat)
    have read: "source_read_at src off ?n = Inr data \<longleftrightarrow>
        \<not> range_fails ?r \<and> data = slice_of off ?n (src_data src)" for data
    proof (cases "off + ?n \<le> length (src_data src)")
      case True
      then show ?thesis using source_read_at_ok [OF assms(3)] range assms(4) by (auto simp: fails)
    next
      case False
      show ?thesis
      proof (cases "?n = 0")
        case True
        then have "\<not> range_fails ?r" using sat by (auto simp: range_fails_def range_new_def)
        with True show ?thesis
          using range assms(4) by (auto simp: source_read_at_def ends_past_def checked_add_def
              read_exact_at.simps slice_of_def)
      next
        case nz: False
        have "source_read_at src off ?n \<noteq> Inr data"
        proof
          assume "source_read_at src off ?n = Inr data"
          then have "read_exact_at (src_os src) (src_data src) off ?n = Inr data"
            by (auto simp: source_read_at_def zip_fail_def split: if_splits sum.splits)
          from read_exact_at_length [OF this] False nz show False by auto
        qed
        with False nz show ?thesis by (simp add: fails)
      qed
    qed
    have len: "\<not> range_fails ?r \<Longrightarrow> length (slice_of off ?n (src_data src)) = ?n"
      by (auto simp: fails)
    have "read_entry_from inflate_new inflate_read src entry = Inr bs \<longleftrightarrow>
        \<not> range_fails ?r \<and> ?n = ?u \<and> bs = slice_of off ?n (src_data src)"
    proof (cases "range_fails ?r")
      case True
      with read obtain f where "source_read_at src off ?n = Inl f" by (cases "source_read_at src off ?n") auto
      with True 1 Inr show ?thesis by (simp add: read_entry_from_def)
    next
      case False
      with read have "source_read_at src off ?n = Inr (slice_of off ?n (src_data src))" by blast
      with len [OF False] 1 Inr False show ?thesis
        by (auto simp: read_entry_from_def assert_declared_size_def simp del: length_slice_of)
    qed
    moreover have "bindE (chunks_from inflate_new src entry max_chunk) (collect_chunks inflate_read) = Inr bs \<longleftrightarrow>
        ?n = ?u \<and> \<not> range_fails ?r \<and> bs = slice_of off ?n (src_data src)"
    proof (cases "?n = ?u")
      case True
      then have "bindE (chunks_from inflate_new src entry max_chunk) (collect_chunks inflate_read) =
          collect_chunks inflate_read (?ec (Stored ?r))"
        using 1 Inr by (simp add: chunks_from_def Let_def assert_declared_size_def)
      moreover have "collect_chunks inflate_read (?ec (Stored ?r)) = Inr bs \<longleftrightarrow>
          \<not> range_fails ?r \<and> length (slice_of off ?n (src_data src)) = ?u \<and> bs = slice_of off ?n (src_data src)"
        using c unfolding chunk_fails_def chunk_remaining_def chunk_reader.case rem .
      ultimately show ?thesis using len True by metis
    next
      case False
      then show ?thesis using 1 Inr by (simp add: chunks_from_def Let_def assert_declared_size_def)
    qed
    ultimately show ?thesis by blast
  next
    case 2
    let ?d = "inflate_new src off ?n"
    have v: "val ?d" by (rule assms(2) [OF Inr])
    have "chunk_valid val (Deflated ?d)" using v by (simp add: chunk_valid_def)
    note c = col [OF this]
    have u: "?u \<le> MAX_SAFE_INTEGER" using assms(5) by (simp add: entry_safe_def)
    have "read_entry_from inflate_new inflate_read src entry = Inr bs \<longleftrightarrow>
        \<not> fl ?d \<and> length (rem ?d) = ?u \<and> bs = rem ?d"
      using inflate_entry_spec [OF assms(1), of inflate_new src off entry bs] v u Inr 2
      by (simp add: read_entry_from_def)
    moreover have "bindE (chunks_from inflate_new src entry max_chunk) (collect_chunks inflate_read) = Inr bs \<longleftrightarrow>
        \<not> fl ?d \<and> length (rem ?d) = ?u \<and> bs = rem ?d"
      using 2 Inr c by (simp add: chunks_from_def Let_def chunk_fails_def chunk_remaining_def)
    ultimately show ?thesis by blast
  next
    case 3
    then show ?thesis using Inr by (simp add: chunks_from_def read_entry_from_def Let_def)
  qed
qed

text \<open>
  The contract is satisfiable: an identity codec, whose compressed bytes are the data themselves,
  on a stored-size archive of one entry.
\<close>

definition copy_new :: "source \<Rightarrow> nat \<Rightarrow> nat \<Rightarrow> bytes" where
  "copy_new src start len = slice_of start len (src_data src)"

definition copy_read :: "bytes \<Rightarrow> nat \<Rightarrow> (inflate_fault + bytes) \<times> bytes" where
  "copy_read d n = (Inr (take n d), drop n d)"

lemma copy_reader: "byte_reader copy_read id (\<lambda>_. False) (\<lambda>_. True)"
  by unfold_locales (auto simp: copy_read_def)

definition tiny_entry :: zip_entry where
  "tiny_entry = \<lparr>ze_name = lit ''a'', ze_method = 8, ze_compressed_size = 2, ze_uncompressed_size = 2,
     ze_local_header_offset = 0, ze_flags = 0, ze_crc = 0, ze_mod_time = 0, ze_mod_date = 0,
     ze_version_made_by = 0, ze_version_needed = 0, ze_internal_attributes = 0,
     ze_external_attributes = 0\<rparr>"

lemma tiny_fields [simp]:
  "ze_method tiny_entry = 8" "ze_compressed_size tiny_entry = 2" "ze_uncompressed_size tiny_entry = 2"
  "ze_local_header_offset tiny_entry = 0"
  by (simp_all add: tiny_entry_def)

definition tiny_archive :: bytes where
  "tiny_archive = [0x50, 0x4b, 3, 4] @ replicate 22 0 @ [1, 0, 0, 0] @ [97] @ [7, 8]"

lemma tiny_source_read:
  assumes "p + n \<le> 33"
  shows "source_read_at (source_open (\<lambda>_. Deliver 1000) tiny_archive) p n = Inr (slice_of p n tiny_archive)"
  using assms source_read_at_ok [of "source_open (\<lambda>_. Deliver 1000) tiny_archive" p n]
  by (simp add: source_open_def MAX_SAFE_INTEGER_def os_delivers_def tiny_archive_def)

lemma tiny_read:
  "read_entry_from copy_new copy_read (source_open (\<lambda>_. Deliver 1000) tiny_archive) tiny_entry = Inr [7, 8]"
proof -
  let ?h = "slice_of 0 30 tiny_archive"
  have h: "u32_at ?h 0 = Inr LOCAL_SIG" "u16_at ?h 26 = Inr 1" "u16_at ?h 28 = Inr 0"
    by (simp_all add: u16_at_def u32_at_def bytes_at_def slice_of_def tiny_archive_def LOCAL_SIG_def)
  have sz: "src_size (source_open (\<lambda>_. Deliver 1000) tiny_archive) = 33"
    by (simp add: source_open_def tiny_archive_def)
  have off: "data_offset_of (source_open (\<lambda>_. Deliver 1000) tiny_archive) tiny_entry = Inr 31"
    by (simp add: data_offset_of_def tiny_source_read h sz ends_past_def checked_add_def)
  have "slice_of 31 2 tiny_archive = [7, 8]" by (simp add: slice_of_def tiny_archive_def)
  then have c: "copy_new (source_open (\<lambda>_. Deliver 1000) tiny_archive) 31 2 = [7, 8]"
    by (simp add: copy_new_def source_open_def)
  have "read_to_end copy_read 3 [7, 8] = (Inr [7, 8], [])"
    by (simp add: read_to_end.simps copy_read_def)
  then show ?thesis
    by (simp add: read_entry_from_def off inflate_entry_def c saturating_add_def
        assert_declared_size_def)
qed

theorem zip_chunks_agree_witness:
  "bindE (chunks_from copy_new (source_open (\<lambda>_. Deliver 1000) tiny_archive) tiny_entry (Some 1))
     (collect_chunks copy_read) = Inr [7, 8]"
proof (rule zip_chunks_agree [OF copy_reader, THEN iffD2])
  show "os_delivers (src_os (source_open (\<lambda>_. Deliver 1000) tiny_archive))"
    and "src_size (source_open (\<lambda>_. Deliver 1000) tiny_archive) \<le> MAX_SAFE_INTEGER"
    and "entry_safe tiny_entry"
    by (simp_all add: source_open_def os_delivers_def tiny_archive_def MAX_SAFE_INTEGER_def entry_safe_def)
qed (simp_all add: tiny_read)

theorem zip_declared_size_witness: "length [7, 8 :: byte] = ze_uncompressed_size tiny_entry"
  by (rule zip_declared_size [OF tiny_read])

end
