(* ===== verification/Zip_Writer.thy ===== *)
theory Zip_Writer
  imports Zip_Reader "HOL-Library.List_Lexorder"
begin

text \<open>
  The zip writer, \<^verbatim>\<open>crates/spm-core/src/files/zip_write.rs\<close>: the three record layouts and the
  entry-preserving rewriter. The checksum of the \<^verbatim>\<open>crc32fast\<close> crate is the argument \<open>crc32\<close>. The
  output file is an optional byte list (absent or present): refusals found before the file is
  created leave it alone, a failure during the copy removes it. Failures to write are not modelled.

  The main theorem reads a rewritten archive back with the reader of \<open>Zip_Reader\<close>.
\<close>

section \<open>Layouts\<close>

definition LOCAL_MIN :: nat where "LOCAL_MIN = 30"
definition FLAG_ENCRYPTED :: u16 where "FLAG_ENCRYPTED = 1"
definition FLAG_DATA_DESCRIPTOR :: u16 where "FLAG_DATA_DESCRIPTOR = 8"
definition MAX_NON_ZIP64_ENTRIES :: nat where "MAX_NON_ZIP64_ENTRIES = 0xffff - 1"
definition COPY_CHUNK_BYTES :: nat where "COPY_CHUNK_BYTES = 2 ^ 20"

record zip_common_fields =
  zc_version_needed :: u16
  zc_flags :: u16
  zc_method :: u16
  zc_mod_time :: u16
  zc_mod_date :: u16
  zc_crc :: u32
  zc_compressed_size :: u32
  zc_uncompressed_size :: u32
  zc_name :: bytes
  zc_extra :: bytes

record zip_central_fields =
  zf_common :: zip_common_fields
  zf_version_made_by :: u16
  zf_internal_attributes :: u16
  zf_external_attributes :: u32
  zf_local_header_offset :: u32

text \<open>\<^verbatim>\<open>out[at..at + n].copy_from_slice(bs)\<close>; every use below is in range.\<close>

definition put_bytes :: "bytes \<Rightarrow> nat \<Rightarrow> bytes \<Rightarrow> bytes" where
  "put_bytes out at bs = take at out @ bs @ drop (at + length bs) out"

definition put_u16 :: "bytes \<Rightarrow> nat \<Rightarrow> u16 \<Rightarrow> bytes" where
  "put_u16 out at v = put_bytes out at (le_bytes 2 (unat v))"

definition put_u32 :: "bytes \<Rightarrow> nat \<Rightarrow> u32 \<Rightarrow> bytes" where
  "put_u32 out at v = put_bytes out at (le_bytes 4 (unat v))"

definition local_header_bytes :: "zip_common_fields \<Rightarrow> bytes" where
  "local_header_bytes f =
     (let name = length (zc_name f);
          out = replicate (LOCAL_MIN + name + length (zc_extra f)) 0;
          out = put_u32 out 0 LOCAL_SIG;
          out = put_u16 out 4 (zc_version_needed f);
          out = put_u16 out 6 (zc_flags f);
          out = put_u16 out 8 (zc_method f);
          out = put_u16 out 10 (zc_mod_time f);
          out = put_u16 out 12 (zc_mod_date f);
          out = put_u32 out 14 (zc_crc f);
          out = put_u32 out 18 (zc_compressed_size f);
          out = put_u32 out 22 (zc_uncompressed_size f);
          out = put_u16 out 26 (of_nat name);
          out = put_u16 out 28 (of_nat (length (zc_extra f)));
          out = put_bytes out 30 (zc_name f)
      in put_bytes out (30 + name) (zc_extra f))"

definition central_header_bytes :: "zip_central_fields \<Rightarrow> bytes" where
  "central_header_bytes f =
     (let common = zf_common f;
          name = length (zc_name common);
          out = replicate (CD_MIN + name + length (zc_extra common)) 0;
          out = put_u32 out 0 CD_SIG;
          out = put_u16 out 4 (zf_version_made_by f);
          out = put_u16 out 6 (zc_version_needed common);
          out = put_u16 out 8 (zc_flags common);
          out = put_u16 out 10 (zc_method common);
          out = put_u16 out 12 (zc_mod_time common);
          out = put_u16 out 14 (zc_mod_date common);
          out = put_u32 out 16 (zc_crc common);
          out = put_u32 out 20 (zc_compressed_size common);
          out = put_u32 out 24 (zc_uncompressed_size common);
          out = put_u16 out 28 (of_nat name);
          out = put_u16 out 30 (of_nat (length (zc_extra common)));
          out = put_u16 out 36 (zf_internal_attributes f);
          out = put_u32 out 38 (zf_external_attributes f);
          out = put_u32 out 42 (zf_local_header_offset f);
          out = put_bytes out 46 (zc_name common)
      in put_bytes out (46 + name) (zc_extra common))"

definition end_of_central_directory_bytes :: "u16 \<Rightarrow> u32 \<Rightarrow> u32 \<Rightarrow> bytes" where
  "end_of_central_directory_bytes entry_count cd_size cd_offset =
     (let out = replicate 22 0;
          out = put_u32 out 0 EOCD_SIG;
          out = put_u16 out 8 entry_count;
          out = put_u16 out 10 entry_count;
          out = put_u32 out 12 cd_size
      in put_u32 out 16 cd_offset)"

section \<open>The rewriter\<close>

record zip_rewrite =
  rw_drop :: "str list"
  rw_replace :: "(str \<times> bytes) list"

record zip_rewrite_result =
  rr_kept :: "str list"
  rr_dropped :: "str list"
  rr_replaced :: "str list"

record planned_entry =
  pl_source :: zip_entry
  pl_fields :: zip_central_fields
  pl_replacement :: "bytes option"

definition refusal :: "str \<Rightarrow> str \<Rightarrow> details \<Rightarrow> app_error" where
  "refusal reason message extra =
     with_details (validation message) ((lit ''reason'', JStr reason) # extra)"

definition FLAGS_KEPT :: u16 where
  "FLAGS_KEPT = not FLAG_DATA_DESCRIPTOR"

definition planned_fields ::
  "(bytes \<Rightarrow> u32) \<Rightarrow> zip_entry \<Rightarrow> bytes option \<Rightarrow> nat \<Rightarrow> nat \<Rightarrow> nat \<Rightarrow> zip_central_fields" where
  "planned_fields crc32 entry replacement compressed uncompressed offset =
     \<lparr>zf_common =
        \<lparr>zc_version_needed = ze_version_needed entry,
         zc_flags = and (ze_flags entry) FLAGS_KEPT,
         zc_method = (if replacement \<noteq> None then 0 else ze_method entry),
         zc_mod_time = ze_mod_time entry,
         zc_mod_date = ze_mod_date entry,
         zc_crc = (case replacement of None \<Rightarrow> ze_crc entry | Some bs \<Rightarrow> crc32 bs),
         zc_compressed_size = of_nat compressed,
         zc_uncompressed_size = of_nat uncompressed,
         zc_name = utf8_encode (ze_name entry),
         zc_extra = []\<rparr>,
      zf_version_made_by = ze_version_made_by entry,
      zf_internal_attributes = ze_internal_attributes entry,
      zf_external_attributes = ze_external_attributes entry,
      zf_local_header_offset = of_nat offset\<rparr>"

fun plan_entries ::
  "(bytes \<Rightarrow> u32) \<Rightarrow> zip_rewrite \<Rightarrow> zip_entry list \<Rightarrow> nat \<Rightarrow>
   app_error + planned_entry list \<times> str list \<times> str list \<times> nat" where
  "plan_entries crc32 rw [] offset = Inr ([], [], [], offset)"
| "plan_entries crc32 rw (entry # entries) offset =
     (if ze_name entry \<in> set (rw_drop rw) then
        bindE (plan_entries crc32 rw entries offset) (\<lambda>(plan, dropped, replaced, total).
          Inr (plan, ze_name entry # dropped, replaced, total))
      else if and (ze_flags entry) FLAG_ENCRYPTED \<noteq> 0 then
        Inl (refusal (lit ''encrypted'') (lit ''zip entry is encrypted'')
               [(lit ''entry'', JStr (ze_name entry))])
      else
        let replacement = map_of (rw_replace rw) (ze_name entry);
            (compressed, uncompressed) =
              (case replacement of
                 Some bs \<Rightarrow> (length bs, length bs)
               | None \<Rightarrow> (ze_compressed_size entry, ze_uncompressed_size entry));
            name_length = length (utf8_encode (ze_name entry))
        in if compressed \<ge> U32_MAX \<or> uncompressed \<ge> U32_MAX \<or> offset \<ge> U32_MAX
              \<or> name_length > U16_MAX
           then Inl (refusal (lit ''unrepresentable'')
                  (lit ''zip entry is too large for a non-zip64 directory'')
                  [(lit ''entry'', JStr (ze_name entry))])
           else
             bindE (plan_entries crc32 rw entries (offset + LOCAL_MIN + name_length + compressed))
               (\<lambda>(plan, dropped, replaced, total).
                 Inr (\<lparr>pl_source = entry,
                       pl_fields = planned_fields crc32 entry replacement compressed uncompressed offset,
                       pl_replacement = replacement\<rparr> # plan,
                      dropped,
                      (if replacement \<noteq> None then ze_name entry # replaced else replaced),
                      total)))"

definition unreadable :: "zip_entry \<Rightarrow> str \<Rightarrow> app_error" where
  "unreadable entry message =
     refusal (lit ''unreadable'') message [(lit ''entry'', JStr (ze_name entry))]"

definition le_u16_at :: "bytes \<Rightarrow> nat \<Rightarrow> nat" where
  "le_u16_at header at = le_nat (slice_of at 2 header)"

definition le_u32_at :: "bytes \<Rightarrow> nat \<Rightarrow> u32" where
  "le_u32_at header at = of_nat (le_nat (slice_of at 4 header))"

definition copy_data_offset :: "os \<Rightarrow> bytes \<Rightarrow> nat \<Rightarrow> zip_entry \<Rightarrow> app_error + nat" where
  "copy_data_offset os data len entry =
     (let at = ze_local_header_offset entry in
      if ends_past (checked_add at LOCAL_MIN) len
      then Inl (unreadable entry (lit ''unexpected end of zip file''))
      else (case read_exact_at os data at LOCAL_MIN of
              Inl _ \<Rightarrow> Inl (unreadable entry (lit ''unexpected end of zip file''))
            | Inr header \<Rightarrow>
                if le_u32_at header 0 \<noteq> LOCAL_SIG
                then Inl (unreadable entry (lit ''corrupt zip local header''))
                else Inr (at + LOCAL_MIN + le_u16_at header 26 + le_u16_at header 28)))"

function copy_loop :: "os \<Rightarrow> bytes \<Rightarrow> zip_entry \<Rightarrow> nat \<Rightarrow> nat \<Rightarrow> nat \<Rightarrow> app_error + bytes" where
  "copy_loop os data entry from chunk at =
     (if at < ze_compressed_size entry \<and> 0 < chunk then
        let len = min (ze_compressed_size entry - at) chunk in
        (case read_exact_at os data (from + at) len of
           Inl _ \<Rightarrow> Inl (unreadable entry (lit ''unexpected end of zip file''))
         | Inr buffer \<Rightarrow>
             bindE (copy_loop os data entry from chunk (at + len)) (\<lambda>rest. Inr (buffer @ rest)))
      else Inr [])"
  by pat_completeness auto
termination
  by (relation "measure (\<lambda>(os, data, entry, from, chunk, at). ze_compressed_size entry - at)") auto

declare copy_loop.simps [simp del]

definition copy_entry_data :: "os \<Rightarrow> bytes \<Rightarrow> nat \<Rightarrow> zip_entry \<Rightarrow> app_error + bytes" where
  "copy_entry_data os data len entry =
     bindE (copy_data_offset os data len entry) (\<lambda>from.
       if ends_past (checked_add from (ze_compressed_size entry)) len
       then Inl (unreadable entry (lit ''unexpected end of zip file''))
       else copy_loop os data entry from (min (max (ze_compressed_size entry) 1) COPY_CHUNK_BYTES) 0)"

fun write_planned :: "os \<Rightarrow> bytes \<Rightarrow> planned_entry list \<Rightarrow> app_error + bytes" where
  "write_planned os data [] = Inr []"
| "write_planned os data (planned # plan) =
     bindE (case pl_replacement planned of
              Some bs \<Rightarrow> Inr bs
            | None \<Rightarrow> copy_entry_data os data (length data) (pl_source planned)) (\<lambda>payload.
     bindE (write_planned os data plan) (\<lambda>rest.
       Inr (local_header_bytes (zf_common (pl_fields planned)) @ payload @ rest)))"

text \<open>The result of the copy and the output file afterwards.\<close>

definition write_archive ::
  "os \<Rightarrow> bytes \<Rightarrow> planned_entry list \<Rightarrow> bytes list \<Rightarrow> bytes \<Rightarrow> (app_error + unit) \<times> bytes option" where
  "write_archive os data plan central end_record =
     (case write_planned os data plan of
        Inl e \<Rightarrow> (Inl e, None)
      | Inr body \<Rightarrow> (Inr (), Some (body @ concat central @ end_record)))"

definition rewrite_zip ::
  "(bytes \<Rightarrow> u32) \<Rightarrow> os \<Rightarrow> bytes \<Rightarrow> bytes option \<Rightarrow> zip_rewrite \<Rightarrow>
   zip_rewrite_result outcome \<times> bytes option" where
  "rewrite_zip crc32 os data output rw =
     (case read_zip_entries os data of
        Inl f \<Rightarrow> (Inl f, output)
      | Inr unsorted \<Rightarrow>
          let entries = sort_key ze_local_header_offset unsorted;
              known = map ze_name entries;
              unknown = sort (filter (\<lambda>name. name \<notin> set known) (map fst (rw_replace rw)))
          in case unknown of
               name # _ \<Rightarrow>
                 (Inl (Failed (refusal (lit ''invalid-request'')
                    (lit ''replacement names an entry the archive does not have'')
                    [(lit ''entry'', JStr name)])), output)
             | [] \<Rightarrow>
                 (case plan_entries crc32 rw entries 0 of
                    Inl e \<Rightarrow> (Inl (Failed e), output)
                  | Inr (plan, dropped, replaced, offset) \<Rightarrow>
                      if length plan > MAX_NON_ZIP64_ENTRIES then
                        (Inl (Failed (refusal (lit ''unrepresentable'')
                           (lit ''too many zip entries for a non-zip64 directory'')
                           [(lit ''total'', JNum (int (length plan)))])), output)
                      else
                        let central = map (\<lambda>planned. central_header_bytes (pl_fields planned)) plan;
                            cd_size = sum_list (map length central)
                        in if offset \<ge> U32_MAX \<or> cd_size \<ge> U32_MAX then
                             (Inl (Failed (refusal (lit ''unrepresentable'')
                                (lit ''zip is too large for a non-zip64 directory'')
                                [(lit ''cdOffset'', JNum (int offset)),
                                 (lit ''cdSize'', JNum (int cd_size))])), output)
                           else
                             let end_record = end_of_central_directory_bytes
                                   (of_nat (length plan)) (of_nat cd_size) (of_nat offset)
                             in case write_archive os data plan central end_record of
                                  (Inl e, output1) \<Rightarrow> (Inl (Failed e), output1)
                                | (Inr _, output1) \<Rightarrow>
                                    (Inr \<lparr>rr_kept = map (ze_name \<circ> pl_source) plan,
                                          rr_dropped = dropped, rr_replaced = replaced\<rparr>, output1)))"

section \<open>Reading fields back\<close>

lemma length_put_bytes [simp]: "at + length bs \<le> length out \<Longrightarrow> length (put_bytes out at bs) = length out"
  by (simp add: put_bytes_def)

lemma slice_put_same [layout_simps]:
  "at + length bs \<le> length out \<Longrightarrow> n = length bs \<Longrightarrow> slice_of at n (put_bytes out at bs) = bs"
  by (simp add: slice_of_def put_bytes_def)

lemma slice_put_other [layout_simps]:
  "at + length bs \<le> length out \<Longrightarrow> i + n \<le> at \<or> at + length bs \<le> i \<Longrightarrow>
     slice_of i n (put_bytes out at bs) = slice_of i n out"
proof -
  assume len: "at + length bs \<le> length out" and dis: "i + n \<le> at \<or> at + length bs \<le> i"
  show ?thesis
  proof (cases "i + n \<le> at")
    case True
    then have "drop i (take at out) = take (at - i) (drop i out)" "n \<le> at - i"
      by (auto simp: drop_take)
    then show ?thesis using len True
      by (simp add: slice_of_def put_bytes_def min_absorb1)
  next
    case False
    with dis have i: "at + length bs \<le> i" by simp
    have "drop i (put_bytes out at bs) = drop (i - (at + length bs)) (drop (at + length bs) out)"
      using i len by (simp add: put_bytes_def add.commute)
    also have "\<dots> = drop i out" using i by simp
    finally show ?thesis by (simp add: slice_of_def)
  qed
qed

lemma le_nat_u16 [layout_simps]: "of_nat (le_nat (le_bytes 2 (unat v))) = (v :: u16)"
proof -
  have "unat v < 256 ^ 2" using unsigned_less [of v] by simp
  then show ?thesis by (simp add: le_nat_le_bytes)
qed

lemma le_nat_u32 [layout_simps]: "of_nat (le_nat (le_bytes 4 (unat v))) = (v :: u32)"
proof -
  have "unat v < 256 ^ 4" using unsigned_less [of v] by simp
  then show ?thesis by (simp add: le_nat_le_bytes)
qed

text \<open>
  A header is a sequence of writes at ascending positions into a zeroed buffer; each field is then
  read back where it was written.
\<close>

fun writes_ok :: "nat \<Rightarrow> nat \<Rightarrow> (nat \<times> bytes) list \<Rightarrow> bool" where
  "writes_ok k n [] \<longleftrightarrow> k \<le> n"
| "writes_ok k n ((at, bs) # ws) \<longleftrightarrow> k \<le> at \<and> writes_ok (at + length bs) n ws"

definition apply_writes :: "(nat \<times> bytes) list \<Rightarrow> bytes \<Rightarrow> bytes" where
  "apply_writes ws out = fold (\<lambda>(at, bs) out. put_bytes out at bs) ws out"

lemma writes_ok_le: "writes_ok k n ws \<Longrightarrow> k \<le> n"
  by (induction ws arbitrary: k) fastforce+

lemma length_apply_writes: "writes_ok k (length out) ws \<Longrightarrow> length (apply_writes ws out) = length out"
proof (induction ws arbitrary: k out)
  case Nil
  then show ?case by (simp add: apply_writes_def)
next
  case (Cons w ws)
  obtain at bs where w: "w = (at, bs)" by (cases w)
  with Cons.prems have len: "length (put_bytes out at bs) = length out" by (auto dest: writes_ok_le)
  from Cons.IH [of "at + length bs" "put_bytes out at bs"] Cons.prems len w
  show ?case by (simp add: apply_writes_def)
qed

lemma slice_outside_writes:
  "writes_ok k (length out) ws \<Longrightarrow> \<forall>(a, b) \<in> set ws. i + n \<le> a \<or> a + length b \<le> i \<Longrightarrow>
     slice_of i n (apply_writes ws out) = slice_of i n out"
proof (induction ws arbitrary: k out)
  case Nil
  then show ?case by (simp add: apply_writes_def)
next
  case (Cons w ws)
  obtain at bs where w: "w = (at, bs)" by (cases w)
  with Cons.prems have r: "at + length bs \<le> length out" by (auto dest: writes_ok_le)
  then have "slice_of i n (apply_writes ws (put_bytes out at bs)) = slice_of i n (put_bytes out at bs)"
    using Cons.IH [of "at + length bs" "put_bytes out at bs"] Cons.prems w by simp
  with r w Cons.prems(2) show ?case by (simp add: apply_writes_def slice_put_other)
qed

lemma writes_ok_after: "writes_ok k n ws \<Longrightarrow> (a, b) \<in> set ws \<Longrightarrow> k \<le> a"
  by (induction ws arbitrary: k) fastforce+

lemma slice_of_write:
  "writes_ok k (length out) ws \<Longrightarrow> (at, bs) \<in> set ws \<Longrightarrow> n = length bs \<Longrightarrow>
     slice_of at n (apply_writes ws out) = bs"
proof (induction ws arbitrary: k out)
  case Nil
  then show ?case by simp
next
  case (Cons w ws)
  obtain a b where w: "w = (a, b)" by (cases w)
  with Cons.prems have r: "a + length b \<le> length out" by (auto dest: writes_ok_le)
  have ok: "writes_ok (a + length b) (length (put_bytes out a b)) ws" using Cons.prems w r by simp
  have eq: "apply_writes (w # ws) out = apply_writes ws (put_bytes out a b)"
    by (simp add: apply_writes_def w)
  show ?case
  proof (cases "(at, bs) = (a, b)")
    case True
    have "\<forall>(a', b') \<in> set ws. a + n \<le> a' \<or> a' + length b' \<le> a"
      using writes_ok_after [OF ok] True Cons.prems(3) by auto
    from slice_outside_writes [OF ok this] True Cons.prems(3) r show ?thesis
      by (simp add: eq slice_put_same)
  next
    case False
    with Cons.IH [OF ok] Cons.prems w show ?thesis unfolding eq by auto
  qed
qed

definition central_writes :: "zip_central_fields \<Rightarrow> (nat \<times> bytes) list" where
  "central_writes f =
     (let c = zf_common f; w2 = (\<lambda>v :: u16. le_bytes 2 (unat v)); w4 = (\<lambda>v :: u32. le_bytes 4 (unat v)) in
      [(0, w4 CD_SIG), (4, w2 (zf_version_made_by f)), (6, w2 (zc_version_needed c)),
       (8, w2 (zc_flags c)), (10, w2 (zc_method c)), (12, w2 (zc_mod_time c)),
       (14, w2 (zc_mod_date c)), (16, w4 (zc_crc c)), (20, w4 (zc_compressed_size c)),
       (24, w4 (zc_uncompressed_size c)), (28, w2 (of_nat (length (zc_name c)))),
       (30, w2 (of_nat (length (zc_extra c)))), (36, w2 (zf_internal_attributes f)),
       (38, w4 (zf_external_attributes f)), (42, w4 (zf_local_header_offset f)),
       (46, zc_name c), (46 + length (zc_name c), zc_extra c)])"

definition local_writes :: "zip_common_fields \<Rightarrow> (nat \<times> bytes) list" where
  "local_writes c =
     (let w2 = (\<lambda>v :: u16. le_bytes 2 (unat v)); w4 = (\<lambda>v :: u32. le_bytes 4 (unat v)) in
      [(0, w4 LOCAL_SIG), (4, w2 (zc_version_needed c)), (6, w2 (zc_flags c)), (8, w2 (zc_method c)),
       (10, w2 (zc_mod_time c)), (12, w2 (zc_mod_date c)), (14, w4 (zc_crc c)),
       (18, w4 (zc_compressed_size c)), (22, w4 (zc_uncompressed_size c)),
       (26, w2 (of_nat (length (zc_name c)))), (28, w2 (of_nat (length (zc_extra c)))),
       (30, zc_name c), (30 + length (zc_name c), zc_extra c)])"

lemma central_by_writes:
  "central_header_bytes f =
     apply_writes (central_writes f)
       (replicate (46 + length (zc_name (zf_common f)) + length (zc_extra (zf_common f))) 0)"
  by (simp only: central_header_bytes_def central_writes_def apply_writes_def Let_def put_u16_def
      put_u32_def CD_MIN_def fold_simps prod.case)

lemma local_by_writes:
  "local_header_bytes c =
     apply_writes (local_writes c) (replicate (30 + length (zc_name c) + length (zc_extra c)) 0)"
  by (simp only: local_header_bytes_def local_writes_def apply_writes_def Let_def put_u16_def
      put_u32_def LOCAL_MIN_def fold_simps prod.case)

lemma central_writes_ok:
  "writes_ok 0 (46 + length (zc_name (zf_common f)) + length (zc_extra (zf_common f))) (central_writes f)"
  by (simp add: central_writes_def Let_def)

lemma local_writes_ok:
  "writes_ok 0 (30 + length (zc_name c) + length (zc_extra c)) (local_writes c)"
  by (simp add: local_writes_def Let_def)

lemma length_central [simp]:
  "length (central_header_bytes f) = 46 + length (zc_name (zf_common f)) + length (zc_extra (zf_common f))"
  using length_apply_writes [of 0 "replicate (46 + length (zc_name (zf_common f)) + length (zc_extra (zf_common f))) 0"]
    central_writes_ok [of f] by (simp add: central_by_writes)

lemma length_local [simp]:
  "length (local_header_bytes c) = 30 + length (zc_name c) + length (zc_extra c)"
  using length_apply_writes [of 0 "replicate (30 + length (zc_name c) + length (zc_extra c)) 0"]
    local_writes_ok [of c] by (simp add: local_by_writes)

lemma slice_central:
  "(at, bs) \<in> set (central_writes f) \<Longrightarrow> n = length bs \<Longrightarrow> slice_of at n (central_header_bytes f) = bs"
  unfolding central_by_writes by (rule slice_of_write [where k = 0]) (simp_all add: central_writes_ok)

lemma slice_local:
  "(at, bs) \<in> set (local_writes c) \<Longrightarrow> n = length bs \<Longrightarrow> slice_of at n (local_header_bytes c) = bs"
  unfolding local_by_writes by (rule slice_of_write [where k = 0]) (simp_all add: local_writes_ok)

definition eocd_writes :: "u16 \<Rightarrow> u32 \<Rightarrow> u32 \<Rightarrow> (nat \<times> bytes) list" where
  "eocd_writes t s f =
     [(0, le_bytes 4 (unat EOCD_SIG)), (8, le_bytes 2 (unat t)), (10, le_bytes 2 (unat t)),
      (12, le_bytes 4 (unat s)), (16, le_bytes 4 (unat f))]"

lemma eocd_by_writes: "end_of_central_directory_bytes t s f = apply_writes (eocd_writes t s f) (replicate 22 0)"
  by (simp only: end_of_central_directory_bytes_def eocd_writes_def apply_writes_def Let_def
      put_u16_def put_u32_def fold_simps prod.case)

lemma eocd_writes_ok: "writes_ok 0 22 (eocd_writes t s f)"
  by (simp add: eocd_writes_def)

lemma length_eocd [simp]: "length (end_of_central_directory_bytes t s f) = 22"
  using length_apply_writes [of 0 "replicate 22 0"] eocd_writes_ok by (simp add: eocd_by_writes)

lemma slice_eocd:
  "(at, bs) \<in> set (eocd_writes t s f) \<Longrightarrow> n = length bs \<Longrightarrow>
     slice_of at n (end_of_central_directory_bytes t s f) = bs"
  unfolding eocd_by_writes by (rule slice_of_write [where k = 0]) (simp_all add: eocd_writes_ok)

section \<open>The reader on written records\<close>

lemma bytes_at_within [layout_simps]:
  "i + n \<le> length ys \<Longrightarrow> bytes_at n (xs @ ys @ zs) (length xs + i) = Inr (slice_of i n ys)"
  by (simp add: bytes_at_def slice_of_def)

lemma u16_at_within:
  assumes "slice_of i 2 ys = le_bytes 2 (unat v)" "i + 2 \<le> length ys"
  shows "u16_at (xs @ ys @ zs) (length xs + i) = Inr v"
  using assms by (simp add: u16_at_def bytes_at_within le_nat_u16)

lemma u32_at_within:
  assumes "slice_of i 4 ys = le_bytes 4 (unat v)" "i + 4 \<le> length ys"
  shows "u32_at (xs @ ys @ zs) (length xs + i) = Inr v"
  using assms by (simp add: u32_at_def bytes_at_within le_nat_u32)

definition entry_of_fields :: "zip_central_fields \<Rightarrow> zip_entry" where
  "entry_of_fields f =
     \<lparr>ze_name = decode_utf8 (zc_name (zf_common f)), ze_method = zc_method (zf_common f),
      ze_compressed_size = unat (zc_compressed_size (zf_common f)),
      ze_uncompressed_size = unat (zc_uncompressed_size (zf_common f)),
      ze_local_header_offset = unat (zf_local_header_offset f),
      ze_flags = zc_flags (zf_common f), ze_crc = zc_crc (zf_common f),
      ze_mod_time = zc_mod_time (zf_common f), ze_mod_date = zc_mod_date (zf_common f),
      ze_version_made_by = zf_version_made_by f, ze_version_needed = zc_version_needed (zf_common f),
      ze_internal_attributes = zf_internal_attributes f,
      ze_external_attributes = zf_external_attributes f\<rparr>"

definition fields_plain :: "zip_central_fields \<Rightarrow> bool" where
  "fields_plain f \<longleftrightarrow>
     length (zc_name (zf_common f)) \<le> U16_MAX \<and> zc_extra (zf_common f) = [] \<and>
     unat (zc_compressed_size (zf_common f)) < U32_MAX \<and>
     unat (zc_uncompressed_size (zf_common f)) < U32_MAX \<and> unat (zf_local_header_offset f) < U32_MAX"

lemma central_field16:
  assumes "(at, le_bytes 2 (unat v)) \<in> set (central_writes f)" "at \<le> 44"
  shows "u16_at (xs @ central_header_bytes f @ zs) (length xs + at) = Inr v"
  by (rule u16_at_within [OF slice_central [OF assms(1)]]) (use assms(2) in simp_all)

lemma central_field32:
  assumes "(at, le_bytes 4 (unat v)) \<in> set (central_writes f)" "at \<le> 42"
  shows "u32_at (xs @ central_header_bytes f @ zs) (length xs + at) = Inr v"
  by (rule u32_at_within [OF slice_central [OF assms(1)]]) (use assms(2) in simp_all)

lemma read_entry_at_central:
  assumes "fields_plain f"
  shows "read_entry_at (xs @ central_header_bytes f @ zs) (length xs) =
    Inr (entry_of_fields f, length xs + length (central_header_bytes f))"
proof -
  let ?cd = "xs @ central_header_bytes f @ zs"
  let ?n = "length (zc_name (zf_common f))"
  have f16: "u16_at ?cd (length xs + 28) = Inr (of_nat ?n)"
    "u16_at ?cd (length xs + 30) = Inr (of_nat (length (zc_extra (zf_common f))))"
    "u16_at ?cd (length xs + 10) = Inr (zc_method (zf_common f))"
    "u16_at ?cd (length xs + 4) = Inr (zf_version_made_by f)"
    "u16_at ?cd (length xs + 6) = Inr (zc_version_needed (zf_common f))"
    "u16_at ?cd (length xs + 8) = Inr (zc_flags (zf_common f))"
    "u16_at ?cd (length xs + 12) = Inr (zc_mod_time (zf_common f))"
    "u16_at ?cd (length xs + 14) = Inr (zc_mod_date (zf_common f))"
    "u16_at ?cd (length xs + 36) = Inr (zf_internal_attributes f)"
    by (rule central_field16; simp add: central_writes_def Let_def)+
  have f32: "u32_at ?cd (length xs + 0) = Inr CD_SIG"
    "u32_at ?cd (length xs + 20) = Inr (zc_compressed_size (zf_common f))"
    "u32_at ?cd (length xs + 24) = Inr (zc_uncompressed_size (zf_common f))"
    "u32_at ?cd (length xs + 42) = Inr (zf_local_header_offset f)"
    "u32_at ?cd (length xs + 16) = Inr (zc_crc (zf_common f))"
    "u32_at ?cd (length xs + 38) = Inr (zf_external_attributes f)"
    by (rule central_field32; simp add: central_writes_def Let_def)+
  have gap: "u16_at ?cd (length xs + 32) = Inr 0"
  proof (rule u16_at_within)
    show "slice_of 32 2 (central_header_bytes f) = le_bytes 2 (unat (0 :: u16))"
      using slice_outside_writes [of 0 "replicate (46 + ?n + length (zc_extra (zf_common f))) 0"
          "central_writes f" 32 2] central_writes_ok [of f]
      by (simp add: central_by_writes central_writes_def Let_def slice_of_def numeral_2_eq_2)
  qed simp
  have name: "bytes_at ?n ?cd (length xs + 46) = Inr (zc_name (zf_common f))"
    using slice_central [of 46 "zc_name (zf_common f)" f ?n]
    by (simp add: bytes_at_within central_writes_def Let_def)
  have n: "unat (of_nat ?n :: u16) = ?n"
    using assms by (simp add: fields_plain_def U16_MAX_def unat_of_nat)
  have sizes: "entry_sizes ?cd a b \<lparr>z_compressed_size = unat (zc_compressed_size (zf_common f)),
      z_uncompressed_size = unat (zc_uncompressed_size (zf_common f)),
      z_local_header_offset = unat (zf_local_header_offset f)\<rparr> =
    Inr \<lparr>z_compressed_size = unat (zc_compressed_size (zf_common f)),
      z_uncompressed_size = unat (zc_uncompressed_size (zf_common f)),
      z_local_header_offset = unat (zf_local_header_offset f)\<rparr>" for a b
    using assms by (auto simp: entry_sizes_def fields_plain_def)
  have extra: "zc_extra (zf_common f) = []" using assms by (simp add: fields_plain_def)
  show ?thesis
    using f32(1)
    by (simp add: read_entry_at_def CD_MIN_def f16 f32 gap name n sizes extra Let_def entry_of_fields_def)
qed

section \<open>The plan\<close>

definition planned_sizes :: "zip_rewrite \<Rightarrow> zip_entry \<Rightarrow> nat \<times> nat" where
  "planned_sizes rw entry =
     (case map_of (rw_replace rw) (ze_name entry) of
        Some bs \<Rightarrow> (length bs, length bs)
      | None \<Rightarrow> (ze_compressed_size entry, ze_uncompressed_size entry))"

definition planned_at :: "(bytes \<Rightarrow> u32) \<Rightarrow> zip_rewrite \<Rightarrow> nat \<Rightarrow> planned_entry \<Rightarrow> bool" where
  "planned_at crc32 rw offset p \<longleftrightarrow>
     (let entry = pl_source p; (c, u) = planned_sizes rw entry in
      pl_replacement p = map_of (rw_replace rw) (ze_name entry) \<and>
      pl_fields p = planned_fields crc32 entry (pl_replacement p) c u offset \<and>
      c < U32_MAX \<and> u < U32_MAX \<and> offset < U32_MAX \<and>
      length (utf8_encode (ze_name entry)) \<le> U16_MAX)"

fun plan_layout :: "(bytes \<Rightarrow> u32) \<Rightarrow> zip_rewrite \<Rightarrow> nat \<Rightarrow> planned_entry list \<Rightarrow> nat \<Rightarrow> bool" where
  "plan_layout crc32 rw offset [] stop \<longleftrightarrow> stop = offset"
| "plan_layout crc32 rw offset (p # plan) stop \<longleftrightarrow>
     planned_at crc32 rw offset p \<and>
     plan_layout crc32 rw
       (offset + 30 + length (utf8_encode (ze_name (pl_source p))) + fst (planned_sizes rw (pl_source p)))
       plan stop"

lemma plan_entries_layout:
  "plan_entries crc32 rw es offset = Inr (plan, dropped, replaced, stop) \<Longrightarrow>
     map pl_source plan = filter (\<lambda>e. ze_name e \<notin> set (rw_drop rw)) es \<and>
     plan_layout crc32 rw offset plan stop"
proof (induction es arbitrary: offset plan dropped replaced)
  case Nil
  then show ?case by simp
next
  case (Cons e es)
  show ?case
  proof (cases "ze_name e \<in> set (rw_drop rw)")
    case True
    with Cons show ?thesis by (auto simp: bindE_eq_Inr)
  next
    case False
    obtain c u where cu: "planned_sizes rw e = (c, u)" by (cases "planned_sizes rw e")
    then have cu': "(case map_of (rw_replace rw) (ze_name e) of Some bs \<Rightarrow> (length bs, length bs)
        | None \<Rightarrow> (ze_compressed_size e, ze_uncompressed_size e)) = (c, u)"
      by (simp add: planned_sizes_def)
    let ?n = "length (utf8_encode (ze_name e))"
    from Cons.prems False cu' obtain plan' replaced' where
      small: "c < U32_MAX" "u < U32_MAX" "offset < U32_MAX" "?n \<le> U16_MAX"
      and rest: "plan_entries crc32 rw es (offset + LOCAL_MIN + ?n + c) = Inr (plan', dropped, replaced', stop)"
      and plan: "plan = \<lparr>pl_source = e,
          pl_fields = planned_fields crc32 e (map_of (rw_replace rw) (ze_name e)) c u offset,
          pl_replacement = map_of (rw_replace rw) (ze_name e)\<rparr> # plan'"
      by (auto simp: Let_def bindE_eq_Inr split: if_splits)
    from Cons.IH [OF rest] False small cu plan show ?thesis
      by (simp add: planned_at_def LOCAL_MIN_def)
  qed
qed

lemma planned_at_plain: "planned_at crc32 rw offset p \<Longrightarrow> fields_plain (pl_fields p)"
  by (auto simp: planned_at_def fields_plain_def planned_fields_def U32_MAX_def unat_of_nat Let_def
      split: prod.splits)

text \<open>What a reader finds in a record planned at an offset.\<close>

definition copied_entry :: "(bytes \<Rightarrow> u32) \<Rightarrow> zip_rewrite \<Rightarrow> zip_entry \<Rightarrow> zip_entry \<Rightarrow> bool" where
  "copied_entry crc32 rw e e' \<longleftrightarrow>
     (let replacement = map_of (rw_replace rw) (ze_name e) in
      ze_name e' = decode_utf8 (utf8_encode (ze_name e)) \<and>
      (ze_compressed_size e', ze_uncompressed_size e') = planned_sizes rw e \<and>
      ze_method e' = (if replacement \<noteq> None then 0 else ze_method e) \<and>
      ze_crc e' = (case replacement of None \<Rightarrow> ze_crc e | Some bs \<Rightarrow> crc32 bs) \<and>
      ze_flags e' = and (ze_flags e) FLAGS_KEPT \<and>
      ze_mod_time e' = ze_mod_time e \<and> ze_mod_date e' = ze_mod_date e \<and>
      ze_version_made_by e' = ze_version_made_by e \<and> ze_version_needed e' = ze_version_needed e \<and>
      ze_internal_attributes e' = ze_internal_attributes e \<and>
      ze_external_attributes e' = ze_external_attributes e)"

lemma planned_entry_facts:
  assumes "planned_at crc32 rw offset p"
  shows "copied_entry crc32 rw (pl_source p) (entry_of_fields (pl_fields p))"
    and "ze_local_header_offset (entry_of_fields (pl_fields p)) = offset"
    and "ze_compressed_size (entry_of_fields (pl_fields p)) = fst (planned_sizes rw (pl_source p))"
    and "zc_name (zf_common (pl_fields p)) = utf8_encode (ze_name (pl_source p))"
    and "zc_extra (zf_common (pl_fields p)) = []"
  using assms
  by (auto simp: planned_at_def copied_entry_def entry_of_fields_def planned_fields_def U32_MAX_def
      unat_of_nat Let_def split: prod.splits)

section \<open>The copied payload\<close>

definition raw_entry_data :: "os \<Rightarrow> bytes \<Rightarrow> zip_entry \<Rightarrow> bytes outcome" where
  "raw_entry_data os data entry =
     bindE (data_offset_of (source_open os data) entry) (\<lambda>off.
       source_read_at (source_open os data) off (ze_compressed_size entry))"

lemma copy_loop_spec:
  "copy_loop os data entry start chunk at = Inr bs \<Longrightarrow> at \<le> ze_compressed_size entry \<Longrightarrow> 0 < chunk \<Longrightarrow>
     length bs = ze_compressed_size entry - at \<and>
     bs = slice_of (start + at) (ze_compressed_size entry - at) data"
proof (induction os data entry start chunk at arbitrary: bs rule: copy_loop.induct)
  case (1 os data entry start chunk at)
  show ?case
  proof (cases "at < ze_compressed_size entry")
    case False
    with 1(2-) show ?thesis by (simp add: copy_loop.simps slice_of_def)
  next
    case True
    let ?len = "min (ze_compressed_size entry - at) chunk"
    from True 1(2-) obtain buffer rest where
      buffer: "read_exact_at os data (start + at) ?len = Inr buffer"
      and rest: "copy_loop os data entry start chunk (at + ?len) = Inr rest" and bs: "bs = buffer @ rest"
      unfolding copy_loop.simps [of os data entry start chunk at]
      by (auto simp: Let_def bindE_eq_Inr split: sum.splits)
    have cond: "at < ze_compressed_size entry \<and> 0 < chunk" using True 1(4) by simp
    have le: "at + ?len \<le> ze_compressed_size entry" using True by (auto simp: min_def)
    note ih = 1(1) [OF cond refl buffer rest le 1(4)]
    note b = read_exact_at_length [OF buffer]
    have "slice_of (start + at) (ze_compressed_size entry - at) data =
        slice_of (start + at) ?len data @ slice_of (start + at + ?len) (ze_compressed_size entry - at - ?len) data"
      by (rule slice_of_extend) simp
    moreover have "ze_compressed_size entry - (at + ?len) = ze_compressed_size entry - at - ?len" by simp
    ultimately have "bs = slice_of (start + at) (ze_compressed_size entry - at) data"
      using ih b bs by (simp only: add.assoc)
    moreover have "length bs = ze_compressed_size entry - at"
      using ih b le unfolding bs length_append by linarith
    ultimately show ?thesis by blast
  qed
qed

lemma read_exact_at_delivers:
  assumes "os_delivers os"
  shows "read_exact_at os data p n = Inr bs \<longleftrightarrow> bs = slice_of p n data \<and> length bs = n"
proof
  assume "read_exact_at os data p n = Inr bs"
  then show "bs = slice_of p n data \<and> length bs = n" using read_exact_at_length by blast
next
  assume bs: "bs = slice_of p n data \<and> length bs = n"
  show "read_exact_at os data p n = Inr bs"
  proof (cases "n = 0")
    case True
    with bs show ?thesis by (auto simp: read_exact_at.simps)
  next
    case False
    with bs have "p + n \<le> length data" by (auto simp: min_def split: if_splits)
    with bs read_exact_at_ok [OF assms] show ?thesis by blast
  qed
qed

lemma source_open_fields [simp]:
  "src_os (source_open os data) = os" "src_data (source_open os data) = data"
  "src_size (source_open os data) = length data"
  by (simp_all add: source_open_def)

lemma copy_entry_data_raw:
  assumes copy: "copy_entry_data os data (length data) entry = Inr bs"
    and os: "os_delivers os" and max: "length data \<le> MAX_SAFE_INTEGER"
  shows "raw_entry_data os data entry = Inr bs \<and> length bs = ze_compressed_size entry"
proof -
  let ?at = "ze_local_header_offset entry" and ?n = "ze_compressed_size entry"
  from copy obtain st0 where
    off: "copy_data_offset os data (length data) entry = Inr st0"
    and fit: "\<not> ends_past (checked_add st0 ?n) (length data)"
    and loop: "copy_loop os data entry st0 (min (max ?n 1) COPY_CHUNK_BYTES) 0 = Inr bs"
    by (auto simp: copy_entry_data_def bindE_eq_Inr split: if_splits)
  from off obtain header where
    hd: "\<not> ends_past (checked_add ?at LOCAL_MIN) (length data)"
      "read_exact_at os data ?at LOCAL_MIN = Inr header" "le_u32_at header 0 = LOCAL_SIG"
      "st0 = ?at + LOCAL_MIN + le_u16_at header 26 + le_u16_at header 28"
    by (auto simp: copy_data_offset_def Let_def split: if_splits sum.splits)
  have hlen: "length header = 30" using read_exact_at_length [OF hd(2)] unfolding LOCAL_MIN_def by blast
  have pos: "0 < min (max ?n 1) COPY_CHUNK_BYTES" by (simp add: COPY_CHUNK_BYTES_def less_max_iff_disj)
  have bs: "length bs = ?n" "bs = slice_of st0 ?n data"
    using copy_loop_spec [OF loop le0 pos] unfolding add_0_right diff_zero by blast+
  have at: "?at + 30 \<le> length data" "st0 + ?n \<le> length data"
    using hd(1) fit by (auto simp: ends_past_def checked_add_def LOCAL_MIN_def split: option.splits if_splits)
  let ?src = "source_open os data"
  have small: "p + n \<le> length data \<Longrightarrow> source_read_at ?src p n = Inr (slice_of p n data)" for p n
    using source_read_at_ok [of ?src p n] os max
    by (simp add: MAX_SAFE_INTEGER_def)
  have header: "source_read_at ?src ?at 30 = Inr header"
    using small [OF at(1)] read_exact_at_length [OF hd(2)] at(1) unfolding LOCAL_MIN_def by simp
  have w: "le_u16_at header i < 2 ^ 16" for i
  proof -
    have "(256 :: nat) ^ length (slice_of i 2 header) \<le> 256 ^ 2" by (rule power_increasing) simp_all
    with le_nat_bound [of "slice_of i 2 header"] show ?thesis
      unfolding le_u16_at_def by (simp del: length_slice_of)
  qed
  have fields: "u32_at header 0 = Inr LOCAL_SIG" "u16_at header 26 = Inr (of_nat (le_u16_at header 26))"
      "u16_at header 28 = Inr (of_nat (le_u16_at header 28))"
    using hd(3) hlen by (simp_all add: u32_at_def u16_at_def bytes_at_def le_u32_at_def le_u16_at_def)
  have un: "unat (of_nat (le_u16_at header i) :: u16) = le_u16_at header i" for i
    using w [of i] by (simp add: unat_of_nat)
  have "data_offset_of ?src entry = Inr st0"
    using fit hd(4) by (simp add: data_offset_of_def header fields un Let_def LOCAL_MIN_def)
  then show ?thesis
    using small [OF at(2)] bs by (simp add: raw_entry_data_def)
qed

section \<open>Reading the archive back\<close>

lemma raw_entry_written:
  assumes out: "out = pre @ local_header_bytes c @ payload @ post"
    and os: "os_delivers os" and max: "length out \<le> MAX_SAFE_INTEGER"
    and e: "ze_local_header_offset e = length pre" "ze_compressed_size e = length payload"
    and c: "length (zc_name c) \<le> U16_MAX" "zc_extra c = []"
  shows "raw_entry_data os out e = Inr payload"
proof -
  let ?src = "source_open os out"
  have small: "p + n \<le> length out \<Longrightarrow> source_read_at ?src p n = Inr (slice_of p n out)" for p n
    using source_read_at_ok [of ?src p n] os max
    by (simp add: MAX_SAFE_INTEGER_def)
  let ?h = "slice_of 0 30 (local_header_bytes c)"
  have head: "slice_of (length pre) 30 out = ?h"
    by (simp add: out slice_of_def)
  have sub: "slice_of i n ?h = slice_of i n (local_header_bytes c)" if "i + n \<le> 30" for i n
    using that by (simp add: slice_of_def drop_take min_absorb1)
  have f: "slice_of 0 4 (local_header_bytes c) = le_bytes 4 (unat LOCAL_SIG)"
      "slice_of 26 2 (local_header_bytes c) = le_bytes 2 (unat (of_nat (length (zc_name c)) :: u16))"
      "slice_of 28 2 (local_header_bytes c) = le_bytes 2 (unat (of_nat (length (zc_extra c)) :: u16))"
    by (rule slice_local; simp add: local_writes_def Let_def)+
  have fields: "u32_at ?h 0 = Inr LOCAL_SIG" "u16_at ?h 26 = Inr (of_nat (length (zc_name c)))"
      "u16_at ?h 28 = Inr (of_nat (length (zc_extra c)))"
    by (simp_all add: u32_at_def u16_at_def bytes_at_def sub f le_nat_u16 le_nat_u32)
  have n: "unat (of_nat (length (zc_name c)) :: u16) = length (zc_name c)"
    using c(1) by (simp add: U16_MAX_def unat_of_nat)
  have fit: "length pre + 30 + length (zc_name c) + length payload \<le> length out"
    by (simp add: out c)
  have "source_read_at ?src (length pre) 30 = Inr ?h"
    using small [of "length pre" 30] head fit by simp
  then have off: "data_offset_of ?src e = Inr (length pre + 30 + length (zc_name c))"
    using fit max by (simp add: data_offset_of_def e fields n c(2) Let_def ends_past_def checked_add_def
        MAX_SAFE_INTEGER_def)
  have "slice_of (length pre + 30 + length (zc_name c)) (length payload) out = payload"
    by (simp add: out slice_of_def c(2))
  then show ?thesis
    using small [of "length pre + 30 + length (zc_name c)" "length payload"] fit
    by (simp add: raw_entry_data_def off e(2))
qed

text \<open>The entries written by a plan, each in place behind its header.\<close>

definition payload_of :: "os \<Rightarrow> bytes \<Rightarrow> zip_rewrite \<Rightarrow> zip_entry \<Rightarrow> bytes outcome" where
  "payload_of os data rw entry =
     (case map_of (rw_replace rw) (ze_name entry) of
        Some bs \<Rightarrow> Inr bs
      | None \<Rightarrow> raw_entry_data os data entry)"

lemma write_planned_layout:
  assumes "os_delivers os" "length data \<le> MAX_SAFE_INTEGER"
  shows "write_planned os data plan = Inr body \<Longrightarrow> plan_layout crc32 rw (length pre) plan stop \<Longrightarrow>
    length (pre @ body) = stop \<and>
    list_all (\<lambda>p. \<exists>a payload z. pre @ body = a @ local_header_bytes (zf_common (pl_fields p)) @ payload @ z \<and>
      planned_at crc32 rw (length a) p \<and> length payload = fst (planned_sizes rw (pl_source p)) \<and>
      payload_of os data rw (pl_source p) = Inr payload) plan"
proof (induction plan arbitrary: body pre)
  case Nil
  then show ?case by simp
next
  case (Cons p plan)
  let ?h = "local_header_bytes (zf_common (pl_fields p))"
  from Cons.prems(2) have at: "planned_at crc32 rw (length pre) p" by simp
  from Cons.prems(1) obtain payload rest where
    payload: "(case pl_replacement p of Some bs \<Rightarrow> Inr bs
       | None \<Rightarrow> copy_entry_data os data (length data) (pl_source p)) = Inr payload"
    and rest: "write_planned os data plan = Inr rest" and body: "body = ?h @ payload @ rest"
    by (auto simp: bindE_eq_Inr)
  have repl: "pl_replacement p = map_of (rw_replace rw) (ze_name (pl_source p))"
    using at by (auto simp: planned_at_def Let_def split: prod.splits)
  have pay: "payload_of os data rw (pl_source p) = Inr payload \<and>
      length payload = fst (planned_sizes rw (pl_source p))"
    using payload copy_entry_data_raw [OF _ assms]
    by (auto simp: payload_of_def planned_sizes_def repl split: option.splits)
  have len: "length (pre @ ?h @ payload) =
      length pre + 30 + length (utf8_encode (ze_name (pl_source p))) + fst (planned_sizes rw (pl_source p))"
    using planned_entry_facts(4,5) [OF at] pay by simp
  with Cons.prems(2) have "plan_layout crc32 rw (length (pre @ ?h @ payload)) plan stop"
    by (simp only: len plan_layout.simps)
  from Cons.IH [OF rest this] have ih: "length ((pre @ ?h @ payload) @ rest) = stop"
    "list_all (\<lambda>p. \<exists>a payload z. pre @ body = a @ local_header_bytes (zf_common (pl_fields p)) @ payload @ z \<and>
      planned_at crc32 rw (length a) p \<and> length payload = fst (planned_sizes rw (pl_source p)) \<and>
      payload_of os data rw (pl_source p) = Inr payload) plan"
    by (simp_all add: body)
  have "pre @ body = pre @ ?h @ payload @ rest" by (simp add: body)
  with at pay ih show ?case by (auto simp: body)
qed

lemma read_records_central:
  "list_all (\<lambda>f. fields_plain f) fs \<Longrightarrow>
     read_records (length fs) (xs @ concat (map central_header_bytes fs) @ zs) (length xs) =
       Inr (map entry_of_fields fs)"
proof (induction fs arbitrary: xs)
  case Nil
  then show ?case by simp
next
  case (Cons f fs)
  let ?h = "central_header_bytes f"
  have "read_entry_at (xs @ concat (map central_header_bytes (f # fs)) @ zs) (length xs) =
      Inr (entry_of_fields f, length (xs @ ?h))"
    using read_entry_at_central [of f xs "concat (map central_header_bytes fs) @ zs"] Cons.prems by simp
  with Cons.IH [of "xs @ ?h"] Cons.prems show ?case by simp
qed

lemma eocd_read:
  assumes os: "os_delivers os" and max: "length body + length cd + 22 \<le> MAX_SAFE_INTEGER"
    and n: "n < U16_MAX" and cd: "length cd < U32_MAX" and body: "length body < U32_MAX"
  shows "read_zip_entries os (body @ cd @ end_of_central_directory_bytes (of_nat n) (of_nat (length cd)) (of_nat (length body)))
    = read_records n cd 0"
proof -
  let ?e = "end_of_central_directory_bytes (of_nat n) (of_nat (length cd)) (of_nat (length body))"
  let ?out = "body @ cd @ ?e"
  let ?src = "source_open os ?out"
  have small: "p + n \<le> length ?out \<Longrightarrow> source_read_at ?src p n = Inr (slice_of p n ?out)" for p n
    using source_read_at_ok [of ?src p n] os max
    by (simp add: MAX_SAFE_INTEGER_def)
  let ?len = "length ?out" let ?tl = "min ?len (22 + 0xffff)"
  have tl: "22 \<le> ?tl" "?tl \<le> ?len" by (simp, rule min.cobounded1)
  obtain pre where pre: "slice_of (?len - ?tl) ?tl ?out = pre @ ?e"
  proof -
    have "length (drop (?len - ?tl) ?out) = ?tl"
      using tl(2) by (simp only: length_drop diff_diff_cancel)
    then have "slice_of (?len - ?tl) ?tl ?out = drop (?len - ?tl) ((body @ cd) @ ?e)"
      unfolding slice_of_def by (simp only: take_all order_refl append_assoc)
    also have "\<dots> = drop (?len - ?tl) (body @ cd) @ ?e"
    proof -
      have "?len - ?tl \<le> ?len - 22" by (rule diff_le_mono2 [OF tl(1)])
      also have "?len - 22 = length (body @ cd)" by simp
      finally have "?len - ?tl - length (body @ cd) = 0" by (simp only: diff_is_0_eq)
      then show ?thesis by (simp only: drop_append drop_0)
    qed
    finally show ?thesis by (rule that)
  qed
  have plen: "length pre + 22 = ?tl"
  proof -
    have "length (slice_of (?len - ?tl) ?tl ?out) = ?tl" using tl by (simp del: length_append)
    then show ?thesis unfolding pre by simp
  qed
  have sig: "u32_at (pre @ ?e) (length pre + 0) = Inr EOCD_SIG"
    using u32_at_within [OF slice_eocd, of 0 EOCD_SIG "of_nat n" "of_nat (length cd)" "of_nat (length body)" pre "[]"]
    by (simp add: eocd_writes_def)
  have scan: "eocd_scan (pre @ ?e) (length pre) = Inr (Some (length pre))"
    using sig by (cases "length pre") (auto simp: eocd_scan.simps)
  have f16: "u16_at (pre @ ?e) (length pre + 10) = Inr (of_nat n)"
    using u16_at_within [OF slice_eocd, of 10 "of_nat n" "of_nat n" "of_nat (length cd)" "of_nat (length body)" pre "[]"]
    by (simp add: eocd_writes_def)
  have f32: "u32_at (pre @ ?e) (length pre + 12) = Inr (of_nat (length cd))"
      "u32_at (pre @ ?e) (length pre + 16) = Inr (of_nat (length body))"
    using u32_at_within [OF slice_eocd, of 12 "of_nat (length cd)" "of_nat n" "of_nat (length cd)" "of_nat (length body)" pre "[]"]
      u32_at_within [OF slice_eocd, of 16 "of_nat (length body)" "of_nat n" "of_nat (length cd)" "of_nat (length body)" pre "[]"]
    by (simp_all add: eocd_writes_def)
  have un: "unat (of_nat n :: u16) = n" "unat (of_nat (length cd) :: u32) = length cd"
      "unat (of_nat (length body) :: u32) = length body"
    using n cd body by (simp_all add: U16_MAX_def U32_MAX_def unat_of_nat)
  have size: "src_size ?src = ?len" by (simp add: source_open_def)
  have tail: "source_read_at ?src (?len - ?tl) ?tl = Inr (pre @ ?e)"
    using small [of "?len - ?tl" ?tl] pre tl by simp
  have cds: "source_read_at ?src (length body) (length cd) = Inr cd"
    using small [of "length body" "length cd"] by (simp add: slice_of_append_mid)
  have lp: "length (pre @ ?e) - 22 = length pre" by simp
  have big: "\<not> ?len < 22" by simp
  have nz: "n \<noteq> U16_MAX" "length cd \<noteq> U32_MAX" "length body \<noteq> U32_MAX" using n cd body by auto
  show ?thesis
    unfolding read_zip_entries_def read_entries_def Let_def size EOCD_MIN_def MAX_COMMENT_def
    by (simp only: big if_False tail bindE_simps lp scan option.case f16 f32 un nz simp_thms prod.case)
      (simp add: cds)
qed

section \<open>Properties\<close>

lemma plan_layout_at: "plan_layout crc32 rw offset plan stop \<Longrightarrow> list_all (\<lambda>p. \<exists>o'. planned_at crc32 rw o' p) plan"
  by (induction plan arbitrary: offset) auto

lemma rewrite_reads_back:
  assumes rewrite: "rewrite_zip crc32 os data output rw = (Inr res, Some out)"
    and input: "read_zip_entries os data = Inr entries"
    and os: "os_delivers os" and max: "length data \<le> MAX_SAFE_INTEGER"
  shows "\<exists>outs. read_zip_entries os out = Inr outs \<and>
    (let kept = filter (\<lambda>e. ze_name e \<notin> set (rw_drop rw)) (sort_key ze_local_header_offset entries) in
     rr_kept res = map ze_name kept \<and>
     list_all2 (\<lambda>e e'. copied_entry crc32 rw e e' \<and> raw_entry_data os out e' = payload_of os data rw e)
       kept outs)"
proof -
  let ?es = "sort_key ze_local_header_offset entries"
  from rewrite input obtain plan dropped replaced offset where
    plan: "plan_entries crc32 rw ?es 0 = Inr (plan, dropped, replaced, offset)"
    and num: "length plan \<le> MAX_NON_ZIP64_ENTRIES"
    and small: "offset < U32_MAX" "sum_list (map length (map (\<lambda>p. central_header_bytes (pl_fields p)) plan)) < U32_MAX"
    and arch: "write_archive os data plan (map (\<lambda>p. central_header_bytes (pl_fields p)) plan)
      (end_of_central_directory_bytes (of_nat (length plan))
        (of_nat (sum_list (map length (map (\<lambda>p. central_header_bytes (pl_fields p)) plan)))) (of_nat offset))
      = (Inr (), Some out)"
    and res: "rr_kept res = map (ze_name \<circ> pl_source) plan"
    unfolding rewrite_zip_def Let_def
    by (auto simp: Let_def split: list.splits sum.splits prod.splits if_splits)
  note layout = plan_entries_layout [OF plan]
  from arch obtain body where body: "write_planned os data plan = Inr body"
    and out: "out = body @ concat (map central_header_bytes (map pl_fields plan)) @
      end_of_central_directory_bytes (of_nat (length plan))
        (of_nat (length (concat (map central_header_bytes (map pl_fields plan))))) (of_nat offset)"
    by (auto simp: write_archive_def length_concat comp_def split: sum.splits)
  let ?cd = "concat (map central_header_bytes (map pl_fields plan))"
  have "plan_layout crc32 rw (length []) plan offset" using layout by simp
  from write_planned_layout [OF os max body this]
  have len: "length body = offset" and placed:
    "list_all (\<lambda>p. \<exists>a payload z. body = a @ local_header_bytes (zf_common (pl_fields p)) @ payload @ z \<and>
      planned_at crc32 rw (length a) p \<and> length payload = fst (planned_sizes rw (pl_source p)) \<and>
      payload_of os data rw (pl_source p) = Inr payload) plan"
    by simp_all
  have cdlen: "length ?cd < U32_MAX" using small(2) by (simp add: length_concat comp_def)
  have outmax: "length out \<le> MAX_SAFE_INTEGER"
    using cdlen small(1) len by (simp add: out U32_MAX_def MAX_SAFE_INTEGER_def)
  have "list_all fields_plain (map pl_fields plan)"
    using plan_layout_at [of crc32 rw 0 plan offset] layout
    by (auto simp: list_all_iff dest: planned_at_plain)
  from read_records_central [OF this, of "[]" "[]"]
  have recs: "read_records (length plan) ?cd 0 = Inr (map (entry_of_fields \<circ> pl_fields) plan)" by simp
  have "read_zip_entries os out = Inr (map (entry_of_fields \<circ> pl_fields) plan)"
    using eocd_read [OF os, of body ?cd "length plan"] outmax num cdlen small(1) len recs
    by (simp add: out MAX_NON_ZIP64_ENTRIES_def U16_MAX_def)
  moreover have "list_all2 (\<lambda>e e'. copied_entry crc32 rw e e' \<and> raw_entry_data os out e' = payload_of os data rw e)
      (map pl_source plan) (map (entry_of_fields \<circ> pl_fields) plan)"
  proof (simp add: list_all2_map1 list_all2_map2 list_all2_same, intro ballI conjI)
    fix p assume "p \<in> set plan"
    with placed obtain a payload z where
      p: "body = a @ local_header_bytes (zf_common (pl_fields p)) @ payload @ z"
        "planned_at crc32 rw (length a) p" "length payload = fst (planned_sizes rw (pl_source p))"
        "payload_of os data rw (pl_source p) = Inr payload"
      by (auto simp: list_all_iff)
    show "copied_entry crc32 rw (pl_source p) (entry_of_fields (pl_fields p))"
      by (rule planned_entry_facts(1) [OF p(2)])
    have "out = a @ local_header_bytes (zf_common (pl_fields p)) @ payload @
        (z @ ?cd @ end_of_central_directory_bytes (of_nat (length plan)) (of_nat (length ?cd)) (of_nat offset))"
      by (simp add: out p(1))
    from raw_entry_written [OF this os outmax, of "entry_of_fields (pl_fields p)"]
      planned_entry_facts [OF p(2)] p(3,4) planned_at_plain [OF p(2)]
    show "raw_entry_data os out (entry_of_fields (pl_fields p)) = payload_of os data rw (pl_source p)"
      by (simp add: fields_plain_def)
  qed
  moreover have "rr_kept res = map ze_name (map pl_source plan)" using res by simp
  ultimately show ?thesis using layout by (simp add: Let_def)
qed

text \<open>C2
  A successful rewrite is readable by the program's own reader, and it is the archive that was
  asked for: its entries are exactly the input's entries that were not dropped, in the order they
  physically lay in the input, each with its own metadata (a replaced entry stored, with the
  checksum and sizes of its new bytes, the data-descriptor flag cleared throughout), and behind each
  entry's local header lie the replacement bytes or the input's compressed bytes unchanged.
\<close>

theorem zip_rewrite_roundtrip:
  assumes rewrite: "rewrite_zip crc32 os data output rw = (Inr res, Some out)"
    and input: "read_zip_entries os data = Inr entries"
    and os: "os_delivers os" and max: "length data \<le> MAX_SAFE_INTEGER"
  shows "\<exists>outs. read_zip_entries os out = Inr outs \<and>
    (let kept = filter (\<lambda>e. ze_name e \<notin> set (rw_drop rw)) (sort_key ze_local_header_offset entries) in
     rr_kept res = map ze_name kept \<and>
     list_all2 (\<lambda>e e'. copied_entry crc32 rw e e' \<and> raw_entry_data os out e' = payload_of os data rw e)
       kept outs)"
  by (rule rewrite_reads_back [OF assms])

text \<open>A one-entry archive, built with the layouts, whose entry is replaced.\<close>

definition sample_fields :: zip_central_fields where
  "sample_fields =
     \<lparr>zf_common = \<lparr>zc_version_needed = 20, zc_flags = 8, zc_method = 8, zc_mod_time = 0, zc_mod_date = 0,
        zc_crc = 7, zc_compressed_size = 2, zc_uncompressed_size = 3, zc_name = [97], zc_extra = []\<rparr>,
      zf_version_made_by = 20, zf_internal_attributes = 0, zf_external_attributes = 0,
      zf_local_header_offset = 0\<rparr>"

definition sample_archive :: bytes where
  "sample_archive =
     (local_header_bytes (zf_common sample_fields) @ [1, 2]) @ central_header_bytes sample_fields @
     end_of_central_directory_bytes (of_nat 1) (of_nat (length (central_header_bytes sample_fields)))
       (of_nat (length (local_header_bytes (zf_common sample_fields) @ [1, 2])))"

definition always :: os where
  "always = (\<lambda>_. Deliver 65536)"

lemma always_delivers: "os_delivers always"
  by (simp add: always_def os_delivers_def)

lemma sample_entries: "read_zip_entries always sample_archive = Inr [entry_of_fields sample_fields]"
proof -
  have "list_all fields_plain [sample_fields]"
    by (simp add: fields_plain_def sample_fields_def U16_MAX_def U32_MAX_def)
  from read_records_central [OF this, of "[]" "[]"]
  have "read_records 1 (central_header_bytes sample_fields) 0 = Inr [entry_of_fields sample_fields]" by simp
  then show ?thesis
    unfolding sample_archive_def
    by (subst eocd_read [OF always_delivers])
      (simp_all add: MAX_SAFE_INTEGER_def U16_MAX_def U32_MAX_def sample_fields_def)
qed

lemma sample_name: "ze_name (entry_of_fields sample_fields) = [97]"
  by (simp add: entry_of_fields_def sample_fields_def decode_utf8_def utf8_lossy_def utf8_head_def)

lemma sample_rewrite:
  "\<exists>res out. rewrite_zip crc32 always sample_archive None \<lparr>rw_drop = [], rw_replace = [([97], [9])]\<rparr> =
     (Inr res, Some out)"
  using sample_entries sample_name
  by (simp add: rewrite_zip_def Let_def write_archive_def U32_MAX_def U16_MAX_def FLAG_ENCRYPTED_def
      utf8_encode_def utf8_char_def MAX_NON_ZIP64_ENTRIES_def LOCAL_MIN_def planned_fields_def
      entry_of_fields_def sample_fields_def)

theorem zip_rewrite_roundtrip_witness:
  "\<exists>res out outs. rewrite_zip (\<lambda>_. 5) always sample_archive None
       \<lparr>rw_drop = [], rw_replace = [([97], [9])]\<rparr> = (Inr res, Some out) \<and>
     read_zip_entries always out = Inr outs \<and> map ze_crc outs = [5] \<and> rr_kept res = [[97]]"
proof -
  let ?rw = "\<lparr>rw_drop = [], rw_replace = [([97], [9 :: byte])]\<rparr>"
  obtain res out where r: "rewrite_zip (\<lambda>_. 5) always sample_archive None ?rw = (Inr res, Some out)"
    using sample_rewrite by blast
  have "length sample_archive \<le> MAX_SAFE_INTEGER"
    by (simp add: sample_archive_def sample_fields_def MAX_SAFE_INTEGER_def)
  from zip_rewrite_roundtrip [OF r sample_entries always_delivers this]
  show ?thesis using r sample_name
    by (auto simp: copied_entry_def list_all2_Cons1 Let_def)
qed

text \<open>
  The name is the one thing a copy may change: a name that begins with a byte-order mark loses it,
  and name bytes that are not UTF-8 are replaced.
\<close>

lemma rewrite_renames_bom:
  assumes "copied_entry crc32 rw e e'" "ze_name e = 0xFEFF # s" "\<forall>c \<in> set s. scalar c"
  shows "ze_name e' = s"
proof -
  have "\<forall>c \<in> set (0xFEFF # s). scalar c" using assms(3) by (simp add: scalar_def)
  from utf8_lossy_encode [OF this] assms(1,2) show ?thesis
    by (simp add: copied_entry_def decode_utf8_def Let_def)
qed

lemma rewrite_replaces_name_bytes: "utf8_encode (decode_utf8 [0x81]) = [0xEF, 0xBF, 0xBD]"
  by (simp add: decode_utf8_def utf8_lossy_def utf8_head_def utf8_encode_def utf8_char_def)

end
