(* ===== verification/Library_Db.thy ===== *)
theory Library_Db
  imports App_Error
begin

text \<open>
  The library's database: the tables of \<^verbatim>\<open>crates/spm-core/src/db/migrations\<close> as lists of rows in
  insertion order, with the constraints SQLite enforces written out. An insert that breaks a UNIQUE
  index or a foreign key fails with the message SQLite gives; deleting a row deletes what references
  it (\<^verbatim>\<open>ON DELETE CASCADE\<close>, the pragma \<^verbatim>\<open>db/open.rs\<close> turns on). \<open>db_wf\<close> states the constraints, and every
  primitive keeps it. Columns under a CHECK constraint hold the enumeration itself; times and sizes
  are integers that stay far below 64 bits.
\<close>

section \<open>Rows\<close>

record user_row =
  u_id :: str
  u_username :: str
  u_display_name :: str
  u_library_dir :: str
  u_pw_hash :: "bytes option"
  u_pw_salt :: "bytes option"
  u_pw_iterations :: "int option"
  u_pw_algo :: "str option"
  u_is_admin :: bool
  u_status :: user_status
  u_quota_bytes :: "int option"
  u_created_at :: int
  u_activated_at :: "int option"

record token_row =
  at_id :: str
  at_user_id :: str
  at_token_hash :: bytes
  at_expires_at :: int
  at_consumed_at :: "int option"
  at_created_at :: int

record session_row =
  ss_token_hash :: bytes
  ss_user_id :: str
  ss_created_at :: int
  ss_last_seen_at :: int
  ss_expires_at :: int
  ss_user_agent :: "str option"

record project_row =
  p_id :: str
  p_owner_id :: str
  p_name :: str
  p_dir_name :: str
  p_website :: "str option"
  p_notes :: "str option"
  p_is_archived :: bool
  p_state :: project_state
  p_created_at :: int
  p_updated_at :: int

record tag_row =
  tg_id :: nat
  tg_owner_id :: str
  tg_name :: str

record project_tag =
  pt_project_id :: str
  pt_tag_id :: nat

record file_row =
  f_id :: str
  f_project_id :: str
  f_rel_path :: str
  f_kind :: file_kind
  f_slicer :: "slicer_id option"
  f_size_bytes :: int
  f_mtime_ms :: int
  f_content_hash :: "bytes option"
  f_classified_by :: int

record preview_row =
  pv_file_id :: str
  pv_state :: preview_state
  pv_source :: "str option"
  pv_png_path :: "str option"
  pv_width :: "int option"
  pv_height :: "int option"
  pv_source_hash :: "bytes option"
  pv_error :: "str option"
  pv_attempts :: int
  pv_updated_at :: int
  pv_claimed_at :: "int option"

record setting_row =
  us_user_id :: str
  us_key :: str
  us_value :: "str option"

record db =
  users :: "user_row list"
  activation_tokens :: "token_row list"
  sessions :: "session_row list"
  projects :: "project_row list"
  tags :: "tag_row list"
  project_tags :: "project_tag list"
  files :: "file_row list"
  previews :: "preview_row list"
  user_settings :: "setting_row list"

definition empty_db :: db where
  "empty_db =
     \<lparr>users = [], activation_tokens = [], sessions = [], projects = [], tags = [], project_tags = [],
      files = [], previews = [], user_settings = []\<rparr>"

section \<open>Constraints\<close>

definition db_keys :: "db \<Rightarrow> bool" where
  "db_keys db \<longleftrightarrow>
     distinct (map u_id (users db)) \<and>
     distinct (map (\<lambda>u. to_ascii_lowercase (u_username u)) (users db)) \<and>
     distinct (map u_library_dir (users db)) \<and>
     distinct (map at_id (activation_tokens db)) \<and>
     distinct (map at_token_hash (activation_tokens db)) \<and>
     distinct (map ss_token_hash (sessions db)) \<and>
     distinct (map p_id (projects db)) \<and>
     distinct (map (\<lambda>p. (p_owner_id p, p_dir_name p)) (projects db)) \<and>
     distinct (map tg_id (tags db)) \<and>
     distinct (map (\<lambda>t. (tg_owner_id t, to_ascii_lowercase (tg_name t))) (tags db)) \<and>
     distinct (map (\<lambda>r. (pt_project_id r, pt_tag_id r)) (project_tags db)) \<and>
     distinct (map f_id (files db)) \<and>
     distinct (map (\<lambda>f. (f_project_id f, f_rel_path f)) (files db)) \<and>
     distinct (map pv_file_id (previews db)) \<and>
     distinct (map (\<lambda>s. (us_user_id s, us_key s)) (user_settings db))"

definition user_ids :: "db \<Rightarrow> str set" where
  "user_ids db = u_id ` set (users db)"

definition project_ids :: "db \<Rightarrow> str set" where
  "project_ids db = p_id ` set (projects db)"

definition db_refs :: "db \<Rightarrow> bool" where
  "db_refs db \<longleftrightarrow>
     at_user_id ` set (activation_tokens db) \<subseteq> user_ids db \<and>
     ss_user_id ` set (sessions db) \<subseteq> user_ids db \<and>
     p_owner_id ` set (projects db) \<subseteq> user_ids db \<and>
     tg_owner_id ` set (tags db) \<subseteq> user_ids db \<and>
     us_user_id ` set (user_settings db) \<subseteq> user_ids db \<and>
     pt_project_id ` set (project_tags db) \<subseteq> project_ids db \<and>
     pt_tag_id ` set (project_tags db) \<subseteq> tg_id ` set (tags db) \<and>
     f_project_id ` set (files db) \<subseteq> project_ids db \<and>
     pv_file_id ` set (previews db) \<subseteq> f_id ` set (files db)"

definition db_wf :: "db \<Rightarrow> bool" where
  "db_wf db \<longleftrightarrow> db_keys db \<and> db_refs db"

lemmas wf_defs = db_wf_def db_keys_def db_refs_def user_ids_def project_ids_def

lemma db_wf_empty [invariants]: "db_wf empty_db"
  by (simp add: wf_defs empty_db_def)

section \<open>Statements\<close>

definition unique_failed :: "str \<Rightarrow> app_error" where
  "unique_failed columns = internal (lit ''UNIQUE constraint failed: '' @ columns)"

definition foreign_key_failed :: app_error where
  "foreign_key_failed = internal (lit ''FOREIGN KEY constraint failed'')"

definition insert_user :: "user_row \<Rightarrow> db \<Rightarrow> db result" where
  "insert_user u db =
     (if list_ex (\<lambda>r. u_id r = u_id u) (users db)
      then Inl (unique_failed (lit ''users.id''))
      else if list_ex (\<lambda>r. nocase_eq (u_username r) (u_username u)) (users db)
      then Inl (unique_failed (lit ''users.username''))
      else if list_ex (\<lambda>r. u_library_dir r = u_library_dir u) (users db)
      then Inl (unique_failed (lit ''users.library_dir''))
      else Inr (db\<lparr>users := users db @ [u]\<rparr>))"

definition has_user :: "str \<Rightarrow> db \<Rightarrow> bool" where
  "has_user uid db = list_ex (\<lambda>u. u_id u = uid) (users db)"

definition insert_token :: "token_row \<Rightarrow> db \<Rightarrow> db result" where
  "insert_token t db =
     (if list_ex (\<lambda>r. at_id r = at_id t) (activation_tokens db)
      then Inl (unique_failed (lit ''activation_tokens.id''))
      else if list_ex (\<lambda>r. at_token_hash r = at_token_hash t) (activation_tokens db)
      then Inl (unique_failed (lit ''activation_tokens.token_hash''))
      else if \<not> has_user (at_user_id t) db then Inl foreign_key_failed
      else Inr (db\<lparr>activation_tokens := activation_tokens db @ [t]\<rparr>))"

definition insert_session :: "session_row \<Rightarrow> db \<Rightarrow> db result" where
  "insert_session s db =
     (if list_ex (\<lambda>r. ss_token_hash r = ss_token_hash s) (sessions db)
      then Inl (unique_failed (lit ''sessions.token_hash''))
      else if \<not> has_user (ss_user_id s) db then Inl foreign_key_failed
      else Inr (db\<lparr>sessions := sessions db @ [s]\<rparr>))"

definition insert_project :: "project_row \<Rightarrow> db \<Rightarrow> db result" where
  "insert_project p db =
     (if list_ex (\<lambda>r. p_id r = p_id p) (projects db)
      then Inl (unique_failed (lit ''projects.id''))
      else if list_ex (\<lambda>r. p_owner_id r = p_owner_id p \<and> p_dir_name r = p_dir_name p) (projects db)
      then Inl (unique_failed (lit ''projects.owner_id, projects.dir_name''))
      else if \<not> has_user (p_owner_id p) db then Inl foreign_key_failed
      else Inr (db\<lparr>projects := projects db @ [p]\<rparr>))"

definition has_project :: "str \<Rightarrow> db \<Rightarrow> bool" where
  "has_project pid db = list_ex (\<lambda>p. p_id p = pid) (projects db)"

definition insert_file :: "file_row \<Rightarrow> db \<Rightarrow> db result" where
  "insert_file f db =
     (if list_ex (\<lambda>r. f_id r = f_id f) (files db)
      then Inl (unique_failed (lit ''files.id''))
      else if list_ex (\<lambda>r. f_project_id r = f_project_id f \<and> f_rel_path r = f_rel_path f) (files db)
      then Inl (unique_failed (lit ''files.project_id, files.rel_path''))
      else if \<not> has_project (f_project_id f) db then Inl foreign_key_failed
      else Inr (db\<lparr>files := files db @ [f]\<rparr>))"

definition insert_preview :: "preview_row \<Rightarrow> db \<Rightarrow> db result" where
  "insert_preview v db =
     (if list_ex (\<lambda>r. pv_file_id r = pv_file_id v) (previews db)
      then Inl (unique_failed (lit ''previews.file_id''))
      else if \<not> list_ex (\<lambda>f. f_id f = pv_file_id v) (files db) then Inl foreign_key_failed
      else Inr (db\<lparr>previews := previews db @ [v]\<rparr>))"

definition delete_files :: "(file_row \<Rightarrow> bool) \<Rightarrow> db \<Rightarrow> db" where
  "delete_files gone db =
     db\<lparr>files := delete_where gone (files db),
        previews := delete_where (\<lambda>v. list_ex (\<lambda>f. gone f \<and> f_id f = pv_file_id v) (files db))
                      (previews db)\<rparr>"

definition delete_projects :: "(project_row \<Rightarrow> bool) \<Rightarrow> db \<Rightarrow> db" where
  "delete_projects gone db =
     (let dropped = (\<lambda>i. list_ex (\<lambda>p. gone p \<and> p_id p = i) (projects db)) in
      (delete_files (\<lambda>f. dropped (f_project_id f)) db)
        \<lparr>projects := delete_where gone (projects db),
         project_tags := delete_where (\<lambda>r. dropped (pt_project_id r)) (project_tags db)\<rparr>)"

definition delete_tags :: "(tag_row \<Rightarrow> bool) \<Rightarrow> db \<Rightarrow> db" where
  "delete_tags gone db =
     db\<lparr>tags := delete_where gone (tags db),
        project_tags := delete_where (\<lambda>r. list_ex (\<lambda>t. gone t \<and> tg_id t = pt_tag_id r) (tags db))
                          (project_tags db)\<rparr>"

definition delete_user_rows :: "str \<Rightarrow> db \<Rightarrow> db" where
  "delete_user_rows uid db =
     (delete_tags (\<lambda>t. tg_owner_id t = uid) (delete_projects (\<lambda>p. p_owner_id p = uid) db))
       \<lparr>users := delete_where (\<lambda>u. u_id u = uid) (users db),
        activation_tokens := delete_where (\<lambda>t. at_user_id t = uid) (activation_tokens db),
        sessions := delete_where (\<lambda>s. ss_user_id s = uid) (sessions db),
        user_settings := delete_where (\<lambda>s. us_user_id s = uid) (user_settings db)\<rparr>"

text \<open>A transaction: an error rolls back everything the body wrote.\<close>

definition in_tx :: "(db \<Rightarrow> app_error + 'a \<times> db) \<Rightarrow> db \<Rightarrow> 'a result \<times> db" where
  "in_tx body db = (case body db of Inl e \<Rightarrow> (Inl e, db) | Inr (x, db') \<Rightarrow> (Inr x, db'))"

text \<open>The same around a body that also works on the file system, which nothing rolls back.\<close>

definition in_tx_fs ::
  "(db \<Rightarrow> 'fs \<Rightarrow> (app_error + 'a \<times> db) \<times> 'fs) \<Rightarrow> db \<Rightarrow> 'fs \<Rightarrow> 'a result \<times> db \<times> 'fs" where
  "in_tx_fs body db fs =
     (case body db fs of
        (Inl e, fs') \<Rightarrow> (Inl e, db, fs')
      | (Inr (x, db'), fs') \<Rightarrow> (Inr x, db', fs'))"

section \<open>Every statement keeps the constraints\<close>

lemma list_ex_key: "list_ex (\<lambda>r. k r = c) rows \<longleftrightarrow> c \<in> k ` set rows"
  by (auto simp: list_ex_iff)

lemma list_ex_pair: "list_ex (\<lambda>r. k r = c \<and> l r = d) rows \<longleftrightarrow> (c, d) \<in> (\<lambda>r. (k r, l r)) ` set rows"
  by (auto simp: list_ex_iff)

lemma list_ex_nocase:
  "list_ex (\<lambda>r. nocase_eq (k r) c) rows \<longleftrightarrow>
     to_ascii_lowercase c \<in> (\<lambda>r. to_ascii_lowercase (k r)) ` set rows"
  by (induction rows) (auto simp: nocase_eq_def)

lemma has_user_ids: "has_user uid db \<longleftrightarrow> uid \<in> user_ids db"
  by (simp add: has_user_def list_ex_key user_ids_def)

lemma has_project_ids: "has_project pid db \<longleftrightarrow> pid \<in> project_ids db"
  by (simp add: has_project_def list_ex_key project_ids_def)

lemma insert_user_wf [invariants]:
  assumes "insert_user u db = Inr db'" "db_wf db"
  shows "db_wf db'"
proof -
  have db': "db' = db\<lparr>users := users db @ [u]\<rparr>"
    using assms(1) by (simp add: insert_user_def split: if_splits)
  show ?thesis
    using assms unfolding db'
    by (simp add: insert_user_def list_ex_nocase has_user_ids has_project_ids list_ex_key wf_defs subset_insertI2 split: if_splits)
qed

lemma insert_token_wf [invariants]:
  assumes "insert_token t db = Inr db'" "db_wf db"
  shows "db_wf db'"
proof -
  have db': "db' = db\<lparr>activation_tokens := activation_tokens db @ [t]\<rparr>"
    using assms(1) by (simp add: insert_token_def split: if_splits)
  show ?thesis
    using assms unfolding db'
    by (simp add: insert_token_def has_user_ids has_project_ids list_ex_key wf_defs subset_insertI2 split: if_splits)
qed

lemma insert_session_wf [invariants]:
  assumes "insert_session s db = Inr db'" "db_wf db"
  shows "db_wf db'"
proof -
  have db': "db' = db\<lparr>sessions := sessions db @ [s]\<rparr>"
    using assms(1) by (simp add: insert_session_def split: if_splits)
  show ?thesis
    using assms unfolding db'
    by (simp add: insert_session_def has_user_ids has_project_ids list_ex_key wf_defs subset_insertI2 split: if_splits)
qed

lemma insert_project_wf [invariants]:
  assumes "insert_project p db = Inr db'" "db_wf db"
  shows "db_wf db'"
proof -
  have db': "db' = db\<lparr>projects := projects db @ [p]\<rparr>"
    using assms(1) by (simp add: insert_project_def split: if_splits)
  show ?thesis
    using assms unfolding db'
    by (simp add: insert_project_def list_ex_pair has_user_ids has_project_ids list_ex_key wf_defs subset_insertI2 split: if_splits)
qed

lemma insert_file_wf [invariants]:
  assumes "insert_file f db = Inr db'" "db_wf db"
  shows "db_wf db'"
proof -
  have db': "db' = db\<lparr>files := files db @ [f]\<rparr>"
    using assms(1) by (simp add: insert_file_def split: if_splits)
  show ?thesis
    using assms unfolding db'
    by (simp add: insert_file_def list_ex_pair has_user_ids has_project_ids list_ex_key wf_defs subset_insertI2 split: if_splits)
qed

lemma insert_preview_wf [invariants]:
  assumes "insert_preview v db = Inr db'" "db_wf db"
  shows "db_wf db'"
proof -
  have db': "db' = db\<lparr>previews := previews db @ [v]\<rparr>"
    using assms(1) by (simp add: insert_preview_def split: if_splits)
  show ?thesis
    using assms unfolding db'
    by (simp add: insert_preview_def has_user_ids has_project_ids list_ex_key wf_defs subset_insertI2 split: if_splits)
qed

lemma cascade_refs:
  assumes "k ` set children \<subseteq> j ` set rows"
  shows "k ` set (delete_where (\<lambda>v. list_ex (\<lambda>f. gone f \<and> j f = k v) rows) children)
           \<subseteq> j ` set (delete_where gone rows)"
proof
  fix x assume "x \<in> k ` set (delete_where (\<lambda>v. list_ex (\<lambda>f. gone f \<and> j f = k v) rows) children)"
  then obtain v where v: "v \<in> set children" "x = k v" "\<forall>f \<in> set rows. gone f \<longrightarrow> j f \<noteq> k v"
    by (auto simp: table_simps list_ex_iff)
  then obtain f where "f \<in> set rows" "j f = k v" using assms by force
  with v show "x \<in> j ` set (delete_where gone rows)" by (force simp: table_simps)
qed

lemma delete_where_refs: "k ` set rows \<subseteq> S \<Longrightarrow> k ` set (delete_where gone rows) \<subseteq> S"
  by (auto simp: table_simps)

lemma delete_key_refs:
  "k ` set children \<subseteq> j ` set rows \<Longrightarrow>
     k ` set (delete_where (\<lambda>v. k v = c) children) \<subseteq> j ` set (delete_where (\<lambda>r. j r = c) rows)"
  by (force simp: table_simps)

lemmas refs_simps = cascade_refs delete_where_refs delete_key_refs

lemma delete_files_wf [invariants]: "db_wf db \<Longrightarrow> db_wf (delete_files gone db)"
  by (simp add: delete_files_def wf_defs distinct_delete_where refs_simps)

lemma delete_tags_wf [invariants]: "db_wf db \<Longrightarrow> db_wf (delete_tags gone db)"
  by (simp add: delete_tags_def wf_defs distinct_delete_where refs_simps)

lemma delete_projects_wf [invariants]: "db_wf db \<Longrightarrow> db_wf (delete_projects gone db)"
  by (simp add: delete_projects_def delete_files_def Let_def wf_defs distinct_delete_where refs_simps)

lemma delete_user_parts:
  "users (delete_tags g db) = users db" "users (delete_projects h db) = users db"
  "activation_tokens (delete_tags g db) = activation_tokens db"
  "activation_tokens (delete_projects h db) = activation_tokens db"
  "sessions (delete_tags g db) = sessions db" "sessions (delete_projects h db) = sessions db"
  "user_settings (delete_tags g db) = user_settings db"
  "user_settings (delete_projects h db) = user_settings db"
  "projects (delete_tags g db) = projects db"
  "projects (delete_projects h db) = delete_where h (projects db)"
  "tags (delete_tags g db) = delete_where g (tags db)" "tags (delete_projects h db) = tags db"
  "files (delete_tags g db) = files db" "previews (delete_tags g db) = previews db"
  by (simp_all add: delete_tags_def delete_projects_def delete_files_def Let_def)

lemma delete_user_rows_wf [invariants]:
  assumes "db_wf db"
  shows "db_wf (delete_user_rows uid db)"
proof -
  have "db_wf (delete_tags (\<lambda>t. tg_owner_id t = uid) (delete_projects (\<lambda>p. p_owner_id p = uid) db))"
    using assms by (intro delete_tags_wf delete_projects_wf)
  with assms show ?thesis
    by (simp add: delete_user_rows_def wf_defs distinct_delete_where delete_key_refs delete_user_parts)
qed

section \<open>Updates that keep the keys\<close>

lemma update_where_refs: "(\<And>r. g r \<Longrightarrow> k (f r) = k r) \<Longrightarrow> k ` set (update_where g f rows) = k ` set rows"
  unfolding set_update_where image_image by (rule image_cong) auto

lemma update_users_wf [invariants]:
  assumes "db_wf db"
    "\<And>u. u_id (f u) = u_id u" "\<And>u. u_username (f u) = u_username u"
    "\<And>u. u_library_dir (f u) = u_library_dir u"
  shows "db_wf (db\<lparr>users := update_where g f (users db)\<rparr>)"
  using assms by (simp add: wf_defs table_simps update_where_refs)

lemma update_tokens_wf [invariants]:
  assumes "db_wf db"
    "\<And>t. at_id (f t) = at_id t" "\<And>t. at_token_hash (f t) = at_token_hash t"
    "\<And>t. at_user_id (f t) = at_user_id t"
  shows "db_wf (db\<lparr>activation_tokens := update_where g f (activation_tokens db)\<rparr>)"
  using assms by (simp add: wf_defs table_simps update_where_refs)

lemma update_sessions_wf [invariants]:
  assumes "db_wf db"
    "\<And>s. ss_token_hash (f s) = ss_token_hash s" "\<And>s. ss_user_id (f s) = ss_user_id s"
  shows "db_wf (db\<lparr>sessions := update_where g f (sessions db)\<rparr>)"
  using assms by (simp add: wf_defs table_simps update_where_refs)

lemma delete_sessions_wf [invariants]:
  "db_wf db \<Longrightarrow> db_wf (db\<lparr>sessions := delete_where gone (sessions db)\<rparr>)"
  by (auto simp: wf_defs table_simps)

lemma update_projects_wf [invariants]:
  assumes "db_wf db"
    "\<And>p. p_id (f p) = p_id p" "\<And>p. p_owner_id (f p) = p_owner_id p"
    "\<And>p. p_dir_name (f p) = p_dir_name p"
  shows "db_wf (db\<lparr>projects := update_where g f (projects db)\<rparr>)"
  using assms by (simp add: wf_defs table_simps update_where_refs)

lemma update_previews_wf [invariants]:
  assumes "db_wf db" "\<And>v. pv_file_id (f v) = pv_file_id v"
  shows "db_wf (db\<lparr>previews := update_where g f (previews db)\<rparr>)"
  using assms by (simp add: wf_defs table_simps update_where_refs)

lemma update_files_wf [invariants]:
  assumes "db_wf db"
    "\<And>r. f_id (f r) = f_id r" "\<And>r. f_project_id (f r) = f_project_id r"
    "\<And>r. f_rel_path (f r) = f_rel_path r"
  shows "db_wf (db\<lparr>files := update_where g f (files db)\<rparr>)"
  using assms by (simp add: wf_defs table_simps update_where_refs)

end
