(* ===== verification/Accounts.thy ===== *)
theory Accounts
  imports Library_Db "HOL-Library.List_Lexorder" "HOL-Library.Product_Lexorder"
begin

text \<open>
  What the account use cases read: the \<^verbatim>\<open>users\<close> queries of \<^verbatim>\<open>users/repo.rs\<close>, disk usage
  (\<^verbatim>\<open>users/usage.rs\<close>) and password hashes (\<^verbatim>\<open>auth/password.rs\<close>). SHA-256, the PBKDF2 derivation
  (with its NFKC normalisation) and the random source are library code: arguments \<open>sha\<close> and \<open>kdf\<close>,
  and the random values themselves.
\<close>

record ctx =
  ctx_user_id :: str
  ctx_is_admin :: bool

section \<open>Passwords\<close>

record password_hash =
  ph_hash :: bytes
  ph_salt :: bytes
  ph_iterations :: int
  ph_algo :: str

type_synonym kdf = "str \<Rightarrow> bytes \<Rightarrow> nat \<Rightarrow> bytes"

definition PW_ALGO :: str where "PW_ALGO = lit ''pbkdf2-sha256''"
definition PW_ITERATIONS :: nat where "PW_ITERATIONS = 600000"

definition timing_safe_equal :: "bytes \<Rightarrow> bytes \<Rightarrow> bool" where
  "timing_safe_equal a b \<longleftrightarrow> length a = length b \<and> list_all (\<lambda>(x, y). x = y) (zip a b)"

definition hash_password_with :: "kdf \<Rightarrow> str \<Rightarrow> nat \<Rightarrow> bytes \<Rightarrow> password_hash" where
  "hash_password_with kdf pw iterations salt =
     \<lparr>ph_hash = kdf pw salt iterations, ph_salt = salt, ph_iterations = int iterations,
      ph_algo = PW_ALGO\<rparr>"

definition hash_password :: "kdf \<Rightarrow> str \<Rightarrow> bytes \<Rightarrow> password_hash" where
  "hash_password kdf pw salt = hash_password_with kdf pw PW_ITERATIONS salt"

definition verify_password :: "kdf \<Rightarrow> str \<Rightarrow> password_hash \<Rightarrow> bool" where
  "verify_password kdf pw stored \<longleftrightarrow>
     ph_algo stored = PW_ALGO \<and> 0 \<le> ph_iterations stored \<and> ph_iterations stored < 2 ^ 32 \<and>
     ph_iterations stored \<noteq> 0 \<and>
     timing_safe_equal (kdf pw (ph_salt stored) (nat (ph_iterations stored))) (ph_hash stored)"

definition needs_rehash :: "int \<Rightarrow> str \<Rightarrow> bool" where
  "needs_rehash iterations algo \<longleftrightarrow> algo \<noteq> PW_ALGO \<or> iterations < int PW_ITERATIONS"

lemma timing_safe_equal_iff: "timing_safe_equal a b \<longleftrightarrow> a = b"
  by (auto simp: timing_safe_equal_def list_eq_iff_zip_eq list_all_iff)

lemma verify_hash_password:
  "verify_password kdf pw (hash_password kdf pw' salt) \<longleftrightarrow>
     kdf pw salt PW_ITERATIONS = kdf pw' salt PW_ITERATIONS"
  by (simp add: verify_password_def hash_password_def hash_password_with_def timing_safe_equal_iff
      PW_ITERATIONS_def)

lemma fresh_hash_not_stale:
  "\<not> needs_rehash (ph_iterations (hash_password kdf pw salt)) (ph_algo (hash_password kdf pw salt))"
  by (simp add: needs_rehash_def hash_password_def hash_password_with_def)

section \<open>Users\<close>

definition stored_password :: "user_row \<Rightarrow> password_hash option" where
  "stored_password u =
     (case (u_pw_hash u, u_pw_salt u, u_pw_iterations u) of
        (Some hash, Some salt, Some iterations) \<Rightarrow>
          if iterations \<noteq> 0
          then Some \<lparr>ph_hash = hash, ph_salt = salt, ph_iterations = iterations,
                     ph_algo = (case u_pw_algo u of None \<Rightarrow> [] | Some a \<Rightarrow> a)\<rparr>
          else None
      | _ \<Rightarrow> None)"

definition find_user_by_id :: "db \<Rightarrow> str \<Rightarrow> user_row option" where
  "find_user_by_id db uid = find (\<lambda>u. u_id u = uid) (users db)"

definition find_user_by_username :: "db \<Rightarrow> str \<Rightarrow> user_row option" where
  "find_user_by_username db name = find (\<lambda>u. nocase_eq (u_username u) name) (users db)"

definition require_user_row :: "db \<Rightarrow> str \<Rightarrow> user_row result" where
  "require_user_row db uid =
     (case find_user_by_id db uid of
        None \<Rightarrow> Inl (not_found (lit ''user not found''))
      | Some u \<Rightarrow> Inr u)"

definition all_user_rows :: "db \<Rightarrow> user_row list" where
  "all_user_rows db = sort_key (\<lambda>u. to_ascii_lowercase (u_username u)) (users db)"

section \<open>Disk usage\<close>

definition counted_files :: "(project_row \<Rightarrow> bool) \<Rightarrow> db \<Rightarrow> file_row list" where
  "counted_files p db =
     filter (\<lambda>f. list_ex (\<lambda>r. p_id r = f_project_id f \<and> p_state r = ProjOk \<and> p r) (projects db)) (files db)"

definition disk_usage_bytes_in :: "db \<Rightarrow> str \<Rightarrow> int" where
  "disk_usage_bytes_in db uid =
     sum_list (map f_size_bytes (counted_files (\<lambda>p. p_owner_id p = uid) db))"

text \<open>\<^verbatim>\<open>GROUP BY owner_id\<close>: an owner without a counted file has no row.\<close>

definition disk_usage_by_user_in :: "db \<Rightarrow> str \<Rightarrow> int option" where
  "disk_usage_by_user_in db uid =
     (if counted_files (\<lambda>p. p_owner_id p = uid) db = [] then None
      else Some (disk_usage_bytes_in db uid))"

record user_dto =
  ud_id :: str
  ud_username :: str
  ud_display_name :: str
  ud_is_admin :: bool
  ud_status :: user_status
  ud_disk_usage_bytes :: int
  ud_quota_bytes :: "int option"
  ud_created_at :: int
  ud_activated_at :: "int option"

definition to_user_dto :: "user_row \<Rightarrow> int \<Rightarrow> user_dto" where
  "to_user_dto u usage =
     \<lparr>ud_id = u_id u, ud_username = u_username u, ud_display_name = u_display_name u,
      ud_is_admin = u_is_admin u, ud_status = u_status u, ud_disk_usage_bytes = usage,
      ud_quota_bytes = u_quota_bytes u, ud_created_at = u_created_at u,
      ud_activated_at = u_activated_at u\<rparr>"

definition user_dto_in :: "db \<Rightarrow> str \<Rightarrow> user_dto result" where
  "user_dto_in db uid =
     bindE (require_user_row db uid) (\<lambda>u. Inr (to_user_dto u (disk_usage_bytes_in db uid)))"

section \<open>Lookups\<close>

lemma find_user_by_id_Some:
  "find_user_by_id db uid = Some u \<Longrightarrow> u \<in> set (users db) \<and> u_id u = uid"
  by (auto simp: find_user_by_id_def dest: find_Some_set)

lemma find_user_by_id_None: "find_user_by_id db uid = None \<longleftrightarrow> uid \<notin> user_ids db"
  by (auto simp: find_user_by_id_def find_None_set user_ids_def)

lemma find_user_by_id_unique:
  "db_wf db \<Longrightarrow> u \<in> set (users db) \<Longrightarrow> find_user_by_id db (u_id u) = Some u"
  unfolding find_user_by_id_def by (rule find_unique) (simp_all add: wf_defs)

lemma require_user_row_Inr: "require_user_row db uid = Inr u \<longleftrightarrow> find_user_by_id db uid = Some u"
  by (auto simp: require_user_row_def split: option.splits)

lemma find_user_by_id_update:
  "(\<And>u. u_id (f u) = u_id u) \<Longrightarrow>
     find_user_by_id (db\<lparr>users := update_where p f (users db)\<rparr>) uid =
       map_option (\<lambda>u. if p u then f u else u) (find_user_by_id db uid)"
  by (simp add: find_user_by_id_def find_update_where)

lemma user_dto_in_cong:
  "users db' = users db \<Longrightarrow> projects db' = projects db \<Longrightarrow> files db' = files db \<Longrightarrow>
     user_dto_in db' uid = user_dto_in db uid"
  by (simp add: user_dto_in_def require_user_row_def find_user_by_id_def disk_usage_bytes_in_def
      counted_files_def)

section \<open>A sample library\<close>

definition sample_user :: user_row where
  "sample_user =
     \<lparr>u_id = lit ''1'', u_username = lit ''ann'', u_display_name = lit ''Ann'',
      u_library_dir = lit ''ann'', u_pw_hash = Some [1], u_pw_salt = Some [2],
      u_pw_iterations = Some 600000, u_pw_algo = Some PW_ALGO, u_is_admin = True,
      u_status = Active, u_quota_bytes = None, u_created_at = 0, u_activated_at = Some 0\<rparr>"

definition sample_db :: db where
  "sample_db = empty_db\<lparr>users := [sample_user]\<rparr>"

lemma sample_db_wf: "db_wf sample_db"
  by (simp add: sample_db_def empty_db_def wf_defs)

lemma sample_db_user: "find_user_by_id sample_db (lit ''1'') = Some sample_user"
  by (simp add: sample_db_def find_user_by_id_def sample_user_def)

end
