(* ===== verification/Validate.thy ===== *)
theory Validate
  imports App_Error Utf8
begin

text \<open>
  Input validation, \<^verbatim>\<open>crates/spm-core/src/validate.rs\<close>: the field rules, the collector of issues and
  the \<^verbatim>\<open>Validate\<close> instances of the request bodies. Deserialisation (serde) is not modelled; the URL
  parser of the \<^verbatim>\<open>url\<close> crate is the argument \<open>parse_url\<close>.
\<close>

section \<open>Issues\<close>

record issue =
  is_message :: str
  is_path :: "str list"

type_synonym 'a field = "str + 'a"
type_synonym 'a checked = "issue list + 'a"

definition single :: "str list \<Rightarrow> str \<Rightarrow> issue list" where
  "single path message = [\<lparr>is_message = message, is_path = path\<rparr>]"

definition issues_error :: "issue list \<Rightarrow> app_error" where
  "issues_error issues =
     with_details (validation (lit ''request body failed validation''))
       [(lit ''issues'', JArr (map (\<lambda>i. JObj
          [(lit ''message'', JStr (is_message i)), (lit ''path'', JArr (map JStr (is_path i)))]) issues))]"

text \<open>\<^verbatim>\<open>Collector::check\<close>: the value, if the rule accepts it, and the issues so far.\<close>

definition check_field :: "str list \<Rightarrow> 'a field \<Rightarrow> issue list \<Rightarrow> 'a option \<times> issue list" where
  "check_field path r issues =
     (case r of Inr v \<Rightarrow> (Some v, issues) | Inl message \<Rightarrow> (None, issues @ single path message))"

definition finish :: "issue list \<Rightarrow> unit checked" where
  "finish issues = (if issues = [] then Inr () else Inl issues)"

section \<open>JavaScript string semantics\<close>

definition js_len :: "str \<Rightarrow> nat" where
  "js_len v = utf16_len v"

definition is_js_whitespace :: "nat \<Rightarrow> bool" where
  "is_js_whitespace c \<longleftrightarrow>
     (0x9 \<le> c \<and> c \<le> 0xd) \<or> c = 0x20 \<or> c = 0xa0 \<or> c = 0x1680 \<or> (0x2000 \<le> c \<and> c \<le> 0x200a) \<or>
     c = 0x2028 \<or> c = 0x2029 \<or> c = 0x202f \<or> c = 0x205f \<or> c = 0x3000 \<or> c = 0xfeff"

definition trim_matches :: "('a \<Rightarrow> bool) \<Rightarrow> 'a list \<Rightarrow> 'a list" where
  "trim_matches p xs = rev (dropWhile p (rev (dropWhile p xs)))"

definition js_trim :: "str \<Rightarrow> str" where
  "js_trim v = trim_matches is_js_whitespace v"

definition length_between :: "str \<Rightarrow> nat \<Rightarrow> nat \<Rightarrow> str \<Rightarrow> unit field" where
  "length_between v lo hi what =
     (let len = js_len v in
      if len < lo then
        Inl (if lo = 1 then what @ lit '' must not be empty''
             else what @ lit '' must be at least '' @ dec_str lo @ lit '' characters'')
      else if len > hi then
        Inl (what @ lit '' must be at most '' @ dec_str hi @ lit '' characters'')
      else Inr ())"

section \<open>Field rules\<close>

definition SEARCH_MAX_LENGTH :: nat where "SEARCH_MAX_LENGTH = 200"
definition PROJECT_LIMIT_MAX :: int where "PROJECT_LIMIT_MAX = 200"
definition FILTER_TAGS_MAX :: nat where "FILTER_TAGS_MAX = 50"

definition is_ascii_alphanumeric :: "nat \<Rightarrow> bool" where
  "is_ascii_alphanumeric c \<longleftrightarrow>
     (48 \<le> c \<and> c \<le> 57) \<or> (65 \<le> c \<and> c \<le> 90) \<or> (97 \<le> c \<and> c \<le> 122)"

definition username :: "str \<Rightarrow> unit field" where
  "username v =
     bindE (length_between v 2 32 (lit ''username'')) (\<lambda>_.
       case v of
         [] \<Rightarrow> Inl (lit ''letters, digits, dot, dash and underscore only'')
       | c # rest \<Rightarrow>
           if is_ascii_alphanumeric c
              \<and> list_all (\<lambda>c. is_ascii_alphanumeric c \<or> c \<in> set (lit ''._-'')) rest
           then Inr ()
           else Inl (lit ''letters, digits, dot, dash and underscore only''))"

definition password :: "str \<Rightarrow> unit field" where
  "password v = length_between v 10 200 (lit ''password'')"

definition display_name :: "str \<Rightarrow> unit field" where
  "display_name v = length_between v 1 100 (lit ''display name'')"

definition tag_name :: "str \<Rightarrow> str field" where
  "tag_name v =
     (let trimmed = js_trim v in
      bindE (length_between trimmed 1 60 (lit ''tag name'')) (\<lambda>_. Inr trimmed))"

text \<open>\<^verbatim>\<open>collect\<close> into a \<^verbatim>\<open>Result\<close>: all the values, or the first error.\<close>

fun collect :: "('a \<Rightarrow> 'e + 'b) \<Rightarrow> 'a list \<Rightarrow> 'e + 'b list" where
  "collect f [] = Inr []"
| "collect f (x # xs) = bindE (f x) (\<lambda>y. bindE (collect f xs) (\<lambda>ys. Inr (y # ys)))"

definition filter_tags :: "str list \<Rightarrow> str list field" where
  "filter_tags vs =
     (if length vs > FILTER_TAGS_MAX then Inl (lit ''at most '' @ dec_str FILTER_TAGS_MAX @ lit '' tags'')
      else collect tag_name vs)"

definition project_name :: "str \<Rightarrow> str field" where
  "project_name v =
     (let trimmed = js_trim v in
      bindE (length_between trimmed 1 200 (lit ''name'')) (\<lambda>_. Inr trimmed))"

definition notes_text :: "str \<Rightarrow> unit field" where
  "notes_text v = length_between v 0 10000 (lit ''notes'')"

text \<open>What the code reads of a parsed URL.\<close>

record url =
  url_scheme :: str
  url_username :: str
  url_password :: "str option"
  url_query :: "str option"
  url_fragment :: "str option"
  url_path :: str

definition website :: "(str \<Rightarrow> url option) \<Rightarrow> str \<Rightarrow> unit field" where
  "website parse_url v = (case parse_url v of None \<Rightarrow> Inl (lit ''not a valid URL'') | Some _ \<Rightarrow> Inr ())"

definition is_windows_device_name :: "str \<Rightarrow> bool" where
  "is_windows_device_name v =
     (let lower = to_ascii_lowercase v; stem = takeWhile (\<lambda>c. c \<noteq> 46) lower in
      stem \<in> {lit ''con'', lit ''prn'', lit ''aux'', lit ''nul''} \<or>
      list_ex (\<lambda>prefix.
        take (length prefix) stem = prefix \<and>
        (case drop (length prefix) stem of [d] \<Rightarrow> 49 \<le> d \<and> d \<le> 57 | _ \<Rightarrow> False))
        [lit ''com'', lit ''lpt''])"

definition file_name :: "str \<Rightarrow> unit field" where
  "file_name v =
     bindE (length_between v 1 255 (lit ''file name'')) (\<lambda>_.
     if list_ex (\<lambda>c. c \<in> set (lit [CHR 0x22, CHR ''*'', CHR ''/'', CHR '':'', CHR ''<'', CHR ''>'',
                                  CHR ''?'', CHR 0x5C, CHR ''|''])) v
     then Inl (lit ''invalid characters in file name'')
     else if 0 \<in> set v then Inl (lit ''file name must not contain a null byte'')
     else if take 1 v = lit ''.'' then Inl (lit ''file name must not start with a dot'')
     else if is_windows_device_name v
     then Inl (lit ''file name must not be a Windows-reserved device name'')
     else Inr ())"

definition server_url :: "(str \<Rightarrow> url option) \<Rightarrow> str \<Rightarrow> unit field" where
  "server_url parse_url v =
     (case parse_url v of
        None \<Rightarrow> Inl (lit ''not a valid URL'')
      | Some u \<Rightarrow>
          if url_scheme u \<notin> {lit ''http'', lit ''https''}
          then Inl (lit ''the address must start with http:// or https://'')
          else if url_username u \<noteq> [] \<or> url_password u \<noteq> None
          then Inl (lit ''the address must not carry a user name or a password'')
          else if (case url_query u of None \<Rightarrow> False | Some q \<Rightarrow> q \<noteq> [])
                  \<or> (case url_fragment u of None \<Rightarrow> False | Some f \<Rightarrow> f \<noteq> [])
          then Inl (lit ''the address must not carry a query string or a fragment'')
          else if \<not> (url_path u = [] \<or> url_path u = lit ''/'')
          then Inl (lit ''the address must name a server, not a path on it'')
          else Inr ())"

definition positive :: "int \<Rightarrow> str \<Rightarrow> unit field" where
  "positive v what = (if v > 0 then Inr () else Inl (what @ lit '' must be greater than zero''))"

definition non_empty :: "str \<Rightarrow> str \<Rightarrow> unit field" where
  "non_empty v what = length_between v 1 (2 ^ 64 - 1) what"

section \<open>Request bodies\<close>

record login_input = li_username :: str  li_password :: str
record activate_input = ai_password :: str  ai_confirm :: str
record change_password_input = cp_current :: str  cp_next :: str
record profile_patch = pp_display_name :: "str option"

record create_user_input =
  cu_username :: str
  cu_display_name :: str
  cu_is_admin :: bool
  cu_quota_bytes :: "int option"

record update_user_input =
  uu_is_admin :: "bool option"
  uu_is_disabled :: "bool option"
  uu_quota_bytes :: "int option option"

record create_project_input =
  cpi_name :: str
  cpi_website :: "str option"
  cpi_notes :: "str option"
  cpi_tags :: "str list option"

record project_patch =
  ppa_name :: "str option"
  ppa_website :: "str option option"
  ppa_notes :: "str option option"
  ppa_is_archived :: "bool option"

definition validate_login :: "login_input \<Rightarrow> login_input checked" where
  "validate_login x =
     (let (_, issues) = check_field [lit ''username''] (non_empty (li_username x) (lit ''username'')) [];
          (_, issues) = check_field [lit ''password''] (non_empty (li_password x) (lit ''password'')) issues
      in bindE (finish issues) (\<lambda>_. Inr x))"

definition validate_activate :: "activate_input \<Rightarrow> activate_input checked" where
  "validate_activate x =
     (let (ok, issues) = check_field [lit ''password''] (password (ai_password x)) [];
          issues = (if ok \<noteq> None \<and> ai_password x \<noteq> ai_confirm x
                    then snd (check_field [lit ''confirm''] (Inl (lit ''passwords do not match'') :: unit field) issues)
                    else issues)
      in bindE (finish issues) (\<lambda>_. Inr x))"

definition validate_change_password :: "change_password_input \<Rightarrow> change_password_input checked" where
  "validate_change_password x =
     (let (_, issues) = check_field [lit ''current''] (non_empty (cp_current x) (lit ''current password'')) [];
          (_, issues) = check_field [lit ''next''] (password (cp_next x)) issues
      in bindE (finish issues) (\<lambda>_. Inr x))"

definition validate_profile :: "profile_patch \<Rightarrow> profile_patch checked" where
  "validate_profile x =
     (let issues = (case pp_display_name x of None \<Rightarrow> []
                    | Some name \<Rightarrow> snd (check_field [lit ''displayName''] (display_name name) []))
      in bindE (finish issues) (\<lambda>_. Inr x))"

definition validate_create_user :: "create_user_input \<Rightarrow> create_user_input checked" where
  "validate_create_user x =
     (let (_, issues) = check_field [lit ''username''] (username (cu_username x)) [];
          (_, issues) = check_field [lit ''displayName''] (display_name (cu_display_name x)) issues;
          issues = (case cu_quota_bytes x of None \<Rightarrow> issues
                    | Some q \<Rightarrow> snd (check_field [lit ''quotaBytes''] (positive q (lit ''quota'')) issues))
      in bindE (finish issues) (\<lambda>_. Inr x))"

definition validate_update_user :: "update_user_input \<Rightarrow> update_user_input checked" where
  "validate_update_user x =
     (let issues = (case uu_quota_bytes x of
                      Some (Some q) \<Rightarrow> snd (check_field [lit ''quotaBytes''] (positive q (lit ''quota'')) [])
                    | _ \<Rightarrow> [])
      in bindE (finish issues) (\<lambda>_. Inr x))"

definition validate_tag_body :: "str \<Rightarrow> str checked" where
  "validate_tag_body name =
     (let (tag, issues) = check_field [lit ''name''] (tag_name name) []
      in bindE (finish issues) (\<lambda>_. Inr (case tag of None \<Rightarrow> [] | Some t \<Rightarrow> t)))"

text \<open>\<^verbatim>\<open>filter_map\<close> over the indexed tags: the accepted ones, and the issues of the others.\<close>

fun check_tags :: "nat \<Rightarrow> str list \<Rightarrow> issue list \<Rightarrow> str list \<times> issue list" where
  "check_tags i [] issues = ([], issues)"
| "check_tags i (t # ts) issues =
     (let (tag, issues1) = check_field [lit ''tags'', dec_str i] (tag_name t) issues;
          (tags, issues2) = check_tags (Suc i) ts issues1
      in (case tag of None \<Rightarrow> (tags, issues2) | Some t' \<Rightarrow> (t' # tags, issues2)))"

definition check_tags_opt :: "str list option \<Rightarrow> issue list \<Rightarrow> str list option \<times> issue list" where
  "check_tags_opt tags issues =
     (case tags of
        None \<Rightarrow> (None, issues)
      | Some ts \<Rightarrow> (let (tags, issues1) = check_tags 0 ts issues in (Some tags, issues1)))"

definition validate_create_project ::
  "(str \<Rightarrow> url option) \<Rightarrow> create_project_input \<Rightarrow> create_project_input checked" where
  "validate_create_project parse_url x =
     (let (name, issues) = check_field [lit ''name''] (project_name (cpi_name x)) [];
          issues = (case cpi_website x of None \<Rightarrow> issues
                    | Some u \<Rightarrow> snd (check_field [lit ''website''] (website parse_url u) issues));
          issues = (case cpi_notes x of None \<Rightarrow> issues
                    | Some t \<Rightarrow> snd (check_field [lit ''notes''] (notes_text t) issues));
          (tags, issues) = check_tags_opt (cpi_tags x) issues
      in bindE (finish issues) (\<lambda>_.
           Inr (x\<lparr>cpi_name := (case name of None \<Rightarrow> [] | Some n \<Rightarrow> n), cpi_tags := tags\<rparr>)))"

definition validate_project_patch ::
  "(str \<Rightarrow> url option) \<Rightarrow> project_patch \<Rightarrow> project_patch checked" where
  "validate_project_patch parse_url x =
     (let (name, issues) = (case ppa_name x of None \<Rightarrow> (Some None, [])
             | Some n \<Rightarrow> (let (v, issues) = check_field [lit ''name''] (project_name n) []
                         in (map_option Some v, issues)));
          issues = (case ppa_website x of Some (Some u) \<Rightarrow>
                      snd (check_field [lit ''website''] (website parse_url u) issues) | _ \<Rightarrow> issues);
          issues = (case ppa_notes x of Some (Some t) \<Rightarrow>
                      snd (check_field [lit ''notes''] (notes_text t) issues) | _ \<Rightarrow> issues)
      in bindE (finish issues) (\<lambda>_. Inr (x\<lparr>ppa_name := Option.bind name id\<rparr>)))"

definition validate_file_rename :: "str \<Rightarrow> str checked" where
  "validate_file_rename name =
     (let (_, issues) = check_field [lit ''name''] (file_name name) []
      in bindE (finish issues) (\<lambda>_. Inr name))"

definition validate_filter_tags_patch :: "str list option \<Rightarrow> str list option checked" where
  "validate_filter_tags_patch tags =
     (let (tags1, issues) = (case tags of None \<Rightarrow> (None, [])
            | Some ts \<Rightarrow> check_field [lit ''filterTags''] (filter_tags ts) [])
      in bindE (finish issues) (\<lambda>_. Inr tags1))"

section \<open>Trimming\<close>

lemma dropWhile_idem [simp]: "dropWhile p (dropWhile p xs) = dropWhile p xs"
  by (induction xs) auto

lemma dropWhile_rev_prefix:
  assumes "dropWhile p xs = xs"
  shows "dropWhile p (rev (dropWhile p (rev xs))) = rev (dropWhile p (rev xs))"
proof (cases "rev (dropWhile p (rev xs))")
  case (Cons y ys)
  have "rev xs = takeWhile p (rev xs) @ dropWhile p (rev xs)" by simp
  then have "xs = rev (dropWhile p (rev xs)) @ rev (takeWhile p (rev xs))"
    by (metis rev_append rev_rev_ident)
  with Cons have "xs = y # ys @ rev (takeWhile p (rev xs))" by simp
  then have "\<not> p y" using assms by (metis dropWhile_eq_Cons_conv)
  with Cons show ?thesis by simp
next
  case Nil
  show ?thesis unfolding Nil by simp
qed

lemma trim_matches_idem [simp]: "trim_matches p (trim_matches p xs) = trim_matches p xs"
  unfolding trim_matches_def by (subst dropWhile_rev_prefix) simp_all

lemma js_trim_idem [simp]: "js_trim (js_trim v) = js_trim v"
  by (simp add: js_trim_def)

lemma tag_name_idem: "tag_name v = Inr t \<Longrightarrow> tag_name t = Inr t"
  by (auto simp: tag_name_def Let_def bindE_eq_Inr)

lemma project_name_idem: "project_name v = Inr t \<Longrightarrow> project_name t = Inr t"
  by (auto simp: project_name_def Let_def bindE_eq_Inr)

lemma filter_tags_idem: "filter_tags vs = Inr ts \<Longrightarrow> filter_tags ts = Inr ts"
proof -
  have "collect tag_name vs = Inr ts \<Longrightarrow> collect tag_name ts = Inr ts \<and> length ts = length vs" for vs ts
    by (induction vs arbitrary: ts) (auto simp: bindE_eq_Inr dest: tag_name_idem)
  then show "filter_tags vs = Inr ts \<Longrightarrow> filter_tags ts = Inr ts"
    by (auto simp: filter_tags_def split: if_splits)
qed

lemma finish_bind [simp]: "bindE (finish issues) k = Inr v \<longleftrightarrow> issues = [] \<and> k () = Inr v"
  by (simp add: finish_def)

lemma check_field_ok: "check_field path r issues = (v, []) \<longleftrightarrow> issues = [] \<and> (\<exists>x. r = Inr x \<and> v = Some x)"
  by (auto simp: check_field_def single_def split: sum.splits)

lemma check_field_snd: "snd (check_field path r issues) = [] \<longleftrightarrow> issues = [] \<and> is_ok r"
  by (auto simp: check_field_def single_def split: sum.splits)

lemma check_tags_ok:
  "check_tags i ts issues = (tags, []) \<longleftrightarrow> issues = [] \<and> collect tag_name ts = Inr tags"
proof (induction ts arbitrary: i issues tags)
  case Nil
  then show ?case by auto
next
  case (Cons t ts)
  obtain v is1 where c: "check_field [lit ''tags'', dec_str i] (tag_name t) issues = (v, is1)" by fastforce
  obtain tags' is2 where ct: "check_tags (Suc i) ts is1 = (tags', is2)" by fastforce
  show ?case
  proof (cases "tag_name t")
    case (Inl m)
    with c have "is1 \<noteq> []" by (auto simp: check_field_def single_def)
    with Cons.IH [of "Suc i" is1 tags'] ct have "is2 \<noteq> []" by auto
    with Inl c ct show ?thesis by (auto simp: check_field_def)
  next
    case (Inr t')
    with c have v: "v = Some t'" "is1 = issues" by (auto simp: check_field_def)
    have step: "check_tags i (t # ts) issues = (t' # tags', is2)" using c ct v by simp
    have ih: "is2 = [] \<longleftrightarrow> issues = [] \<and> collect tag_name ts = Inr tags'"
      using Cons.IH [of "Suc i" issues tags'] ct v(2) by simp
    show ?thesis
    proof (cases "is2 = []")
      case True
      with ih step Inr show ?thesis by auto
    next
      case False
      have "\<not> (issues = [] \<and> collect tag_name (t # ts) = Inr tags)"
        using Cons.IH [of "Suc i" issues] ct v(2) False by (auto simp: bindE_eq_Inr)
      with False step show ?thesis by simp
    qed
  qed
qed

lemma collect_tags_idem: "collect tag_name ts = Inr tags \<Longrightarrow> collect tag_name tags = Inr tags"
  by (induction ts arbitrary: tags) (auto simp: bindE_eq_Inr dest: tag_name_idem)

lemma check_tags_issues: "snd (check_tags i ts issues) = [] \<Longrightarrow> issues = []"
  using check_tags_ok [of i ts issues "fst (check_tags i ts issues)"] by (simp add: prod_eq_iff)

lemma check_tags_opt_issues: "snd (check_tags_opt tags issues) = [] \<Longrightarrow> issues = []"
  by (auto simp: check_tags_opt_def case_prod_beta split: option.splits dest: check_tags_issues)

lemma check_tags_opt_idem:
  assumes "snd (check_tags_opt tags []) = []"
  shows "check_tags_opt (fst (check_tags_opt tags [])) [] = (fst (check_tags_opt tags []), [])"
proof (cases tags)
  case None
  then show ?thesis by (simp add: check_tags_opt_def)
next
  case (Some ts)
  obtain ts' where c: "check_tags 0 ts [] = (ts', [])"
    using assms Some by (cases "check_tags 0 ts []") (auto simp: check_tags_opt_def)
  then have "collect tag_name ts = Inr ts'" by (simp add: check_tags_ok)
  then have "check_tags 0 ts' [] = (ts', [])" by (simp add: check_tags_ok collect_tags_idem)
  with Some c show ?thesis by (simp add: check_tags_opt_def)
qed

lemma validate_create_project_ok:
  "validate_create_project parse_url x = Inr y \<longleftrightarrow>
     (\<exists>name. project_name (cpi_name x) = Inr name \<and>
       (\<forall>u. cpi_website x = Some u \<longrightarrow> is_ok (website parse_url u)) \<and>
       (\<forall>t. cpi_notes x = Some t \<longrightarrow> is_ok (notes_text t)) \<and>
       snd (check_tags_opt (cpi_tags x) []) = [] \<and>
       y = x\<lparr>cpi_name := name, cpi_tags := fst (check_tags_opt (cpi_tags x) [])\<rparr>)"
proof (cases "project_name (cpi_name x)")
  case (Inl m)
  then show ?thesis
    by (auto simp: validate_create_project_def Let_def check_field_def single_def case_prod_beta
        split: sum.splits option.splits dest!: check_tags_opt_issues)
next
  case (Inr n)
  then show ?thesis
    by (auto simp: validate_create_project_def Let_def check_field_def single_def case_prod_beta
        split: sum.splits option.splits dest: check_tags_opt_issues)
qed

lemma validate_project_patch_ok:
  "validate_project_patch parse_url x = Inr y \<longleftrightarrow>
     (\<exists>name. (case ppa_name x of None \<Rightarrow> name = None | Some n \<Rightarrow> \<exists>v. project_name n = Inr v \<and> name = Some v) \<and>
       (\<forall>u. ppa_website x = Some (Some u) \<longrightarrow> is_ok (website parse_url u)) \<and>
       (\<forall>t. ppa_notes x = Some (Some t) \<longrightarrow> is_ok (notes_text t)) \<and>
       y = x\<lparr>ppa_name := name\<rparr>)"
  by (auto simp: validate_project_patch_def Let_def check_field_def single_def case_prod_beta
      split: sum.splits option.splits)

section \<open>Properties\<close>

text \<open>
  Validation is idempotent: what it returns (trimmed names and tags) is accepted again and comes
  back unchanged, so a value that has passed once, on any transport, passes everywhere.
\<close>

theorem validate_idempotent:
  "(validate_create_project parse_url x = Inr y \<longrightarrow> validate_create_project parse_url y = Inr y) \<and>
   (validate_project_patch parse_url p = Inr q \<longrightarrow> validate_project_patch parse_url q = Inr q) \<and>
   (validate_tag_body t = Inr u \<longrightarrow> validate_tag_body u = Inr u) \<and>
   (validate_filter_tags_patch f = Inr g \<longrightarrow> validate_filter_tags_patch g = Inr g)"
proof (intro conjI impI)
  assume "validate_create_project parse_url x = Inr y"
  then obtain name where h: "project_name (cpi_name x) = Inr name"
    "\<forall>u. cpi_website x = Some u \<longrightarrow> is_ok (website parse_url u)"
    "\<forall>t. cpi_notes x = Some t \<longrightarrow> is_ok (notes_text t)"
    "snd (check_tags_opt (cpi_tags x) []) = []"
    "y = x\<lparr>cpi_name := name, cpi_tags := fst (check_tags_opt (cpi_tags x) [])\<rparr>"
    unfolding validate_create_project_ok by blast
  then show "validate_create_project parse_url y = Inr y"
    unfolding validate_create_project_ok
    using check_tags_opt_idem [OF h(4)] by (auto simp: project_name_idem)
next
  assume "validate_project_patch parse_url p = Inr q"
  then show "validate_project_patch parse_url q = Inr q"
    unfolding validate_project_patch_ok by (auto simp: project_name_idem split: option.splits)
next
  assume "validate_tag_body t = Inr u"
  then show "validate_tag_body u = Inr u"
    by (auto simp: validate_tag_body_def check_field_def single_def tag_name_idem split: sum.splits)
next
  assume "validate_filter_tags_patch f = Inr g"
  then show "validate_filter_tags_patch g = Inr g"
    by (auto simp: validate_filter_tags_patch_def check_field_def single_def filter_tags_idem
        split: sum.splits option.splits)
qed

theorem validate_idempotent_witness: "validate_tag_body (lit ''a'') = Inr (lit ''a'')"
proof -
  have "validate_tag_body (lit '' a '') = Inr (lit ''a'')"
    by (simp add: validate_tag_body_def check_field_def tag_name_def js_trim_def trim_matches_def
        is_js_whitespace_def lit_def length_between_def js_len_def utf16_len_def Let_def)
  then show ?thesis using validate_idempotent by blast
qed

end
