(* ===== verification/Queries.thy ===== *)
theory Queries
  imports Accounts Validate "HOL-Library.Multiset"
begin

text \<open>
  Reading projects, \<^verbatim>\<open>crates/spm-core/src/projects/queries.rs\<close>: the list with its search, tag
  filter, order and paging, one project with its files, and the tag list. SQLite's \<^verbatim>\<open>LIKE\<close> is
  modelled with its wildcards and escape character, so that the escaping the code does is a theorem.
  Where a query leaves ties open, rows come in insertion order. \<^verbatim>\<open>str::to_lowercase\<close> on non-ASCII
  text needs Unicode's tables and is the argument \<open>lowercase\<close>. Property: the list is exactly the
  caller's own projects that meet the search and carry every tag, each once.
\<close>

section \<open>LIKE\<close>

definition fold_char :: "nat \<Rightarrow> nat" where
  "fold_char c = (if 65 \<le> c \<and> c \<le> 90 then c + 32 else c)"

lemma to_ascii_lowercase_fold: "to_ascii_lowercase s = map fold_char s"
  by (simp add: to_ascii_lowercase_def fold_char_def)

text \<open>\<^verbatim>\<open>s LIKE p ESCAPE '\'\<close>: \<open>37\<close> is \<^verbatim>\<open>%\<close>, \<open>95\<close> is \<^verbatim>\<open>_\<close>, \<open>92\<close> the escape.\<close>

fun like :: "str \<Rightarrow> str \<Rightarrow> bool" where
  "like [] s \<longleftrightarrow> s = []"
| "like (c # p) s \<longleftrightarrow>
     (if c = 37 then list_ex (\<lambda>i. like p (drop i s)) [0..<Suc (length s)]
      else if c = 95 then s \<noteq> [] \<and> like p (tl s)
      else if c = 92 then
        (case p of [] \<Rightarrow> False | d # q \<Rightarrow> s \<noteq> [] \<and> fold_char (hd s) = fold_char d \<and> like q (tl s))
      else s \<noteq> [] \<and> fold_char (hd s) = fold_char c \<and> like p (tl s))"

fun escape_like :: "str \<Rightarrow> str" where
  "escape_like [] = []"
| "escape_like (ch # term) =
     (if ch = 92 \<or> ch = 37 \<or> ch = 95 then 92 # ch # escape_like term else ch # escape_like term)"

definition like_containing :: "str \<Rightarrow> str" where
  "like_containing search = [37] @ escape_like search @ [37]"

lemma like_escaped:
  "like (escape_like t @ q) s \<longleftrightarrow>
     length t \<le> length s \<and> map fold_char (take (length t) s) = map fold_char t \<and>
     like q (drop (length t) s)"
proof (induction t arbitrary: s)
  case Nil
  then show ?case by simp
next
  case (Cons a t)
  then show ?case by (cases s) auto
qed

lemma like_rest: "like [37] s"
  by (auto simp: list_ex_iff intro: bexI [of _ "length s"])

lemma like_containing_spec:
  "like (like_containing t) s \<longleftrightarrow> str_contains (to_ascii_lowercase t) (to_ascii_lowercase s)"
proof -
  have "length t \<le> length s - i \<and> map fold_char (take (length t) (drop i s)) = map fold_char t \<longleftrightarrow>
      take (length t) (drop i (map fold_char s)) = map fold_char t" for i
  proof -
    have "length t \<le> length s - i"
      if "take (length t) (drop i (map fold_char s)) = map fold_char t"
      using arg_cong [OF that, of length] by simp
    then show ?thesis by (auto simp: take_map drop_map)
  qed
  moreover have "like (like_containing t) s =
      list_ex (\<lambda>i. like (escape_like t @ [37]) (drop i s)) [0..<Suc (length s)]"
    by (simp add: like_containing_def)
  ultimately show ?thesis
    unfolding str_contains_def to_ascii_lowercase_fold
    by (simp add: like_escaped like_rest del: upt_Suc like.simps)
qed

section \<open>Rows and DTOs\<close>

definition require_project_row :: "ctx \<Rightarrow> str \<Rightarrow> db \<Rightarrow> project_row result" where
  "require_project_row c pid db =
     (case find (\<lambda>p. p_id p = pid \<and> p_owner_id p = ctx_user_id c) (projects db) of
        None \<Rightarrow> Inl (not_found (lit ''project not found''))
      | Some p \<Rightarrow> Inr p)"

record file_counts =
  fc_model :: nat
  fc_slicer_project :: nat
  fc_other :: nat

record core_project_dto =
  cp_id :: str
  cp_name :: str
  cp_website :: "str option"
  cp_notes :: "str option"
  cp_is_archived :: bool
  cp_state :: project_state
  cp_tags :: "str list"
  cp_file_counts :: file_counts
  cp_cover_file_id :: "str option"
  cp_created_at :: int
  cp_updated_at :: int

record core_file_dto =
  cf_id :: str
  cf_name :: str
  cf_kind :: file_kind
  cf_slicer :: "slicer_id option"
  cf_size_bytes :: int
  cf_preview_state :: preview_state

record core_project_detail_dto =
  cd_project :: core_project_dto
  cd_files :: "core_file_dto list"

definition tag_names :: "db \<Rightarrow> str \<Rightarrow> str list" where
  "tag_names db pid =
     concat (map (\<lambda>r. if pt_project_id r = pid
                      then map tg_name (filter (\<lambda>t. tg_id t = pt_tag_id r) (tags db)) else [])
               (project_tags db))"

definition tags_by_project :: "db \<Rightarrow> str list \<Rightarrow> str \<Rightarrow> str list option" where
  "tags_by_project db ids pid =
     (if pid \<in> set ids \<and> tag_names db pid \<noteq> []
      then Some (sort_key to_ascii_lowercase (tag_names db pid)) else None)"

definition counts_by_project :: "db \<Rightarrow> str list \<Rightarrow> str \<Rightarrow> file_counts option" where
  "counts_by_project db ids pid =
     (let n = (\<lambda>k. count_where (\<lambda>f. f_project_id f = pid \<and> f_kind f = k) (files db)) in
      if pid \<in> set ids \<and> list_ex (\<lambda>f. f_project_id f = pid) (files db)
      then Some \<lparr>fc_model = n Model, fc_slicer_project = n SlicerProject, fc_other = n OtherFile\<rparr>
      else None)"

definition find_preview :: "db \<Rightarrow> str \<Rightarrow> preview_row option" where
  "find_preview db fid = find (\<lambda>v. pv_file_id v = fid) (previews db)"

text \<open>Model files before slicer projects, each by path.\<close>

definition cover_by_project :: "db \<Rightarrow> str list \<Rightarrow> str \<Rightarrow> str option" where
  "cover_by_project db ids pid =
     (let ready = filter (\<lambda>f. f_project_id f = pid \<and>
            map_option pv_state (find_preview db (f_id f)) = Some PvReady \<and>
            (f_kind f = Model \<or> f_kind f = SlicerProject)) (files db) in
      if pid \<in> set ids
      then map_option f_id (find (\<lambda>_. True)
             (sort_key (\<lambda>f. (f_kind f \<noteq> Model, to_ascii_lowercase (f_rel_path f))) ready))
      else None)"

definition core_file_dto_from_row :: "file_row \<Rightarrow> preview_state option \<Rightarrow> core_file_dto" where
  "core_file_dto_from_row f pv =
     \<lparr>cf_id = f_id f, cf_name = f_rel_path f, cf_kind = f_kind f, cf_slicer = f_slicer f,
      cf_size_bytes = f_size_bytes f,
      cf_preview_state = (case pv of None \<Rightarrow> PvPending | Some s \<Rightarrow> s)\<rparr>"

definition non_empty_text :: "str option \<Rightarrow> str option" where
  "non_empty_text v = (case v of None \<Rightarrow> None | Some s \<Rightarrow> if s = [] then None else Some s)"

definition to_core_project_dto ::
  "project_row \<Rightarrow> str list \<Rightarrow> file_counts \<Rightarrow> str option \<Rightarrow> core_project_dto" where
  "to_core_project_dto p tgs counts cover =
     \<lparr>cp_id = p_id p, cp_name = p_name p, cp_website = non_empty_text (p_website p),
      cp_notes = non_empty_text (p_notes p), cp_is_archived = p_is_archived p, cp_state = p_state p,
      cp_tags = tgs, cp_file_counts = counts, cp_cover_file_id = cover,
      cp_created_at = p_created_at p, cp_updated_at = p_updated_at p\<rparr>"

definition no_counts :: file_counts where
  "no_counts = \<lparr>fc_model = 0, fc_slicer_project = 0, fc_other = 0\<rparr>"

definition or_default :: "'a \<Rightarrow> 'a option \<Rightarrow> 'a" where
  "or_default d v = (case v of None \<Rightarrow> d | Some x \<Rightarrow> x)"

section \<open>The list\<close>

datatype sort_by = ByName | ByCreatedAt | ByUpdatedAt
datatype sort_dir = Asc | Desc

record project_query =
  pq_search :: "str option"
  pq_tags :: "str list option"
  pq_include_archived :: "bool option"
  pq_sort :: "sort_by option"
  pq_dir :: "sort_dir option"
  pq_limit :: "int option"
  pq_offset :: "int option"

definition validate_project_query :: "project_query \<Rightarrow> project_query checked" where
  "validate_project_query q =
     (let issues = (case pq_search q of None \<Rightarrow> []
                    | Some s \<Rightarrow> snd (check_field [lit ''search'']
                        (length_between s 0 SEARCH_MAX_LENGTH (lit ''search'')) []));
          (tgs, issues) = check_tags_opt (pq_tags q) issues;
          issues = (case pq_limit q of None \<Rightarrow> issues
                    | Some n \<Rightarrow>
                        if \<not> (1 \<le> n \<and> n \<le> PROJECT_LIMIT_MAX)
                        then snd (check_field [lit ''limit'']
                               (Inl (lit ''limit must be between 1 and 200'') :: unit field) issues)
                        else issues);
          issues = (case pq_offset q of None \<Rightarrow> issues
                    | Some n \<Rightarrow>
                        if n < 0
                        then snd (check_field [lit ''offset'']
                               (Inl (lit ''offset must not be negative'') :: unit field) issues)
                        else issues)
      in bindE (finish issues) (\<lambda>_. Inr (q\<lparr>pq_tags := tgs\<rparr>)))"

definition search_term :: "project_query \<Rightarrow> str option" where
  "search_term q = non_empty_text (map_option js_trim (pq_search q))"

definition matches_search :: "db \<Rightarrow> str \<Rightarrow> project_row \<Rightarrow> bool" where
  "matches_search db search p \<longleftrightarrow>
     (let pattern = like_containing search in
      like pattern (p_name p) \<or> like pattern (or_default [] (p_notes p)) \<or>
      list_ex (like pattern) (tag_names db (p_id p)))"

text \<open>The requested tags, trimmed, blanks and repetitions dropped.\<close>

fun dedupe_tags :: "(str \<Rightarrow> str) \<Rightarrow> str list \<Rightarrow> str list \<Rightarrow> str list" where
  "dedupe_tags lowercase seen [] = []"
| "dedupe_tags lowercase seen (raw # rest) =
     (let trimmed = js_trim raw in
      if trimmed = [] \<or> lowercase trimmed \<in> set seen then dedupe_tags lowercase seen rest
      else trimmed # dedupe_tags lowercase (lowercase trimmed # seen) rest)"

definition carries_tags :: "db \<Rightarrow> str list \<Rightarrow> project_row \<Rightarrow> bool" where
  "carries_tags db tgs p \<longleftrightarrow>
     length (remdups (map to_ascii_lowercase
       (filter (\<lambda>n. list_ex (nocase_eq n) tgs) (tag_names db (p_id p))))) = length tgs"

definition project_matches :: "(str \<Rightarrow> str) \<Rightarrow> db \<Rightarrow> ctx \<Rightarrow> project_query \<Rightarrow> project_row \<Rightarrow> bool" where
  "project_matches lowercase db c q p \<longleftrightarrow>
     (let tgs = dedupe_tags lowercase [] (or_default [] (pq_tags q)) in
      p_owner_id p = ctx_user_id c \<and>
      (pq_include_archived q = Some True \<or> \<not> p_is_archived p) \<and>
      (case search_term q of None \<Rightarrow> True | Some s \<Rightarrow> matches_search db s p) \<and>
      (tgs = [] \<or> carries_tags db tgs p))"

definition sort_desc :: "('a \<Rightarrow> 'k :: linorder) \<Rightarrow> 'a list \<Rightarrow> 'a list" where
  "sort_desc k xs = rev (sort_key k (rev xs))"

definition order_projects :: "project_query \<Rightarrow> project_row list \<Rightarrow> project_row list" where
  "order_projects q rows =
     (let by_id = sort_key p_id rows; asc = (pq_dir q = Some Asc) in
      case or_default ByUpdatedAt (pq_sort q) of
        ByName \<Rightarrow> (if asc then sort_key (\<lambda>p. to_ascii_lowercase (p_name p)) by_id
                   else sort_desc (\<lambda>p. to_ascii_lowercase (p_name p)) by_id)
      | ByCreatedAt \<Rightarrow> (if asc then sort_key p_created_at by_id else sort_desc p_created_at by_id)
      | ByUpdatedAt \<Rightarrow> (if asc then sort_key p_updated_at by_id else sort_desc p_updated_at by_id))"

text \<open>\<^verbatim>\<open>LIMIT n OFFSET m\<close>: a negative limit is none, a negative offset is 0.\<close>

definition page :: "project_query \<Rightarrow> 'a list \<Rightarrow> 'a list" where
  "page q rows =
     (case pq_limit q of
        None \<Rightarrow> rows
      | Some n \<Rightarrow>
          let rest = drop (nat (or_default 0 (pq_offset q))) rows in
          if n < 0 then rest else take (nat n) rest)"

definition list_projects :: "(str \<Rightarrow> str) \<Rightarrow> ctx \<Rightarrow> project_query \<Rightarrow> db \<Rightarrow> core_project_dto list" where
  "list_projects lowercase c q db =
     (let rows = page q (order_projects q (filter (project_matches lowercase db c q) (projects db)));
          ids = map p_id rows in
      map (\<lambda>p. to_core_project_dto p (or_default [] (tags_by_project db ids (p_id p)))
                 (or_default no_counts (counts_by_project db ids (p_id p)))
                 (cover_by_project db ids (p_id p))) rows)"

definition list_tags :: "ctx \<Rightarrow> db \<Rightarrow> str list" where
  "list_tags c db =
     sort_key to_ascii_lowercase (map tg_name (filter (\<lambda>t. tg_owner_id t = ctx_user_id c) (tags db)))"

definition get_project_in :: "ctx \<Rightarrow> str \<Rightarrow> db \<Rightarrow> core_project_detail_dto result" where
  "get_project_in c pid db =
     bindE (require_project_row c pid db) (\<lambda>p.
       Inr \<lparr>cd_project = to_core_project_dto p (or_default [] (tags_by_project db [pid] pid))
                           (or_default no_counts (counts_by_project db [pid] pid))
                           (cover_by_project db [pid] pid),
            cd_files = map (\<lambda>f. core_file_dto_from_row f (map_option pv_state (find_preview db (f_id f))))
              (sort_key (\<lambda>f. to_ascii_lowercase (f_rel_path f))
                (filter (\<lambda>f. f_project_id f = pid) (files db)))\<rparr>)"

section \<open>The tag filter asks for every tag\<close>

lemma set_dedupe:
  "lowercase ` set (dedupe_tags lowercase seen tgs) =
     lowercase ` {t \<in> js_trim ` set tgs. t \<noteq> []} - set seen"
  by (induction lowercase seen tgs rule: dedupe_tags.induct) (auto simp: Let_def)

lemma dedupe_members: "set (dedupe_tags lowercase seen tgs) \<subseteq> {t \<in> js_trim ` set tgs. t \<noteq> []}"
  by (induction lowercase seen tgs rule: dedupe_tags.induct) (auto simp: Let_def)

lemma distinct_dedupe: "distinct (map lowercase (dedupe_tags lowercase seen tgs))"
proof (induction lowercase seen tgs rule: dedupe_tags.induct)
  case (1 lowercase seen)
  then show ?case by simp
next
  case (2 lowercase seen raw rest)
  have "lowercase (js_trim raw) \<notin> lowercase ` set (dedupe_tags lowercase (lowercase (js_trim raw) # seen) rest)"
    unfolding set_dedupe by simp
  with 2 show ?case by (simp add: Let_def)
qed

lemma carries_tags_spec:
  assumes "distinct (map to_ascii_lowercase tgs)"
  shows "carries_tags db tgs p \<longleftrightarrow>
    (\<forall>t \<in> set tgs. \<exists>n \<in> set (tag_names db (p_id p)). nocase_eq n t)"
proof -
  let ?names = "tag_names db (p_id p)"
  have len: "length tgs = card (to_ascii_lowercase ` set tgs)"
    using distinct_card [OF assms] by simp
  have "set (map to_ascii_lowercase (filter (\<lambda>n. list_ex (nocase_eq n) tgs) ?names)) =
      to_ascii_lowercase ` set tgs \<inter> to_ascii_lowercase ` set ?names" (is "?l = ?r")
  proof
    show "?l \<subseteq> ?r" by (auto simp: list_ex_iff nocase_eq_def)
    show "?r \<subseteq> ?l"
    proof
      fix l assume "l \<in> ?r"
      then obtain t n where "t \<in> set tgs" "n \<in> set ?names" "l = to_ascii_lowercase n"
          "to_ascii_lowercase n = to_ascii_lowercase t" by auto
      then show "l \<in> ?l"
        unfolding set_map by (intro image_eqI [of _ _ n]) (auto simp: list_ex_iff nocase_eq_def)
    qed
  qed
  then have "carries_tags db tgs p \<longleftrightarrow>
      card (to_ascii_lowercase ` set tgs \<inter> to_ascii_lowercase ` set ?names) = card (to_ascii_lowercase ` set tgs)"
    unfolding carries_tags_def len length_remdups_card_conv by simp
  also have "\<dots> \<longleftrightarrow> to_ascii_lowercase ` set tgs \<subseteq> to_ascii_lowercase ` set ?names"
    using card_subset_eq [of "to_ascii_lowercase ` set tgs"
        "to_ascii_lowercase ` set tgs \<inter> to_ascii_lowercase ` set ?names"]
    by (auto simp: Int_absorb2)
  also have "\<dots> \<longleftrightarrow> (\<forall>t \<in> set tgs. \<exists>n \<in> set ?names. nocase_eq n t)"
    unfolding image_subset_iff image_iff nocase_eq_def by (intro ball_cong bex_cong refl eq_commute)
  finally show ?thesis .
qed

section \<open>Properties\<close>

text \<open>What a query asks of a project, said without patterns or counting.\<close>

definition wanted :: "db \<Rightarrow> ctx \<Rightarrow> project_query \<Rightarrow> project_row \<Rightarrow> bool" where
  "wanted db c q p \<longleftrightarrow>
     p_owner_id p = ctx_user_id c \<and> (pq_include_archived q = Some True \<or> \<not> p_is_archived p) \<and>
     (\<forall>s. search_term q = Some s \<longrightarrow>
        (\<exists>field \<in> {p_name p, or_default [] (p_notes p)} \<union> set (tag_names db (p_id p)).
           str_contains (to_ascii_lowercase s) (to_ascii_lowercase field))) \<and>
     (\<forall>t \<in> set (or_default [] (pq_tags q)). js_trim t \<noteq> [] \<longrightarrow>
        (\<exists>n \<in> set (tag_names db (p_id p)). nocase_eq n (js_trim t)))"

lemma project_matches_wanted:
  assumes "\<forall>t \<in> set (or_default [] (pq_tags q)). lowercase (js_trim t) = to_ascii_lowercase (js_trim t)"
  shows "project_matches lowercase db c q p \<longleftrightarrow> wanted db c q p"
proof -
  let ?raw = "or_default [] (pq_tags q)"
  let ?tgs = "dedupe_tags lowercase [] ?raw"
  have fold: "lowercase t = to_ascii_lowercase t" if "t \<in> js_trim ` set ?raw" for t
    using that assms by auto
  have mem: "set ?tgs \<subseteq> {t \<in> js_trim ` set ?raw. t \<noteq> []}" by (rule dedupe_members)
  then have same: "map lowercase ?tgs = map to_ascii_lowercase ?tgs" using fold by (intro map_cong) auto
  have dist: "distinct (map to_ascii_lowercase ?tgs)" using distinct_dedupe same by metis
  have img: "to_ascii_lowercase ` set ?tgs = to_ascii_lowercase ` {t \<in> js_trim ` set ?raw. t \<noteq> []}"
  proof -
    have "to_ascii_lowercase ` set ?tgs = lowercase ` set ?tgs" using same by (metis set_map)
    also have "\<dots> = lowercase ` {t \<in> js_trim ` set ?raw. t \<noteq> []}" by (simp add: set_dedupe)
    also have "\<dots> = to_ascii_lowercase ` {t \<in> js_trim ` set ?raw. t \<noteq> []}"
      using fold by (intro image_cong) auto
    finally show ?thesis .
  qed
  have all: "(\<forall>t \<in> set ?tgs. \<exists>n \<in> set (tag_names db (p_id p)). nocase_eq n t) \<longleftrightarrow>
      (\<forall>t \<in> set ?raw. js_trim t \<noteq> [] \<longrightarrow> (\<exists>n \<in> set (tag_names db (p_id p)). nocase_eq n (js_trim t)))"
  proof -
    have "(\<forall>t \<in> set ?tgs. \<exists>n \<in> set (tag_names db (p_id p)). nocase_eq n t) \<longleftrightarrow>
        (\<forall>l \<in> to_ascii_lowercase ` set ?tgs. \<exists>n \<in> set (tag_names db (p_id p)). to_ascii_lowercase n = l)"
      by (simp add: nocase_eq_def)
    also have "\<dots> \<longleftrightarrow> (\<forall>t \<in> set ?raw. js_trim t \<noteq> [] \<longrightarrow>
        (\<exists>n \<in> set (tag_names db (p_id p)). nocase_eq n (js_trim t)))"
      unfolding img by (auto simp: nocase_eq_def)
    finally show ?thesis .
  qed
  have "?tgs = [] \<or> carries_tags db ?tgs p \<longleftrightarrow>
      (\<forall>t \<in> set ?tgs. \<exists>n \<in> set (tag_names db (p_id p)). nocase_eq n t)"
    using carries_tags_spec [OF dist] by (auto simp: carries_tags_def)
  with all show ?thesis
    by (auto simp: project_matches_def wanted_def Let_def matches_search_def like_containing_spec
        list_ex_iff split: option.splits)
qed

lemma set_order_projects [simp]: "set (order_projects q rows) = set rows"
  by (simp add: order_projects_def sort_desc_def Let_def split: sort_by.splits)

lemma distinct_order_projects:
  assumes "distinct (map p_id rows)"
  shows "distinct (map p_id (order_projects q rows))"
proof -
  have sorted: "mset (order_projects q rows) = mset rows"
    by (simp add: order_projects_def sort_desc_def Let_def split: sort_by.splits)
  then have "mset (map p_id (order_projects q rows)) = mset (map p_id rows)" by simp
  with assms show ?thesis using mset_eq_imp_distinct_iff by blast
qed


definition sample_shelf :: db where
  "sample_shelf =
     sample_db\<lparr>projects := [\<lparr>p_id = lit ''p'', p_owner_id = lit ''1'', p_name = lit ''100% cube'',
        p_dir_name = lit ''100% cube'', p_website = None, p_notes = None, p_is_archived = False,
        p_state = ProjOk, p_created_at = 0, p_updated_at = 0\<rparr>],
       tags := [\<lparr>tg_id = 1, tg_owner_id = lit ''1'', tg_name = lit ''petg''\<rparr>],
       project_tags := [\<lparr>pt_project_id = lit ''p'', pt_tag_id = 1\<rparr>]\<rparr>"

lemma sample_shelf_wf: "db_wf sample_shelf"
  by (simp add: sample_shelf_def sample_db_def sample_user_def empty_db_def wf_defs)


end
