(* ===== verification/Activation.thy ===== *)
theory Activation
  imports Accounts Utf8
begin

text \<open>
  Activation tokens, \<^verbatim>\<open>crates/spm-core/src/auth/activation.rs\<close>: issuing, revoking, checking and
  consuming the single-use invite of an account. The locale \<open>single_use_tokens\<close> is the contract
  the user administration and the activation use case rely on; it is interpreted on these
  operations. Property: whatever the order of operations, a token is accepted at most once, and a
  reissued invite leaves exactly one usable link.
\<close>

definition ACTIVATION_TTL_MS :: int where "ACTIVATION_TTL_MS = 7 * 24 * 60 * 60 * 1000"

record activation_check =
  ac_valid :: bool
  ac_username :: "str option"
  ac_user_id :: "str option"

record token_info =
  ti_user_id :: str
  ti_username :: str
  ti_expires_at :: int
  ti_consumed_at :: "int option"

definition issue_activation_token_in ::
  "(str \<Rightarrow> bytes) \<Rightarrow> str \<Rightarrow> str \<Rightarrow> str \<Rightarrow> int \<Rightarrow> db \<Rightarrow> (str \<times> db) result" where
  "issue_activation_token_in sha token tid uid now db =
     bindE (insert_token
              \<lparr>at_id = tid, at_user_id = uid, at_token_hash = sha token,
               at_expires_at = now + ACTIVATION_TTL_MS, at_consumed_at = None, at_created_at = now\<rparr> db)
       (\<lambda>db'. Inr (token, db'))"

definition revoke_activation_tokens_in :: "str \<Rightarrow> int \<Rightarrow> db \<Rightarrow> nat \<times> db" where
  "revoke_activation_tokens_in uid now db =
     (let p = (\<lambda>t. at_user_id t = uid \<and> at_consumed_at t = None) in
      (count_where p (activation_tokens db),
       db\<lparr>activation_tokens :=
            update_where p (\<lambda>t. t\<lparr>at_consumed_at := Some now\<rparr>) (activation_tokens db)\<rparr>))"

definition find_token_row :: "db \<Rightarrow> bytes \<Rightarrow> token_row option" where
  "find_token_row db hash = find (\<lambda>t. at_token_hash t = hash) (activation_tokens db)"

definition find_token :: "(str \<Rightarrow> bytes) \<Rightarrow> str \<Rightarrow> db \<Rightarrow> token_info option" where
  "find_token sha token db =
     (case find_token_row db (sha token) of
        None \<Rightarrow> None
      | Some t \<Rightarrow>
          map_option (\<lambda>u. \<lparr>ti_user_id = at_user_id t, ti_username = u_username u,
                           ti_expires_at = at_expires_at t, ti_consumed_at = at_consumed_at t\<rparr>)
            (find_user_by_id db (at_user_id t)))"

definition token_live :: "int \<Rightarrow> token_info \<Rightarrow> bool" where
  "token_live now row \<longleftrightarrow> ti_consumed_at row = None \<and> ti_expires_at row > now"

definition check_activation_token_in :: "(str \<Rightarrow> bytes) \<Rightarrow> str \<Rightarrow> int \<Rightarrow> db \<Rightarrow> activation_check" where
  "check_activation_token_in sha token now db =
     (let dead = \<lparr>ac_valid = False, ac_username = None, ac_user_id = None\<rparr> in
      case find_token sha token db of
        None \<Rightarrow> dead
      | Some row \<Rightarrow>
          if token_live now row
          then \<lparr>ac_valid = True, ac_username = Some (ti_username row), ac_user_id = Some (ti_user_id row)\<rparr>
          else dead)"

definition not_usable :: app_error where
  "not_usable = invalid_token (lit ''activation token is not usable'')"

definition token_expired :: app_error where
  "token_expired = new_error TokenExpired (lit ''activation token has expired'')"

definition unusable_error :: "token_info option \<Rightarrow> int \<Rightarrow> app_error" where
  "unusable_error row now =
     (case row of
        None \<Rightarrow> not_usable
      | Some r \<Rightarrow> if ti_consumed_at r = None \<and> ti_expires_at r \<le> now then token_expired else not_usable)"

definition explain_unusable_token_in :: "(str \<Rightarrow> bytes) \<Rightarrow> str \<Rightarrow> int \<Rightarrow> db \<Rightarrow> app_error" where
  "explain_unusable_token_in sha token now db = unusable_error (find_token sha token db) now"

definition mark_consumed :: "bytes \<Rightarrow> int \<Rightarrow> db \<Rightarrow> nat \<times> db" where
  "mark_consumed hash now db =
     (let p = (\<lambda>t. at_token_hash t = hash \<and> at_consumed_at t = None) in
      (count_where p (activation_tokens db),
       db\<lparr>activation_tokens :=
            update_where p (\<lambda>t. t\<lparr>at_consumed_at := Some now\<rparr>) (activation_tokens db)\<rparr>))"

definition consume_activation_token_in ::
  "(str \<Rightarrow> bytes) \<Rightarrow> str \<Rightarrow> int \<Rightarrow> db \<Rightarrow> (str \<times> db) result" where
  "consume_activation_token_in sha token now db =
     (let row = find_token sha token db in
      case (case row of None \<Rightarrow> None | Some r \<Rightarrow> if token_live now r then Some r else None) of
        None \<Rightarrow> Inl (unusable_error row now)
      | Some r \<Rightarrow>
          let (changed, db') = mark_consumed (sha token) now db in
          if changed = 0 then Inl not_usable else Inr (ti_user_id r, db'))"

section \<open>Invariants\<close>

lemma issue_token_wf [invariants]:
  "issue_activation_token_in sha token tid uid now db = Inr (tok, db') \<Longrightarrow> db_wf db \<Longrightarrow> db_wf db'"
  by (auto simp: issue_activation_token_in_def result_iffs dest: insert_token_wf)

lemma revoke_tokens_wf [invariants]: "db_wf db \<Longrightarrow> db_wf (snd (revoke_activation_tokens_in uid now db))"
  unfolding revoke_activation_tokens_in_def Let_def snd_conv by (rule update_tokens_wf) simp_all

lemma mark_consumed_wf [invariants]: "db_wf db \<Longrightarrow> db_wf (snd (mark_consumed hash now db))"
  unfolding mark_consumed_def Let_def snd_conv by (rule update_tokens_wf) simp_all

lemma consume_Inr:
  "consume_activation_token_in sha token now db = Inr (uid, db') \<longleftrightarrow>
     (\<exists>r. find_token sha token db = Some r \<and> token_live now r \<and> ti_user_id r = uid \<and>
        fst (mark_consumed (sha token) now db) \<noteq> 0 \<and> db' = snd (mark_consumed (sha token) now db))"
  by (auto simp: consume_activation_token_in_def Let_def split: option.splits prod.splits)

lemma consume_wf [invariants]:
  "consume_activation_token_in sha token now db = Inr (uid, db') \<Longrightarrow> db_wf db \<Longrightarrow> db_wf db'"
  by (auto simp: consume_Inr mark_consumed_wf)

section \<open>The contract\<close>

text \<open>The account a token hash still opens, and the hashes the store has ever issued.\<close>

definition open_token :: "db \<Rightarrow> bytes \<Rightarrow> str option" where
  "open_token db hash =
     (case find_token_row db hash of
        None \<Rightarrow> None
      | Some t \<Rightarrow> if at_consumed_at t = None then Some (at_user_id t) else None)"

definition known_token :: "db \<Rightarrow> bytes \<Rightarrow> bool" where
  "known_token db hash \<longleftrightarrow> find_token_row db hash \<noteq> None"

datatype ('t, 'u) token_event = Issue 't 't 'u int | Revoke 'u int | Consume 't int

definition token_step ::
  "('t \<Rightarrow> 't \<Rightarrow> 'u \<Rightarrow> int \<Rightarrow> 's \<Rightarrow> 'e + 't \<times> 's) \<Rightarrow> ('u \<Rightarrow> int \<Rightarrow> 's \<Rightarrow> nat \<times> 's) \<Rightarrow>
   ('t \<Rightarrow> int \<Rightarrow> 's \<Rightarrow> 'e + 'u \<times> 's) \<Rightarrow> ('t, 'u) token_event \<Rightarrow> 's \<Rightarrow> 't option \<times> 's" where
  "token_step issue revoke consume ev s =
     (case ev of
        Issue token tid u now \<Rightarrow>
          (None, case issue token tid u now s of Inl _ \<Rightarrow> s | Inr (_, s') \<Rightarrow> s')
      | Revoke u now \<Rightarrow> (None, snd (revoke u now s))
      | Consume token now \<Rightarrow>
          (case consume token now s of Inl _ \<Rightarrow> (None, s) | Inr (_, s') \<Rightarrow> (Some token, s')))"

text \<open>The tokens a run accepts, in order.\<close>

fun run_tokens ::
  "('t \<Rightarrow> 't \<Rightarrow> 'u \<Rightarrow> int \<Rightarrow> 's \<Rightarrow> 'e + 't \<times> 's) \<Rightarrow> ('u \<Rightarrow> int \<Rightarrow> 's \<Rightarrow> nat \<times> 's) \<Rightarrow>
   ('t \<Rightarrow> int \<Rightarrow> 's \<Rightarrow> 'e + 'u \<times> 's) \<Rightarrow> ('t, 'u) token_event list \<Rightarrow> 's \<Rightarrow> 't list" where
  "run_tokens issue revoke consume [] s = []"
| "run_tokens issue revoke consume (ev # evs) s =
     (case fst (token_step issue revoke consume ev s) of None \<Rightarrow> [] | Some t \<Rightarrow> [t]) @
     run_tokens issue revoke consume evs (snd (token_step issue revoke consume ev s))"

locale single_use_tokens =
  fixes key :: "'t \<Rightarrow> 'k"
    and valid :: "'s \<Rightarrow> bool"
    and opens :: "'s \<Rightarrow> 'k \<Rightarrow> 'u option"
    and known :: "'s \<Rightarrow> 'k \<Rightarrow> bool"
    and issue :: "'t \<Rightarrow> 't \<Rightarrow> 'u \<Rightarrow> int \<Rightarrow> 's \<Rightarrow> 'e + 't \<times> 's"
    and revoke :: "'u \<Rightarrow> int \<Rightarrow> 's \<Rightarrow> nat \<times> 's"
    and consume :: "'t \<Rightarrow> int \<Rightarrow> 's \<Rightarrow> 'e + 'u \<times> 's"
  assumes opens_known: "opens s k \<noteq> None \<Longrightarrow> known s k"
    and issue_law: "valid s \<Longrightarrow> issue t tid u now s = Inr (t', s') \<Longrightarrow>
          valid s' \<and> \<not> known s (key t) \<and> t' = t \<and> opens s' = (opens s)(key t := Some u) \<and>
          known s' = (known s)(key t := True)"
    and revoke_law: "valid s \<Longrightarrow>
          valid (snd (revoke u now s)) \<and> known (snd (revoke u now s)) = known s \<and>
          opens (snd (revoke u now s)) = (\<lambda>k. if opens s k = Some u then None else opens s k)"
    and consume_law: "valid s \<Longrightarrow> consume t now s = Inr (u, s') \<Longrightarrow>
          valid s' \<and> opens s (key t) = Some u \<and> opens s' = (opens s)(key t := None) \<and> known s' = known s"
begin

definition spent :: "'s \<Rightarrow> 'k \<Rightarrow> bool" where
  "spent s k \<longleftrightarrow> known s k \<and> opens s k = None"

lemma step_law:
  assumes "valid s" "token_step issue revoke consume ev s = (accepted, s')"
  shows "valid s'" "spent s k \<Longrightarrow> spent s' k \<and> (\<forall>t. accepted = Some t \<longrightarrow> key t \<noteq> k)"
    "accepted = Some t \<Longrightarrow> spent s' (key t)"
proof -
  have "valid s' \<and> (spent s k \<longrightarrow> spent s' k \<and> (\<forall>t. accepted = Some t \<longrightarrow> key t \<noteq> k)) \<and>
      (accepted = Some t \<longrightarrow> spent s' (key t))"
  proof (cases ev)
    case (Issue tok tid u now)
    then show ?thesis
      using assms issue_law [OF assms(1), of tok tid u now]
      by (fastforce simp: token_step_def spent_def split: sum.splits prod.splits)
  next
    case (Revoke u now)
    then show ?thesis
      using assms revoke_law [OF assms(1), of u now] by (auto simp: token_step_def spent_def)
  next
    case (Consume tok now)
    show ?thesis
    proof (cases "consume tok now s")
      case (Inl e)
      with Consume assms show ?thesis by (simp add: token_step_def)
    next
      case (Inr r)
      obtain u s1 where r: "r = (u, s1)" by (cases r)
      note law = consume_law [OF assms(1) Inr [unfolded r]]
      then have "known s (key tok)" using opens_known [of s "key tok"] by simp
      with law Inr r Consume assms(2) show ?thesis by (auto simp: token_step_def spent_def)
    qed
  qed
  then show "valid s'" "spent s k \<Longrightarrow> spent s' k \<and> (\<forall>t. accepted = Some t \<longrightarrow> key t \<noteq> k)"
    "accepted = Some t \<Longrightarrow> spent s' (key t)" by auto
qed

lemma spent_never_accepted:
  "valid s \<Longrightarrow> spent s k \<Longrightarrow> \<forall>t \<in> set (run_tokens issue revoke consume evs s). key t \<noteq> k"
proof (induction evs arbitrary: s)
  case Nil
  then show ?case by simp
next
  case (Cons ev evs)
  obtain acc s' where st: "token_step issue revoke consume ev s = (acc, s')" by fastforce
  note law = step_law [OF Cons.prems(1) st]
  have "\<forall>t \<in> set (run_tokens issue revoke consume evs s'). key t \<noteq> k"
    using law(1) law(2) [OF Cons.prems(2)] by (intro Cons.IH) simp_all
  then show ?case using law(2) [OF Cons.prems(2)] by (auto simp: st split: option.splits)
qed

lemma accepted_once:
  "valid s \<Longrightarrow> length (filter (\<lambda>t. key t = k) (run_tokens issue revoke consume evs s)) \<le> 1"
proof (induction evs arbitrary: s)
  case Nil
  then show ?case by simp
next
  case (Cons ev evs)
  obtain acc s' where st: "token_step issue revoke consume ev s = (acc, s')" by fastforce
  note law = step_law [OF Cons.prems(1) st]
  show ?case
  proof (cases "\<exists>t. acc = Some t \<and> key t = k")
    case True
    then have "spent s' k" using law(3) by auto
    then have "filter (\<lambda>t. key t = k) (run_tokens issue revoke consume evs s') = []"
      using spent_never_accepted [OF law(1)] by (simp add: filter_empty_conv)
    then show ?thesis using True by (auto simp: st)
  next
    case False
    then show ?thesis using Cons.IH [OF law(1)] by (auto simp: st split: option.splits)
  qed
qed

lemma reissue_leaves_one:
  assumes "valid s" "issue t tid u now (snd (revoke u now s)) = Inr (t', s')"
  shows "{k. opens s' k = Some u} = {key t}"
    "\<And>v. v \<noteq> u \<Longrightarrow> {k. opens s' k = Some v} = {k. opens s k = Some v}"
proof -
  note rev = revoke_law [OF assms(1), of u now]
  note iss = issue_law [OF conjunct1 [OF rev] assms(2)]
  from rev iss show "{k. opens s' k = Some u} = {key t}" by auto
  have "\<not> known s (key t)" using rev iss by simp
  then have "opens s (key t) = None" using opens_known by blast
  then show "\<And>v. v \<noteq> u \<Longrightarrow> {k. opens s' k = Some v} = {k. opens s k = Some v}"
    using rev iss by (auto split: if_splits)
qed

end

section \<open>The operations keep the contract\<close>

lemma find_token_row_update:
  assumes "\<And>t. at_token_hash (f t) = at_token_hash t"
  shows "find_token_row (db\<lparr>activation_tokens := update_where p f (activation_tokens db)\<rparr>) h =
           map_option (\<lambda>t. if p t then f t else t) (find_token_row db h)"
  using assms by (simp add: find_token_row_def find_update_where)

lemma find_token_row_hash: "find_token_row db h = Some t \<Longrightarrow> at_token_hash t = h"
  by (auto simp: find_token_row_def dest: find_Some_set)

lemma issue_contract:
  assumes "issue_activation_token_in sha t tid u now db = Inr (t', db')"
  shows "\<not> known_token db (sha t) \<and> t' = t \<and> open_token db' = (open_token db)(sha t := Some u) \<and>
         known_token db' = (known_token db)(sha t := True)"
proof -
  have new: "\<not> list_ex (\<lambda>r. at_token_hash r = sha t) (activation_tokens db)" and t': "t' = t"
    and db': "activation_tokens db' = activation_tokens db @
        [\<lparr>at_id = tid, at_user_id = u, at_token_hash = sha t, at_expires_at = now + ACTIVATION_TTL_MS,
          at_consumed_at = None, at_created_at = now\<rparr>]"
    using assms
    by (auto simp: issue_activation_token_in_def result_iffs insert_token_def split: if_splits)
  then have none: "find_token_row db (sha t) = None"
    by (simp add: find_token_row_def find_None_set list_ex_iff)
  then have row: "find_token_row db' h =
      (if h = sha t
       then Some \<lparr>at_id = tid, at_user_id = u, at_token_hash = sha t,
              at_expires_at = now + ACTIVATION_TTL_MS, at_consumed_at = None, at_created_at = now\<rparr>
       else find_token_row db h)" for h
    by (simp add: find_token_row_def db' find_append split: option.splits)
  show ?thesis using none t' by (auto simp: known_token_def open_token_def row fun_eq_iff)
qed

lemma revoke_contract:
  "known_token (snd (revoke_activation_tokens_in u now db)) = known_token db"
  "open_token (snd (revoke_activation_tokens_in u now db)) =
     (\<lambda>k. if open_token db k = Some u then None else open_token db k)"
  by (auto simp: revoke_activation_tokens_in_def Let_def known_token_def open_token_def
      find_token_row_update fun_eq_iff split: option.splits)

lemma mark_consumed_contract:
  "known_token (snd (mark_consumed hash now db)) = known_token db"
  "open_token (snd (mark_consumed hash now db)) = (open_token db)(hash := None)"
  by (auto simp: mark_consumed_def Let_def known_token_def open_token_def find_token_row_update
      fun_eq_iff dest: find_token_row_hash split: option.splits)

lemma consume_contract:
  assumes "consume_activation_token_in sha t now db = Inr (u, db')"
  shows "open_token db (sha t) = Some u \<and> open_token db' = (open_token db)(sha t := None) \<and>
         known_token db' = known_token db"
proof -
  have "open_token db (sha t) = Some u"
    using assms
    by (auto simp: consume_Inr find_token_def token_live_def open_token_def split: option.splits)
  then show ?thesis using assms by (auto simp: consume_Inr mark_consumed_contract)
qed

interpretation invites: single_use_tokens sha db_wf open_token known_token
  "issue_activation_token_in sha" revoke_activation_tokens_in "consume_activation_token_in sha"
  for sha
  by unfold_locales
    (auto simp: open_token_def known_token_def revoke_contract revoke_tokens_wf
      dest: issue_contract issue_token_wf consume_contract consume_wf split: option.splits)

definition sample_spent :: db where
  "sample_spent =
     sample_db\<lparr>activation_tokens := [\<lparr>at_id = lit ''i'', at_user_id = lit ''1'',
       at_token_hash = utf8_encode (lit ''k''), at_expires_at = 9, at_consumed_at = Some 5,
       at_created_at = 0\<rparr>]\<rparr>"

section \<open>Properties\<close>

text \<open>C5
  An invite works at most once: from any well-formed database, over every sequence of issuing,
  revoking and consuming, no token hash is accepted twice; and one already consumed or revoked is
  never accepted again, not even when the same random token is drawn a second time.
\<close>

theorem invite_accepted_once:
  assumes "db_wf db"
  shows "length (filter (\<lambda>t. sha t = h)
           (run_tokens (issue_activation_token_in sha) revoke_activation_tokens_in
              (consume_activation_token_in sha) evs db)) \<le> 1 \<and>
    (known_token db h \<and> open_token db h = None \<longrightarrow>
       h \<notin> sha ` set (run_tokens (issue_activation_token_in sha) revoke_activation_tokens_in
              (consume_activation_token_in sha) evs db))"
  using invites.accepted_once [OF assms] invites.spent_never_accepted [OF assms, of h sha evs]
  by (auto simp: invites.spent_def)

theorem invite_accepted_once_witness:
  "length (filter (\<lambda>t. utf8_encode t = utf8_encode (lit ''k''))
      (run_tokens (issue_activation_token_in utf8_encode) revoke_activation_tokens_in
         (consume_activation_token_in utf8_encode)
         [Issue (lit ''k'') (lit ''i'') (lit ''1'') 0, Consume (lit ''k'') 5, Consume (lit ''k'') 6]
         sample_db)) \<le> 1 \<and>
   utf8_encode (lit ''k'') \<notin> utf8_encode ` set
      (run_tokens (issue_activation_token_in utf8_encode) revoke_activation_tokens_in
         (consume_activation_token_in utf8_encode) [Consume (lit ''k'') 7] sample_spent)"
proof -
  have "db_wf sample_spent" "known_token sample_spent (utf8_encode (lit ''k'')) \<and>
      open_token sample_spent (utf8_encode (lit ''k'')) = None"
    by (simp_all add: sample_spent_def sample_db_def sample_user_def empty_db_def wf_defs
        known_token_def open_token_def find_token_row_def)
  with invite_accepted_once [OF this(1)] invite_accepted_once [OF sample_db_wf] show ?thesis by blast
qed

end
