(* ===== verification/Sessions.thy ===== *)
theory Sessions
  imports Accounts Utf8
begin

text \<open>
  Sessions, \<^verbatim>\<open>crates/spm-core/src/auth/sessions.rs\<close>. The store holds the hash of a token only; a
  token resolves to its user while the session is unexpired and the user active, and resolving
  extends the session at most once a day. Properties: what resolves, how long an idle session lives,
  and that a session in use never ends.
\<close>

definition SESSION_TTL_MS :: int where "SESSION_TTL_MS = 30 * 24 * 60 * 60 * 1000"
definition SESSION_SLIDE_MS :: int where "SESSION_SLIDE_MS = 24 * 60 * 60 * 1000"

record new_session =
  ns_token :: str
  ns_expires_at :: int

definition create_session_in ::
  "(str \<Rightarrow> bytes) \<Rightarrow> str \<Rightarrow> str \<Rightarrow> str option \<Rightarrow> int \<Rightarrow> db \<Rightarrow> (new_session \<times> db) result" where
  "create_session_in sha token uid user_agent now db =
     (let expires_at = now + SESSION_TTL_MS in
      bindE (insert_session
               \<lparr>ss_token_hash = sha token, ss_user_id = uid, ss_created_at = now,
                ss_last_seen_at = now, ss_expires_at = expires_at, ss_user_agent = user_agent\<rparr> db)
        (\<lambda>db'. Inr (\<lparr>ns_token = token, ns_expires_at = expires_at\<rparr>, db')))"

definition find_session :: "db \<Rightarrow> bytes \<Rightarrow> session_row option" where
  "find_session db hash = find (\<lambda>s. ss_token_hash s = hash) (sessions db)"

definition slide_session :: "bytes \<Rightarrow> int \<Rightarrow> db \<Rightarrow> db" where
  "slide_session hash now db =
     db\<lparr>sessions := update_where (\<lambda>s. ss_token_hash s = hash)
          (\<lambda>s. s\<lparr>ss_last_seen_at := now, ss_expires_at := now + SESSION_TTL_MS\<rparr>) (sessions db)\<rparr>"

definition resolve_session :: "(str \<Rightarrow> bytes) \<Rightarrow> str \<Rightarrow> int \<Rightarrow> db \<Rightarrow> ctx option \<times> db" where
  "resolve_session sha token now db =
     (let hash = sha token in
      case find_session db hash of
        None \<Rightarrow> (None, db)
      | Some s \<Rightarrow>
          (case find_user_by_id db (ss_user_id s) of
             None \<Rightarrow> (None, db)
           | Some u \<Rightarrow>
               if ss_expires_at s \<le> now \<or> u_status u \<noteq> Active then (None, db)
               else (Some \<lparr>ctx_user_id = u_id u, ctx_is_admin = u_is_admin u\<rparr>,
                     if now - ss_last_seen_at s > SESSION_SLIDE_MS then slide_session hash now db
                     else db)))"

definition delete_session :: "(str \<Rightarrow> bytes) \<Rightarrow> str \<Rightarrow> db \<Rightarrow> db" where
  "delete_session sha token db =
     db\<lparr>sessions := delete_where (\<lambda>s. ss_token_hash s = sha token) (sessions db)\<rparr>"

definition prune_expired_sessions :: "int \<Rightarrow> db \<Rightarrow> nat \<times> db" where
  "prune_expired_sessions now db =
     (count_where (\<lambda>s. ss_expires_at s \<le> now) (sessions db),
      db\<lparr>sessions := delete_where (\<lambda>s. ss_expires_at s \<le> now) (sessions db)\<rparr>)"

section \<open>Invariants\<close>

lemma create_session_wf [invariants]:
  "create_session_in sha token uid agent now db = Inr (s, db') \<Longrightarrow> db_wf db \<Longrightarrow> db_wf db'"
  by (auto simp: create_session_in_def Let_def result_iffs dest: insert_session_wf)

lemma slide_session_wf [invariants]: "db_wf db \<Longrightarrow> db_wf (slide_session hash now db)"
  unfolding slide_session_def by (rule update_sessions_wf) simp_all

lemma resolve_session_wf [invariants]: "db_wf db \<Longrightarrow> db_wf (snd (resolve_session sha token now db))"
  by (simp add: resolve_session_def Let_def slide_session_wf split: option.splits)

lemma delete_session_wf [invariants]: "db_wf db \<Longrightarrow> db_wf (delete_session sha token db)"
  unfolding delete_session_def by (rule delete_sessions_wf)

lemma prune_sessions_wf [invariants]: "db_wf db \<Longrightarrow> db_wf (snd (prune_expired_sessions now db))"
  unfolding prune_expired_sessions_def by (simp add: delete_sessions_wf)

text \<open>Every session's expiry is its last extension plus the time to live.\<close>

definition sessions_timed :: "db \<Rightarrow> bool" where
  "sessions_timed db \<longleftrightarrow> (\<forall>s \<in> set (sessions db). ss_expires_at s = ss_last_seen_at s + SESSION_TTL_MS)"

lemma create_session_timed:
  "create_session_in sha token uid agent now db = Inr (s, db') \<Longrightarrow> sessions_timed db \<Longrightarrow> sessions_timed db'"
  by (auto simp: create_session_in_def Let_def result_iffs insert_session_def sessions_timed_def
      split: if_splits)

lemma slide_session_timed: "sessions_timed db \<Longrightarrow> sessions_timed (slide_session hash now db)"
  by (auto simp: slide_session_def sessions_timed_def set_update_where)

lemma resolve_session_timed: "sessions_timed db \<Longrightarrow> sessions_timed (snd (resolve_session sha token now db))"
  by (simp add: resolve_session_def Let_def slide_session_timed split: option.splits)

lemma find_session_slide:
  "find_session (slide_session hash now db) h =
     map_option (\<lambda>s. if ss_token_hash s = hash
                     then s\<lparr>ss_last_seen_at := now, ss_expires_at := now + SESSION_TTL_MS\<rparr> else s)
       (find_session db h)"
  unfolding find_session_def slide_session_def by (simp add: find_update_where)

lemma slide_session_users [simp]: "users (slide_session hash now db) = users db"
  by (simp add: slide_session_def)

lemma find_user_slide [simp]: "find_user_by_id (slide_session hash now db) uid = find_user_by_id db uid"
  by (simp add: find_user_by_id_def)

section \<open>Runs of requests\<close>

text \<open>A client that presents its token at the given times.\<close>

fun poll :: "(str \<Rightarrow> bytes) \<Rightarrow> str \<Rightarrow> int list \<Rightarrow> db \<Rightarrow> ctx option list" where
  "poll sha token [] db = []"
| "poll sha token (t # ts) db =
     (let (r, db') = resolve_session sha token t db in r # poll sha token ts db')"

fun gaps_below :: "int \<Rightarrow> int \<Rightarrow> int list \<Rightarrow> bool" where
  "gaps_below limit t [] = True"
| "gaps_below limit t (u # us) \<longleftrightarrow> t \<le> u \<and> u - t < limit \<and> gaps_below limit u us"

text \<open>The session of \<open>token\<close> was in use at \<open>t\<close>: its last extension is at most the slide before it.\<close>

definition in_use :: "(str \<Rightarrow> bytes) \<Rightarrow> str \<Rightarrow> user_row \<Rightarrow> int \<Rightarrow> db \<Rightarrow> bool" where
  "in_use sha token u t db \<longleftrightarrow>
     (\<exists>s. find_session db (sha token) = Some s \<and> t - ss_last_seen_at s \<le> SESSION_SLIDE_MS \<and>
        ss_last_seen_at s \<le> t \<and> ss_expires_at s = ss_last_seen_at s + SESSION_TTL_MS \<and>
        find_user_by_id db (ss_user_id s) = Some u)"

lemma create_in_use:
  assumes "create_session_in sha token uid agent now db = Inr (s, db')"
    "find_user_by_id db uid = Some u"
  shows "in_use sha token u now db'"
proof -
  have "\<not> list_ex (\<lambda>r. ss_token_hash r = sha token) (sessions db)"
    using assms(1)
    by (auto simp: create_session_in_def Let_def result_iffs insert_session_def split: if_splits)
  then have none: "find (\<lambda>r. ss_token_hash r = sha token) (sessions db) = None"
    by (simp add: find_None_set list_ex_iff)
  have "db' = db\<lparr>sessions := sessions db @
      [\<lparr>ss_token_hash = sha token, ss_user_id = uid, ss_created_at = now, ss_last_seen_at = now,
        ss_expires_at = now + SESSION_TTL_MS, ss_user_agent = agent\<rparr>]\<rparr>"
    using assms(1)
    by (auto simp: create_session_in_def Let_def result_iffs insert_session_def split: if_splits)
  then show ?thesis
    using none assms(2)
    by (simp add: in_use_def find_session_def find_append find_user_by_id_def SESSION_SLIDE_MS_def)
qed

lemma resolve_in_use:
  assumes "in_use sha token u t db" "u_status u = Active" "t \<le> now" "now - t < SESSION_TTL_MS - SESSION_SLIDE_MS"
  shows "fst (resolve_session sha token now db) =
           Some \<lparr>ctx_user_id = u_id u, ctx_is_admin = u_is_admin u\<rparr> \<and>
         in_use sha token u now (snd (resolve_session sha token now db))"
proof -
  obtain s where s: "find_session db (sha token) = Some s" "t - ss_last_seen_at s \<le> SESSION_SLIDE_MS"
      "ss_last_seen_at s \<le> t" "ss_expires_at s = ss_last_seen_at s + SESSION_TTL_MS"
      "find_user_by_id db (ss_user_id s) = Some u"
    using assms(1) by (auto simp: in_use_def)
  have hash: "ss_token_hash s = sha token"
    using s(1) by (auto simp: find_session_def dest: find_Some_set)
  have live: "\<not> ss_expires_at s \<le> now" using s assms(3,4) by linarith
  have pos: "0 \<le> SESSION_SLIDE_MS" by (simp add: SESSION_SLIDE_MS_def)
  show ?thesis
  proof (cases "now - ss_last_seen_at s > SESSION_SLIDE_MS")
    case True
    then show ?thesis
      using s live hash assms(2) pos
      by (simp add: resolve_session_def in_use_def find_session_slide)
  next
    case False
    then show ?thesis
      using s live assms(2,3) by (auto simp: resolve_session_def in_use_def)
  qed
qed

text \<open>Every store the session operations, and any change that adds no session, can lead to.\<close>

inductive session_reachable :: "(str \<Rightarrow> bytes) \<Rightarrow> db \<Rightarrow> bool" for sha where
  start: "sessions db = [] \<Longrightarrow> session_reachable sha db"
| create: "session_reachable sha db \<Longrightarrow>
    create_session_in sha token uid agent now db = Inr (s, db') \<Longrightarrow> session_reachable sha db'"
| resolve: "session_reachable sha db \<Longrightarrow> resolve_session sha token now db = (c, db') \<Longrightarrow>
    session_reachable sha db'"
| delete: "session_reachable sha db \<Longrightarrow> session_reachable sha (delete_session sha token db)"
| prune: "session_reachable sha db \<Longrightarrow> prune_expired_sessions now db = (n, db') \<Longrightarrow>
    session_reachable sha db'"
| other: "session_reachable sha db \<Longrightarrow> set (sessions db') \<subseteq> set (sessions db) \<Longrightarrow>
    session_reachable sha db'"

lemma session_reachable_timed: "session_reachable sha db \<Longrightarrow> sessions_timed db"
proof (induction rule: session_reachable.induct)
  case (create db token uid agent now s db')
  then show ?case using create_session_timed by blast
next
  case (resolve db token now c db')
  then show ?case using resolve_session_timed [of db sha token now] by simp
qed (auto simp: sessions_timed_def delete_session_def prune_expired_sessions_def table_simps)

section \<open>Properties\<close>

text \<open>
  A signed-in client that keeps coming back is never signed out: from the moment the session is
  created, every request less than 29 days after the one before resolves to the active user, for as
  long as it goes on, although the expiry is written at most once a day.
\<close>

theorem session_kept_alive:
  assumes "create_session_in sha token uid agent now db = Inr (s, db')"
    "find_user_by_id db uid = Some u" "u_status u = Active"
    "gaps_below (29 * 24 * 60 * 60 * 1000) now ts"
  shows "poll sha token ts db' =
           replicate (length ts) (Some \<lparr>ctx_user_id = uid, ctx_is_admin = u_is_admin u\<rparr>)"
proof -
  have limit: "29 * 24 * 60 * 60 * 1000 = SESSION_TTL_MS - SESSION_SLIDE_MS"
    by (simp add: SESSION_TTL_MS_def SESSION_SLIDE_MS_def)
  have poll: "poll sha token ts d =
      replicate (length ts) (Some \<lparr>ctx_user_id = u_id u, ctx_is_admin = u_is_admin u\<rparr>)"
    if "in_use sha token u t d" "gaps_below (SESSION_TTL_MS - SESSION_SLIDE_MS) t ts" for t d
    using that
  proof (induction ts arbitrary: t d)
    case Nil
    then show ?case by simp
  next
    case (Cons a ts)
    note step = resolve_in_use [OF Cons.prems(1) assms(3), of a]
    have "poll sha token ts (snd (resolve_session sha token a d)) =
        replicate (length ts) (Some \<lparr>ctx_user_id = u_id u, ctx_is_admin = u_is_admin u\<rparr>)"
      using Cons.prems step by (intro Cons.IH [of a]) simp_all
    with step Cons.prems show ?case by (simp add: split_def)
  qed
  show ?thesis
    using poll [OF create_in_use [OF assms(1,2)]] assms(4) find_user_by_id_Some [OF assms(2)]
    unfolding limit by simp
qed

definition sample_signed_in :: db where
  "sample_signed_in =
     sample_db\<lparr>sessions := [\<lparr>ss_token_hash = utf8_encode (lit ''t''), ss_user_id = lit ''1'',
       ss_created_at = 0, ss_last_seen_at = 0, ss_expires_at = 0 + SESSION_TTL_MS,
       ss_user_agent = None\<rparr>]\<rparr>"

lemma sample_created:
  "create_session_in utf8_encode (lit ''t'') (lit ''1'') None 0 sample_db =
     Inr (\<lparr>ns_token = lit ''t'', ns_expires_at = 0 + SESSION_TTL_MS\<rparr>, sample_signed_in)"
  by (simp add: create_session_in_def insert_session_def sample_db_def empty_db_def has_user_def
      sample_user_def sample_signed_in_def)

theorem session_kept_alive_witness:
  "poll utf8_encode (lit ''t'') [1, 2000000000] sample_signed_in =
     replicate 2 (Some \<lparr>ctx_user_id = lit ''1'', ctx_is_admin = True\<rparr>)"
  using session_kept_alive [OF sample_created sample_db_user, of "[1, 2000000000]"]
  by (simp add: sample_user_def numeral_2_eq_2)

text \<open>C8
  Whatever the history of the store (sessions created, resolved, revoked, pruned, and any other
  change to the accounts), a token resolves only to a session whose hash it has, that was extended
  less than 30 days ago, and to its user as the users table has it now, who is active: an idle
  session dies, a disabled user is out at once, and a demoted one loses administrator rights.
\<close>

theorem session_resolves_only_live:
  assumes "session_reachable sha db" "resolve_session sha token now db = (Some c, db')"
  shows "\<exists>s \<in> set (sessions db). \<exists>u \<in> set (users db).
     ss_token_hash s = sha token \<and> now < ss_last_seen_at s + SESSION_TTL_MS \<and>
     u_id u = ss_user_id s \<and> u_status u = Active \<and>
     c = \<lparr>ctx_user_id = u_id u, ctx_is_admin = u_is_admin u\<rparr>"
proof -
  obtain s u where su: "find_session db (sha token) = Some s"
      "find_user_by_id db (ss_user_id s) = Some u" "\<not> ss_expires_at s \<le> now" "u_status u = Active"
      "c = \<lparr>ctx_user_id = u_id u, ctx_is_admin = u_is_admin u\<rparr>"
    using assms(2) by (auto simp: resolve_session_def Let_def split: option.splits if_splits)
  then have "s \<in> set (sessions db)" "ss_token_hash s = sha token"
    by (auto simp: find_session_def dest: find_Some_set)
  moreover have "ss_expires_at s = ss_last_seen_at s + SESSION_TTL_MS"
    using session_reachable_timed [OF assms(1)] \<open>s \<in> set (sessions db)\<close> by (simp add: sessions_timed_def)
  ultimately show ?thesis
    using su find_user_by_id_Some [OF su(2)] by force
qed

theorem session_resolves_only_live_witness:
  "\<exists>s \<in> set (sessions sample_signed_in). \<exists>u \<in> set (users sample_signed_in).
     ss_token_hash s = utf8_encode (lit ''t'') \<and> 1 < ss_last_seen_at s + SESSION_TTL_MS \<and>
     u_id u = ss_user_id s \<and> u_status u = Active \<and>
     \<lparr>ctx_user_id = lit ''1'', ctx_is_admin = True\<rparr> = \<lparr>ctx_user_id = u_id u, ctx_is_admin = u_is_admin u\<rparr>"
proof (rule session_resolves_only_live)
  have "session_reachable utf8_encode sample_db"
    by (rule session_reachable.start) (simp add: sample_db_def empty_db_def)
  then show "session_reachable utf8_encode sample_signed_in"
    using sample_created by (rule session_reachable.create)
  show "resolve_session utf8_encode (lit ''t'') 1 sample_signed_in =
      (Some \<lparr>ctx_user_id = lit ''1'', ctx_is_admin = True\<rparr>, sample_signed_in)"
    using sample_db_user
    by (simp add: resolve_session_def Let_def find_session_def sample_signed_in_def SESSION_TTL_MS_def
        SESSION_SLIDE_MS_def find_user_by_id_def) (simp add: sample_user_def)
qed

end
