(* ===== verification/Login.thy ===== *)
theory Login
  imports Activation Sessions Validate
begin

text \<open>
  Signing in and activating an account, \<^verbatim>\<open>crates/spm-core/src/auth/login.rs\<close>. Both use cases release
  the database lock while a password is derived; \<open>env\<close> is what other requests do to the database
  meanwhile. \<open>token\<close> and \<open>salt\<close> are the values drawn from the random source. Log lines are not
  modelled. Properties: when a login succeeds and what it leaves behind, and that activation either
  does everything or nothing; and the one door it leaves open when the account is disabled while the
  password is derived.
\<close>

record login_result =
  lr_user :: user_dto
  lr_token :: str
  lr_expires_at :: int

definition UNAUTHORIZED :: str where
  "UNAUTHORIZED = lit ''username or password is not correct''"

definition set_password :: "password_hash \<Rightarrow> user_row \<Rightarrow> user_row" where
  "set_password pw u =
     u\<lparr>u_pw_hash := Some (ph_hash pw), u_pw_salt := Some (ph_salt pw),
       u_pw_iterations := Some (ph_iterations pw), u_pw_algo := Some (ph_algo pw)\<rparr>"

definition write_password :: "str \<Rightarrow> password_hash \<Rightarrow> db \<Rightarrow> db" where
  "write_password uid pw db =
     db\<lparr>users := update_where (\<lambda>u. u_id u = uid) (set_password pw) (users db)\<rparr>"

definition login_at ::
  "(str \<Rightarrow> bytes) \<Rightarrow> kdf \<Rightarrow> (db \<Rightarrow> db) \<Rightarrow> str \<Rightarrow> bytes \<Rightarrow>
   str \<Rightarrow> str \<Rightarrow> str option \<Rightarrow> int \<Rightarrow> db \<Rightarrow> login_result result \<times> db" where
  "login_at sha kdf env token salt uname pw user_agent now db =
     (let row = find_user_by_username db uname;
          candidate = (case row of
                         None \<Rightarrow> None
                       | Some u \<Rightarrow> if u_status u = Active
                                  then map_option (\<lambda>stored. (u, stored)) (stored_password u) else None) in
      case candidate of
        None \<Rightarrow> (Inl (unauthorized UNAUTHORIZED), db)
      | Some (u, stored) \<Rightarrow>
          if \<not> verify_password kdf pw stored then (Inl (unauthorized UNAUTHORIZED), env db)
          else
            let upgraded = (if needs_rehash (ph_iterations stored) (ph_algo stored)
                            then Some (hash_password kdf pw salt) else None);
                db1 = env db;
                db2 = (case upgraded of None \<Rightarrow> db1 | Some p \<Rightarrow> write_password (u_id u) p db1) in
            case create_session_in sha token (u_id u) user_agent now db2 of
              Inl e \<Rightarrow> (Inl e, db2)
            | Inr (session, db3) \<Rightarrow>
                (bindE (user_dto_in db3 (u_id u)) (\<lambda>user.
                   Inr \<lparr>lr_user = user, lr_token = ns_token session,
                        lr_expires_at = ns_expires_at session\<rparr>), db3))"

definition set_activated :: "password_hash \<Rightarrow> int \<Rightarrow> user_row \<Rightarrow> user_row" where
  "set_activated pw now u =
     (set_password pw u)\<lparr>u_status := Active, u_activated_at := Some now\<rparr>"

text \<open>The checks under the first lock.\<close>

definition activation_refused :: "(str \<Rightarrow> bytes) \<Rightarrow> str \<Rightarrow> int \<Rightarrow> db \<Rightarrow> unit result" where
  "activation_refused sha invite now db =
     (let check = check_activation_token_in sha invite now db in
      case (if ac_valid check then ac_user_id check else None) of
        Some uid \<Rightarrow>
          bindE (require_user_row db uid) (\<lambda>u.
            if u_status u = Disabled then Inl not_usable else Inr ())
      | None \<Rightarrow> Inl (explain_unusable_token_in sha invite now db))"

text \<open>The transaction under the second.\<close>

definition activation_tx ::
  "(str \<Rightarrow> bytes) \<Rightarrow> str \<Rightarrow> str \<Rightarrow> password_hash \<Rightarrow> str option \<Rightarrow> int \<Rightarrow> db \<Rightarrow>
   app_error + login_result \<times> db" where
  "activation_tx sha token invite pw user_agent now db =
     bindE (consume_activation_token_in sha invite now db) (\<lambda>(uid, db1).
     let db2 = db1\<lparr>users := update_where (\<lambda>u. u_id u = uid) (set_activated pw now) (users db1)\<rparr> in
     bindE (create_session_in sha token uid user_agent now db2) (\<lambda>(session, db3).
     bindE (user_dto_in db3 uid) (\<lambda>user.
       Inr (\<lparr>lr_user = user, lr_token = ns_token session, lr_expires_at = ns_expires_at session\<rparr>,
            db3))))"

definition activate_account_at ::
  "(str \<Rightarrow> bytes) \<Rightarrow> kdf \<Rightarrow> (db \<Rightarrow> db) \<Rightarrow> str \<Rightarrow> bytes \<Rightarrow>
   str \<Rightarrow> str \<Rightarrow> str option \<Rightarrow> int \<Rightarrow> db \<Rightarrow> login_result result \<times> db" where
  "activate_account_at sha kdf env token salt invite new_password user_agent now db =
     (case password new_password of
        Inl message \<Rightarrow> (Inl (validation message), db)
      | Inr _ \<Rightarrow>
          (case activation_refused sha invite now db of
             Inl e \<Rightarrow> (Inl e, db)
           | Inr _ \<Rightarrow>
               in_tx (activation_tx sha token invite (hash_password kdf new_password salt) user_agent now)
                 (env db)))"

section \<open>Invariants\<close>

lemma write_password_wf [invariants]: "db_wf db \<Longrightarrow> db_wf (write_password uid pw db)"
  unfolding write_password_def by (rule update_users_wf) (simp_all add: set_password_def)

lemma login_wf [invariants]:
  assumes "db_wf db" "\<And>d. db_wf d \<Longrightarrow> db_wf (env d)"
  shows "db_wf (snd (login_at sha kdf env token salt uname pw agent now db))"
proof -
  have "db_wf (env db)" using assms by simp
  moreover from this have "db_wf (write_password uid p (env db))" for uid p by (rule write_password_wf)
  ultimately show ?thesis
    using assms(1) create_session_wf
    by (auto simp: login_at_def Let_def split: option.splits sum.splits prod.splits)
qed

lemma activation_tx_wf:
  assumes "activation_tx sha token invite pw agent now db = Inr (r, db')" "db_wf db"
  shows "db_wf db'"
proof -
  obtain uid db1 s where c: "consume_activation_token_in sha invite now db = Inr (uid, db1)"
      and n: "create_session_in sha token uid agent now
        (db1\<lparr>users := update_where (\<lambda>u. u_id u = uid) (set_activated pw now) (users db1)\<rparr>) = Inr (s, db')"
    using assms(1) by (auto simp: activation_tx_def Let_def result_iffs split: prod.splits)
  have "db_wf (db1\<lparr>users := update_where (\<lambda>u. u_id u = uid) (set_activated pw now) (users db1)\<rparr>)"
    using consume_wf [OF c assms(2)]
    by (rule update_users_wf) (simp_all add: set_activated_def set_password_def)
  with n show ?thesis by (rule create_session_wf)
qed

lemma activate_wf [invariants]:
  assumes "db_wf db" "\<And>d. db_wf d \<Longrightarrow> db_wf (env d)"
  shows "db_wf (snd (activate_account_at sha kdf env token salt invite pw agent now db))"
  using assms activation_tx_wf
  by (auto simp: activate_account_at_def in_tx_def split: sum.splits)

section \<open>Logging in\<close>

lemma find_user_write_password:
  "find_user_by_id (write_password uid pw db) i =
     map_option (\<lambda>u. if u_id u = uid then set_password pw u else u) (find_user_by_id db i)"
  unfolding write_password_def by (rule find_user_by_id_update) (simp add: set_password_def)

lemma create_session_frame:
  "create_session_in sha token uid agent now db = Inr (s, db') \<Longrightarrow>
     users db' = users db \<and> projects db' = projects db \<and> files db' = files db \<and>
     activation_tokens db' = activation_tokens db \<and> ns_token s = token \<and>
     ns_expires_at s = now + SESSION_TTL_MS"
  by (auto simp: create_session_in_def Let_def result_iffs insert_session_def split: if_splits)

lemma create_session_Inr:
  "find_session db (sha token) = None \<Longrightarrow> has_user uid db \<Longrightarrow>
     \<exists>s db'. create_session_in sha token uid agent now db = Inr (s, db')"
  by (auto simp: create_session_in_def Let_def insert_session_def find_session_def find_None_set
      list_ex_iff)

lemma stored_set_password:
  "ph_iterations pw \<noteq> 0 \<Longrightarrow> stored_password (set_password pw u) = Some pw"
  by (simp add: stored_password_def set_password_def)

lemma stored_hash: "stored_password (set_password (hash_password kdf pw salt) u) = Some (hash_password kdf pw salt)"
  by (rule stored_set_password)
    (simp add: hash_password_def hash_password_with_def PW_ITERATIONS_def)

text \<open>The account a name and a password open.\<close>

definition password_opens :: "kdf \<Rightarrow> db \<Rightarrow> str \<Rightarrow> str \<Rightarrow> user_row option" where
  "password_opens kdf db uname pw =
     (case find_user_by_username db uname of
        None \<Rightarrow> None
      | Some u \<Rightarrow>
          (case stored_password u of
             None \<Rightarrow> None
           | Some stored \<Rightarrow>
               if u_status u = Active \<and> verify_password kdf pw stored then Some u else None))"

text \<open>C7
  A login with nobody else at the database succeeds exactly when the name, compared without case,
  is an active account's and the password is its password; every other attempt gets one and the
  same error and changes nothing. A success returns a token that resolves to that account at once,
  and leaves the account with a stored hash at today's parameters that the same password opens.
\<close>

theorem login_spec:
  assumes "db_wf db" "find_session db (sha token) = None"
  shows "case password_opens kdf db uname pw of
       None \<Rightarrow> login_at sha kdf (\<lambda>d. d) token salt uname pw agent now db =
                 (Inl (unauthorized UNAUTHORIZED), db)
     | Some u \<Rightarrow> \<exists>r db'. login_at sha kdf (\<lambda>d. d) token salt uname pw agent now db = (Inr r, db') \<and>
           db_wf db' \<and> lr_token r = token \<and>
           fst (resolve_session sha token now db') =
             Some \<lparr>ctx_user_id = u_id u, ctx_is_admin = u_is_admin u\<rparr> \<and>
           (\<exists>u' stored. find_user_by_id db' (u_id u) = Some u' \<and> stored_password u' = Some stored \<and>
              verify_password kdf pw stored \<and>
              \<not> needs_rehash (ph_iterations stored) (ph_algo stored))"
proof (cases "password_opens kdf db uname pw")
  case None
  then show ?thesis
    by (auto simp: password_opens_def login_at_def Let_def split: option.splits if_splits)
next
  case (Some u)
  then obtain stored where u: "find_user_by_username db uname = Some u"
      and st: "stored_password u = Some stored" "u_status u = Active" "verify_password kdf pw stored"
    by (auto simp: password_opens_def split: option.splits if_splits)
  have by_id: "find_user_by_id db (u_id u) = Some u"
    using u assms(1) find_user_by_id_unique by (auto simp: find_user_by_username_def dest: find_Some_set)
  define stale where "stale = needs_rehash (ph_iterations stored) (ph_algo stored)"
  define db2 where "db2 = (if stale then write_password (u_id u) (hash_password kdf pw salt) db else db)"
  define u2 where "u2 = (if stale then set_password (hash_password kdf pw salt) u else u)"
  have u2: "find_user_by_id db2 (u_id u) = Some u2" "u_id u2 = u_id u" "u_status u2 = Active"
      "u_is_admin u2 = u_is_admin u"
    using by_id st(2) by (simp_all add: db2_def u2_def find_user_write_password set_password_def)
  have "find_session db2 (sha token) = None"
    using assms(2) by (simp add: db2_def write_password_def find_session_def)
  moreover have "has_user (u_id u) db2"
    using u2(1) by (auto simp: has_user_def list_ex_iff dest: find_user_by_id_Some)
  ultimately obtain s db3 where s: "create_session_in sha token (u_id u) agent now db2 = Inr (s, db3)"
    using create_session_Inr by blast
  note fr = create_session_frame [OF s]
  have u3: "find_user_by_id db3 (u_id u) = Some u2" using u2(1) fr by (simp add: find_user_by_id_def)
  obtain dto where dto: "user_dto_in db3 (u_id u) = Inr dto"
    using u3 by (simp add: user_dto_in_def require_user_row_def)
  define r where "r = \<lparr>lr_user = dto, lr_token = token, lr_expires_at = now + SESSION_TTL_MS\<rparr>"
  have run: "login_at sha kdf (\<lambda>d. d) token salt uname pw agent now db = (Inr r, db3)"
    using u st s dto fr by (auto simp: login_at_def Let_def db2_def stale_def r_def)
  have wf: "db_wf db3"
    using login_wf [OF assms(1), of "\<lambda>d. d" sha kdf token salt uname pw agent now] run by simp
  have res: "fst (resolve_session sha token now db3) =
      Some \<lparr>ctx_user_id = u_id u, ctx_is_admin = u_is_admin u\<rparr>"
    using resolve_in_use [OF create_in_use [OF s u2(1)] u2(3)] u2
    by (simp add: SESSION_TTL_MS_def SESSION_SLIDE_MS_def)
  have pw: "\<exists>stored. stored_password u2 = Some stored \<and> verify_password kdf pw stored \<and>
      \<not> needs_rehash (ph_iterations stored) (ph_algo stored)"
    using st by (auto simp: u2_def stale_def stored_hash verify_hash_password fresh_hash_not_stale)
  show ?thesis using Some run wf res pw u3 by (auto simp: r_def)
qed

lemma sample_password:
  "password_opens (\<lambda>pw salt n. [1]) sample_db (lit ''ANN'') (lit ''secret'') = Some sample_user"
  by (simp add: password_opens_def find_user_by_username_def sample_db_def sample_user_def
      nocase_eq_def to_ascii_lowercase_def lit_def stored_password_def verify_password_def
      timing_safe_equal_iff)

theorem login_spec_witness:
  "\<exists>r db'. login_at utf8_encode (\<lambda>pw salt n. [1]) (\<lambda>d. d) (lit ''t'') [2] (lit ''ANN'') (lit ''secret'')
      None 0 sample_db = (Inr r, db') \<and>
     fst (resolve_session utf8_encode (lit ''t'') 0 db') =
       Some \<lparr>ctx_user_id = lit ''1'', ctx_is_admin = True\<rparr>"
proof -
  have "find_session sample_db (utf8_encode (lit ''t'')) = None"
    by (simp add: find_session_def sample_db_def empty_db_def)
  from login_spec [where kdf = "\<lambda>pw salt n. [1]" and uname = "lit ''ANN''" and pw = "lit ''secret''"
      and now = 0 and agent = None and salt = "[2]" and sha = utf8_encode and token = "lit ''t''",
      OF sample_db_wf this]
  show ?thesis by (auto simp: sample_password) (auto simp: sample_user_def)
qed

section \<open>Activating\<close>

lemma find_user_set_activated:
  "find_user_by_id (db\<lparr>users := update_where (\<lambda>u. u_id u = uid) (set_activated pw now) (users db)\<rparr>) i =
     map_option (\<lambda>u. if u_id u = uid then set_activated pw now u else u) (find_user_by_id db i)"
  by (rule find_user_by_id_update) (simp add: set_activated_def set_password_def)

lemma consume_frame:
  "consume_activation_token_in sha invite now db = Inr (uid, db') \<Longrightarrow>
     users db' = users db \<and> sessions db' = sessions db \<and> (\<exists>u. find_user_by_id db uid = Some u)"
  by (auto simp: consume_Inr mark_consumed_def Let_def find_token_def split: option.splits)

lemma open_token_cong: "activation_tokens db' = activation_tokens db \<Longrightarrow> open_token db' = open_token db"
  by (auto simp: open_token_def find_token_row_def fun_eq_iff)

lemma activation_tx_Inr:
  assumes "activation_tx sha token invite (hash_password kdf pw salt) agent now db = Inr (r, db')"
  shows "\<exists>uid u u'. open_token db (sha invite) = Some uid \<and>
     open_token db' = (open_token db)(sha invite := None) \<and>
     find_user_by_id db uid = Some u \<and> find_user_by_id db' uid = Some u' \<and>
     u' = set_activated (hash_password kdf pw salt) now u \<and> lr_token r = token \<and>
     fst (resolve_session sha token now db') =
       Some \<lparr>ctx_user_id = uid, ctx_is_admin = u_is_admin u\<rparr>"
proof -
  obtain uid db1 s dto where
      c: "consume_activation_token_in sha invite now db = Inr (uid, db1)"
    and n: "create_session_in sha token uid agent now
        (db1\<lparr>users := update_where (\<lambda>u. u_id u = uid) (set_activated (hash_password kdf pw salt) now)
           (users db1)\<rparr>) = Inr (s, db')"
    and r: "lr_token r = ns_token s"
    using assms by (auto simp: activation_tx_def Let_def result_iffs split: prod.splits)
  note fr = create_session_frame [OF n] and cf = consume_frame [OF c] and ct = consume_contract [OF c]
  obtain u where u: "find_user_by_id db uid = Some u" using cf by blast
  define u' where "u' = set_activated (hash_password kdf pw salt) now u"
  have uid: "u_id u = uid" using find_user_by_id_Some [OF u] by simp
  have "find_user_by_id db1 uid = Some u" using u cf by (simp add: find_user_by_id_def)
  then have u1: "find_user_by_id
      (db1\<lparr>users := update_where (\<lambda>u. u_id u = uid) (set_activated (hash_password kdf pw salt) now)
           (users db1)\<rparr>) uid = Some u'"
    using uid by (simp add: find_user_set_activated u'_def)
  have "fst (resolve_session sha token now db') =
      Some \<lparr>ctx_user_id = u_id u', ctx_is_admin = u_is_admin u'\<rparr>"
    using resolve_in_use [OF create_in_use [OF n u1]]
    by (simp add: SESSION_TTL_MS_def SESSION_SLIDE_MS_def u'_def set_activated_def)
  moreover have "find_user_by_id db' uid = Some u'" using u1 fr by (simp add: find_user_by_id_def)
  moreover have "open_token db' = open_token db1"
    using fr by (intro open_token_cong) simp
  ultimately show ?thesis
    using u uid ct fr r by (auto simp: u'_def set_activated_def set_password_def)
qed

text \<open>
  Activation does everything or nothing, whatever other requests do while the password is derived:
  a refusal leaves the database as those requests left it; a success burns the invite and no other,
  makes its account active with a stored hash the new password opens, and returns a token that
  resolves to that account.
\<close>

theorem activate_all_or_nothing:
  "case activate_account_at sha kdf env token salt invite pw agent now db of
     (Inl e, db') \<Rightarrow> db' \<in> {db, env db}
   | (Inr r, db') \<Rightarrow> \<exists>uid u' stored.
       open_token (env db) (sha invite) = Some uid \<and>
       open_token db' = (open_token (env db))(sha invite := None) \<and>
       find_user_by_id db' uid = Some u' \<and> u_status u' = Active \<and>
       stored_password u' = Some stored \<and> verify_password kdf pw stored \<and>
       lr_token r = token \<and> u_id u' = uid \<and>
       fst (resolve_session sha token now db') =
         Some \<lparr>ctx_user_id = uid, ctx_is_admin = u_is_admin u'\<rparr>"
proof -
  have stored: "stored_password (set_activated (hash_password kdf pw salt) now u) =
      Some (hash_password kdf pw salt)" for u
    by (simp add: set_activated_def stored_password_def set_password_def hash_password_def
        hash_password_with_def PW_ITERATIONS_def)
  have active: "u_status (set_activated p now u) = Active" "u_is_admin (set_activated p now u) = u_is_admin u"
      for p u
    by (simp_all add: set_activated_def set_password_def)
  show ?thesis
  proof (cases "activation_tx sha token invite (hash_password kdf pw salt) agent now (env db)")
    case (Inl e)
    then show ?thesis by (simp add: activate_account_at_def in_tx_def split: sum.splits)
  next
    case (Inr x)
    obtain r db' where x: "x = (r, db')" by (cases x)
    from activation_tx_Inr [OF Inr [unfolded x]] obtain uid u where u:
        "open_token (env db) (sha invite) = Some uid"
        "open_token db' = (open_token (env db))(sha invite := None)"
        "find_user_by_id db' uid = Some (set_activated (hash_password kdf pw salt) now u)"
        "lr_token r = token"
        "fst (resolve_session sha token now db') =
           Some \<lparr>ctx_user_id = uid, ctx_is_admin = u_is_admin u\<rparr>"
      by blast
    have "u_id (set_activated (hash_password kdf pw salt) now u) = uid"
      using find_user_by_id_Some [OF u(3)] by simp
    with u have "\<exists>uid u' stored.
       open_token (env db) (sha invite) = Some uid \<and>
       open_token db' = (open_token (env db))(sha invite := None) \<and>
       find_user_by_id db' uid = Some u' \<and> u_status u' = Active \<and>
       stored_password u' = Some stored \<and> verify_password kdf pw stored \<and>
       lr_token r = token \<and> u_id u' = uid \<and>
       fst (resolve_session sha token now db') =
         Some \<lparr>ctx_user_id = uid, ctx_is_admin = u_is_admin u'\<rparr>"
      by (intro exI [of _ uid] exI [of _ "set_activated (hash_password kdf pw salt) now u"]
          exI [of _ "hash_password kdf pw salt"]) (simp add: stored active verify_hash_password)
    with Inr x show ?thesis by (simp add: activate_account_at_def in_tx_def split: sum.splits)
  qed
qed

section \<open>The door left open\<close>

definition disable_all :: "db \<Rightarrow> db" where
  "disable_all db = db\<lparr>users := map (\<lambda>u. u\<lparr>u_status := Disabled\<rparr>) (users db)\<rparr>"

definition sample_invited :: db where
  "sample_invited =
     empty_db\<lparr>users := [sample_user\<lparr>u_status := Pending, u_pw_hash := None\<rparr>],
       activation_tokens := [\<lparr>at_id = lit ''i'', at_user_id = lit ''1'',
         at_token_hash = utf8_encode (lit ''k''), at_expires_at = 9, at_consumed_at = None,
         at_created_at = 0\<rparr>]\<rparr>"

text \<open>
  The check that an activation must never resurrect a disabled account is made before the password
  is derived and not repeated: an account disabled before the request is refused, and the same
  account disabled while the password is derived is made active again.
\<close>

theorem disabled_while_deriving:
  "fst (activate_account_at utf8_encode (\<lambda>pw salt n. [1]) (\<lambda>d. d) (lit ''t'') [2] (lit ''k'')
      (lit ''long enough password'') None 5 (disable_all sample_invited)) = Inl not_usable \<and>
   map u_status (users (snd (activate_account_at utf8_encode (\<lambda>pw salt n. [1]) disable_all (lit ''t'') [2]
      (lit ''k'') (lit ''long enough password'') None 5 sample_invited))) = [Active]"
proof -
  have pw: "password (lit ''long enough password'') = Inr ()"
    by (simp add: password_def length_between_def js_len_def utf16_len_def lit_def)
  note defs = activate_account_at_def activation_refused_def check_activation_token_in_def find_token_def
    find_token_row_def token_live_def sample_invited_def disable_all_def find_user_by_id_def
    require_user_row_def sample_user_def empty_db_def
  have "fst (activate_account_at utf8_encode (\<lambda>pw salt n. [1]) (\<lambda>d. d) (lit ''t'') [2] (lit ''k'')
      (lit ''long enough password'') None 5 (disable_all sample_invited)) = Inl not_usable"
    by (simp add: defs pw Let_def)
  moreover have "map u_status (users (snd (activate_account_at utf8_encode (\<lambda>pw salt n. [1]) disable_all
      (lit ''t'') [2] (lit ''k'') (lit ''long enough password'') None 5 sample_invited))) = [Active]"
    by (simp add: defs pw Let_def in_tx_def activation_tx_def consume_activation_token_in_def
        mark_consumed_def count_where_def update_where_def set_activated_def set_password_def
        create_session_in_def insert_session_def has_user_def user_dto_in_def)
  ultimately show ?thesis by blast
qed

end
