(* ===== verification/Paths.thy ===== *)
theory Paths
  imports Validate Fs_Io
begin

text \<open>
  Where things live on disk, \<^verbatim>\<open>crates/spm-core/src/files/paths.rs\<close>. A path is the list of components
  \<^verbatim>\<open>Path::components\<close> yields; \<open>path_push\<close> is \<^verbatim>\<open>PathBuf::push\<close> on both platforms the program runs on
  (on Windows a pushed drive prefix replaces the whole path). Properties: \<open>safe_join\<close> answers exactly
  the segments its comment describes and never leaves the base, on either platform.
\<close>

section \<open>Paths of the standard library\<close>

datatype platform = Unix | Windows

datatype path_component = Prefix str | RootDir | CurDir | ParentDir | Normal str

type_synonym path = "path_component list"

definition is_separator :: "platform \<Rightarrow> nat \<Rightarrow> bool" where
  "is_separator pl c \<longleftrightarrow> c = 47 \<or> (pl = Windows \<and> c = 92)"

definition is_ascii_alphabetic :: "nat \<Rightarrow> bool" where
  "is_ascii_alphabetic c \<longleftrightarrow> (65 \<le> c \<and> c \<le> 90) \<or> (97 \<le> c \<and> c \<le> 122)"

definition has_drive :: "str \<Rightarrow> bool" where
  "has_drive s = (case s of letter # c # _ \<Rightarrow> c = 58 \<and> is_ascii_alphabetic letter | _ \<Rightarrow> False)"

text \<open>
  \<^verbatim>\<open>Path::new(s).components()\<close>: empty parts vanish, and a \<open>.\<close> counts only at the very start. Of the
  Windows prefixes only the drive is read; the others begin with two separators.
\<close>

definition part_component :: "str \<Rightarrow> path" where
  "part_component part =
     (if part = [] \<or> part = lit ''.'' then []
      else if part = lit ''..'' then [ParentDir] else [Normal part])"

definition relative_components :: "platform \<Rightarrow> str \<Rightarrow> path" where
  "relative_components pl s =
     (let parts = split_on (is_separator pl) s in
      (if s \<noteq> [] \<and> hd parts = lit ''.'' then [CurDir] else []) @ concat (map part_component parts))"

definition rooted_components :: "platform \<Rightarrow> str \<Rightarrow> path" where
  "rooted_components pl s =
     (if s \<noteq> [] \<and> is_separator pl (hd s)
      then RootDir # concat (map part_component (split_on (is_separator pl) s))
      else relative_components pl s)"

definition components :: "platform \<Rightarrow> str \<Rightarrow> path" where
  "components pl s =
     (if pl = Windows \<and> has_drive s then Prefix (take 2 s) # rooted_components pl (drop 2 s)
      else rooted_components pl s)"

definition is_prefix :: "path_component \<Rightarrow> bool" where
  "is_prefix c = (case c of Prefix _ \<Rightarrow> True | _ \<Rightarrow> False)"

definition path_push :: "path \<Rightarrow> path \<Rightarrow> path" where
  "path_push p q =
     (case q of
        Prefix d # _ \<Rightarrow> q
      | RootDir # _ \<Rightarrow> takeWhile is_prefix p @ q
      | _ \<Rightarrow> p @ filter (\<lambda>c. c \<noteq> CurDir) q)"

definition path_starts_with :: "path \<Rightarrow> path \<Rightarrow> bool" where
  "path_starts_with p base \<longleftrightarrow> take (length base) p = base"

text \<open>\<^verbatim>\<open>std::path::absolute\<close> in the working directory \<open>cwd\<close>.\<close>

definition path_absolute :: "path \<Rightarrow> path \<Rightarrow> io_error + path" where
  "path_absolute cwd p =
     (if p = [] then Inl (Other_Io (lit ''cannot make an empty path absolute''))
      else if is_prefix (hd p) \<or> hd p = RootDir then Inr p
      else Inr (path_push cwd p))"

section \<open>The join every user-supplied path goes through\<close>

definition illegal :: "str \<Rightarrow> app_error" where
  "illegal segment = forbidden (lit ''illegal path segment: '' @ segment)"

definition is_slash :: "nat \<Rightarrow> bool" where
  "is_slash c \<longleftrightarrow> c = 47 \<or> c = 92"

definition segment_parts :: "str \<Rightarrow> str list" where
  "segment_parts segment = split_on is_slash segment"

definition illegal_segment :: "platform \<Rightarrow> str \<Rightarrow> bool" where
  "illegal_segment pl segment =
     (let rooted = RootDir \<in> set (components pl segment) \<or> (segment \<noteq> [] \<and> is_slash (hd segment));
          traversal = list_ex (\<lambda>part. part = lit ''..'') (segment_parts segment);
          has_prefix = has_drive segment \<or> list_ex is_prefix (components pl segment) in
      segment = [] \<or> rooted \<or> traversal \<or> has_prefix)"

definition joined_parts :: "str \<Rightarrow> str list" where
  "joined_parts segment = filter (\<lambda>part. part \<noteq> [] \<and> part \<noteq> lit ''.'') (segment_parts segment)"

fun check_segments :: "platform \<Rightarrow> str list \<Rightarrow> unit result" where
  "check_segments pl [] = Inr ()"
| "check_segments pl (segment # rest) =
     (if illegal_segment pl segment then Inl (illegal segment) else check_segments pl rest)"

definition extend :: "platform \<Rightarrow> path \<Rightarrow> str list \<Rightarrow> path" where
  "extend pl p parts = foldl (\<lambda>p part. path_push p (components pl part)) p parts"

definition safe_join :: "platform \<Rightarrow> path \<Rightarrow> path \<Rightarrow> str list \<Rightarrow> path result" where
  "safe_join pl cwd base segments =
     bindE (check_segments pl segments) (\<lambda>_.
     case path_absolute cwd base of
       Inl e \<Rightarrow> Inl (app_error_of_io e)
     | Inr root \<Rightarrow>
         let target = foldl (\<lambda>p segment. extend pl p (joined_parts segment)) root segments in
         if \<not> path_starts_with target root then Inl (forbidden (lit ''path escapes the library''))
         else Inr target)"

definition user_root :: "platform \<Rightarrow> path \<Rightarrow> path \<Rightarrow> str \<Rightarrow> path result" where
  "user_root pl cwd lib_dir library_dir =
     (if library_dir = lit ''.'' then Inr lib_dir else safe_join pl cwd lib_dir [library_dir])"

definition project_dir :: "platform \<Rightarrow> path \<Rightarrow> path \<Rightarrow> str \<Rightarrow> str \<Rightarrow> path result" where
  "project_dir pl cwd lib_dir library_dir dir_name =
     bindE (user_root pl cwd lib_dir library_dir) (\<lambda>root. safe_join pl cwd root [dir_name])"

definition SPM_DIR :: str where "SPM_DIR = lit ''.spm''"
definition PREVIEWS_DIR :: str where "PREVIEWS_DIR = lit ''previews''"

definition preview_path :: "platform \<Rightarrow> path \<Rightarrow> str \<Rightarrow> path" where
  "preview_path pl lib_dir file_id =
     path_push (path_push (path_push lib_dir (components pl SPM_DIR)) (components pl PREVIEWS_DIR))
       (components pl (file_id @ lit ''.png''))"

section \<open>Joining plain parts\<close>

text \<open>A part that names one directory entry: what \<open>joined_parts\<close> leaves of a legal segment.\<close>

definition plain_part :: "str \<Rightarrow> bool" where
  "plain_part part \<longleftrightarrow>
     part \<noteq> [] \<and> part \<noteq> lit ''.'' \<and> part \<noteq> lit ''..'' \<and> (\<forall>c \<in> set part. \<not> is_slash c)"

definition drives_ok :: "platform \<Rightarrow> str list \<Rightarrow> bool" where
  "drives_ok pl parts \<longleftrightarrow> pl = Windows \<longrightarrow> (\<forall>part \<in> set parts. \<not> has_drive part)"

lemma not_separator: "\<not> is_slash c \<Longrightarrow> \<not> is_separator pl c"
  by (auto simp: is_slash_def is_separator_def)

lemma components_plain:
  assumes "plain_part part" "pl = Windows \<longrightarrow> \<not> has_drive part"
  shows "components pl part = [Normal part]"
proof -
  have no: "\<forall>c \<in> set part. \<not> is_separator pl c"
    using assms(1) not_separator by (auto simp: plain_part_def)
  then have "split_on (is_separator pl) part = [part]" by (rule split_on_none)
  moreover have "\<not> is_separator pl (hd part)"
    using assms(1) no by (cases part) (auto simp: plain_part_def)
  ultimately show ?thesis
    using assms
    by (simp add: components_def rooted_components_def relative_components_def part_component_def
        plain_part_def)
qed

lemma path_push_Normal [simp]: "path_push p [Normal n] = p @ [Normal n]"
  by (simp add: path_push_def)

lemma extend_plain:
  "\<forall>part \<in> set parts. plain_part part \<Longrightarrow> drives_ok pl parts \<Longrightarrow>
     extend pl p parts = p @ map Normal parts"
proof (induction parts arbitrary: p)
  case Nil
  then show ?case by (simp add: extend_def)
next
  case (Cons part parts)
  have one: "components pl part = [Normal part]"
    using Cons.prems by (intro components_plain) (auto simp: drives_ok_def)
  have rest: "extend pl q parts = q @ map Normal parts" for q
    using Cons.prems by (intro Cons.IH) (auto simp: drives_ok_def)
  have "extend pl p (part # parts) = extend pl (p @ [Normal part]) parts"
    by (simp add: extend_def one)
  then show ?case by (simp add: rest)
qed

lemma joined_parts_plain:
  assumes "\<not> illegal_segment pl segment" "part \<in> set (joined_parts segment)"
  shows "plain_part part"
proof -
  have mem: "part \<in> set (split_on is_slash segment)" "part \<noteq> []" "part \<noteq> lit ''.''"
    using assms(2) by (auto simp: joined_parts_def segment_parts_def)
  have "part \<noteq> lit ''..''"
    using assms(1) mem(1)
    by (auto simp: illegal_segment_def Let_def segment_parts_def list_ex_iff)
  with mem show ?thesis by (auto simp: plain_part_def dest: split_on_parts)
qed

section \<open>The verdict does not depend on the platform\<close>

definition illegal_text :: "str \<Rightarrow> bool" where
  "illegal_text segment \<longleftrightarrow>
     segment = [] \<or> is_slash (hd segment) \<or> lit ''..'' \<in> set (segment_parts segment) \<or>
     has_drive segment"

lemma part_component_plain: "c \<in> set (part_component part) \<Longrightarrow> c \<noteq> RootDir \<and> \<not> is_prefix c"
  by (auto simp: part_component_def is_prefix_def split: if_splits)

lemma relative_components_plain:
  "c \<in> set (relative_components pl s) \<Longrightarrow> c \<noteq> RootDir \<and> \<not> is_prefix c"
  using part_component_plain
  by (fastforce simp: relative_components_def Let_def is_prefix_def split: if_splits)

lemma illegal_segment_text: "illegal_segment pl segment \<longleftrightarrow> illegal_text segment"
proof (cases "segment = [] \<or> is_slash (hd segment) \<or> has_drive segment")
  case True
  then show ?thesis by (auto simp: illegal_segment_def illegal_text_def Let_def)
next
  case False
  then have "components pl segment = relative_components pl segment"
    using not_separator by (auto simp: components_def rooted_components_def)
  with False show ?thesis
    using relative_components_plain [of _ pl segment]
    by (auto simp: illegal_segment_def illegal_text_def Let_def list_ex_iff)
qed

lemma check_segments_find:
  "check_segments pl segments =
     (case find illegal_text segments of None \<Rightarrow> Inr () | Some s \<Rightarrow> Inl (illegal s))"
  by (induction segments) (simp_all add: illegal_segment_text)

section \<open>A drive inside a segment\<close>

definition absolute_path :: "path \<Rightarrow> bool" where
  "absolute_path p \<longleftrightarrow>
     (case p of
        RootDir # _ \<Rightarrow> True
      | Prefix _ # RootDir # _ \<Rightarrow> True
      | _ \<Rightarrow> False)"

text \<open>The path a pushed drive part leaves: it has a prefix and no root, and keeps neither base.\<close>

definition drive_relative :: "path \<Rightarrow> bool" where
  "drive_relative p \<longleftrightarrow> p \<noteq> [] \<and> is_prefix (hd p) \<and> RootDir \<notin> set p"

lemma path_absolute_id: "absolute_path p \<Longrightarrow> path_absolute cwd p = Inr p"
  by (auto simp: absolute_path_def path_absolute_def is_prefix_def split: list.splits path_component.splits)

lemma drive_relative_outside: "drive_relative p \<Longrightarrow> absolute_path root \<Longrightarrow> \<not> path_starts_with p root"
  by (cases p; cases "tl p")
    (auto simp: drive_relative_def absolute_path_def path_starts_with_def is_prefix_def
       split: list.splits path_component.splits)

lemma components_drive:
  assumes "plain_part part" "has_drive part"
  shows "drive_relative (components Windows part)"
proof -
  have "\<not> is_separator Windows (hd (drop 2 part))" if "drop 2 part \<noteq> []"
    using assms(1) not_separator in_set_dropD [OF hd_in_set [OF that]] by (auto simp: plain_part_def)
  then have "components Windows part = Prefix (take 2 part) # relative_components Windows (drop 2 part)"
    using assms(2) by (auto simp: components_def rooted_components_def)
  then show ?thesis
    using relative_components_plain [of _ Windows "drop 2 part"]
    by (auto simp: drive_relative_def is_prefix_def)
qed

lemma path_push_drive: "drive_relative q \<Longrightarrow> path_push p q = q"
  by (cases q) (auto simp: drive_relative_def path_push_def is_prefix_def split: path_component.splits)

lemma push_keeps_drive:
  assumes "drive_relative p" "plain_part part"
  shows "drive_relative (path_push p (components Windows part))"
proof (cases "has_drive part")
  case True
  then show ?thesis using components_drive [OF assms(2)] by (simp add: path_push_drive)
next
  case False
  then have "components Windows part = [Normal part]" using assms(2) by (simp add: components_plain)
  then show ?thesis using assms(1) by (auto simp: drive_relative_def)
qed

lemma extend_keeps_drive:
  "drive_relative p \<Longrightarrow> \<forall>part \<in> set parts. plain_part part \<Longrightarrow>
     drive_relative (extend Windows p parts)"
  by (induction parts arbitrary: p) (auto simp: extend_def push_keeps_drive)

lemma extend_drive:
  assumes "\<forall>part \<in> set parts. plain_part part" "part \<in> set parts" "has_drive part"
  shows "drive_relative (extend Windows p parts)"
proof -
  obtain xs ys where "parts = xs @ part # ys" using assms(2) by (auto simp: in_set_conv_decomp)
  then have "extend Windows p parts =
      extend Windows (path_push (extend Windows p xs) (components Windows part)) ys"
    by (simp add: extend_def)
  moreover have "drive_relative (path_push (extend Windows p xs) (components Windows part))"
    using assms components_drive [of part] by (simp add: path_push_drive)
  ultimately show ?thesis
    using assms(1) \<open>parts = xs @ part # ys\<close> by (simp add: extend_keeps_drive)
qed

lemma foldl_extend:
  "foldl (\<lambda>p segment. extend pl p (joined_parts segment)) root segments =
     extend pl root (concat (map joined_parts segments))"
  by (induction segments arbitrary: root) (simp_all add: extend_def)

lemma joined_parts_all_plain:
  assumes "find illegal_text segments = None"
  shows "\<forall>part \<in> set (concat (map joined_parts segments)). plain_part part"
  using assms joined_parts_plain [of Unix]
  by (auto simp: find_None_iff illegal_segment_text)

text \<open>The target of legal segments: outside the base when a drive is among them, else below it.\<close>

lemma joined_target:
  assumes "absolute_path base" "find illegal_text segments = None"
  shows "if pl = Windows \<and> (\<exists>part \<in> set (concat (map joined_parts segments)). has_drive part)
         then \<not> path_starts_with (extend pl base (concat (map joined_parts segments))) base
         else extend pl base (concat (map joined_parts segments)) =
                base @ map Normal (concat (map joined_parts segments))"
proof (cases "pl = Windows \<and> (\<exists>part \<in> set (concat (map joined_parts segments)). has_drive part)")
  case True
  then have "drive_relative (extend pl base (concat (map joined_parts segments)))"
    using extend_drive [OF joined_parts_all_plain [OF assms(2)]] by blast
  with True show ?thesis using drive_relative_outside [OF _ assms(1)] by simp
next
  case False
  then have "extend pl base (concat (map joined_parts segments)) =
      base @ map Normal (concat (map joined_parts segments))"
    using joined_parts_all_plain [OF assms(2)] by (intro extend_plain) (auto simp: drives_ok_def)
  with False show ?thesis by (simp only: if_False)
qed

lemma safe_join_inside:
  assumes "absolute_path base" "safe_join pl cwd base segments = Inr p"
  shows "p = base @ map Normal (concat (map joined_parts segments)) \<and>
     (\<forall>part \<in> set (concat (map joined_parts segments)). plain_part part)"
proof -
  have legal: "find illegal_text segments = None"
    using assms(2) by (auto simp: safe_join_def check_segments_find split: option.splits)
  then have "p = extend pl base (concat (map joined_parts segments))" "path_starts_with p base"
    using assms by (auto simp: safe_join_def check_segments_find path_absolute_id foldl_extend Let_def
        split: if_splits)
  then show ?thesis
    using joined_target [OF assms(1) legal, of pl] joined_parts_all_plain [OF legal] by (auto split: if_splits)
qed

section \<open>Properties\<close>

text \<open>C4
  Every branch of the join, on either platform: the first segment that is empty, begins with a
  separator, holds a \<open>..\<close> part or begins with a drive is refused by name, whatever the platform; on
  Windows a drive further inside a segment is refused as an escape; otherwise the answer is the base
  followed by the segments' parts, each of them a plain name, so it never leaves the base.
\<close>

theorem safe_join_spec:
  assumes "absolute_path base"
  shows "safe_join pl cwd base segments =
     (case find illegal_text segments of
        Some segment \<Rightarrow> Inl (illegal segment)
      | None \<Rightarrow>
          let parts = concat (map joined_parts segments) in
          if pl = Windows \<and> (\<exists>part \<in> set parts. has_drive part)
          then Inl (forbidden (lit ''path escapes the library''))
          else Inr (base @ map Normal parts))"
  using joined_target [OF assms, of segments pl] assms
  by (auto simp: safe_join_def check_segments_find path_absolute_id foldl_extend Let_def
      path_starts_with_def split: option.splits if_splits)

theorem safe_join_spec_witness:
  "safe_join Windows [] [RootDir, Normal (lit ''lib'')] [lit ''a/b''] =
     Inr [RootDir, Normal (lit ''lib''), Normal (lit ''a''), Normal (lit ''b'')]"
  using safe_join_spec [of "[RootDir, Normal (lit ''lib'')]" Windows "[]" "[lit ''a/b'']"]
  by (simp add: absolute_path_def illegal_text_def has_drive_def is_slash_def segment_parts_def
      joined_parts_def lit_def)

lemma plain_segment:
  assumes "plain_part v" "\<not> has_drive v"
  shows "\<not> illegal_text v" "joined_parts v = [v]"
proof -
  have "split_on is_slash v = [v]" using assms(1) by (intro split_on_none) (simp add: plain_part_def)
  then show "\<not> illegal_text v" "joined_parts v = [v]"
    using assms by (auto simp: illegal_text_def joined_parts_def segment_parts_def plain_part_def)
qed

lemma safe_join_plain:
  assumes "absolute_path base" "plain_part v" "\<not> has_drive v"
  shows "safe_join pl cwd base [v] = Inr (base @ [Normal v])"
  using plain_segment [OF assms(2,3)] assms extend_plain [of "[v]" pl base]
  by (simp add: safe_join_def illegal_segment_text path_absolute_id Let_def drives_ok_def
      path_starts_with_def)

lemma file_name_chars:
  assumes "file_name v = Inr ()"
  shows "v \<noteq> []" "hd v \<noteq> 46" "\<forall>c \<in> set v. c \<noteq> 47 \<and> c \<noteq> 92 \<and> c \<noteq> 58"
proof -
  have len: "0 < utf16_len v" and dot: "take 1 v \<noteq> [46]"
    and chars: "\<not> list_ex (\<lambda>c. c = 34 \<or> c = 42 \<or> c = 47 \<or> c = 58 \<or> c = 60 \<or> c = 62 \<or> c = 63 \<or>
                   c = 92 \<or> c = 124) v"
    using assms
    by (auto simp: file_name_def length_between_def js_len_def Let_def result_iffs lit_def
        split: if_splits)
  show "v \<noteq> []" using len by (auto simp: utf16_len_def)
  with dot show "hd v \<noteq> 46" by (cases v) auto
  show "\<forall>c \<in> set v. c \<noteq> 47 \<and> c \<noteq> 92 \<and> c \<noteq> 58" using chars by (auto simp: list_ex_iff)
qed

text \<open>
  A file name that passes the upload and rename rules names exactly one directory entry: on either
  platform, joining it to a folder gives that folder and the name itself.
\<close>

theorem valid_name_one_entry:
  assumes "file_name v = Inr ()" "absolute_path base"
  shows "safe_join pl cwd base [v] = Inr (base @ [Normal v])"
proof (rule safe_join_plain [OF assms(2)])
  note chars = file_name_chars [OF assms(1)]
  show "plain_part v"
    using chars by (auto simp: plain_part_def is_slash_def lit_def)
  show "\<not> has_drive v"
    using chars(3) by (auto simp: has_drive_def split: list.splits)
qed

theorem valid_name_one_entry_witness:
  "safe_join Windows [] [RootDir] [lit ''cube.stl''] = Inr [RootDir, Normal (lit ''cube.stl'')]"
proof -
  have "file_name (lit ''cube.stl'') = Inr ()"
    by (simp add: file_name_def length_between_def js_len_def utf16_len_def lit_def
        is_windows_device_name_def to_ascii_lowercase_def)
  from valid_name_one_entry [OF this, of "[RootDir]" Windows "[]"] show ?thesis
    by (simp add: absolute_path_def)
qed

end
