(* ===== verification/Users.thy ===== *)
theory Users
  imports Login Paths
begin

text \<open>
  User administration (\<^verbatim>\<open>users/admin.rs\<close>), what a user does to their own account
  (\<^verbatim>\<open>users/account.rs\<close>) and the accounts created on first run (\<^verbatim>\<open>users/bootstrap.rs\<close>), all under
  \<^verbatim>\<open>crates/spm-core/src\<close>. The file system is a state \<open>'fs\<close> that \<open>mkdir\<close> (\<^verbatim>\<open>create_dir_all\<close>) may
  change or refuse; nothing rolls it back. Random values, ids and the time are arguments. Properties:
  administrator rights are required, a reissued invite is the only usable one, and no sequence of
  account operations leaves the library without an active administrator.
\<close>

type_synonym 'fs mkdir = "path \<Rightarrow> 'fs \<Rightarrow> (io_error + unit) \<times> 'fs"

record lib_place =
  lp_platform :: platform
  lp_cwd :: path
  lp_dir :: path

definition validated :: "'a checked \<Rightarrow> 'a result" where
  "validated v = (case v of Inl issues \<Rightarrow> Inl (issues_error issues) | Inr x \<Rightarrow> Inr x)"

definition require_admin :: "ctx \<Rightarrow> unit result" where
  "require_admin c =
     (if ctx_is_admin c then Inr () else Inl (forbidden (lit ''administrator rights are required'')))"

definition count_other_active_admins :: "str \<Rightarrow> db \<Rightarrow> nat" where
  "count_other_active_admins uid db =
     count_where (\<lambda>u. u_is_admin u \<and> u_status u = Active \<and> u_id u \<noteq> uid) (users db)"

definition assert_not_last_active_admin :: "user_row \<Rightarrow> db \<Rightarrow> unit result" where
  "assert_not_last_active_admin u db =
     (if u_is_admin u \<and> u_status u = Active \<and> count_other_active_admins (u_id u) db = 0
      then Inl (new_error LastActiveAdmin (lit ''the last active administrator must remain''))
      else Inr ())"

definition list_users :: "ctx \<Rightarrow> db \<Rightarrow> user_dto list result" where
  "list_users c db =
     bindE (require_admin c) (\<lambda>_.
       Inr (map (\<lambda>u. to_user_dto u
                   (case disk_usage_by_user_in db (u_id u) of None \<Rightarrow> 0 | Some n \<Rightarrow> n))
              (all_user_rows db)))"

definition is_unique_violation :: "app_error \<Rightarrow> bool" where
  "is_unique_violation e =
     (case err_cause e of
        None \<Rightarrow> False
      | Some cause \<Rightarrow> str_contains (lit ''UNIQUE constraint failed'') cause)"

definition username_taken :: "str \<Rightarrow> app_error" where
  "username_taken name =
     conflict (lit ''username '' @ [34] @ name @ [34] @ lit '' is already taken'')"

definition make_dir :: "'fs mkdir \<Rightarrow> path result \<Rightarrow> 'fs \<Rightarrow> unit result \<times> 'fs" where
  "make_dir mkdir p fs =
     (case p of
        Inl e \<Rightarrow> (Inl e, fs)
      | Inr d \<Rightarrow>
          (case mkdir d fs of
             (Inl e, fs') \<Rightarrow> (Inl (app_error_of_io e), fs')
           | (Inr _, fs') \<Rightarrow> (Inr (), fs')))"

definition lib_user_root :: "lib_place \<Rightarrow> str \<Rightarrow> path result" where
  "lib_user_root lp library_dir = user_root (lp_platform lp) (lp_cwd lp) (lp_dir lp) library_dir"

definition invited_user :: "str \<Rightarrow> create_user_input \<Rightarrow> int \<Rightarrow> user_row" where
  "invited_user uid input now =
     \<lparr>u_id = uid, u_username = cu_username input, u_display_name = cu_display_name input,
      u_library_dir = cu_username input, u_pw_hash = None, u_pw_salt = None, u_pw_iterations = None,
      u_pw_algo = None, u_is_admin = cu_is_admin input, u_status = Pending,
      u_quota_bytes = cu_quota_bytes input, u_created_at = now, u_activated_at = None\<rparr>"

definition create_user_tx ::
  "(str \<Rightarrow> bytes) \<Rightarrow> lib_place \<Rightarrow> 'fs mkdir \<Rightarrow> str \<Rightarrow> str \<Rightarrow> str \<Rightarrow> int \<Rightarrow> create_user_input \<Rightarrow>
   db \<Rightarrow> 'fs \<Rightarrow> (app_error + (user_dto \<times> str) \<times> db) \<times> 'fs" where
  "create_user_tx sha lp mkdir uid token tid now input db fs =
     (let name = cu_username input in
      if find_user_by_username db name \<noteq> None then (Inl (username_taken name), fs)
      else (case insert_user (invited_user uid input now) db of
              Inl e \<Rightarrow> (Inl (if is_unique_violation e then username_taken name else e), fs)
            | Inr db1 \<Rightarrow>
                (case make_dir mkdir (lib_user_root lp name) fs of
                   (Inl e, fs') \<Rightarrow> (Inl e, fs')
                 | (Inr _, fs') \<Rightarrow>
                     (bindE (issue_activation_token_in sha token tid uid now db1) (\<lambda>(token, db2).
                      bindE (user_dto_in db2 uid) (\<lambda>user. Inr ((user, token), db2))), fs'))))"

definition create_user ::
  "(str \<Rightarrow> bytes) \<Rightarrow> lib_place \<Rightarrow> 'fs mkdir \<Rightarrow> str \<Rightarrow> str \<Rightarrow> str \<Rightarrow> int \<Rightarrow> ctx \<Rightarrow> create_user_input \<Rightarrow>
   db \<Rightarrow> 'fs \<Rightarrow> (user_dto \<times> str) result \<times> db \<times> 'fs" where
  "create_user sha lp mkdir uid token tid now c input db fs =
     (case bindE (require_admin c) (\<lambda>_. validated (validate_create_user input)) of
        Inl e \<Rightarrow> (Inl e, db, fs)
      | Inr input \<Rightarrow> in_tx_fs (create_user_tx sha lp mkdir uid token tid now input) db fs)"

definition reissue_invite_tx ::
  "(str \<Rightarrow> bytes) \<Rightarrow> str \<Rightarrow> str \<Rightarrow> int \<Rightarrow> str \<Rightarrow> db \<Rightarrow> app_error + str \<times> db" where
  "reissue_invite_tx sha token tid now uid db =
     bindE (require_user_row db uid) (\<lambda>u.
       if u_status u = Active then Inl (conflict (lit ''account is already active''))
       else if u_status u = Disabled
       then Inl (conflict (lit ''re-enable the account before issuing a new invite''))
       else issue_activation_token_in sha token tid (u_id u) now
              (snd (revoke_activation_tokens_in (u_id u) now db)))"

definition reissue_invite ::
  "(str \<Rightarrow> bytes) \<Rightarrow> str \<Rightarrow> str \<Rightarrow> int \<Rightarrow> ctx \<Rightarrow> str \<Rightarrow> db \<Rightarrow> str result \<times> db" where
  "reissue_invite sha token tid now c uid db =
     (case require_admin c of
        Inl e \<Rightarrow> (Inl e, db)
      | Inr _ \<Rightarrow> in_tx (reissue_invite_tx sha token tid now uid) db)"

definition set_user :: "str \<Rightarrow> (user_row \<Rightarrow> user_row) \<Rightarrow> db \<Rightarrow> db" where
  "set_user uid f db = db\<lparr>users := update_where (\<lambda>u. u_id u = uid) f (users db)\<rparr>"

definition patched_status :: "user_row \<Rightarrow> bool \<Rightarrow> user_status" where
  "patched_status u is_disabled =
     (if is_disabled then Disabled else if u_pw_hash u \<noteq> None then Active else Pending)"

definition update_user_tx :: "str \<Rightarrow> update_user_input \<Rightarrow> db \<Rightarrow> app_error + user_dto \<times> db" where
  "update_user_tx uid patch db =
     bindE (require_user_row db uid) (\<lambda>u.
     bindE (if uu_is_admin patch = Some False \<or> uu_is_disabled patch = Some True
            then assert_not_last_active_admin u db else Inr ()) (\<lambda>_.
     let db1 = (case uu_is_admin patch of None \<Rightarrow> db
                | Some a \<Rightarrow> set_user uid (\<lambda>u. u\<lparr>u_is_admin := a\<rparr>) db);
         db2 = (case uu_is_disabled patch of None \<Rightarrow> db1
                | Some d \<Rightarrow> set_user uid (\<lambda>x. x\<lparr>u_status := patched_status u d\<rparr>) db1);
         db3 = (case uu_quota_bytes patch of None \<Rightarrow> db2
                | Some q \<Rightarrow> set_user uid (\<lambda>u. u\<lparr>u_quota_bytes := q\<rparr>) db2)
     in bindE (user_dto_in db3 uid) (\<lambda>user. Inr (user, db3))))"

definition update_user :: "ctx \<Rightarrow> str \<Rightarrow> update_user_input \<Rightarrow> db \<Rightarrow> user_dto result \<times> db" where
  "update_user c uid patch db =
     (case bindE (require_admin c) (\<lambda>_. validated (validate_update_user patch)) of
        Inl e \<Rightarrow> (Inl e, db)
      | Inr patch \<Rightarrow> in_tx (update_user_tx uid patch) db)"

definition delete_user_tx :: "str \<Rightarrow> db \<Rightarrow> app_error + unit \<times> db" where
  "delete_user_tx uid db =
     bindE (require_user_row db uid) (\<lambda>u.
     bindE (assert_not_last_active_admin u db) (\<lambda>_. Inr ((), delete_user_rows uid db)))"

definition delete_user :: "ctx \<Rightarrow> str \<Rightarrow> db \<Rightarrow> unit result \<times> db" where
  "delete_user c uid db =
     (case require_admin c of Inl e \<Rightarrow> (Inl e, db) | Inr _ \<Rightarrow> in_tx (delete_user_tx uid) db)"

section \<open>A user's own account\<close>

definition me :: "ctx \<Rightarrow> db \<Rightarrow> user_dto result" where
  "me c db = user_dto_in db (ctx_user_id c)"

definition change_password ::
  "kdf \<Rightarrow> (db \<Rightarrow> db) \<Rightarrow> bytes \<Rightarrow> ctx \<Rightarrow> str \<Rightarrow> str \<Rightarrow> db \<Rightarrow> unit result \<times> db" where
  "change_password kdf env salt c current next_pw db =
     (case password next_pw of
        Inl message \<Rightarrow> (Inl (validation message), db)
      | Inr _ \<Rightarrow>
          (case require_user_row db (ctx_user_id c) of
             Inl e \<Rightarrow> (Inl e, db)
           | Inr u \<Rightarrow>
               (case stored_password u of
                  None \<Rightarrow> (Inl (forbidden (lit ''account has no password to change'')), db)
                | Some stored \<Rightarrow>
                    if \<not> verify_password kdf current stored
                    then (Inl (unauthorized (lit ''current password is not correct'')), env db)
                    else (Inr (), write_password (ctx_user_id c) (hash_password kdf next_pw salt) (env db)))))"

definition update_profile :: "ctx \<Rightarrow> profile_patch \<Rightarrow> db \<Rightarrow> user_dto result \<times> db" where
  "update_profile c patch db =
     (case validated (validate_profile patch) of
        Inl e \<Rightarrow> (Inl e, db)
      | Inr patch \<Rightarrow>
          let db1 = (case pp_display_name patch of None \<Rightarrow> db
                     | Some name \<Rightarrow> set_user (ctx_user_id c) (\<lambda>u. u\<lparr>u_display_name := name\<rparr>) db)
          in (user_dto_in db1 (ctx_user_id c), db1))"

section \<open>First run\<close>

definition BOOTSTRAP_USERNAME :: str where "BOOTSTRAP_USERNAME = lit ''admin''"

definition bootstrap_row :: "str \<Rightarrow> int \<Rightarrow> user_row" where
  "bootstrap_row uid now =
     \<lparr>u_id = uid, u_username = BOOTSTRAP_USERNAME, u_display_name = lit ''Administrator'',
      u_library_dir = BOOTSTRAP_USERNAME, u_pw_hash = None, u_pw_salt = None, u_pw_iterations = None,
      u_pw_algo = None, u_is_admin = True, u_status = Pending, u_quota_bytes = None,
      u_created_at = now, u_activated_at = None\<rparr>"

definition ensure_bootstrap_admin_at ::
  "(str \<Rightarrow> bytes) \<Rightarrow> lib_place \<Rightarrow> 'fs mkdir \<Rightarrow> str \<Rightarrow> str \<Rightarrow> str \<Rightarrow> int \<Rightarrow> db \<Rightarrow> 'fs \<Rightarrow>
   (str \<times> str) option result \<times> db \<times> 'fs" where
  "ensure_bootstrap_admin_at sha lp mkdir uid token tid now db fs =
     in_tx_fs (\<lambda>db fs.
       if length (users db) > 0 then (Inr (None, db), fs)
       else (case insert_user (bootstrap_row uid now) db of
               Inl e \<Rightarrow> (Inl e, fs)
             | Inr db1 \<Rightarrow>
                 (case make_dir mkdir (lib_user_root lp BOOTSTRAP_USERNAME) fs of
                    (Inl e, fs') \<Rightarrow> (Inl e, fs')
                  | (Inr _, fs') \<Rightarrow>
                      (bindE (issue_activation_token_in sha token tid uid now db1) (\<lambda>(token, db2).
                         Inr (Some (BOOTSTRAP_USERNAME, token), db2)), fs')))) db fs"

definition local_row :: "str \<Rightarrow> int \<Rightarrow> user_row" where
  "local_row uid now =
     \<lparr>u_id = uid, u_username = lit ''local'', u_display_name = lit ''Local'',
      u_library_dir = lit ''.'', u_pw_hash = None, u_pw_salt = None, u_pw_iterations = None,
      u_pw_algo = None, u_is_admin = False, u_status = Active, u_quota_bytes = None,
      u_created_at = now, u_activated_at = Some now\<rparr>"

text \<open>\<^verbatim>\<open>LIMIT 1\<close> without an order: the row SQLite happens to give first, here the oldest.\<close>

definition ensure_local_user_at :: "str \<Rightarrow> int \<Rightarrow> db \<Rightarrow> ctx result \<times> db" where
  "ensure_local_user_at uid now db =
     in_tx (\<lambda>db.
       case users db of
         u # _ \<Rightarrow> Inr (\<lparr>ctx_user_id = u_id u, ctx_is_admin = False\<rparr>, db)
       | [] \<Rightarrow> bindE (insert_user (local_row uid now) db) (\<lambda>db'.
                 Inr (\<lparr>ctx_user_id = uid, ctx_is_admin = False\<rparr>, db'))) db"

section \<open>Invariants\<close>

lemma set_user_wf [invariants]:
  assumes "db_wf db"
    "\<And>u. u_id (f u) = u_id u" "\<And>u. u_username (f u) = u_username u"
    "\<And>u. u_library_dir (f u) = u_library_dir u"
  shows "db_wf (set_user uid f db)"
  unfolding set_user_def using assms by (rule update_users_wf)

lemma in_tx_effect: "in_tx body db = (r, db') \<Longrightarrow> db' = db \<or> (\<exists>x. body db = Inr (x, db'))"
  by (auto simp: in_tx_def split: sum.splits)

lemma in_tx_fs_effect:
  "in_tx_fs body db fs = (r, db', fs') \<Longrightarrow> db' = db \<or> (\<exists>x. body db fs = (Inr (x, db'), fs'))"
  by (auto simp: in_tx_fs_def split: sum.splits prod.splits)

lemma create_user_tx_Inr:
  assumes "create_user_tx sha lp mkdir uid token tid now input db fs = (Inr (x, db'), fs')"
  shows "\<exists>db1 t. insert_user (invited_user uid input now) db = Inr db1 \<and>
           issue_activation_token_in sha token tid uid now db1 = Inr (t, db')"
  using assms
  by (auto simp: create_user_tx_def Let_def result_iffs split: if_splits sum.splits prod.splits)

lemma reissue_invite_tx_Inr:
  assumes "reissue_invite_tx sha token tid now uid db = Inr (t, db')"
  shows "\<exists>u. find_user_by_id db uid = Some u \<and> u_status u = Pending \<and>
           issue_activation_token_in sha token tid uid now
             (snd (revoke_activation_tokens_in uid now db)) = Inr (t, db')"
proof -
  obtain u where u: "find_user_by_id db uid = Some u" "u_status u \<noteq> Active" "u_status u \<noteq> Disabled"
      "issue_activation_token_in sha token tid (u_id u) now
         (snd (revoke_activation_tokens_in (u_id u) now db)) = Inr (t, db')"
    using assms by (auto simp: reissue_invite_tx_def result_iffs require_user_row_Inr split: if_splits)
  then show ?thesis using find_user_by_id_Some [OF u(1)] by (cases "u_status u") auto
qed

lemma set_user_compose:
  "(\<And>u. u_id (g u) = u_id u) \<Longrightarrow> set_user uid f (set_user uid g db) = set_user uid (\<lambda>u. f (g u)) db"
  by (simp add: set_user_def update_where_def)

text \<open>All three updates of \<^verbatim>\<open>update_user\<close> as one change of the row.\<close>

definition patched :: "update_user_input \<Rightarrow> user_row \<Rightarrow> user_row \<Rightarrow> user_row" where
  "patched patch u x =
     x\<lparr>u_is_admin := (case uu_is_admin patch of None \<Rightarrow> u_is_admin x | Some a \<Rightarrow> a),
       u_status := (case uu_is_disabled patch of None \<Rightarrow> u_status x | Some d \<Rightarrow> patched_status u d),
       u_quota_bytes := (case uu_quota_bytes patch of None \<Rightarrow> u_quota_bytes x | Some q \<Rightarrow> q)\<rparr>"

lemma patched_simps [simp]:
  "u_id (patched patch u x) = u_id x" "u_username (patched patch u x) = u_username x"
  "u_library_dir (patched patch u x) = u_library_dir x" "u_pw_hash (patched patch u x) = u_pw_hash x"
  by (simp_all add: patched_def)

lemma set_user_id: "set_user uid (\<lambda>u. u) db = db"
  by (simp add: set_user_def update_where_def)

lemma patched_eq:
  "set_user uid (patched patch u) db =
     (let db1 = (case uu_is_admin patch of None \<Rightarrow> db
                | Some a \<Rightarrow> set_user uid (\<lambda>u. u\<lparr>u_is_admin := a\<rparr>) db);
          db2 = (case uu_is_disabled patch of None \<Rightarrow> db1
                | Some d \<Rightarrow> set_user uid (\<lambda>x. x\<lparr>u_status := patched_status u d\<rparr>) db1)
      in case uu_quota_bytes patch of None \<Rightarrow> db2
         | Some q \<Rightarrow> set_user uid (\<lambda>u. u\<lparr>u_quota_bytes := q\<rparr>) db2)"
proof -
  have "patched patch u = (\<lambda>x. x\<lparr>
       u_is_admin := (case uu_is_admin patch of None \<Rightarrow> u_is_admin x | Some a \<Rightarrow> a),
       u_status := (case uu_is_disabled patch of None \<Rightarrow> u_status x | Some d \<Rightarrow> patched_status u d),
       u_quota_bytes := (case uu_quota_bytes patch of None \<Rightarrow> u_quota_bytes x | Some q \<Rightarrow> q)\<rparr>)"
    by (rule ext) (simp add: patched_def)
  then show ?thesis by (simp add: Let_def set_user_compose set_user_id split: option.splits)
qed

lemma update_user_tx_Inr:
  assumes "update_user_tx uid patch db = Inr (x, db')"
  shows "\<exists>u. find_user_by_id db uid = Some u \<and> db' = set_user uid (patched patch u) db \<and>
     (uu_is_admin patch = Some False \<or> uu_is_disabled patch = Some True \<longrightarrow>
        assert_not_last_active_admin u db = Inr ())"
proof -
  obtain u where u: "find_user_by_id db uid = Some u"
      and guard: "(if uu_is_admin patch = Some False \<or> uu_is_disabled patch = Some True
            then assert_not_last_active_admin u db else Inr ()) = Inr ()"
      and db': "db' = set_user uid (patched patch u) db"
    using assms
    by (auto simp: update_user_tx_def patched_eq Let_def result_iffs require_user_row_Inr
        simp del: patched_simps)
  show ?thesis using u guard db' by (auto split: if_splits)
qed

lemma delete_user_tx_Inr:
  "delete_user_tx uid db = Inr (x, db') \<longleftrightarrow>
     (\<exists>u. find_user_by_id db uid = Some u \<and> assert_not_last_active_admin u db = Inr () \<and>
        db' = delete_user_rows uid db)"
  by (auto simp: delete_user_tx_def result_iffs require_user_row_Inr)

text \<open>What each administration use case can do to the database: nothing, or its transaction.\<close>

lemma create_user_effect:
  "create_user sha lp mkdir uid token tid now c input db fs = (r, db', fs') \<Longrightarrow>
     db' = db \<or> (\<exists>input db1 t. insert_user (invited_user uid input now) db = Inr db1 \<and>
       issue_activation_token_in sha token tid uid now db1 = Inr (t, db'))"
  unfolding create_user_def
  by (cases "bindE (require_admin c) (\<lambda>_. validated (validate_create_user input))")
    (auto dest!: in_tx_fs_effect create_user_tx_Inr)

lemma reissue_invite_effect:
  "reissue_invite sha token tid now c uid db = (r, db') \<Longrightarrow>
     db' = db \<or> (\<exists>t. issue_activation_token_in sha token tid uid now
       (snd (revoke_activation_tokens_in uid now db)) = Inr (t, db'))"
  unfolding reissue_invite_def
  by (cases "require_admin c") (auto dest!: in_tx_effect reissue_invite_tx_Inr)

lemma update_user_effect:
  "update_user c uid patch db = (r, db') \<Longrightarrow>
     db' = db \<or> (\<exists>patch x. update_user_tx uid patch db = Inr (x, db'))"
  unfolding update_user_def
  by (cases "bindE (require_admin c) (\<lambda>_. validated (validate_update_user patch))")
    (auto dest!: in_tx_effect)

lemma delete_user_effect:
  "delete_user c uid db = (r, db') \<Longrightarrow> db' = db \<or> (\<exists>x. delete_user_tx uid db = Inr (x, db'))"
  unfolding delete_user_def by (cases "require_admin c") (auto dest!: in_tx_effect)

lemma create_user_wf [invariants]:
  "create_user sha lp mkdir uid token tid now c input db fs = (r, db', fs') \<Longrightarrow> db_wf db \<Longrightarrow> db_wf db'"
  by (auto dest!: create_user_effect dest: insert_user_wf issue_token_wf)

lemma reissue_invite_wf [invariants]:
  "reissue_invite sha token tid now c uid db = (r, db') \<Longrightarrow> db_wf db \<Longrightarrow> db_wf db'"
  by (auto dest!: reissue_invite_effect dest: issue_token_wf [OF _ revoke_tokens_wf])

lemma update_user_wf [invariants]:
  assumes "update_user c uid patch db = (r, db')" "db_wf db"
  shows "db_wf db'"
proof -
  have "db_wf (set_user uid (patched patch u) db)" for patch u
    using assms(2) by (rule set_user_wf) simp_all
  then show ?thesis
    using update_user_effect [OF assms(1)] assms(2) by (auto dest!: update_user_tx_Inr)
qed

lemma delete_user_wf [invariants]: "delete_user c uid db = (r, db') \<Longrightarrow> db_wf db \<Longrightarrow> db_wf db'"
  by (auto dest!: delete_user_effect simp: delete_user_tx_Inr delete_user_rows_wf)

lemma change_password_wf [invariants]:
  "db_wf db \<Longrightarrow> db_wf (env db) \<Longrightarrow> db_wf (snd (change_password kdf env salt c current next_pw db))"
  by (auto simp: change_password_def write_password_wf split: sum.splits option.splits)

lemma update_profile_effect:
  "snd (update_profile c patch db) = db \<or>
     (\<exists>name. snd (update_profile c patch db) = set_user (ctx_user_id c) (\<lambda>u. u\<lparr>u_display_name := name\<rparr>) db)"
  by (auto simp: update_profile_def Let_def split: sum.splits option.splits)

lemma update_profile_wf [invariants]:
  assumes "db_wf db"
  shows "db_wf (snd (update_profile c patch db))"
proof -
  have "db_wf (set_user (ctx_user_id c) (\<lambda>u. u\<lparr>u_display_name := name\<rparr>) db)" for name
    using assms by (rule set_user_wf) simp_all
  then show ?thesis using update_profile_effect [of c patch db] assms by auto
qed

section \<open>The last administrator\<close>

definition active_admin :: "user_row \<Rightarrow> bool" where
  "active_admin u \<longleftrightarrow> u_is_admin u \<and> u_status u = Active"

text \<open>Someone can manage users, and every active account can sign in.\<close>

definition managed :: "db \<Rightarrow> bool" where
  "managed db \<longleftrightarrow>
     (\<exists>u \<in> set (users db). active_admin u) \<and>
     (\<forall>u \<in> set (users db). u_status u = Active \<longrightarrow> u_pw_hash u \<noteq> None)"

lemma managed_cong: "users db' = users db \<Longrightarrow> managed db' = managed db"
  by (simp add: managed_def)

lemma managed_update:
  assumes "managed db"
    "\<And>u. u \<in> set (users db) \<Longrightarrow> g u \<Longrightarrow> active_admin u \<Longrightarrow> active_admin (f u)"
    "\<And>u. u \<in> set (users db) \<Longrightarrow> g u \<Longrightarrow> u_status (f u) = Active \<Longrightarrow> u_pw_hash (f u) \<noteq> None"
  shows "managed (db\<lparr>users := update_where g f (users db)\<rparr>)"
proof -
  obtain a where a: "a \<in> set (users db)" "active_admin a" using assms(1) by (auto simp: managed_def)
  let ?f = "\<lambda>u. if g u then f u else u"
  have "?f a \<in> ?f ` set (users db)" "active_admin (?f a)" using a assms(2) by auto
  then have "\<exists>u \<in> set (update_where g f (users db)). active_admin u" unfolding set_update_where by blast
  moreover have "\<forall>u \<in> set (update_where g f (users db)). u_status u = Active \<longrightarrow> u_pw_hash u \<noteq> None"
    using assms(1,3) unfolding set_update_where managed_def by fastforce
  ultimately show ?thesis by (simp add: managed_def)
qed

lemma other_active_admin:
  assumes "assert_not_last_active_admin u db = Inr ()" "managed db" "find_user_by_id db uid = Some u" "db_wf db"
  shows "\<exists>a \<in> set (users db). active_admin a \<and> u_id a \<noteq> uid"
proof -
  obtain a where a: "a \<in> set (users db)" "active_admin a" using assms(2) by (auto simp: managed_def)
  have uid: "u_id u = uid" using find_user_by_id_Some [OF assms(3)] by simp
  show ?thesis
  proof (cases "u_id a = uid")
    case False
    with a show ?thesis by blast
  next
    case True
    then have "a = u" using find_user_by_id_unique [OF assms(4) a(1)] assms(3) by simp
    with assms(1) a uid show ?thesis
      by (auto simp: assert_not_last_active_admin_def active_admin_def count_other_active_admins_def
          table_simps split: if_splits)
  qed
qed

lemma managed_update_user:
  assumes "managed db" "db_wf db" "update_user_tx uid patch db = Inr (x, db')"
  shows "managed db'"
proof -
  obtain u where u: "find_user_by_id db uid = Some u" "db' = set_user uid (patched patch u) db"
      and guard: "uu_is_admin patch = Some False \<or> uu_is_disabled patch = Some True \<longrightarrow>
        assert_not_last_active_admin u db = Inr ()"
    using update_user_tx_Inr [OF assms(3)] by blast
  have only: "x = u" if "x \<in> set (users db)" "u_id x = uid" for x
    using find_user_by_id_unique [OF assms(2) that(1)] that u(1) by simp
  have secured: "u_pw_hash (patched patch u x) \<noteq> None"
    if "x \<in> set (users db)" "u_id x = uid" "u_status (patched patch u x) = Active" for x
    using that only [OF that(1,2)] assms(1)
    by (auto simp: patched_def patched_status_def managed_def split: option.splits if_splits)
  show ?thesis
  proof (cases "uu_is_admin patch = Some False \<or> uu_is_disabled patch = Some True")
    case True
    then obtain a where a: "a \<in> set (users db)" "active_admin a" "u_id a \<noteq> uid"
      using other_active_admin [OF _ assms(1) u(1) assms(2)] guard by blast
    then have "\<exists>x \<in> set (users db'). active_admin x"
      by (force simp: u(2) set_user_def set_update_where)
    moreover have "\<forall>x \<in> set (users db'). u_status x = Active \<longrightarrow> u_pw_hash x \<noteq> None"
      using secured assms(1) by (auto simp: u(2) set_user_def set_update_where managed_def)
    ultimately show ?thesis by (simp add: managed_def)
  next
    case False
    then have keep: "active_admin (patched patch u x)"
      if "x \<in> set (users db)" "u_id x = uid" "active_admin x" for x
      using that only [OF that(1,2)] assms(1)
      by (auto simp: patched_def patched_status_def active_admin_def managed_def split: option.splits)
    show ?thesis
      unfolding u(2) set_user_def using assms(1) keep secured by (rule managed_update)
  qed
qed

lemma managed_delete_user:
  assumes "managed db" "db_wf db" "delete_user_tx uid db = Inr (x, db')"
  shows "managed db'"
proof -
  obtain u where u: "find_user_by_id db uid = Some u" "assert_not_last_active_admin u db = Inr ()"
      and db': "db' = delete_user_rows uid db"
    using assms(3) by (auto simp: delete_user_tx_Inr)
  obtain a where "a \<in> set (users db)" "active_admin a" "u_id a \<noteq> uid"
    using other_active_admin [OF u(2) assms(1) u(1) assms(2)] by blast
  then show ?thesis
    using assms(1) by (auto simp: db' managed_def delete_user_rows_def table_simps)
qed

lemma create_session_managed:
  "create_session_in sha token uid agent now db = Inr (s, db') \<Longrightarrow> managed db' = managed db"
  by (rule managed_cong) (simp add: create_session_frame)

lemma managed_write_password: "managed db \<Longrightarrow> managed (write_password uid pw db)"
  unfolding write_password_def
  by (rule managed_update) (simp_all add: set_password_def active_admin_def)

lemma managed_login:
  assumes "managed db" "managed (env db)"
  shows "managed (snd (login_at sha kdf env token salt uname pw agent now db))"
  using assms managed_write_password [OF assms(2)] create_session_managed
  by (auto simp: login_at_def Let_def split: option.splits sum.splits prod.splits)

lemma managed_activation_tx:
  assumes "activation_tx sha token invite pw agent now db = Inr (r, db')" "managed db"
  shows "managed db'"
proof -
  obtain uid db1 s where c: "consume_activation_token_in sha invite now db = Inr (uid, db1)"
      and n: "create_session_in sha token uid agent now
        (db1\<lparr>users := update_where (\<lambda>u. u_id u = uid) (set_activated pw now) (users db1)\<rparr>) = Inr (s, db')"
    using assms(1) by (auto simp: activation_tx_def Let_def result_iffs split: prod.splits)
  have "managed db1" using assms(2) consume_frame [OF c] managed_cong by blast
  then have "managed (db1\<lparr>users := update_where (\<lambda>u. u_id u = uid) (set_activated pw now) (users db1)\<rparr>)"
    by (rule managed_update) (simp_all add: set_activated_def set_password_def active_admin_def)
  then show ?thesis using create_session_managed [OF n] by simp
qed

lemma managed_activate:
  assumes "managed db" "managed (env db)"
  shows "managed (snd (activate_account_at sha kdf env token salt invite pw agent now db))"
  using assms managed_activation_tx
  by (auto simp: activate_account_at_def in_tx_def split: sum.splits)

lemma managed_insert_user:
  "insert_user u db = Inr db' \<Longrightarrow> u_status u \<noteq> Active \<Longrightarrow> managed db \<Longrightarrow> managed db'"
  by (auto simp: insert_user_def managed_def split: if_splits)

lemma issue_token_frame:
  "issue_activation_token_in sha token tid uid now db = Inr (t, db') \<Longrightarrow> users db' = users db"
  by (auto simp: issue_activation_token_in_def result_iffs insert_token_def split: if_splits)

lemma revoke_tokens_users: "users (snd (revoke_activation_tokens_in uid now db)) = users db"
  by (simp add: revoke_activation_tokens_in_def Let_def)

section \<open>Every account operation, interleaved\<close>

text \<open>
  The databases the account use cases lead to from \<open>db0\<close>. A use case that releases the lock reads
  one database and writes to another, \<open>mid\<close>, that any of the use cases may have made of it.
\<close>

inductive account_reach ::
  "(str \<Rightarrow> bytes) \<Rightarrow> kdf \<Rightarrow> lib_place \<Rightarrow> 'fs mkdir \<Rightarrow> db \<Rightarrow> db \<Rightarrow> bool"
  for sha kdf lp mkdir where
  start: "account_reach sha kdf lp mkdir db db"
| create: "account_reach sha kdf lp mkdir db0 db \<Longrightarrow>
    create_user sha lp mkdir uid token tid now c input db fs = (r, db', fs') \<Longrightarrow>
    account_reach sha kdf lp mkdir db0 db'"
| reissue: "account_reach sha kdf lp mkdir db0 db \<Longrightarrow>
    reissue_invite sha token tid now c uid db = (r2, db') \<Longrightarrow> account_reach sha kdf lp mkdir db0 db'"
| update: "account_reach sha kdf lp mkdir db0 db \<Longrightarrow> update_user c uid patch db = (r3, db') \<Longrightarrow>
    account_reach sha kdf lp mkdir db0 db'"
| delete: "account_reach sha kdf lp mkdir db0 db \<Longrightarrow> delete_user c uid db = (r4, db') \<Longrightarrow>
    account_reach sha kdf lp mkdir db0 db'"
| profile: "account_reach sha kdf lp mkdir db0 db \<Longrightarrow> update_profile c ppatch db = (r5, db') \<Longrightarrow>
    account_reach sha kdf lp mkdir db0 db'"
| login: "account_reach sha kdf lp mkdir db0 db \<Longrightarrow> account_reach sha kdf lp mkdir db mid \<Longrightarrow>
    login_at sha kdf (\<lambda>_. mid) token salt uname pw agent now db = (r6, db') \<Longrightarrow>
    account_reach sha kdf lp mkdir db0 db'"
| activate: "account_reach sha kdf lp mkdir db0 db \<Longrightarrow> account_reach sha kdf lp mkdir db mid \<Longrightarrow>
    activate_account_at sha kdf (\<lambda>_. mid) token salt invite pw agent now db = (r7, db') \<Longrightarrow>
    account_reach sha kdf lp mkdir db0 db'"
| change: "account_reach sha kdf lp mkdir db0 db \<Longrightarrow> account_reach sha kdf lp mkdir db mid \<Longrightarrow>
    change_password kdf (\<lambda>_. mid) salt c current next_pw db = (r8, db') \<Longrightarrow>
    account_reach sha kdf lp mkdir db0 db'"
| resolve: "account_reach sha kdf lp mkdir db0 db \<Longrightarrow> resolve_session sha token now db = (r9, db') \<Longrightarrow>
    account_reach sha kdf lp mkdir db0 db'"
| revoke: "account_reach sha kdf lp mkdir db0 db \<Longrightarrow>
    account_reach sha kdf lp mkdir db0 (delete_session sha token db)"
| prune: "account_reach sha kdf lp mkdir db0 db \<Longrightarrow> prune_expired_sessions now db = (n, db') \<Longrightarrow>
    account_reach sha kdf lp mkdir db0 db'"

lemma resolve_session_users: "users (snd (resolve_session sha token now db)) = users db"
  by (simp add: resolve_session_def Let_def split: option.splits)

lemma account_reach_managed:
  "account_reach sha kdf lp mkdir db0 db \<Longrightarrow> managed db0 \<and> db_wf db0 \<Longrightarrow> managed db \<and> db_wf db"
proof (induction rule: account_reach.induct)
  case (start db)
  then show ?case .
next
  case (create db0 db uid token tid now c input fs r db' fs')
  then have "managed db'"
    by (auto dest!: create_user_effect managed_insert_user
        simp: invited_user_def managed_cong [OF issue_token_frame])
  with create show ?case by (auto dest: create_user_wf)
next
  case (reissue db0 db token tid now c uid r2 db')
  then have "managed db'"
    by (auto dest!: reissue_invite_effect
        simp: managed_cong [OF issue_token_frame] managed_cong [OF revoke_tokens_users])
  with reissue show ?case by (auto dest: reissue_invite_wf)
next
  case (update db0 db c uid patch r3 db')
  then have "managed db'" by (auto dest!: update_user_effect dest: managed_update_user)
  with update show ?case by (auto dest: update_user_wf)
next
  case (delete db0 db c uid r4 db')
  then have "managed db'" by (auto dest!: delete_user_effect dest: managed_delete_user)
  with delete show ?case by (auto dest: delete_user_wf)
next
  case (profile db0 db c ppatch r5 db')
  have "managed (set_user i (\<lambda>u. u\<lparr>u_display_name := name\<rparr>) db)" for i name
    unfolding set_user_def using profile
    by (intro managed_update) (auto simp: active_admin_def managed_def)
  then have "managed db'" using update_profile_effect [of c ppatch db] profile by auto
  moreover have "db_wf db'" using update_profile_wf [of db c ppatch] profile by simp
  ultimately show ?case by simp
next
  case (login db0 db mid token salt uname pw agent now r6 db')
  then have inv: "managed db" "db_wf db" "managed mid" "db_wf mid" by simp_all
  have db': "db' = snd (login_at sha kdf (\<lambda>_. mid) token salt uname pw agent now db)"
    using login.hyps by simp
  show ?case unfolding db' using managed_login [OF inv(1)] login_wf [OF inv(2)] inv by simp
next
  case (activate db0 db mid token salt invite pw agent now r7 db')
  then have inv: "managed db" "db_wf db" "managed mid" "db_wf mid" by simp_all
  have db': "db' = snd (activate_account_at sha kdf (\<lambda>_. mid) token salt invite pw agent now db)"
    using activate.hyps by simp
  show ?case unfolding db' using managed_activate [OF inv(1)] activate_wf [OF inv(2)] inv by simp
next
  case (change db0 db mid salt c current next_pw r8 db')
  then have inv: "managed db" "db_wf db" "managed mid" "db_wf mid" by simp_all
  have "managed (snd (change_password kdf (\<lambda>_. mid) salt c current next_pw db))"
    using inv managed_write_password by (simp add: change_password_def split: sum.splits option.splits)
  moreover have "db_wf (snd (change_password kdf (\<lambda>_. mid) salt c current next_pw db))"
    using inv by (intro change_password_wf) simp_all
  ultimately show ?case using change.hyps by simp
next
  case (resolve db0 db token now r9 db')
  then show ?case
    using managed_cong [OF resolve_session_users [of sha token now db]]
      resolve_session_wf [of db sha token now] by simp
next
  case (revoke db0 db token)
  then show ?case
    using managed_cong [of "delete_session sha token db" db] delete_session_wf [of db sha token]
    by (simp add: delete_session_def)
next
  case (prune db0 db now n db')
  then have db': "db' = snd (prune_expired_sessions now db)" by simp
  have "managed db' = managed db" unfolding db' by (rule managed_cong) (simp add: prune_expired_sessions_def)
  moreover have "db_wf db'" unfolding db' using prune.IH prune.prems by (intro prune_sessions_wf) blast
  ultimately show ?case using prune.IH prune.prems by blast
qed

section \<open>Properties\<close>

text \<open>C1
  The library never loses its last administrator. From a database with an active administrator in
  which every active account has a password, no sequence of account operations by anybody, however
  logins, activations and password changes interleave with the rest while passwords are derived,
  leads to a database without an active administrator, or with a broken constraint.
\<close>

theorem admin_never_lost:
  assumes "account_reach sha kdf lp mkdir db0 db" "managed db0" "db_wf db0"
  shows "(\<exists>u \<in> set (users db). u_is_admin u \<and> u_status u = Active \<and> u_pw_hash u \<noteq> None) \<and> db_wf db"
  using account_reach_managed [OF assms(1)] assms(2,3) by (auto simp: managed_def active_admin_def)

definition nowhere :: lib_place where
  "nowhere = \<lparr>lp_platform = Unix, lp_cwd = [RootDir], lp_dir = [RootDir]\<rparr>"

theorem admin_never_lost_witness:
  "(\<exists>u \<in> set (users (snd (delete_user \<lparr>ctx_user_id = lit ''1'', ctx_is_admin = True\<rparr> (lit ''1'') sample_db))).
      u_is_admin u \<and> u_status u = Active \<and> u_pw_hash u \<noteq> None) \<and>
   db_wf (snd (delete_user \<lparr>ctx_user_id = lit ''1'', ctx_is_admin = True\<rparr> (lit ''1'') sample_db))"
proof (rule admin_never_lost)
  show "account_reach utf8_encode (\<lambda>pw salt n. [1]) nowhere (\<lambda>p fs. (Inr (), fs :: unit)) sample_db
      (snd (delete_user \<lparr>ctx_user_id = lit ''1'', ctx_is_admin = True\<rparr> (lit ''1'') sample_db))"
    by (rule account_reach.delete [OF account_reach.start]) (rule prod.collapse [symmetric])
  show "managed sample_db"
    by (simp add: managed_def active_admin_def sample_db_def sample_user_def)
qed (rule sample_db_wf)

text \<open>
  Reissuing an invite kills the old links: only an administrator can, only for a pending account,
  and afterwards exactly one token hash opens that account, the new one's, while every other
  account's links stay as they were. A refusal changes nothing.
\<close>

theorem reissue_single_link:
  assumes "db_wf db" "reissue_invite sha token tid now c uid db = (r, db')"
  shows "case r of
      Inl e \<Rightarrow> db' = db
    | Inr t \<Rightarrow> t = token \<and> ctx_is_admin c \<and>
        (\<exists>u. find_user_by_id db uid = Some u \<and> u_status u = Pending) \<and>
        {h. open_token db' h = Some uid} = {sha token} \<and>
        (\<forall>v. v \<noteq> uid \<longrightarrow> {h. open_token db' h = Some v} = {h. open_token db h = Some v})"
proof (cases r)
  case (Inl e)
  then show ?thesis
    using assms(2) by (auto simp: reissue_invite_def in_tx_def split: sum.splits)
next
  case (Inr t)
  then have adm: "ctx_is_admin c" and tx: "reissue_invite_tx sha token tid now uid db = Inr (t, db')"
    using assms(2)
    by (auto simp: reissue_invite_def in_tx_def require_admin_def split: sum.splits if_splits)
  obtain u where u: "find_user_by_id db uid = Some u" "u_status u = Pending"
      and iss: "issue_activation_token_in sha token tid uid now
             (snd (revoke_activation_tokens_in uid now db)) = Inr (t, db')"
    using reissue_invite_tx_Inr [OF tx] by blast
  have "t = token" using issue_contract [OF iss] by simp
  then show ?thesis
    using Inr adm u invites.reissue_leaves_one [OF assms(1) iss] by auto
qed

theorem reissue_single_link_witness:
  "\<exists>db'. reissue_invite utf8_encode (lit ''n'') (lit ''j'') 6 \<lparr>ctx_user_id = lit ''9'', ctx_is_admin = True\<rparr>
      (lit ''1'') sample_invited = (Inr (lit ''n''), db') \<and>
    {h. open_token db' h = Some (lit ''1'')} = {utf8_encode (lit ''n'')}"
proof -
  have wf: "db_wf sample_invited"
    by (simp add: sample_invited_def empty_db_def sample_user_def wf_defs)
  have "utf8_encode (lit ''k'') \<noteq> utf8_encode (lit ''n'')"
    by (simp add: utf8_encode_def utf8_char_def lit_def)
  then obtain db' where run: "reissue_invite utf8_encode (lit ''n'') (lit ''j'') 6
      \<lparr>ctx_user_id = lit ''9'', ctx_is_admin = True\<rparr> (lit ''1'') sample_invited = (Inr (lit ''n''), db')"
    by (simp add: reissue_invite_def require_admin_def in_tx_def reissue_invite_tx_def require_user_row_def
        find_user_by_id_def sample_invited_def sample_user_def empty_db_def issue_activation_token_in_def
        insert_token_def revoke_activation_tokens_in_def update_where_def has_user_def Let_def)
  show ?thesis using run reissue_single_link [OF wf run] by auto
qed

text \<open>
  Without administrator rights no administration use case does anything: each of them is refused
  with the same error before it reads or writes the database or the disk.
\<close>

theorem admin_rights_required:
  assumes "\<not> ctx_is_admin c"
  shows "list_users c db = Inl (forbidden (lit ''administrator rights are required'')) \<and>
    create_user sha lp mkdir uid token tid now c input db fs =
      (Inl (forbidden (lit ''administrator rights are required'')), db, fs) \<and>
    reissue_invite sha token tid now c uid db =
      (Inl (forbidden (lit ''administrator rights are required'')), db) \<and>
    update_user c uid patch db = (Inl (forbidden (lit ''administrator rights are required'')), db) \<and>
    delete_user c uid db = (Inl (forbidden (lit ''administrator rights are required'')), db)"
  using assms
  by (simp add: list_users_def create_user_def reissue_invite_def update_user_def delete_user_def
      require_admin_def)

theorem admin_rights_required_witness:
  "delete_user \<lparr>ctx_user_id = lit ''1'', ctx_is_admin = False\<rparr> (lit ''1'') sample_db =
     (Inl (forbidden (lit ''administrator rights are required'')), sample_db)"
  by (rule admin_rights_required [THEN conjunct2, THEN conjunct2, THEN conjunct2, THEN conjunct2]) simp

end
