(* ===== verification/Classify.thy ===== *)
theory Classify
  imports Zip_Reader Fs_Io
begin

text \<open>
  What a file is, from its name and, for a \<^verbatim>\<open>.3mf\<close>, its contents:
  \<^verbatim>\<open>crates/spm-core/src/files/classify.rs\<close>. A file is what opening it gives, its bytes or an error.
  Lowercasing a path matters only for the ASCII extensions it is compared with, and no other scalar
  lowercases to a text holding one of their letters alone, so the ASCII fold stands for it.
\<close>

record classification =
  cl_kind :: file_kind
  cl_slicer :: "slicer_id option"
  cl_unreadable :: bool

definition classification_of :: "file_kind \<Rightarrow> slicer_id option \<Rightarrow> classification" where
  "classification_of kind slicer = \<lparr>cl_kind = kind, cl_slicer = slicer, cl_unreadable = False\<rparr>"

section \<open>The slicer a slice\_info.config names\<close>

definition SLICER_HEADER_REGISTRY :: "(str \<times> slicer_id) list" where
  "SLICER_HEADER_REGISTRY =
     [(lit ''X-ACNext-Client-Type'', Anycubic), (lit ''OrcaSlicer-Version'', Orca),
      (lit ''X-BBL-Client-Type'', Bambu)]"

text \<open>\<^verbatim>\<open>char::is_whitespace\<close>, which unlike a JavaScript \<^verbatim>\<open>\s\<close> includes U+0085.\<close>

definition is_whitespace :: "nat \<Rightarrow> bool" where
  "is_whitespace c \<longleftrightarrow>
     (0x9 \<le> c \<and> c \<le> 0xd) \<or> c = 0x20 \<or> c = 0x85 \<or> c = 0xa0 \<or> c = 0x1680 \<or>
     (0x2000 \<le> c \<and> c \<le> 0x200a) \<or> c = 0x2028 \<or> c = 0x2029 \<or> c = 0x202f \<or> c = 0x205f \<or> c = 0x3000"

definition is_js_space :: "nat \<Rightarrow> bool" where
  "is_js_space c \<longleftrightarrow> is_whitespace c \<or> c = 0xfeff"

definition strip_prefix :: "str \<Rightarrow> str \<Rightarrow> str option" where
  "strip_prefix p s = (if starts_with p s then Some (drop (length p) s) else None)"

fun after_first :: "str \<Rightarrow> str \<Rightarrow> str option" where
  "after_first needle [] = (if needle = [] then Some [] else None)"
| "after_first needle (c # s) =
     (case strip_prefix needle (c # s) of Some rest \<Rightarrow> Some rest | None \<Rightarrow> after_first needle s)"

definition TAG :: str where "TAG = lit ''<header_item''"

definition KEY_ATTR :: str where "KEY_ATTR = lit [CHR ''k'', CHR ''e'', CHR ''y'', CHR ''='', CHR 0x22]"

lemma after_first_shorter: "after_first needle s = Some rest \<Longrightarrow> length rest + length needle \<le> length s"
proof (induction needle s rule: after_first.induct)
  case (1 needle)
  then show ?case by (simp split: if_splits)
next
  case (2 needle c s)
  show ?case
  proof (cases "strip_prefix needle (c # s)")
    case None
    with 2 show ?thesis by auto
  next
    case (Some r)
    then have "take (length needle) (c # s) = needle" "r = drop (length needle) (c # s)"
      by (auto simp: strip_prefix_def starts_with_def split: if_splits)
    then have "length needle \<le> length (c # s)" "length r = length (c # s) - length needle"
      by (metis length_take min.bounded_iff order_refl) (use \<open>r = _\<close> in \<open>simp only: length_drop\<close>)
    with Some "2.prems" show ?thesis by simp
  qed
qed

function header_item_keys :: "str \<Rightarrow> str list" where
  "header_item_keys xml =
     (case after_first TAG xml of
        None \<Rightarrow> []
      | Some rest \<Rightarrow>
          let after_space = dropWhile is_js_space rest in
          if length after_space = length rest then header_item_keys rest
          else (case strip_prefix KEY_ATTR after_space of
                  None \<Rightarrow> header_item_keys rest
                | Some quoted \<Rightarrow>
                    let key = takeWhile (\<lambda>c. c \<noteq> 34) quoted in
                    if length key < length quoted \<and> 0 < length key
                    then key # header_item_keys (drop (Suc (length key)) quoted)
                    else header_item_keys rest))"
  by pat_completeness auto
termination
proof (relation "measure length", goal_cases)
  case 1
  then show ?case by simp
next
  case (2 xml rest)
  then show ?case using after_first_shorter [of TAG xml rest] by (simp add: TAG_def)
next
  case (3 xml rest)
  then show ?case using after_first_shorter [of TAG xml rest] by (simp add: TAG_def)
next
  case (4 xml rest after_space quoted key)
  have "length quoted \<le> length rest"
    using 4 length_dropWhile_le [of is_js_space rest]
    by (auto simp: strip_prefix_def split: if_splits)
  then show ?case using 4 after_first_shorter [of TAG xml rest] by (simp add: TAG_def)
next
  case (5 xml rest)
  then show ?case using after_first_shorter [of TAG xml rest] by (simp add: TAG_def)
qed

declare header_item_keys.simps [simp del]

definition slicer_from_slice_info :: "str \<Rightarrow> slicer_id option" where
  "slicer_from_slice_info xml =
     (let keys = header_item_keys xml in
      map_option snd (find (\<lambda>(key, _). key \<in> set keys) SLICER_HEADER_REGISTRY))"

section \<open>Classifying\<close>

text \<open>What opening a path gives: its bytes, read through \<open>os\<close>, or the reason it did not open.\<close>

type_synonym opened = "io_error + bytes"

definition read_entries_of :: "os \<Rightarrow> opened \<Rightarrow> zip_entry list outcome" where
  "read_entries_of os file =
     (case file of Inl e \<Rightarrow> Inl (Failed (app_error_of_io e)) | Inr data \<Rightarrow> read_zip_entries os data)"

definition read_text_of ::
  "(source \<Rightarrow> nat \<Rightarrow> nat \<Rightarrow> 'd) \<Rightarrow> ('d \<Rightarrow> nat \<Rightarrow> (inflate_fault + bytes) \<times> 'd) \<Rightarrow>
   os \<Rightarrow> opened \<Rightarrow> zip_entry \<Rightarrow> str outcome" where
  "read_text_of inflate_new inflate_read os file entry =
     (case file of
        Inl e \<Rightarrow> Inl (Failed (app_error_of_io e))
      | Inr data \<Rightarrow> read_zip_entry_text inflate_new inflate_read (source_open os data) entry)"

definition classify_3mf ::
  "(source \<Rightarrow> nat \<Rightarrow> nat \<Rightarrow> 'd) \<Rightarrow> ('d \<Rightarrow> nat \<Rightarrow> (inflate_fault + bytes) \<times> 'd) \<Rightarrow>
   os \<Rightarrow> opened \<Rightarrow> classification outcome" where
  "classify_3mf inflate_new inflate_read os file =
     (case read_entries_of os file of
        Inl Panic \<Rightarrow> Inl Panic
      | Inl (Failed e) \<Rightarrow>
          Inr (if err_code e = Validation then classification_of OtherFile None
               else (classification_of OtherFile None)\<lparr>cl_unreadable := True\<rparr>)
      | Inr entries \<Rightarrow>
          if list_ex (\<lambda>entry. starts_with (lit ''Cura/'') (ze_name entry)) entries
          then Inr (classification_of SlicerProject (Some Cura))
          else if find_zip_entry entries (lit ''Metadata/Slic3r_PE.config'') \<noteq> None
          then Inr (classification_of SlicerProject (Some Prusaslicer))
          else (case find_zip_entry entries (lit ''Metadata/slice_info.config'') of
                  Some slice_info \<Rightarrow>
                    (case read_text_of inflate_new inflate_read os file slice_info of
                       Inl Panic \<Rightarrow> Inl Panic
                     | Inl (Failed _) \<Rightarrow> Inr (classification_of SlicerProject None)
                     | Inr xml \<Rightarrow>
                         Inr (classification_of SlicerProject (slicer_from_slice_info xml)))
                | None \<Rightarrow>
                    if find_zip_entry entries (lit ''Metadata/project_settings.config'') \<noteq> None
                    then Inr (classification_of SlicerProject None)
                    else Inr (classification_of Model None)))"

definition MODEL_EXTENSIONS :: "str list" where
  "MODEL_EXTENSIONS = [lit ''.stl'', lit ''.obj'', lit ''.step'', lit ''.stp'']"

definition CLASSIFIER_VERSION :: int where "CLASSIFIER_VERSION = 1"

definition classify_file ::
  "(source \<Rightarrow> nat \<Rightarrow> nat \<Rightarrow> 'd) \<Rightarrow> ('d \<Rightarrow> nat \<Rightarrow> (inflate_fault + bytes) \<times> 'd) \<Rightarrow>
   os \<Rightarrow> str \<Rightarrow> opened \<Rightarrow> classification outcome" where
  "classify_file inflate_new inflate_read os path file =
     (let lower = to_ascii_lowercase path in
      if list_ex (\<lambda>ext. ends_with ext lower) MODEL_EXTENSIONS
      then Inr (classification_of Model None)
      else if ends_with (lit ''.3mf'') lower then classify_3mf inflate_new inflate_read os file
      else Inr (classification_of OtherFile None))"

lemma classify_3mf_outcome:
  "\<exists>c. classify_3mf inflate_new inflate_read os file = Inr c \<and>
     (cl_unreadable c \<longleftrightarrow> (\<exists>e. read_entries_of os file = Inl (Failed e) \<and> err_code e \<noteq> Validation)) \<and>
     (cl_unreadable c \<longrightarrow> cl_kind c = OtherFile \<and> cl_slicer c = None)"
proof -
  have dir: "read_entries_of os file \<noteq> Inl Panic"
    using no_panic_read_entries by (auto simp: read_entries_of_def read_zip_entries_def no_panic_def split: sum.splits)
  have part: "read_text_of inflate_new inflate_read os file entry \<noteq> Inl Panic" for entry
  proof -
    have "no_panic (read_zip_entry_text inflate_new inflate_read src entry)" for src
      unfolding read_zip_entry_text_def by (intro no_panics no_panic_simps)
    then show ?thesis by (auto simp: read_text_of_def no_panic_def split: sum.splits)
  qed
  show ?thesis
    using dir part
    by (auto simp: classify_3mf_def classification_of_def split: sum.splits fault.splits option.splits)
qed

lemma classify_file_answers: "\<exists>c. classify_file inflate_new inflate_read os path file = Inr c"
  using classify_3mf_outcome [of inflate_new inflate_read os "file"] by (auto simp: classify_file_def Let_def)

section \<open>Properties\<close>

text \<open>
  Classifying always answers: no contents make it panic. The answer is marked unreadable exactly
  when the name is a \<^verbatim>\<open>.3mf\<close> whose directory could not be read for a reason other than its own
  contents, and then it is the plain fallback; an unopenable file is never mistaken for an
  answer read from its bytes.
\<close>

theorem classify_file_total:
  "\<exists>c. classify_file inflate_new inflate_read os path file = Inr c \<and>
     (cl_unreadable c \<longleftrightarrow>
        \<not> list_ex (\<lambda>ext. ends_with ext (to_ascii_lowercase path)) MODEL_EXTENSIONS \<and>
        ends_with (lit ''.3mf'') (to_ascii_lowercase path) \<and>
        (\<exists>e. read_entries_of os file = Inl (Failed e) \<and> err_code e \<noteq> Validation)) \<and>
     (cl_unreadable c \<longrightarrow> cl_kind c = OtherFile \<and> cl_slicer c = None)"
  using classify_3mf_outcome [of inflate_new inflate_read os "file"]
  by (cases "list_ex (\<lambda>ext. ends_with ext (to_ascii_lowercase path)) MODEL_EXTENSIONS")
    (simp_all add: classify_file_def Let_def classification_of_def)

theorem classify_file_total_witness:
  "\<exists>c. classify_file copy_new copy_read (\<lambda>_. Deliver 1) (lit ''a.3mf'') (Inl (Other_Io (lit ''locked''))) = Inr c \<and>
     cl_unreadable c \<and> cl_kind c = OtherFile"
proof -
  have name: "\<not> list_ex (\<lambda>ext. ends_with ext (to_ascii_lowercase (lit ''a.3mf''))) MODEL_EXTENSIONS"
      "ends_with (lit ''.3mf'') (to_ascii_lowercase (lit ''a.3mf''))"
    by (simp_all add: ends_with_def to_ascii_lowercase_def lit_def MODEL_EXTENSIONS_def)
  have "\<exists>e. read_entries_of (\<lambda>_. Deliver 1) (Inl (Other_Io (lit ''locked''))) = Inl (Failed e) \<and>
      err_code e \<noteq> Validation"
    by (simp add: read_entries_of_def app_error_of_io_def internal_def)
  then show ?thesis
    using classify_file_total [of copy_new copy_read "\<lambda>_. Deliver 1" "lit ''a.3mf''"
        "Inl (Other_Io (lit ''locked''))"] name by metis
qed

end
