(* ===== verification/Disk.thy ===== *)
theory Disk
  imports Paths
begin

text \<open>
  The part of \<^verbatim>\<open>std::fs\<close> the file use cases rest on. A \<open>disk\<close> maps a path to what is there; a fault
  argument says whether the operating system refuses an operation. \<open>mtime_ms\<close> is
  \<^verbatim>\<open>crates/spm-core/src/files/mod.rs\<close>. The locale \<open>exclusive_create\<close> is what an upload relies on:
  a file it created is its own, and removing it undoes the creation.
\<close>

datatype node = File bytes int | Folder

type_synonym disk = "path \<Rightarrow> node option"

definition exists_on :: "disk \<Rightarrow> path \<Rightarrow> bool" where
  "exists_on d p \<longleftrightarrow> d p \<noteq> None"

text \<open>\<^verbatim>\<open>OpenOptions::create_new\<close>: only the two refusals the caller tells apart.\<close>

datatype create_error = AlreadyExists | Create_Io io_error

definition create_new :: "io_error option \<Rightarrow> path \<Rightarrow> disk \<Rightarrow> (create_error + unit) \<times> disk" where
  "create_new refusal p d =
     (case refusal of
        Some e \<Rightarrow> (Inl (Create_Io e), d)
      | None \<Rightarrow>
          if exists_on d p then (Inl AlreadyExists, d) else (Inr (), d(p \<mapsto> File [] 0)))"

text \<open>What the open handle wrote: the file holds these bytes, modified at \<open>mtime\<close>.\<close>

definition written :: "path \<Rightarrow> bytes \<Rightarrow> int \<Rightarrow> disk \<Rightarrow> disk" where
  "written p bs mtime d = d(p \<mapsto> File bs mtime)"

datatype remove_error = Absent | Remove_Io io_error

definition remove_file :: "io_error option \<Rightarrow> path \<Rightarrow> disk \<Rightarrow> (remove_error + unit) \<times> disk" where
  "remove_file refusal p d =
     (case (refusal, d p) of
        (Some e, _) \<Rightarrow> (Inl (Remove_Io e), d)
      | (None, None) \<Rightarrow> (Inl Absent, d)
      | (None, Some Folder) \<Rightarrow> (Inl (Remove_Io (Other_Io (lit ''Is a directory''))), d)
      | (None, Some (File _ _)) \<Rightarrow> (Inr (), d(p := None)))"

text \<open>\<^verbatim>\<open>fs::rename\<close> of a file: the target is replaced when it is a file.\<close>

definition rename_on :: "io_error option \<Rightarrow> path \<Rightarrow> path \<Rightarrow> disk \<Rightarrow> (io_error + unit) \<times> disk" where
  "rename_on refusal old new d =
     (case (refusal, d old) of
        (Some e, _) \<Rightarrow> (Inl e, d)
      | (None, None) \<Rightarrow> (Inl (Other_Io (lit ''entity not found'')), d)
      | (None, Some n) \<Rightarrow>
          if d new = Some Folder then (Inl (Other_Io (lit ''Is a directory'')), d)
          else (Inr (), (d(old := None))(new \<mapsto> n)))"

text \<open>\<^verbatim>\<open>fs::metadata\<close> of a file: its length and its modification time in nanoseconds, if it has one.\<close>

definition file_bytes :: "disk \<Rightarrow> path \<Rightarrow> (bytes \<times> int) option" where
  "file_bytes d p = (case d p of Some (File bs t) \<Rightarrow> Some (bs, t) | _ \<Rightarrow> None)"

section \<open>Modification times\<close>

definition i64_max :: int where "i64_max = 9223372036854775807"

definition saturating_i64 :: "int \<Rightarrow> int" where
  "saturating_i64 n = max (- i64_max - 1) (min i64_max n)"

text \<open>A time in nanoseconds since 1970 as milliseconds.\<close>

definition mtime_ms :: "int option \<Rightarrow> int" where
  "mtime_ms modified =
     (case modified of
        None \<Rightarrow> 0
      | Some t \<Rightarrow>
          if 0 \<le> t then min i64_max ((t + 500000) div 1000000)
          else - min i64_max (- ((- max 0 (- t - 500000)) div 1000000)))"

lemma mtime_ms_rounds:
  assumes "\<bar>t\<bar> \<le> 9223372036854774000 * 1000000"
  shows "mtime_ms (Some t) = (t + 500000) div 1000000"
proof (cases "0 \<le> t")
  case True
  then show ?thesis using assms by (simp add: mtime_ms_def i64_max_def)
next
  case False
  show ?thesis
  proof (cases "- t - 500000 \<ge> 0")
    case True
    then have "- max 0 (- t - 500000) = t + 500000" by simp
    moreover have "- i64_max \<le> (t + 500000) div 1000000" using assms by (simp add: i64_max_def)
    ultimately show ?thesis using False by (simp add: mtime_ms_def)
  next
    case small: False
    then have "max 0 (- t - 500000) = 0" "(t + 500000) div 1000000 = 0" using False by simp_all
    then show ?thesis using False by (simp add: mtime_ms_def i64_max_def)
  qed
qed

section \<open>What an upload relies on\<close>

locale exclusive_create =
  fixes stored :: "'d \<Rightarrow> 'p \<Rightarrow> 'n option"
    and content :: "'v \<Rightarrow> 'n"
    and create :: "'p \<Rightarrow> 'd \<Rightarrow> 'd option"
    and fill :: "'p \<Rightarrow> 'v \<Rightarrow> 'd \<Rightarrow> 'd"
    and remove :: "'p \<Rightarrow> 'd \<Rightarrow> 'd"
  assumes create_only_free: "create p d = Some d' \<Longrightarrow> stored d p = None"
    and create_elsewhere: "create p d = Some d' \<Longrightarrow> q \<noteq> p \<Longrightarrow> stored d' q = stored d q"
    and stored_fill: "stored (fill p v d) q = (if q = p then Some (content v) else stored d q)"
    and stored_remove: "stored d p = Some (content v) \<Longrightarrow>
          stored (remove p d) q = (if q = p then None else stored d q)"
begin

text \<open>Of two creations of one name the second fails.\<close>

lemma one_winner:
  assumes "create p d = Some d1"
  shows "create p (fill p v d1) = None"
proof (cases "create p (fill p v d1)")
  case (Some d2)
  then have "stored (fill p v d1) p = None" by (rule create_only_free)
  then show ?thesis by (simp add: stored_fill)
qed simp

lemma kept:
  assumes "create p d = Some d1"
  shows "stored (fill p v d1) q = (if q = p then Some (content v) else stored d q)"
  using create_elsewhere [OF assms] by (simp add: stored_fill)

text \<open>Creating, writing and removing leaves everything as it was found.\<close>

lemma undone:
  assumes "create p d = Some d1"
  shows "stored (remove p (fill p v d1)) q = stored d q"
  using create_only_free [OF assms] create_elsewhere [OF assms] stored_remove [of "fill p v d1" p v]
  by (simp add: stored_fill)

end

definition try_create :: "path \<Rightarrow> disk \<Rightarrow> disk option" where
  "try_create p d = (case create_new None p d of (Inr _, d') \<Rightarrow> Some d' | (Inl _, _) \<Rightarrow> None)"

interpretation new_file: exclusive_create
  "\<lambda>d p. d p" "\<lambda>(bs, t). File bs t" try_create "\<lambda>p (bs, t). written p bs t" "\<lambda>p d. snd (remove_file None p d)"
  by unfold_locales
    (auto simp: try_create_def create_new_def exists_on_def written_def remove_file_def split: if_splits)

end
