(* ===== verification/Projects.thy ===== *)
theory Projects
  imports Queries Users Classify Disk
begin

text \<open>
  The project use cases, \<^verbatim>\<open>crates/spm-core/src/projects/usecases.rs\<close>. The file system is a state
  \<open>'fs\<close> with the operations the code calls as arguments; \<open>tick n\<close> is the \<open>n\<close>-th reading of the clock in
  a call; \<open>env\<close> is what happens between two sections under the database lock. Log lines are not
  modelled. Properties: the folder a new project gets, the search for a free name, isolation between
  owners, and what becomes of tags.
\<close>

section \<open>Folder names\<close>

definition reserved_char :: "nat \<Rightarrow> bool" where
  "reserved_char c \<longleftrightarrow> c \<in> {92, 47, 58, 42, 63, 34, 60, 62, 124}"

fun collapse_spaces :: "bool \<Rightarrow> str \<Rightarrow> str" where
  "collapse_spaces in_space [] = []"
| "collapse_spaces in_space (c # s) =
     (if is_js_space c then (if in_space then [] else [32]) @ collapse_spaces True s
      else c # collapse_spaces False s)"

definition sanitize_dir_name :: "str \<Rightarrow> str" where
  "sanitize_dir_name name =
     (let replaced = map (\<lambda>c. if reserved_char c then 45 else c) name;
          collapsed = collapse_spaces False replaced;
          trimmed = trim_matches (\<lambda>c. c = 46 \<or> c = 45 \<or> is_js_space c) collapsed;
          cleaned = take 120 trimmed in
      if cleaned = [] then lit ''project'' else cleaned)"

definition numbered :: "str \<Rightarrow> nat \<Rightarrow> str" where
  "numbered base n = base @ lit '' ('' @ dec_str n @ lit '')''"

definition dir_taken :: "ctx \<Rightarrow> db \<Rightarrow> str \<Rightarrow> bool" where
  "dir_taken c db candidate \<longleftrightarrow>
     list_ex (\<lambda>p. p_owner_id p = ctx_user_id c \<and> p_dir_name p = candidate) (projects db)"

partial_function (option) unique_loop :: "(str \<Rightarrow> bool) \<Rightarrow> str \<Rightarrow> str \<Rightarrow> nat \<Rightarrow> str option" where
  "unique_loop taken base candidate n =
     (if taken candidate then unique_loop taken base (numbered base n) (Suc n) else Some candidate)"

definition unique_dir_name :: "ctx \<Rightarrow> str \<Rightarrow> db \<Rightarrow> str option" where
  "unique_dir_name c base db = unique_loop (dir_taken c db) base base 2"

section \<open>Tags\<close>

definition touch_project :: "str \<Rightarrow> int \<Rightarrow> db \<Rightarrow> db" where
  "touch_project pid now db =
     db\<lparr>projects := update_where (\<lambda>p. p_id p = pid) (\<lambda>p. p\<lparr>p_updated_at := now\<rparr>) (projects db)\<rparr>"

definition next_tag_id :: "db \<Rightarrow> nat" where
  "next_tag_id db = Suc (fold max (map tg_id (tags db)) 0)"

definition insert_tag :: "str \<Rightarrow> str \<Rightarrow> db \<Rightarrow> (nat \<times> db) result" where
  "insert_tag owner name db =
     (if list_ex (\<lambda>t. tg_owner_id t = owner \<and> nocase_eq (tg_name t) name) (tags db)
      then Inl (unique_failed (lit ''tags.owner_id, tags.name''))
      else if \<not> has_user owner db then Inl foreign_key_failed
      else Inr (next_tag_id db,
             db\<lparr>tags := tags db @ [\<lparr>tg_id = next_tag_id db, tg_owner_id = owner, tg_name = name\<rparr>]\<rparr>))"

definition link_tag :: "str \<Rightarrow> nat \<Rightarrow> db \<Rightarrow> db" where
  "link_tag pid tid db =
     (if list_ex (\<lambda>r. pt_project_id r = pid \<and> pt_tag_id r = tid) (project_tags db) then db
      else db\<lparr>project_tags := project_tags db @ [\<lparr>pt_project_id = pid, pt_tag_id = tid\<rparr>]\<rparr>)"

definition add_tag_in :: "ctx \<Rightarrow> str \<Rightarrow> str \<Rightarrow> int \<Rightarrow> db \<Rightarrow> db result" where
  "add_tag_in c pid name now db =
     bindE (require_project_row c pid db) (\<lambda>_.
       let trimmed = js_trim name in
       if trimmed = [] then Inr db
       else
         bindE (case find (\<lambda>t. tg_owner_id t = ctx_user_id c \<and> nocase_eq (tg_name t) trimmed) (tags db) of
                  Some t \<Rightarrow> Inr (tg_id t, db)
                | None \<Rightarrow> insert_tag (ctx_user_id c) trimmed db) (\<lambda>(tid, db1).
           Inr (touch_project pid now (link_tag pid tid db1))))"

fun add_tags_in :: "ctx \<Rightarrow> str \<Rightarrow> str list \<Rightarrow> (nat \<Rightarrow> int) \<Rightarrow> db \<Rightarrow> db result" where
  "add_tags_in c pid [] tick db = Inr db"
| "add_tags_in c pid (tag # rest) tick db =
     bindE (add_tag_in c pid tag (tick 0) db) (\<lambda>db'. add_tags_in c pid rest (\<lambda>n. tick (Suc n)) db')"

definition add_tag :: "ctx \<Rightarrow> str \<Rightarrow> str \<Rightarrow> int \<Rightarrow> db \<Rightarrow> unit result \<times> db" where
  "add_tag c pid name now db =
     in_tx (\<lambda>db. bindE (add_tag_in c pid name now db) (\<lambda>db'. Inr ((), db'))) db"

definition unlink_tag :: "ctx \<Rightarrow> str \<Rightarrow> str \<Rightarrow> db \<Rightarrow> db" where
  "unlink_tag c pid name db =
     db\<lparr>project_tags := delete_where (\<lambda>r. pt_project_id r = pid \<and>
          list_ex (\<lambda>t. tg_owner_id t = ctx_user_id c \<and> nocase_eq (tg_name t) name \<and> tg_id t = pt_tag_id r)
            (tags db)) (project_tags db)\<rparr>"

definition remove_tag :: "ctx \<Rightarrow> str \<Rightarrow> str \<Rightarrow> int \<Rightarrow> db \<Rightarrow> unit result \<times> db" where
  "remove_tag c pid name now db =
     in_tx (\<lambda>db. bindE (require_project_row c pid db) (\<lambda>_.
       let db1 = unlink_tag c pid (js_trim name) db;
           db2 = delete_tags (\<lambda>t. tg_owner_id t = ctx_user_id c \<and>
                   \<not> list_ex (\<lambda>r. pt_tag_id r = tg_id t) (project_tags db1)) db1
       in Inr ((), touch_project pid now db2))) db"

section \<open>Projects\<close>

definition new_project_row ::
  "str \<Rightarrow> ctx \<Rightarrow> create_project_input \<Rightarrow> str \<Rightarrow> int \<Rightarrow> project_row" where
  "new_project_row pid c input dir_name now =
     \<lparr>p_id = pid, p_owner_id = ctx_user_id c, p_name = cpi_name input, p_dir_name = dir_name,
      p_website = cpi_website input, p_notes = cpi_notes input, p_is_archived = False,
      p_state = ProjOk, p_created_at = now, p_updated_at = now\<rparr>"

definition lib_project_dir :: "lib_place \<Rightarrow> str \<Rightarrow> str \<Rightarrow> path result" where
  "lib_project_dir lp library_dir dir_name =
     project_dir (lp_platform lp) (lp_cwd lp) (lp_dir lp) library_dir dir_name"

text \<open>\<open>None\<close> when the search for a free folder name does not return.\<close>

definition create_project_tx ::
  "lib_place \<Rightarrow> 'fs mkdir \<Rightarrow> str \<Rightarrow> (nat \<Rightarrow> int) \<Rightarrow> ctx \<Rightarrow> create_project_input \<Rightarrow>
   db \<Rightarrow> 'fs \<Rightarrow> ((app_error + str \<times> db) \<times> 'fs) option" where
  "create_project_tx lp mkdir pid tick c input db fs =
     (case require_user_row db (ctx_user_id c) of
        Inl e \<Rightarrow> Some (Inl e, fs)
      | Inr u \<Rightarrow>
          (case unique_dir_name c (sanitize_dir_name (cpi_name input)) db of
             None \<Rightarrow> None
           | Some dir_name \<Rightarrow>
               (case make_dir mkdir (lib_project_dir lp (u_library_dir u) dir_name) fs of
                  (Inl e, fs') \<Rightarrow> Some (Inl e, fs')
                | (Inr _, fs') \<Rightarrow>
                    Some (bindE (insert_project (new_project_row pid c input dir_name (tick 0)) db) (\<lambda>db1.
                          bindE (add_tags_in c pid (or_default [] (cpi_tags input)) (\<lambda>n. tick (Suc n)) db1)
                            (\<lambda>db2. Inr (dir_name, db2))), fs'))))"

definition create_project ::
  "(str \<Rightarrow> url option) \<Rightarrow> lib_place \<Rightarrow> 'fs mkdir \<Rightarrow> (db \<Rightarrow> db) \<Rightarrow> str \<Rightarrow> (nat \<Rightarrow> int) \<Rightarrow> ctx \<Rightarrow>
   create_project_input \<Rightarrow> db \<Rightarrow> 'fs \<Rightarrow> (core_project_dto result \<times> db \<times> 'fs) option" where
  "create_project parse_url lp mkdir env pid tick c input db fs =
     (case validated (validate_create_project parse_url input) of
        Inl e \<Rightarrow> Some (Inl e, db, fs)
      | Inr input \<Rightarrow>
          map_option (\<lambda>(r, fs').
            case r of
              Inl e \<Rightarrow> (Inl e, db, fs')
            | Inr (_, db1) \<Rightarrow>
                (bindE (get_project_in c pid (env db1)) (\<lambda>d. Inr (cd_project d)), env db1, fs'))
            (create_project_tx lp mkdir pid tick c input db fs))"

definition patch_project :: "project_patch \<Rightarrow> int \<Rightarrow> project_row \<Rightarrow> project_row" where
  "patch_project patch now p =
     p\<lparr>p_name := or_default (p_name p) (ppa_name patch),
       p_website := or_default (p_website p) (ppa_website patch),
       p_notes := or_default (p_notes p) (ppa_notes patch),
       p_is_archived := or_default (p_is_archived p) (ppa_is_archived patch),
       p_updated_at := now\<rparr>"

definition update_project_unchecked ::
  "ctx \<Rightarrow> str \<Rightarrow> project_patch \<Rightarrow> int \<Rightarrow> db \<Rightarrow> core_project_dto result \<times> db" where
  "update_project_unchecked c pid patch now db =
     (case require_project_row c pid db of
        Inl e \<Rightarrow> (Inl e, db)
      | Inr _ \<Rightarrow>
          let nothing = (ppa_name patch = None \<and> ppa_website patch = None \<and> ppa_notes patch = None \<and>
                         ppa_is_archived patch = None);
              db1 = (if nothing then db
                     else db\<lparr>projects := update_where
                            (\<lambda>p. p_id p = pid \<and> p_owner_id p = ctx_user_id c)
                            (patch_project patch now) (projects db)\<rparr>)
          in (bindE (get_project_in c pid db1) (\<lambda>d. Inr (cd_project d)), db1))"

definition update_project ::
  "(str \<Rightarrow> url option) \<Rightarrow> ctx \<Rightarrow> str \<Rightarrow> project_patch \<Rightarrow> int \<Rightarrow> db \<Rightarrow> core_project_dto result \<times> db" where
  "update_project parse_url c pid patch now db =
     (case validated (validate_project_patch parse_url patch) of
        Inl e \<Rightarrow> (Inl e, db)
      | Inr patch \<Rightarrow> update_project_unchecked c pid patch now db)"

type_synonym 'fs remover = "path \<Rightarrow> 'fs \<Rightarrow> (remove_error + unit) \<times> 'fs"

text \<open>A removal that counts an absent target as removed.\<close>

definition remove_present :: "'fs remover \<Rightarrow> path \<Rightarrow> 'fs \<Rightarrow> unit result \<times> 'fs" where
  "remove_present rm p fs =
     (case rm p fs of
        (Inl (Remove_Io e), fs') \<Rightarrow> (Inl (app_error_of_io e), fs')
      | (_, fs') \<Rightarrow> (Inr (), fs'))"

definition delete_project ::
  "lib_place \<Rightarrow> 'fs remover \<Rightarrow> (db \<Rightarrow> db) \<Rightarrow> ctx \<Rightarrow> str \<Rightarrow> bool \<Rightarrow> db \<Rightarrow> 'fs \<Rightarrow>
   unit result \<times> db \<times> 'fs" where
  "delete_project lp rm_dir_all env c pid delete_disk db fs =
     (case bindE (require_project_row c pid db) (\<lambda>p.
             bindE (require_user_row db (ctx_user_id c)) (\<lambda>u. Inr (p, u_library_dir u))) of
        Inl e \<Rightarrow> (Inl e, db, fs)
      | Inr (p, library_dir) \<Rightarrow>
          (case (if delete_disk
                 then (case lib_project_dir lp library_dir (p_dir_name p) of
                         Inl e \<Rightarrow> (Inl e, fs)
                       | Inr d \<Rightarrow> remove_present rm_dir_all d fs)
                 else (Inr (), fs)) of
             (Inl e, fs') \<Rightarrow> (Inl e, env db, fs')
           | (Inr _, fs') \<Rightarrow>
               (Inr (), delete_projects (\<lambda>q. p_id q = pid \<and> p_owner_id q = ctx_user_id c) (env db), fs')))"

section \<open>The folder of a new project\<close>

lemma set_collapse: "c \<in> set (collapse_spaces b s) \<Longrightarrow> c = 32 \<or> c \<in> set s"
  by (induction b s rule: collapse_spaces.induct) (auto split: if_splits)

lemma set_trim_matches: "set (trim_matches p xs) \<subseteq> set xs"
  by (auto simp: trim_matches_def dest!: set_dropWhileD)

lemma hd_trim_matches:
  assumes "trim_matches p xs \<noteq> []"
  shows "\<not> p (hd (trim_matches p xs))"
proof -
  let ?ys = "dropWhile p xs"
  obtain zs where zs: "?ys = trim_matches p xs @ zs"
    unfolding trim_matches_def
    by (metis rev_append rev_rev_ident takeWhile_dropWhile_id)
  then have "hd (trim_matches p xs) = hd ?ys" "?ys \<noteq> []" using assms by simp_all
  then show ?thesis using hd_dropWhile by metis
qed

lemma sanitized:
  "sanitize_dir_name name \<noteq> [] \<and> length (sanitize_dir_name name) \<le> 120 \<and>
   hd (sanitize_dir_name name) \<noteq> 46 \<and> (\<forall>c \<in> set (sanitize_dir_name name). \<not> reserved_char c)"
proof -
  let ?p = "\<lambda>c. c = 46 \<or> c = 45 \<or> is_js_space c"
  define t where "t = trim_matches ?p
      (collapse_spaces False (map (\<lambda>c. if reserved_char c then 45 else c) name))"
  have chars: "\<not> reserved_char c" if "c \<in> set t" for c
    using that set_trim_matches [of ?p] set_collapse
    by (fastforce simp: t_def reserved_char_def)
  have s: "sanitize_dir_name name = (if take 120 t = [] then lit ''project'' else take 120 t)"
    by (simp add: sanitize_dir_name_def t_def Let_def)
  show ?thesis
  proof (cases "take 120 t = []")
    case True
    then show ?thesis by (simp add: s lit_def reserved_char_def)
  next
    case False
    then have "t \<noteq> []" by auto
    then have "hd (take 120 t) \<noteq> 46" using hd_trim_matches [of ?p] by (auto simp: t_def)
    then show ?thesis using False chars in_set_takeD [of _ 120 t] by (auto simp: s)
  qed
qed

lemma dec_str_inj: "dec_str m = dec_str n \<Longrightarrow> m = n"
  using dec_str_value by metis

lemma numbered_inj: "numbered base m = numbered base n \<Longrightarrow> m = n"
  by (auto simp: numbered_def dest: dec_str_inj)

lemma unique_loop_numbered:
  "\<not> taken (numbered base (n + d)) \<Longrightarrow>
     \<exists>m \<ge> n. unique_loop taken base (numbered base n) (Suc n) = Some (numbered base m) \<and>
        \<not> taken (numbered base m) \<and> (\<forall>k. n \<le> k \<and> k < m \<longrightarrow> taken (numbered base k))"
proof (induction d arbitrary: n)
  case 0
  then show ?case by (intro exI [of _ n]) (auto simp: unique_loop.simps)
next
  case (Suc d)
  show ?case
  proof (cases "taken (numbered base n)")
    case False
    then show ?thesis by (intro exI [of _ n]) (auto simp: unique_loop.simps)
  next
    case True
    obtain m where "Suc n \<le> m"
        "unique_loop taken base (numbered base (Suc n)) (Suc (Suc n)) = Some (numbered base m)"
        "\<not> taken (numbered base m)" "\<forall>k. Suc n \<le> k \<and> k < m \<longrightarrow> taken (numbered base k)"
      using Suc.IH [of "Suc n"] Suc.prems by auto
    moreover from this have "taken (numbered base k)" if "n \<le> k" "k < m" for k
      using True that by (cases "k = n") auto
    ultimately show ?thesis
      using True by (intro exI [of _ m]) (auto simp: unique_loop.simps [of taken base "numbered base n"])
  qed
qed

lemma free_number: "\<exists>d. \<not> dir_taken c db (numbered base (2 + d))"
proof (rule ccontr)
  assume "\<not> ?thesis"
  then have "(\<lambda>d. numbered base (2 + d)) ` UNIV \<subseteq> p_dir_name ` set (projects db)"
    by (auto simp: dir_taken_def list_ex_iff image_iff) metis
  then have "finite ((\<lambda>d. numbered base (2 + d)) ` (UNIV :: nat set))"
    by (rule finite_subset) simp
  moreover have "inj (\<lambda>d. numbered base (2 + d))"
    by (rule injI) (auto dest: numbered_inj)
  ultimately show False using finite_imageD by blast
qed

lemma unique_dir_name_spec:
  "\<exists>dir. unique_dir_name c base db = Some dir \<and> \<not> dir_taken c db dir \<and>
     (dir = base \<or> dir_taken c db base \<and>
        (\<exists>m \<ge> 2. dir = numbered base m \<and> (\<forall>k. 2 \<le> k \<and> k < m \<longrightarrow> dir_taken c db (numbered base k))))"
proof (cases "dir_taken c db base")
  case False
  then show ?thesis by (simp add: unique_dir_name_def unique_loop.simps)
next
  case True
  obtain d where "\<not> dir_taken c db (numbered base (2 + d))" using free_number by blast
  from unique_loop_numbered [of "dir_taken c db", OF this] True show ?thesis
    by (auto simp: unique_dir_name_def unique_loop.simps [of "dir_taken c db" base base] numeral_3_eq_3
        numeral_2_eq_2)
qed

lemma plain_extended:
  assumes "base \<noteq> []" "hd base \<noteq> 46" "\<forall>c \<in> set base. \<not> reserved_char c"
  shows "plain_part base" "\<not> has_drive base" "plain_part (numbered base n)" "\<not> has_drive (numbered base n)"
proof -
  have slash: "\<not> is_slash c" if "\<not> reserved_char c" for c
    using that by (auto simp: is_slash_def reserved_char_def)
  have plain: "plain_part v" if "v \<noteq> []" "hd v \<noteq> 46" "\<forall>c \<in> set v. \<not> reserved_char c" for v
    using that slash by (auto simp: plain_part_def lit_def)
  have drive: "\<not> has_drive v" if "\<forall>c \<in> set v. \<not> reserved_char c" for v
    using that by (auto simp: has_drive_def reserved_char_def split: list.splits)
  have "\<not> reserved_char c" if "48 \<le> c" "c \<le> 57" for c
    using that by (simp add: reserved_char_def)
  then have digits: "\<forall>c \<in> set (dec_str n). \<not> reserved_char c" using dec_str_digits [of n] by blast
  have parens: "\<forall>c \<in> set (lit '' ('') \<union> set (lit '')''). \<not> reserved_char c"
    by (simp add: lit_def reserved_char_def)
  have num: "\<forall>c \<in> set (numbered base n). \<not> reserved_char c"
    using assms(3) digits parens unfolding numbered_def set_append by blast
  have num0: "numbered base n \<noteq> []" "hd (numbered base n) \<noteq> 46"
    using assms(1,2) by (simp_all add: numbered_def)
  show "plain_part base" using assms by (rule plain)
  show "\<not> has_drive base" using assms(3) by (rule drive)
  show "plain_part (numbered base n)" using num0 num by (rule plain)
  show "\<not> has_drive (numbered base n)" using num by (rule drive)
qed

text \<open>C11
  Whatever a project is called, the search for its folder name ends, with the sanitised name if it
  is free and otherwise with the first free numbered one, never a name another of the owner's
  projects has; and that name is a single plain directory entry, so the folder lies directly in the
  owner's root on either platform.
\<close>

theorem new_project_folder:
  assumes "absolute_path root"
  shows "\<exists>dir. unique_dir_name c (sanitize_dir_name name) db = Some dir \<and> \<not> dir_taken c db dir \<and>
     (dir = sanitize_dir_name name \<or>
        (\<exists>m \<ge> 2. dir = numbered (sanitize_dir_name name) m \<and> dir_taken c db (sanitize_dir_name name) \<and>
           (\<forall>k. 2 \<le> k \<and> k < m \<longrightarrow> dir_taken c db (numbered (sanitize_dir_name name) k)))) \<and>
     safe_join pl cwd root [dir] = Inr (root @ [Normal dir])"
proof -
  let ?base = "sanitize_dir_name name"
  obtain dir where dir: "unique_dir_name c ?base db = Some dir" "\<not> dir_taken c db dir"
      "dir = ?base \<or> dir_taken c db ?base \<and>
        (\<exists>m \<ge> 2. dir = numbered ?base m \<and> (\<forall>k. 2 \<le> k \<and> k < m \<longrightarrow> dir_taken c db (numbered ?base k)))"
    using unique_dir_name_spec by blast
  have "plain_part dir \<and> \<not> has_drive dir"
    using dir(3) sanitized [of name] plain_extended [of ?base] by auto
  then have "safe_join pl cwd root [dir] = Inr (root @ [Normal dir])"
    using safe_join_plain [OF assms] by blast
  with dir show ?thesis by blast
qed

theorem new_project_folder_witness:
  "\<exists>dir. unique_dir_name \<lparr>ctx_user_id = lit ''1'', ctx_is_admin = False\<rparr>
      (sanitize_dir_name (lit ''../a:b'')) sample_shelf = Some dir \<and>
     safe_join Windows [] [RootDir] [dir] = Inr [RootDir, Normal dir]"
  using new_project_folder [of "[RootDir]" "\<lparr>ctx_user_id = lit ''1'', ctx_is_admin = False\<rparr>"
      "lit ''../a:b''" sample_shelf Windows "[]"]
  by (auto simp: absolute_path_def)

section \<open>Tags keep the constraints\<close>

lemma require_project_row_Inr:
  "require_project_row c pid db = Inr p \<Longrightarrow>
     p \<in> set (projects db) \<and> p_id p = pid \<and> p_owner_id p = ctx_user_id c"
  by (auto simp: require_project_row_def split: option.splits dest: find_Some_set)

lemma fold_max_ge: "x \<in> set xs \<Longrightarrow> x \<le> fold max xs (a :: nat)" "a \<le> fold max xs a"
proof -
  have "a \<le> fold max xs a \<and> (\<forall>x \<in> set xs. x \<le> fold max xs a)" for a :: nat
    by (induction xs arbitrary: a) (auto intro: le_trans [OF max.cobounded1] le_trans [OF max.cobounded2])
  then show "x \<in> set xs \<Longrightarrow> x \<le> fold max xs a" "a \<le> fold max xs a" by blast+
qed

lemma next_tag_id_fresh: "t \<in> set (tags db) \<Longrightarrow> tg_id t \<noteq> next_tag_id db"
  using fold_max_ge(1) [of "tg_id t" "map tg_id (tags db)" 0] by (auto simp: next_tag_id_def)

lemma insert_tag_wf [invariants]:
  assumes "insert_tag owner name db = Inr (tid, db')" "db_wf db"
  shows "db_wf db'"
proof -
  have db': "db' = db\<lparr>tags := tags db @ [\<lparr>tg_id = next_tag_id db, tg_owner_id = owner, tg_name = name\<rparr>]\<rparr>"
    and new: "\<not> list_ex (\<lambda>t. tg_owner_id t = owner \<and> nocase_eq (tg_name t) name) (tags db)"
    and owner: "has_user owner db"
    using assms(1) by (auto simp: insert_tag_def split: if_splits)
  have "(owner, to_ascii_lowercase name) \<notin> (\<lambda>t. (tg_owner_id t, to_ascii_lowercase (tg_name t))) ` set (tags db)"
    using new by (auto simp: list_ex_iff nocase_eq_def)
  moreover have "next_tag_id db \<notin> tg_id ` set (tags db)" using next_tag_id_fresh by (metis imageE)
  ultimately show ?thesis
    using assms(2) owner unfolding db' by (simp add: wf_defs has_user_ids subset_insertI2)
qed

lemma link_tag_wf [invariants]:
  assumes "db_wf db" "pid \<in> project_ids db" "tid \<in> tg_id ` set (tags db)"
  shows "db_wf (link_tag pid tid db)"
  using assms by (simp add: link_tag_def list_ex_pair wf_defs)

lemma touch_project_wf [invariants]: "db_wf db \<Longrightarrow> db_wf (touch_project pid now db)"
  unfolding touch_project_def by (rule update_projects_wf) simp_all

text \<open>What adding a tag does: nothing, or a link to an existing or a new tag of the owner.\<close>

lemma add_tag_in_Inr:
  assumes "add_tag_in c pid name now db = Inr db'"
  shows "\<exists>p. require_project_row c pid db = Inr p \<and>
     (db' = db \<or> (\<exists>t \<in> set (tags db). tg_owner_id t = ctx_user_id c \<and>
                    db' = touch_project pid now (link_tag pid (tg_id t) db)) \<or>
      (\<exists>tid db1. insert_tag (ctx_user_id c) (js_trim name) db = Inr (tid, db1) \<and>
         db' = touch_project pid now (link_tag pid tid db1)))"
  using assms
  by (auto simp: add_tag_in_def Let_def result_iffs split: if_splits option.splits dest: find_Some_set)

lemma insert_tag_Inr:
  "insert_tag owner name db = Inr (tid, db') \<Longrightarrow>
     db' = db\<lparr>tags := tags db @ [\<lparr>tg_id = tid, tg_owner_id = owner, tg_name = name\<rparr>]\<rparr>"
  by (auto simp: insert_tag_def split: if_splits)

lemma add_tag_in_wf [invariants]:
  assumes "add_tag_in c pid name now db = Inr db'" "db_wf db"
  shows "db_wf db'"
proof -
  obtain p where p: "require_project_row c pid db = Inr p"
    and cases: "db' = db \<or> (\<exists>t \<in> set (tags db). tg_owner_id t = ctx_user_id c \<and>
                    db' = touch_project pid now (link_tag pid (tg_id t) db)) \<or>
      (\<exists>tid db1. insert_tag (ctx_user_id c) (js_trim name) db = Inr (tid, db1) \<and>
         db' = touch_project pid now (link_tag pid tid db1))"
    using add_tag_in_Inr [OF assms(1)] by blast
  have pid: "pid \<in> project_ids db"
    using require_project_row_Inr [OF p] by (auto simp: project_ids_def)
  from cases show ?thesis
  proof (elim disjE exE bexE conjE)
    assume "db' = db"
    then show ?thesis using assms(2) by simp
  next
    fix t assume "t \<in> set (tags db)" "db' = touch_project pid now (link_tag pid (tg_id t) db)"
    then show ?thesis using assms(2) pid by (simp add: touch_project_wf link_tag_wf)
  next
    fix tid db1
    assume ins: "insert_tag (ctx_user_id c) (js_trim name) db = Inr (tid, db1)"
      and db': "db' = touch_project pid now (link_tag pid tid db1)"
    have "db_wf (link_tag pid tid db1)"
      using insert_tag_wf [OF ins assms(2)] insert_tag_Inr [OF ins] pid
      by (intro link_tag_wf) (auto simp: project_ids_def)
    then show ?thesis unfolding db' by (rule touch_project_wf)
  qed
qed

section \<open>What belongs to others\<close>

text \<open>The part of the database that is not the user's own projects, files, previews and tags.\<close>

definition others :: "str \<Rightarrow> db \<Rightarrow> db" where
  "others uid db =
     (let ps = filter (\<lambda>p. p_owner_id p \<noteq> uid) (projects db);
          fs = filter (\<lambda>f. f_project_id f \<in> p_id ` set ps) (files db) in
      db\<lparr>projects := ps, tags := filter (\<lambda>t. tg_owner_id t \<noteq> uid) (tags db),
         project_tags := filter (\<lambda>r. pt_project_id r \<in> p_id ` set ps) (project_tags db),
         files := fs, previews := filter (\<lambda>v. pv_file_id v \<in> f_id ` set fs) (previews db)\<rparr>)"

definition foreign_ids :: "str \<Rightarrow> db \<Rightarrow> str set" where
  "foreign_ids uid db = p_id ` {p \<in> set (projects db). p_owner_id p \<noteq> uid}"

lemma filter_update_where:
  "(\<And>r. r \<in> set rows \<Longrightarrow> g r \<Longrightarrow> \<not> P r \<and> \<not> P (f r)) \<Longrightarrow> filter P (update_where g f rows) = filter P rows"
  by (induction rows) (auto simp: update_where_def)

lemma filter_delete_where:
  "(\<And>r. r \<in> set rows \<Longrightarrow> P r \<Longrightarrow> \<not> g r) \<Longrightarrow> filter P (delete_where g rows) = filter P rows"
  by (induction rows) (auto simp: delete_where_def)

lemma own_project_not_foreign:
  assumes "db_wf db" "p \<in> set (projects db)" "p_owner_id p = uid"
  shows "p_id p \<notin> foreign_ids uid db"
proof
  assume "p_id p \<in> foreign_ids uid db"
  then obtain q where q: "q \<in> set (projects db)" "p_id q = p_id p" "p_owner_id q \<noteq> uid"
    by (auto simp: foreign_ids_def)
  have "inj_on p_id (set (projects db))" using assms(1) by (simp add: wf_defs distinct_map)
  with q assms(2) have "q = p" by (auto dest: inj_onD)
  with q(3) assms(3) show False by simp
qed

lemma others_touch:
  assumes "pid \<notin> foreign_ids uid db"
  shows "others uid (touch_project pid now db) = others uid db"
proof -
  have "filter (\<lambda>p. p_owner_id p \<noteq> uid) (update_where (\<lambda>p. p_id p = pid) (\<lambda>p. p\<lparr>p_updated_at := now\<rparr>)
      (projects db)) = filter (\<lambda>p. p_owner_id p \<noteq> uid) (projects db)"
    using assms by (intro filter_update_where) (auto simp: foreign_ids_def)
  then show ?thesis by (simp add: others_def touch_project_def Let_def)
qed

lemma others_link: "pid \<notin> foreign_ids uid db \<Longrightarrow> others uid (link_tag pid tid db) = others uid db"
  by (auto simp: others_def link_tag_def Let_def foreign_ids_def)

lemma others_insert_tag:
  "insert_tag uid name db = Inr (tid, db') \<Longrightarrow> others uid db' = others uid db"
  by (auto simp: others_def Let_def dest!: insert_tag_Inr)

lemma foreign_ids_simps [simp]:
  "foreign_ids uid (db\<lparr>tags := x1\<rparr>) = foreign_ids uid db"
  "foreign_ids uid (db\<lparr>project_tags := x2\<rparr>) = foreign_ids uid db"
  "foreign_ids uid (link_tag pid tid db) = foreign_ids uid db"
  by (simp_all add: foreign_ids_def link_tag_def)

lemma others_add_tag_in:
  assumes "add_tag_in c pid name now db = Inr db'" "db_wf db"
  shows "others (ctx_user_id c) db' = others (ctx_user_id c) db"
proof -
  obtain p where p: "require_project_row c pid db = Inr p"
    and cases: "db' = db \<or> (\<exists>t \<in> set (tags db). tg_owner_id t = ctx_user_id c \<and>
                    db' = touch_project pid now (link_tag pid (tg_id t) db)) \<or>
      (\<exists>tid db1. insert_tag (ctx_user_id c) (js_trim name) db = Inr (tid, db1) \<and>
         db' = touch_project pid now (link_tag pid tid db1))"
    using add_tag_in_Inr [OF assms(1)] by blast
  have pid: "pid \<notin> foreign_ids (ctx_user_id c) db"
    using own_project_not_foreign [OF assms(2)] require_project_row_Inr [OF p] by blast
  have "others (ctx_user_id c) (touch_project pid now (link_tag pid tid d)) = others (ctx_user_id c) d"
      if "foreign_ids (ctx_user_id c) d = foreign_ids (ctx_user_id c) db" for tid d
    using pid that by (simp add: others_touch others_link)
  moreover have "foreign_ids (ctx_user_id c) d = foreign_ids (ctx_user_id c) db"
      if "insert_tag (ctx_user_id c) (js_trim name) db = Inr (tid, d)" for tid d
    using insert_tag_Inr [OF that] by simp
  ultimately show ?thesis using cases others_insert_tag by metis
qed

lemma others_add_tags_in:
  "add_tags_in c pid tgs tick db = Inr db' \<Longrightarrow> db_wf db \<Longrightarrow>
     others (ctx_user_id c) db' = others (ctx_user_id c) db \<and> db_wf db'"
proof (induction c pid tgs tick db rule: add_tags_in.induct)
  case (1 c pid tick db)
  then show ?case by simp
next
  case (2 c pid tag rest tick db)
  then obtain db1 where "add_tag_in c pid tag (tick 0) db = Inr db1"
      "add_tags_in c pid rest (\<lambda>n. tick (Suc n)) db1 = Inr db'"
    by (auto simp: result_iffs)
  with 2 show ?case using others_add_tag_in add_tag_in_wf by metis
qed

lemma others_insert_project:
  assumes "insert_project p db = Inr db'" "p_owner_id p = uid"
  shows "others uid db' = others uid db"
proof -
  have db': "db' = db\<lparr>projects := projects db @ [p]\<rparr>"
    using assms(1) by (auto simp: insert_project_def split: if_splits)
  have ps: "filter (\<lambda>p. p_owner_id p \<noteq> uid) (projects db') = filter (\<lambda>p. p_owner_id p \<noteq> uid) (projects db)"
    using assms(2) by (simp add: db')
  show ?thesis unfolding others_def ps Let_def by (simp add: db' del: set_filter)
qed

lemma others_delete_projects:
  assumes "db_wf db"
  shows "others uid (delete_projects (\<lambda>p. p_id p = pid \<and> p_owner_id p = uid) db) = others uid db"
proof -
  let ?gone = "\<lambda>p. p_id p = pid \<and> p_owner_id p = uid"
  let ?dropped = "\<lambda>i. list_ex (\<lambda>p. ?gone p \<and> p_id p = i) (projects db)"
  let ?ps = "filter (\<lambda>p. p_owner_id p \<noteq> uid) (projects db)"
  let ?fs = "filter (\<lambda>f. f_project_id f \<in> p_id ` set ?ps) (files db)"
  have ps: "filter (\<lambda>p. p_owner_id p \<noteq> uid) (delete_where ?gone (projects db)) = ?ps"
    by (rule filter_delete_where) simp
  have kept: "\<not> ?dropped i" if "i \<in> p_id ` set ?ps" for i
    using that own_project_not_foreign [OF assms, of _ uid]
    by (fastforce simp: list_ex_iff foreign_ids_def)
  have links: "filter (\<lambda>r. pt_project_id r \<in> p_id ` set ?ps)
      (delete_where (\<lambda>r. ?dropped (pt_project_id r)) (project_tags db)) =
      filter (\<lambda>r. pt_project_id r \<in> p_id ` set ?ps) (project_tags db)"
    using kept by (intro filter_delete_where) blast
  have fs: "filter (\<lambda>f. f_project_id f \<in> p_id ` set ?ps)
      (delete_where (\<lambda>f. ?dropped (f_project_id f)) (files db)) = ?fs"
    using kept by (intro filter_delete_where) blast
  have inj: "inj_on f_id (set (files db))" using assms by (simp add: wf_defs distinct_map)
  have pvs: "filter (\<lambda>v. pv_file_id v \<in> f_id ` set ?fs)
      (delete_where (\<lambda>v. list_ex (\<lambda>f. ?dropped (f_project_id f) \<and> f_id f = pv_file_id v) (files db)) (previews db)) =
      filter (\<lambda>v. pv_file_id v \<in> f_id ` set ?fs) (previews db)"
  proof (rule filter_delete_where)
    fix v assume "pv_file_id v \<in> f_id ` set ?fs"
    then obtain f where f: "f \<in> set (files db)" "f_id f = pv_file_id v" "f_project_id f \<in> p_id ` set ?ps" by auto
    show "\<not> list_ex (\<lambda>f. ?dropped (f_project_id f) \<and> f_id f = pv_file_id v) (files db)"
    proof
      assume "list_ex (\<lambda>f. ?dropped (f_project_id f) \<and> f_id f = pv_file_id v) (files db)"
      then obtain g where "g \<in> set (files db)" "?dropped (f_project_id g)" "f_id g = pv_file_id v"
        unfolding list_ex_iff by blast
      then have "g = f" using f(1,2) inj_onD [OF inj, of g f] by simp
      with \<open>?dropped (f_project_id g)\<close> kept [OF f(3)] show False by simp
    qed
  qed
  show ?thesis
    unfolding others_def delete_projects_def delete_files_def Let_def
    using ps links fs pvs by simp
qed

lemma others_remove_tag:
  assumes "db_wf db" "remove_tag c pid name now db = (r, db')"
  shows "others (ctx_user_id c) db' = others (ctx_user_id c) db"
proof (cases "require_project_row c pid db")
  case (Inl e)
  then show ?thesis using assms(2) by (simp add: remove_tag_def in_tx_def)
next
  case (Inr p)
  define uid where "uid = ctx_user_id c"
  define db1 where "db1 = unlink_tag c pid (js_trim name) db"
  let ?gone = "\<lambda>t. tg_owner_id t = uid \<and> \<not> list_ex (\<lambda>r. pt_tag_id r = tg_id t) (project_tags db1)"
  have db': "db' = touch_project pid now (delete_tags ?gone db1)"
    using assms(2) Inr by (auto simp: remove_tag_def in_tx_def Let_def db1_def uid_def)
  have pid: "pid \<notin> foreign_ids uid db"
    using own_project_not_foreign [OF assms(1)] require_project_row_Inr [OF Inr] uid_def by blast
  have "project_tags (delete_tags ?gone db1) = project_tags db1"
    by (auto simp: delete_tags_def delete_where_def list_ex_iff filter_id_conv)
  moreover have "filter (\<lambda>t. tg_owner_id t \<noteq> uid) (delete_where ?gone (tags db)) =
      filter (\<lambda>t. tg_owner_id t \<noteq> uid) (tags db)"
    by (rule filter_delete_where) simp
  moreover have "filter (\<lambda>r. pt_project_id r \<in> p_id ` set (filter (\<lambda>p. p_owner_id p \<noteq> uid) (projects db)))
      (project_tags db1) =
      filter (\<lambda>r. pt_project_id r \<in> p_id ` set (filter (\<lambda>p. p_owner_id p \<noteq> uid) (projects db)))
      (project_tags db)"
    unfolding db1_def unlink_tag_def
    by (simp del: set_filter, rule filter_delete_where) (use pid in \<open>auto simp: foreign_ids_def\<close>)
  ultimately have "others uid (delete_tags ?gone db1) = others uid db"
    unfolding others_def Let_def
    by (simp add: delete_tags_def db1_def unlink_tag_def del: set_filter)
  moreover have "foreign_ids uid (delete_tags ?gone db1) = foreign_ids uid db"
    by (simp add: foreign_ids_def delete_tags_def db1_def unlink_tag_def)
  ultimately show ?thesis using pid by (simp add: db' others_touch flip: uid_def)
qed

lemma others_update_project:
  assumes "db_wf db"
  shows "others (ctx_user_id c) (snd (update_project_unchecked c pid patch now db)) =
           others (ctx_user_id c) db"
proof -
  let ?uid = "ctx_user_id c"
  have ps: "filter (\<lambda>p. p_owner_id p \<noteq> ?uid) (update_where
      (\<lambda>p. p_id p = pid \<and> p_owner_id p = ?uid) (patch_project patch now) (projects db)) =
      filter (\<lambda>p. p_owner_id p \<noteq> ?uid) (projects db)"
    by (rule filter_update_where) (simp add: patch_project_def)
  have "others ?uid (db\<lparr>projects := update_where (\<lambda>p. p_id p = pid \<and> p_owner_id p = ?uid)
      (patch_project patch now) (projects db)\<rparr>) = others ?uid db"
    unfolding others_def Let_def by (simp add: ps del: set_filter)
  then show ?thesis by (simp add: update_project_unchecked_def Let_def split: sum.splits)
qed

lemma others_create_project_tx:
  assumes "db_wf db" "create_project_tx lp mkdir pid tick c input db fs = Some (Inr (d, db'), fs')"
  shows "others (ctx_user_id c) db' = others (ctx_user_id c) db \<and> db_wf db'"
proof -
  obtain dir db1 where ins: "insert_project (new_project_row pid c input dir (tick 0)) db = Inr db1"
      and tgs: "add_tags_in c pid (or_default [] (cpi_tags input)) (\<lambda>n. tick (Suc n)) db1 = Inr db'"
    using assms(2)
    by (auto simp: create_project_tx_def result_iffs split: sum.splits option.splits prod.splits)
  have "db_wf db1" using insert_project_wf [OF ins assms(1)] .
  then show ?thesis
    using others_add_tags_in [OF tgs] others_insert_project [OF ins] by (simp add: new_project_row_def)
qed

lemma tag_namesI:
  "r \<in> set (project_tags db) \<Longrightarrow> t \<in> set (tags db) \<Longrightarrow> pt_tag_id r = tg_id t \<Longrightarrow>
   n = tg_name t \<Longrightarrow> n \<in> set (tag_names db (pt_project_id r))"
  by (simp add: tag_names_def) (rule bexI [of _ r], auto)

section \<open>Properties\<close>

text \<open>C9
  Owners are isolated: whatever project use case a user calls, with whatever project id, the users,
  sessions, settings, and all projects, tags, links, files and previews of everybody else stay
  exactly as they were, and another user's project is answered as not found with nothing done.
\<close>

theorem project_isolation:
  assumes "db_wf db"
  shows "others (ctx_user_id c) (snd (add_tag c pid name now db)) = others (ctx_user_id c) db \<and>
    others (ctx_user_id c) (snd (remove_tag c pid name now db)) = others (ctx_user_id c) db \<and>
    others (ctx_user_id c) (snd (update_project parse_url c pid patch now db)) = others (ctx_user_id c) db \<and>
    others (ctx_user_id c) (fst (snd (delete_project lp rm (\<lambda>d. d) c pid b db fs))) = others (ctx_user_id c) db \<and>
    (\<forall>r db' fs'. create_project parse_url lp mkdir (\<lambda>d. d) pid tick c input db fs = Some (r, db', fs') \<longrightarrow>
       others (ctx_user_id c) db' = others (ctx_user_id c) db) \<and>
    (pid \<in> foreign_ids (ctx_user_id c) db \<longrightarrow>
       add_tag c pid name now db = (Inl (not_found (lit ''project not found'')), db) \<and>
       remove_tag c pid name now db = (Inl (not_found (lit ''project not found'')), db) \<and>
       update_project_unchecked c pid upatch now db = (Inl (not_found (lit ''project not found'')), db) \<and>
       delete_project lp rm (\<lambda>d. d) c pid b db fs = (Inl (not_found (lit ''project not found'')), db, fs) \<and>
       get_project_in c pid db = Inl (not_found (lit ''project not found'')))"
proof -
  let ?uid = "ctx_user_id c"
  have add: "others ?uid (snd (add_tag c pid name now db)) = others ?uid db"
    using others_add_tag_in [OF _ assms]
    by (auto simp: add_tag_def in_tx_def bindE_def split: sum.splits)
  have remove: "others ?uid (snd (remove_tag c pid name now db)) = others ?uid db"
    using others_remove_tag [OF assms] by (metis prod.collapse)
  have upd: "others ?uid (snd (update_project parse_url c pid patch now db)) = others ?uid db"
    using others_update_project [OF assms] by (simp add: update_project_def split: sum.splits)
  have del: "others ?uid (fst (snd (delete_project lp rm (\<lambda>d. d) c pid b db fs))) = others ?uid db"
    using others_delete_projects [OF assms]
    by (auto simp: delete_project_def split: sum.splits prod.splits)
  have crt: "others ?uid db' = others ?uid db"
    if run: "create_project parse_url lp mkdir (\<lambda>d. d) pid tick c input db fs = Some (r, db', fs')" for r db' fs'
  proof (cases "validated (validate_create_project parse_url input)")
    case (Inl e)
    with run show ?thesis by (simp add: create_project_def)
  next
    case (Inr input')
    then obtain y where y: "create_project_tx lp mkdir pid tick c input' db fs = Some y"
      using run by (cases "create_project_tx lp mkdir pid tick c input' db fs") (auto simp: create_project_def)
    obtain x fs1 where yx: "y = (x, fs1)" by (cases y)
    note x = y [unfolded yx]
    have eff: "db' = (case x of Inl e \<Rightarrow> db | Inr (_, db1) \<Rightarrow> db1)"
      using run Inr x by (cases x) (auto simp: create_project_def)
    show ?thesis
    proof (cases x)
      case (Inr y)
      then show ?thesis using others_create_project_tx [OF assms, of lp mkdir pid tick c input' fs] x eff
        by (cases y) simp
    qed (simp add: eff)
  qed
  have none: "require_project_row c pid db = Inl (not_found (lit ''project not found''))"
    if foreign: "pid \<in> foreign_ids ?uid db"
  proof (cases "require_project_row c pid db")
    case (Inr p)
    then show ?thesis
      using own_project_not_foreign [OF assms, of p ?uid] require_project_row_Inr [OF Inr] foreign by simp
  qed (auto simp: require_project_row_def split: option.splits)
  have refused: "add_tag c pid name now db = (Inl (not_found (lit ''project not found'')), db) \<and>
       remove_tag c pid name now db = (Inl (not_found (lit ''project not found'')), db) \<and>
       update_project_unchecked c pid upatch now db = (Inl (not_found (lit ''project not found'')), db) \<and>
       delete_project lp rm (\<lambda>d. d) c pid b db fs = (Inl (not_found (lit ''project not found'')), db, fs) \<and>
       get_project_in c pid db = Inl (not_found (lit ''project not found''))"
    if "pid \<in> foreign_ids ?uid db"
    using none [OF that]
    by (simp add: add_tag_def add_tag_in_def remove_tag_def update_project_unchecked_def
        delete_project_def get_project_in_def in_tx_def)
  show ?thesis using add remove upd del crt refused by blast
qed

theorem project_isolation_witness:
  "add_tag \<lparr>ctx_user_id = lit ''2'', ctx_is_admin = False\<rparr> (lit ''p'') (lit ''x'') 0 sample_shelf =
     (Inl (not_found (lit ''project not found'')), sample_shelf)"
proof -
  let ?c = "\<lparr>ctx_user_id = lit ''2'', ctx_is_admin = False\<rparr>"
  have "hd (projects sample_shelf) \<in> set (projects sample_shelf)"
      "p_owner_id (hd (projects sample_shelf)) \<noteq> lit ''2''" "lit ''p'' = p_id (hd (projects sample_shelf))"
    by (simp_all add: sample_shelf_def lit_def)
  then have "lit ''p'' \<in> foreign_ids (ctx_user_id ?c) sample_shelf"
    unfolding foreign_ids_def by (intro image_eqI) simp_all
  from project_isolation [OF sample_shelf_wf, THEN conjunct2, THEN conjunct2, THEN conjunct2,
      THEN conjunct2, THEN conjunct2, THEN mp, OF this, THEN conjunct1]
  show ?thesis .
qed

text \<open>
  Removing a tag from a project sweeps the tag list: afterwards the project does not carry the tag,
  and every tag the owner has left labels at least one project.
\<close>

theorem remove_tag_sweeps:
  assumes "remove_tag c pid name now db = (Inr (), db')"
  shows "\<not> (\<exists>r \<in> set (project_tags db'). \<exists>t \<in> set (tags db'). pt_project_id r = pid \<and>
        pt_tag_id r = tg_id t \<and> tg_owner_id t = ctx_user_id c \<and> nocase_eq (tg_name t) (js_trim name)) \<and>
    set (list_tags c db') \<subseteq> (\<Union>i. set (tag_names db' i))"
proof -
  define uid where "uid = ctx_user_id c"
  define db1 where "db1 = unlink_tag c pid (js_trim name) db"
  let ?gone = "\<lambda>t. tg_owner_id t = uid \<and> \<not> list_ex (\<lambda>r. pt_tag_id r = tg_id t) (project_tags db1)"
  obtain p where p: "require_project_row c pid db = Inr p"
    using assms by (auto simp: remove_tag_def in_tx_def bindE_def split: sum.splits)
  have db': "db' = touch_project pid now (delete_tags ?gone db1)"
    using assms p by (auto simp: remove_tag_def in_tx_def Let_def db1_def uid_def)
  have links: "project_tags db' = project_tags db1"
    by (auto simp: db' touch_project_def delete_tags_def delete_where_def list_ex_iff filter_id_conv)
  have tgs: "tags db' = delete_where ?gone (tags db)"
    by (simp add: db' touch_project_def delete_tags_def db1_def unlink_tag_def)
  have "set (list_tags c db') \<subseteq> (\<Union>i. set (tag_names db' i))"
  proof
    fix n assume "n \<in> set (list_tags c db')"
    then obtain t where t: "t \<in> set (tags db')" "tg_owner_id t = uid" "n = tg_name t"
      by (auto simp: list_tags_def uid_def)
    then obtain r where "r \<in> set (project_tags db')" "pt_tag_id r = tg_id t"
      by (auto simp: tgs links table_simps list_ex_iff)
    with t have "n \<in> set (tag_names db' (pt_project_id r))"
      by (intro tag_namesI)
    then show "n \<in> (\<Union>i. set (tag_names db' i))" by blast
  qed
  moreover have "\<not> (\<exists>r \<in> set (project_tags db'). \<exists>t \<in> set (tags db'). pt_project_id r = pid \<and>
        pt_tag_id r = tg_id t \<and> tg_owner_id t = ctx_user_id c \<and> nocase_eq (tg_name t) (js_trim name))"
    unfolding links tgs by (auto simp: db1_def unlink_tag_def table_simps list_ex_iff)
  ultimately show ?thesis by blast
qed

theorem remove_tag_sweeps_witness:
  "set (list_tags \<lparr>ctx_user_id = lit ''1'', ctx_is_admin = False\<rparr>
     (snd (remove_tag \<lparr>ctx_user_id = lit ''1'', ctx_is_admin = False\<rparr> (lit ''p'') (lit ''PETG'') 0 sample_shelf)))
   \<subseteq> (\<Union>i. set (tag_names
     (snd (remove_tag \<lparr>ctx_user_id = lit ''1'', ctx_is_admin = False\<rparr> (lit ''p'') (lit ''PETG'') 0 sample_shelf)) i))"
proof -
  let ?c = "\<lparr>ctx_user_id = lit ''1'', ctx_is_admin = False\<rparr>"
  have "require_project_row ?c (lit ''p'') sample_shelf \<noteq> Inl e" for e
    by (simp add: require_project_row_def sample_shelf_def)
  then have "fst (remove_tag ?c (lit ''p'') (lit ''PETG'') 0 sample_shelf) = Inr ()"
    by (cases "require_project_row ?c (lit ''p'') sample_shelf") (auto simp: remove_tag_def in_tx_def Let_def)
  then have "remove_tag ?c (lit ''p'') (lit ''PETG'') 0 sample_shelf =
      (Inr (), snd (remove_tag ?c (lit ''p'') (lit ''PETG'') 0 sample_shelf))"
    by (metis prod.collapse)
  from remove_tag_sweeps [OF this] show ?thesis by blast
qed

lemma sample_rows:
  "require_project_row \<lparr>ctx_user_id = lit ''1'', ctx_is_admin = False\<rparr> (lit ''p'') sample_shelf =
     Inr (hd (projects sample_shelf))"
  "require_user_row sample_shelf (lit ''1'') = Inr sample_user"
  by (simp_all add: require_project_row_def require_user_row_def find_user_by_id_def sample_shelf_def
      sample_db_def sample_user_def)

lemma sample_dir:
  "lib_project_dir nowhere (lit ''ann'') (lit ''100% cube'') =
     Inr [RootDir, Normal (lit ''ann''), Normal (lit ''100% cube'')]"
proof -
  have "plain_part (lit ''ann'')" "\<not> has_drive (lit ''ann'')"
      "plain_part (lit ''100% cube'')" "\<not> has_drive (lit ''100% cube'')"
    by (simp_all add: plain_part_def has_drive_def is_slash_def lit_def)
  then show ?thesis
    by (simp add: lib_project_dir_def project_dir_def user_root_def nowhere_def safe_join_plain
        absolute_path_def)
qed

text \<open>
  The tag list does not hold only tags in use: deleting the one project that carries a tag leaves
  the tag, which \<^verbatim>\<open>list_tags\<close> then still lists although no project has it.
\<close>

theorem deleted_project_leaves_tag:
  "let (r, db', fs') = delete_project nowhere (\<lambda>p fs. (Inr (), fs)) (\<lambda>d. d)
         \<lparr>ctx_user_id = lit ''1'', ctx_is_admin = False\<rparr> (lit ''p'') True sample_shelf ()
   in r = Inr () \<and> list_tags \<lparr>ctx_user_id = lit ''1'', ctx_is_admin = False\<rparr> db' = [lit ''petg''] \<and>
      projects db' = [] \<and> project_tags db' = []"
proof -
  let ?c = "\<lparr>ctx_user_id = lit ''1'', ctx_is_admin = False\<rparr>"
  have gone: "remove_present (\<lambda>p fs. (Inr (), fs)) d fs = (Inr (), fs)" for d and fs :: unit
    by (simp add: remove_present_def)
  have name: "p_dir_name (hd (projects sample_shelf)) = lit ''100% cube''" "u_library_dir sample_user = lit ''ann''"
    by (simp_all add: sample_shelf_def sample_user_def)
  have del: "delete_project nowhere (\<lambda>p fs. (Inr (), fs)) (\<lambda>d. d) ?c (lit ''p'') True sample_shelf () =
      (Inr (), delete_projects (\<lambda>q. p_id q = lit ''p'' \<and> p_owner_id q = lit ''1'') sample_shelf, ())"
    by (simp add: delete_project_def sample_rows name sample_dir gone)
  show ?thesis
    unfolding del
    by (simp add: sample_shelf_def list_tags_def delete_projects_def delete_files_def delete_where_def
        Let_def)
qed

end
