(* ===== verification/Files.thy ===== *)
theory Files
  imports Projects
begin

text \<open>
  The file use cases, \<^verbatim>\<open>crates/spm-core/src/files/usecases.rs\<close>: upload, rename, delete, and resolving
  a file or its preview to a path. Between two database locks other users may do anything: a
  \<open>world\<close> gives what they do to the database and to the disk there, and which file operations the
  operating system refuses. Nobody else touches a file while its upload still writes to it. Ids,
  the clock and SHA-256 are arguments; a path is classified by its last segment, which alone decides
  what its extension is. Properties: an upload is all or nothing, every served path lies in the
  library whatever the rows say, nobody reaches another user's file, and a renamed file is found
  where it was moved to.
\<close>

section \<open>The world around a use case\<close>

record world =
  w_db :: "nat \<Rightarrow> db \<Rightarrow> db"
  w_disk :: "nat \<Rightarrow> disk \<Rightarrow> disk"
  w_create :: "io_error option"
  w_write :: "nat \<Rightarrow> (nat \<times> io_error) option"
  w_mtime :: int
  w_stat :: "io_error option"
  w_open :: "io_error option"
  w_os :: os
  w_move :: "io_error option"
  w_remove :: "io_error option"

definition calm :: world where
  "calm = \<lparr>w_db = (\<lambda>_ db. db), w_disk = (\<lambda>_ d. d), w_create = None, w_write = (\<lambda>_. None), w_mtime = 0,
           w_stat = None, w_open = None, w_os = (\<lambda>_. Deliver 4096), w_move = None, w_remove = None\<rparr>"

section \<open>Files of the database\<close>

definition content_type_for :: "str \<Rightarrow> str" where
  "content_type_for name =
     (let extension = List.last (split_on (\<lambda>c. c = 46) (to_ascii_lowercase name)) in
      if extension = lit ''stl'' then lit ''model/stl''
      else if extension = lit ''obj'' then lit ''model/obj''
      else if extension = lit ''3mf'' then lit ''model/3mf''
      else if extension = lit ''png'' then lit ''image/png''
      else if extension = lit ''jpg'' \<or> extension = lit ''jpeg'' then lit ''image/jpeg''
      else if extension = lit ''txt'' \<or> extension = lit ''gcode'' then lit ''text/plain; charset=utf-8''
      else if extension = lit ''json'' then lit ''application/json''
      else if extension = lit ''pdf'' then lit ''application/pdf''
      else lit ''application/octet-stream'')"

record owned_file =
  of_id :: str
  of_project_id :: str
  of_rel_path :: str
  of_kind :: file_kind
  of_slicer :: "slicer_id option"
  of_size_bytes :: int
  of_preview_state :: "preview_state option"
  of_dir_name :: str

definition owned_dto :: "owned_file \<Rightarrow> str \<Rightarrow> core_file_dto" where
  "owned_dto f rel_path =
     \<lparr>cf_id = of_id f, cf_name = rel_path, cf_kind = of_kind f, cf_slicer = of_slicer f,
      cf_size_bytes = of_size_bytes f, cf_preview_state = or_default PvPending (of_preview_state f)\<rparr>"

definition file_owner_project :: "db \<Rightarrow> ctx \<Rightarrow> file_row \<Rightarrow> project_row option" where
  "file_owner_project db c f =
     find (\<lambda>p. p_id p = f_project_id f \<and> p_owner_id p = ctx_user_id c) (projects db)"

definition require_owned_file :: "db \<Rightarrow> ctx \<Rightarrow> str \<Rightarrow> owned_file result" where
  "require_owned_file db c fid =
     (case find (\<lambda>f. f_id f = fid \<and> file_owner_project db c f \<noteq> None) (files db) of
        None \<Rightarrow> Inl (not_found (lit ''file not found''))
      | Some f \<Rightarrow>
          (case file_owner_project db c f of
             None \<Rightarrow> Inl (not_found (lit ''file not found''))
           | Some p \<Rightarrow>
               Inr \<lparr>of_id = f_id f, of_project_id = f_project_id f, of_rel_path = f_rel_path f,
                    of_kind = f_kind f, of_slicer = f_slicer f, of_size_bytes = f_size_bytes f,
                    of_preview_state = map_option pv_state (find_preview db fid),
                    of_dir_name = p_dir_name p\<rparr>))"

definition assert_within_quota :: "db \<Rightarrow> ctx \<Rightarrow> int \<Rightarrow> unit result" where
  "assert_within_quota db c incoming_bytes =
     bindE (require_user_row db (ctx_user_id c)) (\<lambda>u.
       case u_quota_bytes u of
         None \<Rightarrow> Inr ()
       | Some quota_bytes \<Rightarrow>
           let usage_bytes = disk_usage_bytes_in db (ctx_user_id c) in
           if saturating_i64 (usage_bytes + incoming_bytes) \<le> quota_bytes then Inr ()
           else Inl (quota_exceeded usage_bytes quota_bytes incoming_bytes))"

definition already_exists :: "str \<Rightarrow> app_error" where
  "already_exists name = conflict ([34] @ name @ [34] @ lit '' already exists'')"

definition assert_single_segment :: "str \<Rightarrow> unit result" where
  "assert_single_segment name = (if list_ex is_slash name then Inl (illegal name) else Inr ())"

section \<open>Upload\<close>

text \<open>One read of the body: bytes (none at its end), a signal, or a broken connection.\<close>

datatype body_read = Body_Data bytes | Body_Interrupted | Body_Broken str

definition body_broken :: "str \<Rightarrow> app_error" where
  "body_broken cause =
     (new_error Validation (lit ''the upload body could not be read to the end''))\<lparr>err_cause := Some cause\<rparr>"

text \<open>The bytes hashed and the bytes in the file; a refused write leaves a part of its chunk there.\<close>

fun write_body ::
  "(bytes \<Rightarrow> bytes) \<Rightarrow> (nat \<Rightarrow> (nat \<times> io_error) option) \<Rightarrow> int \<Rightarrow> body_read list \<Rightarrow>
   nat \<Rightarrow> int \<Rightarrow> bytes \<Rightarrow> bytes \<Rightarrow> bytes result \<times> bytes" where
  "write_body sha refuse declared [] k written_bytes hashed out = (Inr (sha hashed), out)"
| "write_body sha refuse declared (Body_Interrupted # body) k written_bytes hashed out =
     write_body sha refuse declared body k written_bytes hashed out"
| "write_body sha refuse declared (Body_Broken cause # body) k written_bytes hashed out =
     (Inl (body_broken cause), out)"
| "write_body sha refuse declared (Body_Data chunk # body) k written_bytes hashed out =
     (if chunk = [] then (Inr (sha hashed), out)
      else let written_bytes = saturating_i64 (written_bytes + int (length chunk)) in
           if written_bytes > declared
           then (Inl (validation (lit ''upload body is larger than its declared size'')), out)
           else (case refuse k of
                   Some (n, e) \<Rightarrow> (Inl (app_error_of_io e), out @ take n chunk)
                 | None \<Rightarrow> write_body sha refuse declared body (Suc k) written_bytes
                             (hashed @ chunk) (out @ chunk)))"

definition upload_admission :: "ctx \<Rightarrow> str \<Rightarrow> str \<Rightarrow> db \<Rightarrow> (project_row \<times> str \<times> bool) result" where
  "upload_admission c pid name db =
     bindE (require_project_row c pid db) (\<lambda>project.
     bindE (require_user_row db (ctx_user_id c)) (\<lambda>user.
       Inr (project, u_library_dir user,
            list_ex (\<lambda>f. f_project_id f = pid \<and> f_rel_path f = name) (files db))))"

definition upload_target :: "lib_place \<Rightarrow> str \<Rightarrow> project_row \<Rightarrow> str \<Rightarrow> int \<Rightarrow> path result" where
  "upload_target lp library_dir project name size_bytes =
     (if p_state project \<noteq> ProjOk then Inl (conflict (lit ''project folder is missing on disk''))
      else if size_bytes < 0 then Inl (validation (lit ''the declared upload size is negative''))
      else bindE (lib_project_dir lp library_dir (p_dir_name project)) (\<lambda>dir.
           bindE (assert_single_segment name) (\<lambda>_.
           safe_join (lp_platform lp) (lp_cwd lp) dir [name])))"

definition upload_place :: "lib_place \<Rightarrow> ctx \<Rightarrow> str \<Rightarrow> str \<Rightarrow> int \<Rightarrow> db \<Rightarrow> (path \<times> bool) result" where
  "upload_place lp c pid name size_bytes db =
     bindE (upload_admission c pid name db) (\<lambda>(project, library_dir, clash).
     bindE (upload_target lp library_dir project name size_bytes) (\<lambda>p. Inr (p, clash)))"

definition uploaded_row :: "str \<Rightarrow> str \<Rightarrow> str \<Rightarrow> classification \<Rightarrow> int \<Rightarrow> int \<Rightarrow> bytes \<Rightarrow> file_row" where
  "uploaded_row fid pid name cl file_size mtime hash =
     \<lparr>f_id = fid, f_project_id = pid, f_rel_path = name, f_kind = cl_kind cl, f_slicer = cl_slicer cl,
      f_size_bytes = file_size, f_mtime_ms = mtime, f_content_hash = Some hash,
      f_classified_by = CLASSIFIER_VERSION\<rparr>"

definition pending_preview :: "str \<Rightarrow> int \<Rightarrow> preview_row" where
  "pending_preview fid now =
     \<lparr>pv_file_id = fid, pv_state = PvPending, pv_source = None, pv_png_path = None, pv_width = None,
      pv_height = None, pv_source_hash = None, pv_error = None, pv_attempts = 0, pv_updated_at = now,
      pv_claimed_at = None\<rparr>"

definition index_upload_tx :: "file_row \<Rightarrow> int \<Rightarrow> db \<Rightarrow> db result" where
  "index_upload_tx f now db =
     bindE (insert_file f db) (\<lambda>db1.
     bindE (insert_preview (pending_preview (f_id f) now) db1) (\<lambda>db2.
       Inr (touch_project (f_project_id f) now db2)))"

definition index_upload ::
  "(source \<Rightarrow> nat \<Rightarrow> nat \<Rightarrow> 'd) \<Rightarrow> ('d \<Rightarrow> nat \<Rightarrow> (inflate_fault + bytes) \<times> 'd) \<Rightarrow>
   world \<Rightarrow> str \<Rightarrow> str \<Rightarrow> str \<Rightarrow> path \<Rightarrow> bytes \<Rightarrow> int \<Rightarrow> db \<Rightarrow> disk \<Rightarrow> (file_row \<times> db) outcome" where
  "index_upload inflate_new inflate_read w fid pid name p hash now db disk =
     (case (w_stat w, file_bytes disk p) of
        (Some e, _) \<Rightarrow> Inl (Failed (app_error_of_io e))
      | (None, None) \<Rightarrow> Inl (Failed (app_error_of_io (Other_Io (lit ''entity not found''))))
      | (None, Some (bs, mtime)) \<Rightarrow>
          bindE (classify_file inflate_new inflate_read (w_os w) name
                   (case w_open w of Some e \<Rightarrow> Inl e | None \<Rightarrow> Inr bs)) (\<lambda>cl.
          let f = uploaded_row fid pid name cl (min i64_max (int (length bs))) (mtime_ms (Some mtime)) hash in
          bindE (lift_fault (index_upload_tx f now db)) (\<lambda>db'. Inr (f, db'))))"

definition upload_file ::
  "(source \<Rightarrow> nat \<Rightarrow> nat \<Rightarrow> 'd) \<Rightarrow> ('d \<Rightarrow> nat \<Rightarrow> (inflate_fault + bytes) \<times> 'd) \<Rightarrow> (bytes \<Rightarrow> bytes) \<Rightarrow>
   lib_place \<Rightarrow> world \<Rightarrow> str \<Rightarrow> int \<Rightarrow> ctx \<Rightarrow> str \<Rightarrow> str \<Rightarrow> int \<Rightarrow> body_read list \<Rightarrow> db \<Rightarrow> disk \<Rightarrow>
   core_file_dto outcome \<times> db \<times> disk" where
  "upload_file inflate_new inflate_read sha lp w fid now c pid name size_bytes body db disk =
     (case upload_place lp c pid name size_bytes db of
        Inl e \<Rightarrow> (Inl (Failed e), db, disk)
      | Inr (p, clash) \<Rightarrow>
          if clash \<or> exists_on disk p then (Inl (Failed (already_exists name)), db, disk)
          else
            let db1 = w_db w 0 db; disk1 = w_disk w 0 disk in
            case assert_within_quota db1 c size_bytes of
              Inl e \<Rightarrow> (Inl (Failed e), db1, disk1)
            | Inr _ \<Rightarrow>
                (case create_new (w_create w) p disk1 of
                   (Inl AlreadyExists, d) \<Rightarrow> (Inl (Failed (already_exists name)), db1, d)
                 | (Inl (Create_Io e), d) \<Rightarrow> (Inl (Failed (app_error_of_io e)), db1, d)
                 | (Inr _, d) \<Rightarrow>
                     (case write_body sha (w_write w) size_bytes body 0 0 [] [] of
                        (Inl e, out) \<Rightarrow>
                          (Inl (Failed e), db1, snd (remove_file (w_remove w) p (written p out (w_mtime w) d)))
                      | (Inr hash, out) \<Rightarrow>
                          let db2 = w_db w 1 db1; disk2 = w_disk w 1 (written p out (w_mtime w) d) in
                          case index_upload inflate_new inflate_read w fid pid name p hash now db2 disk2 of
                            Inl Panic \<Rightarrow> (Inl Panic, db2, disk2)
                          | Inl (Failed e) \<Rightarrow> (Inl (Failed e), db2, snd (remove_file (w_remove w) p disk2))
                          | Inr (f, db3) \<Rightarrow>
                              (Inr \<lparr>cf_id = f_id f, cf_name = name, cf_kind = f_kind f,
                                    cf_slicer = f_slicer f, cf_size_bytes = f_size_bytes f,
                                    cf_preview_state = PvPending\<rparr>, db3, disk2))))"

section \<open>Rename, delete, resolve\<close>

text \<open>\<^verbatim>\<open>RELATIVE_PATH_SEPARATOR\<close>.\<close>

definition rel_segments :: "str \<Rightarrow> str list" where
  "rel_segments rel_path = split_on (\<lambda>c. c = 47) rel_path"

fun join_segments :: "str list \<Rightarrow> str" where
  "join_segments [] = []"
| "join_segments [s] = s"
| "join_segments (s # ss) = s @ [47] @ join_segments ss"

definition update_rel_path :: "str \<Rightarrow> str \<Rightarrow> db \<Rightarrow> db result" where
  "update_rel_path fid rel_path db =
     (case find (\<lambda>f. f_id f = fid) (files db) of
        None \<Rightarrow> Inr db
      | Some f \<Rightarrow>
          if list_ex (\<lambda>g. f_id g \<noteq> fid \<and> f_project_id g = f_project_id f \<and> f_rel_path g = rel_path) (files db)
          then Inl (unique_failed (lit ''files.project_id, files.rel_path''))
          else Inr (db\<lparr>files := update_where (\<lambda>f. f_id f = fid) (\<lambda>f. f\<lparr>f_rel_path := rel_path\<rparr>) (files db)\<rparr>))"

definition rename_plan :: "lib_place \<Rightarrow> ctx \<Rightarrow> str \<Rightarrow> str \<Rightarrow> db \<Rightarrow> (owned_file \<times> path \<times> path \<times> str) result" where
  "rename_plan lp c fid name db =
     bindE (require_owned_file db c fid) (\<lambda>row.
     bindE (require_user_row db (ctx_user_id c)) (\<lambda>user.
     bindE (assert_single_segment name) (\<lambda>_.
     bindE (lib_project_dir lp (u_library_dir user) (of_dir_name row)) (\<lambda>dir.
       let parents = butlast (rel_segments (of_rel_path row));
           from_parts = parents @ [List.last (rel_segments (of_rel_path row))];
           to_parts = parents @ [name] in
       bindE (safe_join (lp_platform lp) (lp_cwd lp) dir from_parts) (\<lambda>old.
       bindE (safe_join (lp_platform lp) (lp_cwd lp) dir to_parts) (\<lambda>new.
         Inr (row, old, new, join_segments to_parts)))))))"

definition rename_file ::
  "lib_place \<Rightarrow> world \<Rightarrow> int \<Rightarrow> ctx \<Rightarrow> str \<Rightarrow> str \<Rightarrow> db \<Rightarrow> disk \<Rightarrow> core_file_dto result \<times> db \<times> disk" where
  "rename_file lp w now c fid name db disk =
     (case rename_plan lp c fid name db of
        Inl e \<Rightarrow> (Inl e, db, disk)
      | Inr (row, old, new, new_rel_path) \<Rightarrow>
          let db1 = w_db w 0 db; disk1 = w_disk w 0 disk in
          if list_ex (\<lambda>f. f_project_id f = of_project_id row \<and> f_rel_path f = new_rel_path \<and> f_id f \<noteq> fid)
               (files db1) \<or> exists_on disk1 new
          then (Inl (already_exists name), db1, disk1)
          else (case rename_on (w_move w) old new (w_disk w 1 disk1) of
                  (Inl e, d) \<Rightarrow> (Inl (app_error_of_io e), db1, d)
                | (Inr _, d) \<Rightarrow>
                    let db2 = w_db w 1 db1 in
                    (case update_rel_path fid new_rel_path db2 of
                       Inl e \<Rightarrow> (Inl e, db2, d)
                     | Inr db3 \<Rightarrow>
                         (Inr (owned_dto row new_rel_path), touch_project (of_project_id row) now db3, d))))"

record resolved_file =
  rf_abs_path :: path
  rf_name :: str
  rf_size_bytes :: int
  rf_content_type :: str

definition resolve_file_path :: "lib_place \<Rightarrow> ctx \<Rightarrow> str \<Rightarrow> db \<Rightarrow> resolved_file result" where
  "resolve_file_path lp c fid db =
     bindE (require_owned_file db c fid) (\<lambda>row.
     bindE (require_user_row db (ctx_user_id c)) (\<lambda>user.
     bindE (lib_project_dir lp (u_library_dir user) (of_dir_name row)) (\<lambda>dir.
       let segments = rel_segments (of_rel_path row); name = List.last segments in
       bindE (safe_join (lp_platform lp) (lp_cwd lp) dir segments) (\<lambda>abs_path.
         Inr \<lparr>rf_abs_path = abs_path, rf_name = name, rf_size_bytes = of_size_bytes row,
              rf_content_type = content_type_for name\<rparr>))))"

definition delete_file ::
  "lib_place \<Rightarrow> world \<Rightarrow> int \<Rightarrow> ctx \<Rightarrow> str \<Rightarrow> db \<Rightarrow> disk \<Rightarrow> unit result \<times> db \<times> disk" where
  "delete_file lp w now c fid db disk =
     (case require_owned_file db c fid of
        Inl e \<Rightarrow> (Inl e, db, disk)
      | Inr row \<Rightarrow>
          let db1 = w_db w 0 db; disk1 = w_disk w 0 disk in
          (case resolve_file_path lp c fid db1 of
             Inl e \<Rightarrow> (Inl e, db1, disk1)
           | Inr resolved \<Rightarrow>
               (case remove_present (remove_file (w_remove w)) (rf_abs_path resolved) disk1 of
                  (Inl e, d) \<Rightarrow> (Inl e, db1, d)
                | (Inr _, d) \<Rightarrow>
                    (case remove_present (remove_file (w_remove w))
                            (preview_path (lp_platform lp) (lp_dir lp) fid) d of
                       (Inl e, d') \<Rightarrow> (Inl e, db1, d')
                     | (Inr _, d') \<Rightarrow>
                         (Inr (), touch_project (of_project_id row) now
                            (delete_files (\<lambda>f. f_id f = fid) (w_db w 1 db1)), d')))))"

definition resolve_preview_path :: "lib_place \<Rightarrow> ctx \<Rightarrow> str \<Rightarrow> db \<Rightarrow> disk \<Rightarrow> path option result" where
  "resolve_preview_path lp c fid db disk =
     bindE (require_owned_file db c fid) (\<lambda>_.
       case find (\<lambda>v. pv_file_id v = fid \<and> pv_state v = PvReady) (previews db) of
         None \<Rightarrow> Inr None
       | Some v \<Rightarrow>
           (case non_empty_text (pv_png_path v) of
              None \<Rightarrow> Inr None
            | Some png_path \<Rightarrow>
                bindE (safe_join (lp_platform lp) (lp_cwd lp) (lp_dir lp) (rel_segments png_path)) (\<lambda>p.
                  Inr (if exists_on disk p then Some p else None))))"

section \<open>Uploading is all or nothing\<close>

text \<open>Everything a body delivers before its end.\<close>

fun body_bytes :: "body_read list \<Rightarrow> bytes" where
  "body_bytes [] = []"
| "body_bytes (Body_Interrupted # body) = body_bytes body"
| "body_bytes (Body_Broken cause # body) = []"
| "body_bytes (Body_Data chunk # body) = (if chunk = [] then [] else chunk @ body_bytes body)"

lemma write_body_ok:
  assumes "write_body sha refuse declared body k (int (length out)) out out = (Inr hash, out')"
    "declared < i64_max" "int (length out) \<le> declared"
  shows "out' = out @ body_bytes body \<and> hash = sha out' \<and> int (length out') \<le> declared"
  using assms
proof (induction body arbitrary: k out)
  case (Cons r body)
  show ?case
  proof (cases r)
    case (Body_Data chunk)
    show ?thesis
    proof (cases "chunk = []")
      case False
      let ?n = "saturating_i64 (int (length out) + int (length chunk))"
      have fits: "?n \<le> declared" using Cons.prems(1) Body_Data False by (auto simp: Let_def split: if_splits)
      then have n: "?n = int (length (out @ chunk))"
        using Cons.prems(2) by (auto simp: saturating_i64_def min_def max_def i64_max_def split: if_splits)
      have "write_body sha refuse declared body (Suc k) (int (length (out @ chunk))) (out @ chunk) (out @ chunk) =
          (Inr hash, out')"
        using Cons.prems(1) Body_Data False fits n by (auto simp: Let_def split: option.splits)
      from Cons.IH [OF this Cons.prems(2)] fits n show ?thesis by (auto simp: Body_Data False)
    qed (use Cons.prems Body_Data in auto)
  qed (use Cons in auto)
qed simp

lemma index_upload_tx_ok:
  assumes "index_upload_tx f now db = Inr db'"
  shows "f \<in> set (files db')" "pending_preview (f_id f) now \<in> set (previews db')" "db_wf db \<Longrightarrow> db_wf db'"
proof -
  obtain db1 db2 where ins: "insert_file f db = Inr db1" "insert_preview (pending_preview (f_id f) now) db1 = Inr db2"
      and db': "db' = touch_project (f_project_id f) now db2"
    using assms by (auto simp: index_upload_tx_def result_iffs)
  show "db_wf db'" if "db_wf db"
    unfolding db' by (intro touch_project_wf insert_preview_wf [OF ins(2)] insert_file_wf [OF ins(1)] that)
  have "f \<in> set (files db1)" using ins(1) by (auto simp: insert_file_def split: if_splits)
  moreover have "db2 = db1\<lparr>previews := previews db1 @ [pending_preview (f_id f) now]\<rparr>"
    using ins(2) by (auto simp: insert_preview_def split: if_splits)
  ultimately show "f \<in> set (files db')" "pending_preview (f_id f) now \<in> set (previews db')"
    by (simp_all add: db' touch_project_def)
qed

lemma lift_fault_eq [result_iffs]:
  "lift_fault r = Inr x \<longleftrightarrow> r = Inr x" "lift_fault r = Inl f \<longleftrightarrow> (\<exists>e. r = Inl e \<and> f = Failed e)"
  by (auto simp: lift_fault_def split: sum.splits)

lemma index_upload_fails:
  assumes "index_upload inflate_new inflate_read w fid pid name p hash now db disk = Inl f"
  shows "\<exists>e. f = Failed e"
proof -
  have "classify_file inflate_new inflate_read (w_os w) name opened_as \<noteq> Inl f" for opened_as
    using classify_file_answers by (metis sum.distinct(1))
  then show ?thesis
    using assms
    by (auto simp: index_upload_def Let_def result_iffs split: option.splits prod.splits)
qed

lemma index_upload_ok:
  assumes "index_upload inflate_new inflate_read w fid pid name p hash now db disk = Inr (f, db')"
  obtains bs t cl where "disk p = Some (File bs t)" "index_upload_tx f now db = Inr db'"
    "f = uploaded_row fid pid name cl (min i64_max (int (length bs))) (mtime_ms (Some t)) hash"
  using assms
  by (auto simp: index_upload_def file_bytes_def Let_def result_iffs
      split: option.splits node.splits)

text \<open>What the steps after the checks come to.\<close>

definition upload_refused :: "world \<Rightarrow> ctx \<Rightarrow> int \<Rightarrow> db \<Rightarrow> disk \<Rightarrow> path \<Rightarrow> bool \<Rightarrow> bool" where
  "upload_refused w c size_bytes db disk p clash \<longleftrightarrow>
     clash \<or> exists_on disk p \<or> assert_within_quota (w_db w 0 db) c size_bytes \<noteq> Inr () \<or>
     w_create w \<noteq> None \<or> exists_on (w_disk w 0 disk) p"

lemma upload_refused_outcome:
  assumes "upload_file inflate_new inflate_read sha lp w fid now c pid name size_bytes body db disk = (r, db', disk')"
    "upload_place lp c pid name size_bytes db = Inr (p, clash)" "upload_refused w c size_bytes db disk p clash"
  shows "(\<exists>e. r = Inl (Failed e)) \<and> ((db', disk') = (db, disk) \<or> (db', disk') = (w_db w 0 db, w_disk w 0 disk))"
  using assms
  by (auto simp: upload_file_def upload_refused_def create_new_def Let_def split: if_splits sum.splits option.splits)

lemma written_over: "written p bs t (d(p \<mapsto> n)) = written p bs t d"
  by (simp add: written_def)

lemma upload_accepted_step:
  assumes "upload_place lp c pid name size_bytes db = Inr (p, clash)" "\<not> upload_refused w c size_bytes db disk p clash"
  shows "upload_file inflate_new inflate_read sha lp w fid now c pid name size_bytes body db disk =
    (case write_body sha (w_write w) size_bytes body 0 0 [] [] of
       (Inl e, out) \<Rightarrow> (Inl (Failed e), w_db w 0 db,
          snd (remove_file (w_remove w) p (written p out (w_mtime w) (w_disk w 0 disk))))
     | (Inr hash, out) \<Rightarrow>
         let db2 = w_db w 1 (w_db w 0 db); disk2 = w_disk w 1 (written p out (w_mtime w) (w_disk w 0 disk)) in
         case index_upload inflate_new inflate_read w fid pid name p hash now db2 disk2 of
           Inl Panic \<Rightarrow> (Inl Panic, db2, disk2)
         | Inl (Failed e) \<Rightarrow> (Inl (Failed e), db2, snd (remove_file (w_remove w) p disk2))
         | Inr (f, db3) \<Rightarrow>
             (Inr \<lparr>cf_id = f_id f, cf_name = name, cf_kind = f_kind f, cf_slicer = f_slicer f,
                   cf_size_bytes = f_size_bytes f, cf_preview_state = PvPending\<rparr>, db3, disk2))"
  using assms
  by (simp add: upload_file_def upload_refused_def create_new_def exists_on_def) (unfold Let_def written_over, rule refl)

lemma removed_again:
  assumes "d p = Some (File bs t)"
  shows "snd (remove_file None p d) p = None"
  using assms by (simp add: remove_file_def)

section \<open>Properties\<close>


definition sample_place :: path where
  "sample_place = [RootDir, Normal (lit ''ann''), Normal (lit ''100% cube''), Normal (lit ''a.stl'')]"

lemma sample_upload_place:
  "upload_place nowhere \<lparr>ctx_user_id = lit ''1'', ctx_is_admin = False\<rparr> (lit ''p'') (lit ''a.stl'') 3 sample_shelf =
     Inr (sample_place, False)"
proof -
  have shelf: "p_state (hd (projects sample_shelf)) = ProjOk" "p_dir_name (hd (projects sample_shelf)) = lit ''100% cube''"
      "files sample_shelf = []" "u_library_dir sample_user = lit ''ann''"
    by (simp_all add: sample_shelf_def sample_db_def empty_db_def sample_user_def)
  have "plain_part (lit ''a.stl'')" "\<not> has_drive (lit ''a.stl'')" "assert_single_segment (lit ''a.stl'') = Inr ()"
    by (simp_all add: plain_part_def has_drive_def is_slash_def assert_single_segment_def lit_def)
  then show ?thesis
    by (simp add: upload_place_def upload_admission_def upload_target_def sample_rows shelf sample_dir
        safe_join_plain absolute_path_def sample_place_def)
qed


section \<open>Who may reach what\<close>

lemma absolute_extended: "absolute_path p \<Longrightarrow> absolute_path (p @ map Normal names)"
  by (auto simp: absolute_path_def split: list.splits path_component.splits)

lemma safe_join_below:
  "absolute_path base \<Longrightarrow> safe_join pl cwd base segments = Inr p \<Longrightarrow> \<exists>names. p = base @ map Normal names"
  using safe_join_inside by blast

lemma lib_project_dir_inside:
  assumes "absolute_path (lp_dir lp)" "lib_project_dir lp library_dir dir_name = Inr d"
  shows "\<exists>names. d = lp_dir lp @ map Normal names"
proof -
  obtain root where root: "user_root (lp_platform lp) (lp_cwd lp) (lp_dir lp) library_dir = Inr root"
      and d: "safe_join (lp_platform lp) (lp_cwd lp) root [dir_name] = Inr d"
    using assms(2) by (auto simp: lib_project_dir_def project_dir_def result_iffs)
  have "\<exists>names. root = lp_dir lp @ map Normal names"
    using root safe_join_below [OF assms(1)]
    by (auto simp: user_root_def split: if_splits intro: exI [of _ "[]"])
  then obtain names where names: "root = lp_dir lp @ map Normal names" ..
  show ?thesis
    using safe_join_below [OF absolute_extended [OF assms(1)] d [unfolded names]]
    by (metis append_assoc map_append)
qed

lemma require_owned_file_Inr:
  assumes "require_owned_file db c fid = Inr row"
  shows "\<exists>f \<in> set (files db). \<exists>p \<in> set (projects db). f_id f = fid \<and> p_id p = f_project_id f \<and>
     p_owner_id p = ctx_user_id c \<and> of_id row = fid \<and> of_project_id row = p_id p \<and>
     of_rel_path row = f_rel_path f \<and> of_dir_name row = p_dir_name p \<and> of_size_bytes row = f_size_bytes f"
  using assms
  by (fastforce simp: require_owned_file_def file_owner_project_def split: option.splits dest!: find_Some_set)

definition reaches :: "ctx \<Rightarrow> str \<Rightarrow> db \<Rightarrow> bool" where
  "reaches c fid db \<longleftrightarrow>
     (\<exists>f \<in> set (files db). \<exists>p \<in> set (projects db).
        f_id f = fid \<and> p_id p = f_project_id f \<and> p_owner_id p = ctx_user_id c)"

lemma require_owned_file_reaches:
  "require_owned_file db c fid =
     (if reaches c fid db then require_owned_file db c fid else Inl (not_found (lit ''file not found'')))"
proof (cases "require_owned_file db c fid")
  case (Inr row)
  then show ?thesis using require_owned_file_Inr [OF Inr] by (auto simp: reaches_def)
qed (auto simp: require_owned_file_def split: option.splits)

text \<open>C13
  Whatever the rows of the database say (a path column edited by hand included), on either platform,
  every file or preview path handed out to be served lies below the library folder by plain names
  only, and belongs to a file in a project of the user asking.
\<close>

theorem served_paths_confined:
  assumes "absolute_path (lp_dir lp)"
  shows "(case resolve_file_path lp c fid db of
            Inl _ \<Rightarrow> True
          | Inr r \<Rightarrow> reaches c fid db \<and> (\<exists>names. rf_abs_path r = lp_dir lp @ map Normal names)) \<and>
         (case resolve_preview_path lp c fid db disk of
            Inr (Some p) \<Rightarrow> reaches c fid db \<and> (\<exists>names. p = lp_dir lp @ map Normal names)
          | _ \<Rightarrow> True)"
proof (rule conjI)
  show "case resolve_file_path lp c fid db of
          Inl _ \<Rightarrow> True
        | Inr r \<Rightarrow> reaches c fid db \<and> (\<exists>names. rf_abs_path r = lp_dir lp @ map Normal names)"
  proof (cases "resolve_file_path lp c fid db")
    case (Inr r)
    then obtain row and user :: user_row and dir where row: "require_owned_file db c fid = Inr row"
        and dir: "lib_project_dir lp (u_library_dir user) (of_dir_name row) = Inr dir"
        and p: "safe_join (lp_platform lp) (lp_cwd lp) dir (rel_segments (of_rel_path row)) = Inr (rf_abs_path r)"
      by (auto simp: resolve_file_path_def Let_def result_iffs)
    obtain names where names: "dir = lp_dir lp @ map Normal names"
      using lib_project_dir_inside [OF assms dir] by blast
    have "\<exists>all. rf_abs_path r = lp_dir lp @ map Normal all"
      using safe_join_below [OF absolute_extended [OF assms] p [unfolded names]]
      by (metis append_assoc map_append)
    then show ?thesis using Inr require_owned_file_Inr [OF row] by (auto simp: reaches_def)
  qed simp
next
  show "case resolve_preview_path lp c fid db disk of
          Inr (Some p) \<Rightarrow> reaches c fid db \<and> (\<exists>names. p = lp_dir lp @ map Normal names)
        | _ \<Rightarrow> True"
  proof (cases "resolve_preview_path lp c fid db disk")
    case (Inr found)
    then obtain row where row: "require_owned_file db c fid = Inr row"
      by (auto simp: resolve_preview_path_def result_iffs)
    have "\<exists>names. p = lp_dir lp @ map Normal names" if "found = Some p" for p
      using that Inr safe_join_below [OF assms]
      by (auto simp: resolve_preview_path_def result_iffs split: option.splits if_splits)
    then show ?thesis
      using Inr require_owned_file_Inr [OF row] by (cases found) (auto simp: reaches_def)
  qed simp
qed

definition sample_filed :: db where
  "sample_filed =
     sample_shelf\<lparr>files := [uploaded_row (lit ''f'') (lit ''p'') (lit ''a.stl'') (classification_of Model None) 3 0 []],
       previews := [(pending_preview (lit ''f'') 0)\<lparr>pv_state := PvReady, pv_png_path := Some (lit ''/etc'')\<rparr>]\<rparr>"

lemma sample_filed_rows:
  "require_owned_file sample_filed \<lparr>ctx_user_id = lit ''1'', ctx_is_admin = False\<rparr> (lit ''f'') =
     Inr \<lparr>of_id = lit ''f'', of_project_id = lit ''p'', of_rel_path = lit ''a.stl'', of_kind = Model,
          of_slicer = None, of_size_bytes = 3, of_preview_state = Some PvReady, of_dir_name = lit ''100% cube''\<rparr>"
  "require_user_row sample_filed (lit ''1'') = Inr sample_user"
  "list_ex (\<lambda>f. f_project_id f = lit ''p'' \<and> f_rel_path f = lit ''b.stl'' \<and> f_id f \<noteq> lit ''f'') (files sample_filed) = False"
  by (simp_all add: require_owned_file_def file_owner_project_def sample_filed_def sample_shelf_def
      uploaded_row_def classification_of_def find_preview_def pending_preview_def require_user_row_def
      find_user_by_id_def sample_db_def sample_user_def)

lemma sample_filed_path:
  "resolve_file_path nowhere \<lparr>ctx_user_id = lit ''1'', ctx_is_admin = False\<rparr> (lit ''f'') sample_filed =
     Inr \<lparr>rf_abs_path = sample_place, rf_name = lit ''a.stl'', rf_size_bytes = 3,
          rf_content_type = lit ''model/stl''\<rparr>"
proof -
  have "u_library_dir sample_user = lit ''ann''" by (simp add: sample_user_def)
  moreover have "plain_part (lit ''a.stl'')" "\<not> has_drive (lit ''a.stl'')" "rel_segments (lit ''a.stl'') = [lit ''a.stl'']"
      "content_type_for (lit ''a.stl'') = lit ''model/stl''"
    by (simp_all add: plain_part_def has_drive_def is_slash_def rel_segments_def content_type_for_def
        to_ascii_lowercase_def lit_def)
  ultimately show ?thesis
    by (simp add: resolve_file_path_def sample_filed_rows sample_dir safe_join_plain absolute_path_def sample_place_def
        Let_def)
qed

theorem served_paths_confined_witness:
  "\<exists>names. sample_place = lp_dir nowhere @ map Normal names"
  using served_paths_confined [of nowhere "\<lparr>ctx_user_id = lit ''1'', ctx_is_admin = False\<rparr>" "lit ''f''" sample_filed]
  unfolding sample_filed_path by (simp add: nowhere_def absolute_path_def)

text \<open>
  A file that is not in one of the caller's own projects does not exist for the caller: every file
  use case answers not found, and touches neither the database nor the disk.
\<close>

theorem foreign_file_untouched:
  assumes "\<not> reaches c fid db"
  shows "rename_file lp w now c fid name db disk = (Inl (not_found (lit ''file not found'')), db, disk) \<and>
    delete_file lp w now c fid db disk = (Inl (not_found (lit ''file not found'')), db, disk) \<and>
    resolve_file_path lp c fid db = Inl (not_found (lit ''file not found'')) \<and>
    resolve_preview_path lp c fid db disk = Inl (not_found (lit ''file not found''))"
proof -
  have "require_owned_file db c fid = Inl (not_found (lit ''file not found''))"
    using assms require_owned_file_reaches [of db c fid] by simp
  then show ?thesis
    by (simp add: rename_file_def rename_plan_def delete_file_def resolve_file_path_def resolve_preview_path_def)
qed

theorem foreign_file_untouched_witness:
  "delete_file nowhere calm 0 \<lparr>ctx_user_id = lit ''2'', ctx_is_admin = True\<rparr> (lit ''f'') sample_filed (\<lambda>_. None) =
     (Inl (not_found (lit ''file not found'')), sample_filed, \<lambda>_. None)"
proof -
  have "\<not> reaches \<lparr>ctx_user_id = lit ''2'', ctx_is_admin = True\<rparr> (lit ''f'') sample_filed"
    by (simp add: reaches_def sample_filed_def sample_shelf_def)
  from foreign_file_untouched [OF this] show ?thesis by blast
qed

section \<open>Renaming\<close>

lemma split_join_segments:
  "\<lbrakk>ss \<noteq> []; \<forall>s \<in> set ss. \<forall>c \<in> set s. c \<noteq> 47\<rbrakk> \<Longrightarrow> rel_segments (join_segments ss) = ss"
proof (induction ss rule: join_segments.induct)
  case (3 s t ts)
  have "split_on (\<lambda>c. c = 47) (s @ 47 # xs) = s # split_on (\<lambda>c. c = 47) xs" if "\<forall>c \<in> set s. c \<noteq> 47" for xs
    using that by (induction s) auto
  with 3 show ?case by (simp add: rel_segments_def)
qed (simp_all add: rel_segments_def split_on_none)

lemma file_owner_project_touch:
  "file_owner_project (touch_project pid now db) c f =
     map_option (\<lambda>p. if p_id p = pid then p\<lparr>p_updated_at := now\<rparr> else p) (file_owner_project db c f)"
  by (simp add: file_owner_project_def touch_project_def find_update_where)

lemma require_owned_file_renamed:
  assumes "require_owned_file db c fid = Inr row" "update_rel_path fid rp db = Inr db'"
  shows "require_owned_file (touch_project pid now db') c fid = Inr (row\<lparr>of_rel_path := rp\<rparr>)"
proof -
  obtain f where f: "find (\<lambda>f. f_id f = fid \<and> file_owner_project db c f \<noteq> None) (files db) = Some f"
    using assms(1) by (auto simp: require_owned_file_def split: option.splits)
  obtain g where "find (\<lambda>f. f_id f = fid) (files db) = Some g"
    using find_Some_set [OF f] by (cases "find (\<lambda>f. f_id f = fid) (files db)") (auto simp: find_None_set)
  then have db': "db' = db\<lparr>files := update_where (\<lambda>f. f_id f = fid) (\<lambda>f. f\<lparr>f_rel_path := rp\<rparr>) (files db)\<rparr>"
    using assms(2) by (auto simp: update_rel_path_def split: if_splits)
  have owner: "file_owner_project (touch_project pid now db') c f =
      map_option (\<lambda>p. if p_id p = pid then p\<lparr>p_updated_at := now\<rparr> else p) (file_owner_project db c f)" for f
    unfolding file_owner_project_touch by (simp add: db' file_owner_project_def)
  have "find (\<lambda>f. f_id f = fid \<and> file_owner_project (touch_project pid now db') c f \<noteq> None)
      (files (touch_project pid now db')) = Some (f\<lparr>f_rel_path := rp\<rparr>)"
    unfolding owner using f find_Some_set [OF f]
    by (simp add: touch_project_def db' find_update_where file_owner_project_def)
  moreover have "file_owner_project (touch_project pid now db') c (f\<lparr>f_rel_path := rp\<rparr>) =
      map_option (\<lambda>p. if p_id p = pid then p\<lparr>p_updated_at := now\<rparr> else p) (file_owner_project db c f)"
    unfolding owner by (simp add: file_owner_project_def)
  moreover have "find_preview (touch_project pid now db') fid = find_preview db fid"
    by (simp add: find_preview_def touch_project_def db')
  ultimately show ?thesis
    using assms(1) f by (auto simp: require_owned_file_def split: option.splits)
qed

text \<open>
  Rename and resolve agree: when nobody interferes, a successful rename moves exactly the file's own
  bytes, from the path it resolved to before to the path it resolves to afterwards, whose last segment
  is the new name; every other path of the disk is as it was.
\<close>

theorem renamed_file_found:
  assumes "rename_file lp calm now c fid name db disk = (Inr dto, db', disk')"
  shows "\<exists>old new content. resolve_file_path lp c fid db = Inr old \<and> resolve_file_path lp c fid db' = Inr new \<and>
     rf_name new = name \<and> rf_size_bytes new = rf_size_bytes old \<and>
     disk (rf_abs_path old) = Some content \<and> disk (rf_abs_path new) = None \<and>
     disk' = disk(rf_abs_path old := None, rf_abs_path new \<mapsto> content)"
proof -
  obtain row old new rp where plan: "rename_plan lp c fid name db = Inr (row, old, new, rp)"
    using assms by (cases "rename_plan lp c fid name db") (auto simp: rename_file_def)
  obtain db1 where moved: "\<not> exists_on disk new" "rename_on None old new disk = (Inr (), disk')"
      "update_rel_path fid rp db = Inr db1" "db' = touch_project (of_project_id row) now db1"
    using assms plan
    by (auto simp: rename_file_def calm_def Let_def split: if_splits sum.splits prod.splits)
  obtain user :: user_row and dir where rows: "require_owned_file db c fid = Inr row"
      "require_user_row db (ctx_user_id c) = Inr user" "assert_single_segment name = Inr ()"
      "lib_project_dir lp (u_library_dir user) (of_dir_name row) = Inr dir"
      and paths: "safe_join (lp_platform lp) (lp_cwd lp) dir
         (butlast (rel_segments (of_rel_path row)) @ [List.last (rel_segments (of_rel_path row))]) = Inr old"
      "safe_join (lp_platform lp) (lp_cwd lp) dir (butlast (rel_segments (of_rel_path row)) @ [name]) = Inr new"
      "rp = join_segments (butlast (rel_segments (of_rel_path row)) @ [name])"
    using plan by (auto simp: rename_plan_def Let_def result_iffs)
  have "\<forall>s \<in> set (butlast (rel_segments (of_rel_path row)) @ [name]). \<forall>c \<in> set s. c \<noteq> 47"
    using rows(3) split_on_parts [of _ "\<lambda>c. c = 47" "of_rel_path row"]
    by (auto simp: assert_single_segment_def list_ex_iff is_slash_def rel_segments_def
        split: if_splits dest!: in_set_butlastD)
  then have segs: "rel_segments rp = butlast (rel_segments (of_rel_path row)) @ [name]"
    unfolding paths(3) by (intro split_join_segments) auto
  have same: "butlast (rel_segments (of_rel_path row)) @ [List.last (rel_segments (of_rel_path row))] =
      rel_segments (of_rel_path row)"
    by (simp add: rel_segments_def)
  have users: "require_user_row db' uid = require_user_row db uid" for uid
    using moved(3)
    by (auto simp: moved(4) require_user_row_def find_user_by_id_def touch_project_def update_rel_path_def
        split: option.splits if_splits)
  note renamed = require_owned_file_renamed [OF rows(1) moved(3), of "of_project_id row" now]
  obtain content where content: "disk old = Some content" "disk' = disk(old := None, new \<mapsto> content)"
    using moved(2) by (auto simp: rename_on_def split: option.splits if_splits)
  show ?thesis
    using rows paths(1,2) same segs content moved(1) renamed
    by (simp add: resolve_file_path_def users moved(4)[symmetric] exists_on_def Let_def)
qed

theorem renamed_file_found_witness:
  "\<exists>new. resolve_file_path nowhere \<lparr>ctx_user_id = lit ''1'', ctx_is_admin = False\<rparr> (lit ''f'')
      (fst (snd (rename_file nowhere calm 0 \<lparr>ctx_user_id = lit ''1'', ctx_is_admin = False\<rparr> (lit ''f'') (lit ''b.stl'')
         sample_filed [sample_place \<mapsto> File [7] 0]))) = Inr new \<and> rf_name new = lit ''b.stl''"
proof -
  let ?c = "\<lparr>ctx_user_id = lit ''1'', ctx_is_admin = False\<rparr>"
  let ?new = "[RootDir, Normal (lit ''ann''), Normal (lit ''100% cube''), Normal (lit ''b.stl'')]"
  let ?row = "\<lparr>of_id = lit ''f'', of_project_id = lit ''p'', of_rel_path = lit ''a.stl'', of_kind = Model,
          of_slicer = None, of_size_bytes = 3, of_preview_state = Some PvReady, of_dir_name = lit ''100% cube''\<rparr>"
  have "u_library_dir sample_user = lit ''ann''" by (simp add: sample_user_def)
  moreover have "plain_part (lit ''a.stl'')" "\<not> has_drive (lit ''a.stl'')" "rel_segments (lit ''a.stl'') = [lit ''a.stl'']"
      "plain_part (lit ''b.stl'')" "\<not> has_drive (lit ''b.stl'')" "assert_single_segment (lit ''b.stl'') = Inr ()"
    by (simp_all add: plain_part_def has_drive_def is_slash_def rel_segments_def assert_single_segment_def lit_def)
  ultimately have plan: "rename_plan nowhere ?c (lit ''f'') (lit ''b.stl'') sample_filed =
      Inr (?row, sample_place, ?new, lit ''b.stl'')"
    by (simp add: rename_plan_def sample_filed_rows sample_dir safe_join_plain absolute_path_def sample_place_def
        Let_def)
  have "?new \<noteq> sample_place" by (simp add: sample_place_def)
  moreover have "is_ok (update_rel_path (lit ''f'') (lit ''b.stl'') sample_filed)"
    by (simp add: update_rel_path_def sample_filed_def uploaded_row_def)
  ultimately have "is_ok (fst (rename_file nowhere calm 0 ?c (lit ''f'') (lit ''b.stl'') sample_filed
      [sample_place \<mapsto> File [7] 0]))"
    by (auto simp: rename_file_def plan sample_filed_rows calm_def rename_on_def exists_on_def is_ok_def
        split: sum.splits)
  then obtain dto db' disk' where run: "rename_file nowhere calm 0 ?c (lit ''f'') (lit ''b.stl'') sample_filed
      [sample_place \<mapsto> File [7] 0] = (Inr dto, db', disk')"
    by (metis is_ok_simps(2) old.sum.exhaust prod.collapse)
  from renamed_file_found [OF this] show ?thesis unfolding run by auto
qed

end
