(* ===== verification/Rescan.thy ===== *)
theory Rescan
  imports Files
begin

text \<open>
  Reconciling the database with the disk, \<^verbatim>\<open>crates/spm-core/src/projects/rescan.rs\<close>. What the disk
  shows is an argument: the listing of the library folder, the tree below each project folder, and
  what opening a file for its hash and for its classification gives (the two may differ: the file may
  change or be locked in between). New ids and the time are arguments; the progress callback and log
  lines are not modelled. A rescan holds the lock for one statement group at a time; here it runs
  alone, and \<open>Previews\<close> interleaves its statement groups with preview jobs. Properties: a
  rescan never deletes anything a user typed and never touches another user; afterwards the indexed
  files of a project are exactly the files on disk.
\<close>

section \<open>What is on disk\<close>

text \<open>
  An entry of a folder: its type may not be told (\<open>Untyped\<close>), a folder may refuse its listing
  (\<open>Locked_Folder\<close>), a file its metadata (\<open>Lost_File\<close>).
\<close>

datatype fs_entry = Plain_File int "int option" | Sub_Folder "(str \<times> fs_entry) list"
  | Locked_Folder io_error | Lost_File io_error | Untyped io_error | Other_Entry

record disk_file =
  df_rel_path :: str
  df_size :: int
  df_mtime_ms :: int

definition is_hidden :: "str \<Rightarrow> bool" where
  "is_hidden name \<longleftrightarrow> starts_with (lit ''.'') name"

definition rel_path_below :: "str \<Rightarrow> str \<Rightarrow> str" where
  "rel_path_below prefix name = (if prefix = [] then name else prefix @ [47] @ name)"

text \<open>The loop over the sorted entries of a folder.\<close>

lemma size_list_sort_key [simp]: "size_list f (sort_key k xs) = size_list f xs"
proof -
  have "size_list f ys = length ys + sum_list (map f ys)" for ys :: "'a list"
    by (induction ys) auto
  moreover have "sum_list (map f (sort_key k xs)) = sum_list (map f xs)"
    by (metis mset_map mset_sort sum_mset_sum_list)
  ultimately show ?thesis by simp
qed

function walk_entries :: "str \<Rightarrow> (str \<times> fs_entry) list \<Rightarrow> disk_file list result" where
  "walk_entries prefix [] = Inr []"
| "walk_entries prefix ((name, entry) # entries) =
     bindE (if is_hidden name then Inr []
            else case entry of
                   Sub_Folder below \<Rightarrow> walk_entries (rel_path_below prefix name) (sort_key fst below)
                 | Plain_File len modified \<Rightarrow>
                     Inr [\<lparr>df_rel_path = rel_path_below prefix name, df_size = min i64_max len,
                           df_mtime_ms = mtime_ms modified\<rparr>]
                 | Locked_Folder e \<Rightarrow> Inl (app_error_of_io e)
                 | Lost_File e \<Rightarrow> Inl (app_error_of_io e)
                 | Untyped e \<Rightarrow> Inl (app_error_of_io e)
                 | Other_Entry \<Rightarrow> Inr []) (\<lambda>found.
     bindE (walk_entries prefix entries) (\<lambda>more. Inr (found @ more)))"
  by pat_completeness auto
termination
  by (relation "measure (\<lambda>(_, es). size_list (size_prod (\<lambda>_. 0) size) es)")
    (auto simp: comp_def)

definition walk_files :: "(io_error + (str \<times> fs_entry) list) \<Rightarrow> disk_file list result" where
  "walk_files folder =
     (case folder of
        Inl e \<Rightarrow> Inl (app_error_of_io e)
      | Inr entries \<Rightarrow> walk_entries [] (sort_key fst entries))"

text \<open>Listing the library folder: an absent one, or one that is no folder, lists as empty.\<close>

datatype listing = Root_Absent | Root_Failed io_error | Root_Entries "(str \<times> fs_entry) list"

fun folder_names :: "(str \<times> fs_entry) list \<Rightarrow> str list result" where
  "folder_names [] = Inr []"
| "folder_names ((name, entry) # entries) =
     (case entry of
        Untyped e \<Rightarrow> Inl (app_error_of_io e)
      | _ \<Rightarrow> bindE (folder_names entries) (\<lambda>names.
          Inr (if (case entry of Sub_Folder _ \<Rightarrow> True | Locked_Folder _ \<Rightarrow> True | _ \<Rightarrow> False) \<and> \<not> is_hidden name
               then name # names else names)))"

definition list_project_folders :: "listing \<Rightarrow> str list result" where
  "list_project_folders root =
     (case root of
        Root_Absent \<Rightarrow> Inr []
      | Root_Failed e \<Rightarrow> Inl (app_error_of_io e)
      | Root_Entries entries \<Rightarrow> bindE (folder_names entries) (\<lambda>names. Inr (sort (remdups names))))"

definition file_content_hash :: "(bytes \<Rightarrow> bytes) \<Rightarrow> opened \<Rightarrow> bytes result" where
  "file_content_hash sha file =
     (case file of Inl e \<Rightarrow> Inl (app_error_of_io e) | Inr bs \<Rightarrow> Inr (sha bs))"

record rescan_world =
  rw_root :: listing
  rw_tree :: "str \<Rightarrow> io_error + (str \<times> fs_entry) list"
  rw_hash :: "str \<Rightarrow> str \<Rightarrow> opened"
  rw_classify :: "str \<Rightarrow> str \<Rightarrow> opened"
  rw_os :: os

section \<open>One file\<close>

record rescan_result =
  rr_adopted :: nat
  rr_marked_missing :: nat
  rr_files_added :: nat
  rr_files_removed :: nat
  rr_previews_queued :: nat

definition nothing_done :: rescan_result where
  "nothing_done = \<lparr>rr_adopted = 0, rr_marked_missing = 0, rr_files_added = 0, rr_files_removed = 0,
                   rr_previews_queued = 0\<rparr>"

definition reset_row :: "int \<Rightarrow> preview_row \<Rightarrow> preview_row" where
  "reset_row now v =
     v\<lparr>pv_state := PvPending, pv_source := None, pv_png_path := None, pv_width := None,
       pv_height := None, pv_error := None, pv_attempts := 0, pv_claimed_at := None,
       pv_updated_at := now\<rparr>"

definition reset_preview :: "str \<Rightarrow> int \<Rightarrow> db \<Rightarrow> db" where
  "reset_preview fid now db =
     db\<lparr>previews := update_where (\<lambda>v. pv_file_id v = fid) (reset_row now) (previews db)\<rparr>"

definition preview_exists :: "str \<Rightarrow> db \<Rightarrow> bool" where
  "preview_exists fid db = list_ex (\<lambda>v. pv_file_id v = fid) (previews db)"

definition queue_again :: "str \<Rightarrow> int \<Rightarrow> db \<Rightarrow> db result" where
  "queue_again fid now db =
     (if preview_exists fid db then Inr (reset_preview fid now db)
      else insert_preview (pending_preview fid now) db)"

definition index_file_tx :: "file_row \<Rightarrow> int \<Rightarrow> db \<Rightarrow> db result" where
  "index_file_tx f now db =
     bindE (insert_file f db) (\<lambda>db1. insert_preview (pending_preview (f_id f) now) db1)"

definition update_file :: "str \<Rightarrow> (file_row \<Rightarrow> file_row) \<Rightarrow> db \<Rightarrow> db" where
  "update_file fid f db = db\<lparr>files := update_where (\<lambda>r. f_id r = fid) f (files db)\<rparr>"

definition stamped :: "classification \<Rightarrow> file_row \<Rightarrow> file_row" where
  "stamped cl f = f\<lparr>f_kind := cl_kind cl, f_slicer := cl_slicer cl, f_classified_by := CLASSIFIER_VERSION\<rparr>"

text \<open>The bytes have not moved but the classifier has; whether a preview was queued.\<close>

definition reclassify_tx :: "file_row \<Rightarrow> classification \<Rightarrow> int \<Rightarrow> db \<Rightarrow> (bool \<times> db) result" where
  "reclassify_tx known cl now db =
     (let db1 = update_file (f_id known) (stamped cl) db in
      if cl_kind cl \<noteq> f_kind known
      then bindE (queue_again (f_id known) now db1) (\<lambda>db2. Inr (True, db2))
      else Inr (False, db1))"

definition refreshed :: "classification \<Rightarrow> disk_file \<Rightarrow> bytes \<Rightarrow> file_row \<Rightarrow> file_row" where
  "refreshed cl df hash f =
     (stamped cl f)\<lparr>f_size_bytes := df_size df, f_mtime_ms := df_mtime_ms df, f_content_hash := Some hash\<rparr>"

definition same_source :: "str \<Rightarrow> bytes \<Rightarrow> db \<Rightarrow> bool" where
  "same_source fid hash db \<longleftrightarrow>
     (case find_preview db fid of None \<Rightarrow> False | Some v \<Rightarrow> pv_source_hash v = Some hash)"

definition reindex_tx ::
  "file_row \<Rightarrow> classification \<Rightarrow> disk_file \<Rightarrow> bytes \<Rightarrow> int \<Rightarrow> db \<Rightarrow> (bool \<times> db) result" where
  "reindex_tx known cl df hash now db =
     (let db1 = update_file (f_id known) (refreshed cl df hash) db in
      if same_source (f_id known) hash db1 then Inr (False, db1)
      else bindE (queue_again (f_id known) now db1) (\<lambda>db2. Inr (True, db2)))"

definition new_file_row :: "str \<Rightarrow> str \<Rightarrow> disk_file \<Rightarrow> classification \<Rightarrow> bytes \<Rightarrow> file_row" where
  "new_file_row fid pid df cl hash =
     uploaded_row fid pid (df_rel_path df) cl (df_size df) (df_mtime_ms df) hash"

definition unchanged_stat :: "file_row \<Rightarrow> disk_file \<Rightarrow> bool" where
  "unchanged_stat known df \<longleftrightarrow> f_size_bytes known = df_size df \<and> f_mtime_ms known = df_mtime_ms df"

type_synonym scan = "db \<times> rescan_result"

definition queued :: "bool \<Rightarrow> rescan_result \<Rightarrow> rescan_result" where
  "queued b r = (if b then r\<lparr>rr_previews_queued := Suc (rr_previews_queued r)\<rparr> else r)"

text \<open>One file of the disk, against the row it had when its project's scan began.\<close>

definition scan_file ::
  "(source \<Rightarrow> nat \<Rightarrow> nat \<Rightarrow> 'd) \<Rightarrow> ('d \<Rightarrow> nat \<Rightarrow> (inflate_fault + bytes) \<times> 'd) \<Rightarrow> (bytes \<Rightarrow> bytes) \<Rightarrow>
   rescan_world \<Rightarrow> (str \<Rightarrow> str \<Rightarrow> str) \<Rightarrow> int \<Rightarrow> project_row \<Rightarrow> file_row list \<Rightarrow> disk_file \<Rightarrow> scan \<Rightarrow>
   unit outcome \<times> scan" where
  "scan_file inflate_new inflate_read sha w new_id now p existing df s =
     (let (db, res) = s; dir = p_dir_name p; rel = df_rel_path df;
          classify = classify_file inflate_new inflate_read (rw_os w) rel (rw_classify w dir rel);
          hashed = lift_fault (file_content_hash sha (rw_hash w dir rel)) in
      case find (\<lambda>f. f_rel_path f = rel) existing of
        None \<Rightarrow>
          (case bindE classify (\<lambda>cl. bindE hashed (\<lambda>hash.
                  lift_fault (index_file_tx (new_file_row (new_id dir rel) (p_id p) df cl hash) now db))) of
             Inl e \<Rightarrow> (Inl e, s)
           | Inr db' \<Rightarrow>
               (Inr (), db', res\<lparr>rr_files_added := Suc (rr_files_added res),
                               rr_previews_queued := Suc (rr_previews_queued res)\<rparr>))
      | Some known \<Rightarrow>
          if unchanged_stat known df \<and> f_classified_by known = CLASSIFIER_VERSION then (Inr (), s)
          else
            (case (if unchanged_stat known df
                   then bindE classify (\<lambda>cl.
                          if cl_unreadable cl then Inr (False, db)
                          else lift_fault (reclassify_tx known cl now db))
                   else bindE hashed (\<lambda>hash. bindE classify (\<lambda>cl.
                          if cl_unreadable cl then Inr (False, db)
                          else lift_fault (reindex_tx known cl df hash now db)))) of
               Inl e \<Rightarrow> (Inl e, s)
             | Inr (b, db') \<Rightarrow> (Inr (), db', queued b res)))"

section \<open>A whole rescan\<close>

text \<open>A loop that stops at the first failure and keeps what was done before it.\<close>

fun each :: "('a \<Rightarrow> 's \<Rightarrow> ('e + unit) \<times> 's) \<Rightarrow> 'a list \<Rightarrow> 's \<Rightarrow> ('e + unit) \<times> 's" where
  "each f [] s = (Inr (), s)"
| "each f (x # xs) s =
     (case f x s of (Inl e, s') \<Rightarrow> (Inl e, s') | (Inr _, s') \<Rightarrow> each f xs s')"

definition adopted_row :: "ctx \<Rightarrow> str \<Rightarrow> str \<Rightarrow> int \<Rightarrow> project_row" where
  "adopted_row c pid dir_name now =
     \<lparr>p_id = pid, p_owner_id = ctx_user_id c, p_name = dir_name, p_dir_name = dir_name, p_website = None,
      p_notes = None, p_is_archived = False, p_state = ProjOk, p_created_at = now, p_updated_at = now\<rparr>"

text \<open>The transaction that adopts every folder with no row; how many there were.\<close>

fun adopt_folders :: "ctx \<Rightarrow> (str \<Rightarrow> str) \<Rightarrow> int \<Rightarrow> str list \<Rightarrow> db \<Rightarrow> (nat \<times> db) result" where
  "adopt_folders c new_pid now [] db = Inr (0, db)"
| "adopt_folders c new_pid now (dir # dirs) db =
     (if dir_taken c db dir then adopt_folders c new_pid now dirs db
      else bindE (insert_project (adopted_row c (new_pid dir) dir now) db) (\<lambda>db1.
           bindE (adopt_folders c new_pid now dirs db1) (\<lambda>(n, db2). Inr (Suc n, db2))))"

definition own_projects :: "ctx \<Rightarrow> db \<Rightarrow> project_row list" where
  "own_projects c db = sort_key p_dir_name (filter (\<lambda>p. p_owner_id p = ctx_user_id c) (projects db))"

definition set_project_state :: "str \<Rightarrow> project_state \<Rightarrow> int \<Rightarrow> db \<Rightarrow> db" where
  "set_project_state pid st now db =
     db\<lparr>projects := update_where (\<lambda>p. p_id p = pid) (\<lambda>p. p\<lparr>p_state := st, p_updated_at := now\<rparr>) (projects db)\<rparr>"

definition forget_files :: "file_row list \<Rightarrow> scan \<Rightarrow> scan" where
  "forget_files gone s =
     foldl (\<lambda>(db, res) f. (delete_files (\<lambda>r. f_id r = f_id f) db,
                          res\<lparr>rr_files_removed := Suc (rr_files_removed res)\<rparr>)) s gone"

definition scan_project ::
  "(source \<Rightarrow> nat \<Rightarrow> nat \<Rightarrow> 'd) \<Rightarrow> ('d \<Rightarrow> nat \<Rightarrow> (inflate_fault + bytes) \<times> 'd) \<Rightarrow> (bytes \<Rightarrow> bytes) \<Rightarrow>
   rescan_world \<Rightarrow> (str \<Rightarrow> str \<Rightarrow> str) \<Rightarrow> int \<Rightarrow> str list \<Rightarrow> project_row \<Rightarrow> scan \<Rightarrow> unit outcome \<times> scan" where
  "scan_project inflate_new inflate_read sha w new_id now on_disk p s =
     (let (db, res) = s in
      if p_dir_name p \<notin> set on_disk
      then if p_state p = ProjMissing then (Inr (), s)
           else (Inr (), set_project_state (p_id p) ProjMissing now db,
                 res\<lparr>rr_marked_missing := Suc (rr_marked_missing res)\<rparr>)
      else
        let db1 = (if p_state p = ProjOk then db else set_project_state (p_id p) ProjOk now db) in
        case walk_files (rw_tree w (p_dir_name p)) of
          Inl e \<Rightarrow> (Inl (Failed e), db1, res)
        | Inr found \<Rightarrow>
            let existing = filter (\<lambda>f. f_project_id f = p_id p) (files db1) in
            case each (scan_file inflate_new inflate_read sha w new_id now p existing) found (db1, res) of
              (Inl e, s') \<Rightarrow> (Inl e, s')
            | (Inr _, s') \<Rightarrow>
                (Inr (), forget_files (filter (\<lambda>f. f_rel_path f \<notin> set (map df_rel_path found)) existing) s'))"

definition rescan ::
  "(source \<Rightarrow> nat \<Rightarrow> nat \<Rightarrow> 'd) \<Rightarrow> ('d \<Rightarrow> nat \<Rightarrow> (inflate_fault + bytes) \<times> 'd) \<Rightarrow> (bytes \<Rightarrow> bytes) \<Rightarrow>
   lib_place \<Rightarrow> rescan_world \<Rightarrow> (str \<Rightarrow> str) \<Rightarrow> (str \<Rightarrow> str \<Rightarrow> str) \<Rightarrow> int \<Rightarrow> ctx \<Rightarrow> db \<Rightarrow>
   rescan_result outcome \<times> db" where
  "rescan inflate_new inflate_read sha lp w new_pid new_id now c db =
     (case bindE (require_user_row db (ctx_user_id c)) (\<lambda>u.
           bindE (lib_user_root lp (u_library_dir u)) (\<lambda>_.
           bindE (list_project_folders (rw_root w)) (\<lambda>on_disk.
           bindE (adopt_folders c new_pid now on_disk db) (\<lambda>(n, db1). Inr (on_disk, n, db1))))) of
        Inl e \<Rightarrow> (Inl (Failed e), db)
      | Inr (on_disk, n, db1) \<Rightarrow>
          (case each (scan_project inflate_new inflate_read sha w new_id now on_disk) (own_projects c db1)
                  (db1, nothing_done\<lparr>rr_adopted := n\<rparr>) of
             (Inl e, db2, _) \<Rightarrow> (Inl e, db2)
           | (Inr _, db2, res) \<Rightarrow> (Inr res, db2)))"

section \<open>What a scan keeps\<close>

text \<open>Any property every step keeps is kept by the loop, whether it finishes or stops.\<close>

lemma each_keeps:
  assumes "\<And>x s. x \<in> set xs \<Longrightarrow> P s \<Longrightarrow> P (snd (f x s))" "P s"
  shows "P (snd (each f xs s))"
  using assms
proof (induction xs arbitrary: s)
  case (Cons x xs)
  have "P (snd (f x s))" using Cons.prems by simp
  with Cons show ?case by (cases "f x s"; cases "fst (f x s)") auto
qed simp

text \<open>What belongs to others, by the ids of their projects and files.\<close>

definition foreign_files :: "str \<Rightarrow> db \<Rightarrow> str set" where
  "foreign_files uid db = f_id ` {f \<in> set (files db). f_project_id f \<in> foreign_ids uid db}"

lemma others_by_ids:
  "others uid db =
     db\<lparr>projects := filter (\<lambda>p. p_owner_id p \<noteq> uid) (projects db),
        tags := filter (\<lambda>t. tg_owner_id t \<noteq> uid) (tags db),
        project_tags := filter (\<lambda>r. pt_project_id r \<in> foreign_ids uid db) (project_tags db),
        files := filter (\<lambda>f. f_project_id f \<in> foreign_ids uid db) (files db),
        previews := filter (\<lambda>v. pv_file_id v \<in> foreign_files uid db) (previews db)\<rparr>"
proof -
  have "p_id ` set (filter (\<lambda>p. p_owner_id p \<noteq> uid) (projects db)) = foreign_ids uid db"
    by (auto simp: foreign_ids_def)
  moreover have "f_id ` set (filter (\<lambda>f. f_project_id f \<in> foreign_ids uid db) (files db)) = foreign_files uid db"
    by (auto simp: foreign_files_def)
  ultimately show ?thesis by (simp only: others_def Let_def)
qed

lemma foreign_by_others:
  "foreign_ids uid db = p_id ` set (projects (others uid db))"
  "foreign_files uid db = f_id ` set (files (others uid db))"
  by (auto simp: others_by_ids foreign_ids_def foreign_files_def)

lemma foreign_cong:
  "others uid db = others uid db' \<Longrightarrow> foreign_ids uid db = foreign_ids uid db'"
  "others uid db = others uid db' \<Longrightarrow> foreign_files uid db = foreign_files uid db'"
  by (simp_all add: foreign_by_others)

lemma own_file_not_foreign:
  assumes "db_wf db" "f \<in> set (files db)" "f_project_id f \<notin> foreign_ids uid db"
  shows "f_id f \<notin> foreign_files uid db"
proof
  assume "f_id f \<in> foreign_files uid db"
  then obtain g where g: "g \<in> set (files db)" "f_id g = f_id f" "f_project_id g \<in> foreign_ids uid db"
    by (auto simp: foreign_files_def)
  have "inj_on f_id (set (files db))" using assms(1) by (simp add: wf_defs distinct_map)
  then have "g = f" using g(1,2) assms(2) by (auto dest: inj_onD)
  with g(3) assms(3) show False by simp
qed

lemma others_update_file:
  assumes "fid \<notin> foreign_files uid db" "\<And>f. f_id (F f) = f_id f" "\<And>f. f_project_id (F f) = f_project_id f"
  shows "others uid (update_file fid F db) = others uid db"
proof -
  have ids: "foreign_ids uid (update_file fid F db) = foreign_ids uid db"
    by (simp add: foreign_ids_def update_file_def)
  have "filter (\<lambda>f. f_project_id f \<in> foreign_ids uid db) (update_where (\<lambda>r. f_id r = fid) F (files db)) =
      filter (\<lambda>f. f_project_id f \<in> foreign_ids uid db) (files db)"
    using assms by (intro filter_update_where) (auto simp: foreign_files_def)
  moreover from this have "foreign_files uid (update_file fid F db) = foreign_files uid db"
    unfolding foreign_files_def ids set_filter [symmetric] by (simp add: update_file_def del: set_filter)
  ultimately show ?thesis
    unfolding others_by_ids ids by (simp add: update_file_def)
qed

lemma others_previews:
  assumes "filter (\<lambda>v. pv_file_id v \<in> foreign_files uid db) pvs =
     filter (\<lambda>v. pv_file_id v \<in> foreign_files uid db) (previews db)"
  shows "others uid (db\<lparr>previews := pvs\<rparr>) = others uid db"
proof -
  have "foreign_ids uid (db\<lparr>previews := pvs\<rparr>) = foreign_ids uid db"
      "foreign_files uid (db\<lparr>previews := pvs\<rparr>) = foreign_files uid db"
    by (simp_all add: foreign_ids_def foreign_files_def)
  then show ?thesis unfolding others_by_ids using assms by simp
qed

lemma others_insert_preview:
  assumes "insert_preview v db = Inr db'" "pv_file_id v \<notin> foreign_files uid db"
  shows "others uid db' = others uid db"
proof -
  have "db' = db\<lparr>previews := previews db @ [v]\<rparr>"
    using assms(1) by (auto simp: insert_preview_def split: if_splits)
  then show ?thesis using assms(2) by (simp add: others_previews)
qed

lemma others_reset_preview:
  "fid \<notin> foreign_files uid db \<Longrightarrow> others uid (reset_preview fid now db) = others uid db"
  unfolding reset_preview_def
  by (intro others_previews filter_update_where) (auto simp: reset_row_def)

lemma others_queue_again:
  "queue_again fid now db = Inr db' \<Longrightarrow> fid \<notin> foreign_files uid db \<Longrightarrow> others uid db' = others uid db"
  using others_insert_preview [of "pending_preview fid now" db db' uid]
  by (auto simp: queue_again_def others_reset_preview pending_preview_def split: if_splits)

lemma others_insert_file:
  assumes "insert_file f db = Inr db'" "f_project_id f \<notin> foreign_ids uid db"
  shows "others uid db' = others uid db"
proof -
  have db': "db' = db\<lparr>files := files db @ [f]\<rparr>"
    using assms(1) by (auto simp: insert_file_def split: if_splits)
  have ids: "foreign_ids uid db' = foreign_ids uid db" by (simp add: foreign_ids_def db')
  moreover have "foreign_files uid db' = foreign_files uid db"
    using assms(2) by (auto simp: foreign_files_def db' ids [unfolded db'])
  ultimately show ?thesis using assms(2) unfolding others_by_ids by (simp add: db')
qed

lemma others_set_project_state:
  assumes "pid \<notin> foreign_ids uid db"
  shows "others uid (set_project_state pid st now db) = others uid db"
proof -
  have "filter (\<lambda>p. p_owner_id p \<noteq> uid) (update_where (\<lambda>p. p_id p = pid)
      (\<lambda>p. p\<lparr>p_state := st, p_updated_at := now\<rparr>) (projects db)) =
      filter (\<lambda>p. p_owner_id p \<noteq> uid) (projects db)"
    using assms by (intro filter_update_where) (auto simp: foreign_ids_def)
  then show ?thesis by (simp add: others_def set_project_state_def Let_def)
qed

lemma others_delete_file:
  assumes "fid \<notin> foreign_files uid db"
  shows "others uid (delete_files (\<lambda>f. f_id f = fid) db) = others uid db"
proof -
  let ?db = "delete_files (\<lambda>f. f_id f = fid) db"
  have ids: "foreign_ids uid ?db = foreign_ids uid db" by (simp add: foreign_ids_def delete_files_def)
  have kept: "filter (\<lambda>f. f_project_id f \<in> foreign_ids uid db) (delete_where (\<lambda>f. f_id f = fid) (files db)) =
      filter (\<lambda>f. f_project_id f \<in> foreign_ids uid db) (files db)"
    using assms by (intro filter_delete_where) (auto simp: foreign_files_def)
  from this have fs: "foreign_files uid ?db = foreign_files uid db"
    unfolding foreign_files_def ids set_filter [symmetric] by (simp add: delete_files_def del: set_filter)
  have "filter (\<lambda>v. pv_file_id v \<in> foreign_files uid db)
      (delete_where (\<lambda>v. list_ex (\<lambda>f. f_id f = fid \<and> f_id f = pv_file_id v) (files db)) (previews db)) =
      filter (\<lambda>v. pv_file_id v \<in> foreign_files uid db) (previews db)"
    using assms by (intro filter_delete_where) (auto simp: list_ex_iff)
  with kept show ?thesis unfolding others_by_ids ids fs by (simp add: delete_files_def)
qed

section \<open>Everything typed survives\<close>

text \<open>A project row without the two columns a rescan may change.\<close>

definition typed :: "project_row \<Rightarrow> project_row" where
  "typed p = p\<lparr>p_state := ProjOk, p_updated_at := 0\<rparr>"

definition keeps_typed :: "str \<Rightarrow> db \<Rightarrow> db \<Rightarrow> bool" where
  "keeps_typed uid db0 db \<longleftrightarrow>
     db_wf db \<and> others uid db = others uid db0 \<and> tags db = tags db0 \<and> project_tags db = project_tags db0 \<and>
     take (length (projects db0)) (map typed (projects db)) = map typed (projects db0)"

named_theorems keeps "statements of a rescan keep everything typed"

lemma keeps_typed_foreign:
  "keeps_typed uid db0 db \<Longrightarrow> foreign_ids uid db = foreign_ids uid db0 \<and> foreign_files uid db = foreign_files uid db0"
  unfolding keeps_typed_def using foreign_cong by blast

lemma update_file_wf:
  "db_wf db \<Longrightarrow> (\<And>f. f_id (F f) = f_id f) \<Longrightarrow> (\<And>f. f_project_id (F f) = f_project_id f) \<Longrightarrow>
     (\<And>f. f_rel_path (F f) = f_rel_path f) \<Longrightarrow> db_wf (update_file fid F db)"
  unfolding update_file_def by (rule update_files_wf)

lemma keeps_update_file [keeps]:
  assumes "keeps_typed uid db0 db" "fid \<notin> foreign_files uid db0" "\<And>f. f_id (F f) = f_id f"
    "\<And>f. f_project_id (F f) = f_project_id f" "\<And>f. f_rel_path (F f) = f_rel_path f"
  shows "keeps_typed uid db0 (update_file fid F db)"
proof -
  have "others uid (update_file fid F db) = others uid db"
    using assms keeps_typed_foreign [OF assms(1)] by (intro others_update_file) auto
  moreover have "db_wf (update_file fid F db)"
    using assms by (intro update_file_wf) (auto simp: keeps_typed_def)
  ultimately show ?thesis using assms(1) by (simp add: keeps_typed_def) (simp add: update_file_def)
qed

lemma keeps_queue_again [keeps]:
  assumes "queue_again fid now db = Inr db'" "keeps_typed uid db0 db" "fid \<notin> foreign_files uid db0"
  shows "keeps_typed uid db0 db'"
proof -
  have "others uid db' = others uid db"
    using others_queue_again [OF assms(1)] keeps_typed_foreign [OF assms(2)] assms(3) by simp
  moreover have "db_wf (reset_preview fid now db)"
    unfolding reset_preview_def using assms(2)
    by (intro update_previews_wf) (auto simp: keeps_typed_def reset_row_def)
  then have "db_wf db'"
    using assms(1,2) insert_preview_wf by (auto simp: queue_again_def keeps_typed_def split: if_splits)
  moreover have "projects db' = projects db \<and> tags db' = tags db \<and> project_tags db' = project_tags db"
    using assms(1) by (auto simp: queue_again_def reset_preview_def insert_preview_def split: if_splits)
  ultimately show ?thesis using assms(2) by (simp add: keeps_typed_def)
qed

lemma keeps_index_file [keeps]:
  assumes "index_file_tx f now db = Inr db'" "keeps_typed uid db0 db"
    "f_project_id f \<notin> foreign_ids uid db0"
  shows "keeps_typed uid db0 db'"
proof -
  obtain db1 where ins: "insert_file f db = Inr db1" "insert_preview (pending_preview (f_id f) now) db1 = Inr db'"
    using assms(1) by (auto simp: index_file_tx_def result_iffs)
  have wf: "db_wf db1" "db_wf db'"
    using insert_file_wf [OF ins(1)] insert_preview_wf [OF ins(2)] assms(2) by (auto simp: keeps_typed_def)
  have own: "f_project_id f \<notin> foreign_ids uid db" using keeps_typed_foreign [OF assms(2)] assms(3) by simp
  have same: "others uid db1 = others uid db" by (rule others_insert_file [OF ins(1) own])
  have "f \<in> set (files db1)" using ins(1) by (auto simp: insert_file_def split: if_splits)
  then have "f_id f \<notin> foreign_files uid db1"
    using own_file_not_foreign [OF wf(1)] own foreign_cong(1) [OF same] by simp
  then have "others uid db' = others uid db1"
    by (intro others_insert_preview [OF ins(2)]) (simp add: pending_preview_def)
  moreover have "projects db' = projects db \<and> tags db' = tags db \<and> project_tags db' = project_tags db"
    using ins by (auto simp: insert_file_def insert_preview_def split: if_splits)
  ultimately show ?thesis using assms(2) wf same by (simp add: keeps_typed_def)
qed

lemma keeps_set_project_state [keeps]:
  assumes "keeps_typed uid db0 db" "pid \<notin> foreign_ids uid db0"
  shows "keeps_typed uid db0 (set_project_state pid st now db)"
proof -
  have "others uid (set_project_state pid st now db) = others uid db"
    using assms keeps_typed_foreign [OF assms(1)] by (intro others_set_project_state) simp
  moreover have "db_wf (set_project_state pid st now db)"
    unfolding set_project_state_def using assms(1) by (intro update_projects_wf) (auto simp: keeps_typed_def)
  moreover have "map typed (update_where (\<lambda>p. p_id p = pid) (\<lambda>p. p\<lparr>p_state := st, p_updated_at := now\<rparr>) ps) =
      map typed ps" for ps
    by (rule map_update_where) (simp add: typed_def)
  ultimately show ?thesis using assms(1) by (simp add: keeps_typed_def) (simp add: set_project_state_def)
qed

lemma keeps_delete_file [keeps]:
  assumes "keeps_typed uid db0 db" "fid \<notin> foreign_files uid db0"
  shows "keeps_typed uid db0 (delete_files (\<lambda>f. f_id f = fid) db)"
proof -
  have "others uid (delete_files (\<lambda>f. f_id f = fid) db) = others uid db"
    using assms keeps_typed_foreign [OF assms(1)] by (intro others_delete_file) simp
  then show ?thesis
    using assms(1) delete_files_wf by (simp add: keeps_typed_def) (simp add: delete_files_def)
qed

lemma keeps_forget_files:
  "keeps_typed uid db0 (fst s) \<Longrightarrow> \<forall>f \<in> set gone. f_id f \<notin> foreign_files uid db0 \<Longrightarrow>
     keeps_typed uid db0 (fst (forget_files gone s))"
  by (induction gone arbitrary: s) (auto simp: forget_files_def keeps_delete_file split: prod.splits)

lemma keeps_scan_file:
  assumes "keeps_typed uid db0 (fst s)" "p_id p \<notin> foreign_ids uid db0"
    "\<forall>f \<in> set existing. f_id f \<notin> foreign_files uid db0"
  shows "keeps_typed uid db0 (fst (snd (scan_file inflate_new inflate_read sha w new_id now p existing df s)))"
proof -
  obtain db res where s: "s = (db, res)" by fastforce
  have db: "keeps_typed uid db0 db" using assms(1) by (simp add: s)
  let ?scan = "scan_file inflate_new inflate_read sha w new_id now p existing df (db, res)"
  show ?thesis
  proof (cases "find (\<lambda>f. f_rel_path f = df_rel_path df) existing")
    case None
    have "keeps_typed uid db0 db'" if "index_file_tx (new_file_row fid (p_id p) df cl hash) now db = Inr db'" for fid cl hash db'
      using keeps_index_file [OF that db] assms(2) by (simp add: new_file_row_def uploaded_row_def)
    then show ?thesis
      unfolding s scan_file_def Let_def prod.case None option.case
      using db by (auto simp: result_iffs split: sum.splits)
  next
    case (Some known)
    then have own: "f_id known \<notin> foreign_files uid db0" using find_Some_set [OF Some] assms(3) by blast
    have re: "keeps_typed uid db0 db'" if "reclassify_tx known cl now db = Inr (b, db')" for cl b db'
      using that own keeps_update_file [OF db own, of "stamped cl"]
      by (auto simp: reclassify_tx_def Let_def result_iffs stamped_def split: if_splits intro: keeps_queue_again)
    have ri: "keeps_typed uid db0 db'" if "reindex_tx known cl df hash now db = Inr (b, db')" for cl hash b db'
      using that own keeps_update_file [OF db own, of "refreshed cl df hash"]
      by (auto simp: reindex_tx_def Let_def result_iffs refreshed_def stamped_def split: if_splits intro: keeps_queue_again)
    show ?thesis
      unfolding s scan_file_def Let_def prod.case Some option.case
      using db re ri by (auto simp: result_iffs split: sum.splits if_splits)
  qed
qed

lemma keeps_adopt_folders:
  "adopt_folders c new_pid now dirs db = Inr (n, db') \<Longrightarrow> keeps_typed (ctx_user_id c) db0 db \<Longrightarrow>
     keeps_typed (ctx_user_id c) db0 db'"
proof (induction dirs arbitrary: db n)
  case (Cons dir dirs)
  show ?case
  proof (cases "dir_taken c db dir")
    case False
    then obtain db1 m where ins: "insert_project (adopted_row c (new_pid dir) dir now) db = Inr db1"
        and rest: "adopt_folders c new_pid now dirs db1 = Inr (m, db')"
      using Cons.prems(1) by (auto simp: result_iffs)
    have db1: "db1 = db\<lparr>projects := projects db @ [adopted_row c (new_pid dir) dir now]\<rparr>"
      using ins by (auto simp: insert_project_def split: if_splits)
    have "others (ctx_user_id c) db1 = others (ctx_user_id c) db"
      by (rule others_insert_project [OF ins]) (simp add: adopted_row_def)
    moreover have "db_wf db1" using insert_project_wf [OF ins] Cons.prems(2) by (simp add: keeps_typed_def)
    moreover have "length (projects db0) \<le> length (projects db)"
      using Cons.prems(2) by (metis keeps_typed_def length_map length_take min.cobounded1)
    ultimately have "keeps_typed (ctx_user_id c) db0 db1"
      using Cons.prems(2) by (simp add: keeps_typed_def db1)
    then show ?thesis by (rule Cons.IH [OF rest])
  qed (use Cons in auto)
qed auto

lemma keeps_scan_project:
  assumes "keeps_typed uid db0 (fst s)" "p_id p \<notin> foreign_ids uid db0"
  shows "keeps_typed uid db0 (fst (snd (scan_project inflate_new inflate_read sha w new_id now on_disk p s)))"
proof -
  obtain db res where s: "s = (db, res)" by fastforce
  have db: "keeps_typed uid db0 db" using assms(1) by (simp add: s)
  define db1 where "db1 = (if p_state p = ProjOk then db else set_project_state (p_id p) ProjOk now db)"
  have db1: "keeps_typed uid db0 db1"
    using db keeps_set_project_state [OF db assms(2)] by (simp add: db1_def)
  define existing where "existing = filter (\<lambda>f. f_project_id f = p_id p) (files db1)"
  have own: "\<forall>f \<in> set existing. f_id f \<notin> foreign_files uid db0"
    using own_file_not_foreign [of db1 _ uid] db1 keeps_typed_foreign [OF db1] assms(2)
    by (auto simp: existing_def keeps_typed_def)
  have loop: "keeps_typed uid db0 (fst (snd (each (scan_file inflate_new inflate_read sha w new_id now p existing) found (db1, res))))" for found
    by (rule each_keeps [where P = "\<lambda>s. keeps_typed uid db0 (fst s)"]) (use keeps_scan_file own assms(2) db1 in auto)
  show ?thesis
  proof (cases "p_dir_name p \<in> set on_disk")
    case False
    then show ?thesis
      using db keeps_set_project_state [OF db assms(2)] by (simp add: s scan_project_def)
  next
    case True
    show ?thesis
    proof (cases "walk_files (rw_tree w (p_dir_name p))")
      case (Inl e)
      then show ?thesis using True db1 by (simp add: s scan_project_def Let_def flip: db1_def)
    next
      case (Inr found)
      let ?gone = "filter (\<lambda>f. f_rel_path f \<notin> set (map df_rel_path found)) existing"
      obtain r s' where each: "each (scan_file inflate_new inflate_read sha w new_id now p existing) found (db1, res) = (r, s')"
        by (metis surj_pair)
      have "keeps_typed uid db0 (fst (forget_files ?gone s'))"
        using loop [of found] own by (intro keeps_forget_files) (auto simp: each)
      moreover have "scan_project inflate_new inflate_read sha w new_id now on_disk p s =
          (case r of Inl e \<Rightarrow> (Inl e, s') | Inr _ \<Rightarrow> (Inr (), forget_files ?gone s'))"
        using True Inr each [unfolded existing_def] unfolding s scan_project_def Let_def prod.case existing_def
        by (cases "p_state p = ProjOk") (simp_all add: db1_def split: sum.splits)
      ultimately show ?thesis using loop [of found] by (simp add: each split: sum.splits)
    qed
  qed
qed

section \<open>The index after a scan\<close>

text \<open>The indexed files of the database: id, project and path.\<close>

definition file_keys :: "db \<Rightarrow> (str \<times> str \<times> str) set" where
  "file_keys db = (\<lambda>f. (f_id f, f_project_id f, f_rel_path f)) ` set (files db)"

definition keys_of :: "str \<Rightarrow> db \<Rightarrow> (str \<times> str \<times> str) set" where
  "keys_of pid db = {k \<in> file_keys db. fst (snd k) = pid}"

definition state_of :: "str \<Rightarrow> db \<Rightarrow> project_state set" where
  "state_of pid db = p_state ` {p \<in> set (projects db). p_id p = pid}"

lemma file_keys_update:
  assumes "\<And>f. f_id (F f) = f_id f" "\<And>f. f_project_id (F f) = f_project_id f" "\<And>f. f_rel_path (F f) = f_rel_path f"
  shows "file_keys (update_file fid F db) = file_keys db"
  unfolding file_keys_def update_file_def using assms by (simp add: update_where_refs)

lemma queue_again_keys:
  "queue_again fid now db = Inr db' \<Longrightarrow> file_keys db' = file_keys db \<and> projects db' = projects db"
  by (auto simp: queue_again_def reset_preview_def insert_preview_def file_keys_def split: if_splits)

lemma index_file_keys:
  assumes "index_file_tx f now db = Inr db'"
  shows "file_keys db' = insert (f_id f, f_project_id f, f_rel_path f) (file_keys db) \<and>
     f_id f \<notin> fst ` file_keys db \<and> projects db' = projects db"
proof -
  obtain db1 where "insert_file f db = Inr db1" "insert_preview (pending_preview (f_id f) now) db1 = Inr db'"
    using assms by (auto simp: index_file_tx_def result_iffs)
  then show ?thesis
    by (auto simp: insert_file_def insert_preview_def file_keys_def list_ex_iff split: if_splits)
qed

lemma scan_file_keys:
  assumes "scan_file inflate_new inflate_read sha w new_id now p existing df (db, res) = (Inr (), db', res')"
  shows "projects db' = projects db \<and>
     (if df_rel_path df \<in> f_rel_path ` set existing then file_keys db' = file_keys db
      else \<exists>fid. fid \<notin> fst ` file_keys db \<and>
             file_keys db' = insert (fid, p_id p, df_rel_path df) (file_keys db))"
proof (cases "find (\<lambda>f. f_rel_path f = df_rel_path df) existing")
  case None
  then have new: "df_rel_path df \<notin> f_rel_path ` set existing" by (auto simp: find_None_set)
  obtain cl hash where
    "index_file_tx (new_file_row (new_id (p_dir_name p) (df_rel_path df)) (p_id p) df cl hash) now db = Inr db'"
    using assms None unfolding scan_file_def Let_def prod.case
    by (auto simp: result_iffs split: sum.splits)
  from index_file_keys [OF this] new show ?thesis
    by (auto simp: new_file_row_def uploaded_row_def)
next
  case (Some known)
  then have old: "df_rel_path df \<in> f_rel_path ` set existing" using find_Some_set [OF Some] by force
  have re: "file_keys d = file_keys db \<and> projects d = projects db"
    if "reclassify_tx known cl now db = Inr (b, d)" for cl b d
    using that queue_again_keys [of _ now "update_file (f_id known) (stamped cl) db" d]
      file_keys_update [of "stamped cl" "f_id known" db]
    by (auto simp: reclassify_tx_def Let_def result_iffs stamped_def update_file_def split: if_splits)
  have ri: "file_keys d = file_keys db \<and> projects d = projects db"
    if "reindex_tx known cl df hash now db = Inr (b, d)" for cl hash b d
    using that queue_again_keys [of _ now "update_file (f_id known) (refreshed cl df hash) db" d]
      file_keys_update [of "refreshed cl df hash" "f_id known" db]
    by (auto simp: reindex_tx_def Let_def result_iffs refreshed_def stamped_def update_file_def split: if_splits)
  have "db' = db \<or> (\<exists>cl b. reclassify_tx known cl now db = Inr (b, db')) \<or>
      (\<exists>cl hash b. reindex_tx known cl df hash now db = Inr (b, db'))"
    using assms Some unfolding scan_file_def Let_def prod.case
    by (auto simp: result_iffs split: sum.splits if_splits)
  with old re ri show ?thesis by auto
qed

lemma scan_files_keys:
  assumes "each (scan_file inflate_new inflate_read sha w new_id now p existing) found (db, res) = (Inr (), db', res')"
    "(\<lambda>f. (f_id f, f_project_id f, f_rel_path f)) ` set existing \<subseteq> file_keys db"
  shows "projects db' = projects db \<and> file_keys db \<subseteq> file_keys db' \<and>
     (\<forall>k \<in> file_keys db' - file_keys db. fst (snd k) = p_id p \<and> fst k \<notin> f_id ` set existing) \<and>
     (\<lambda>k. snd (snd k)) ` (file_keys db' - file_keys db) = df_rel_path ` set found - f_rel_path ` set existing"
  using assms
proof (induction found arbitrary: db res)
  case (Cons df found)
  obtain db1 res1 where step: "scan_file inflate_new inflate_read sha w new_id now p existing df (db, res) = (Inr (), db1, res1)"
      and rest: "each (scan_file inflate_new inflate_read sha w new_id now p existing) found (db1, res1) = (Inr (), db', res')"
    using Cons.prems(1) by (auto split: prod.splits sum.splits)
  note one = scan_file_keys [OF step]
  have "file_keys db \<subseteq> file_keys db1" using one by (auto split: if_splits)
  then have "(\<lambda>f. (f_id f, f_project_id f, f_rel_path f)) ` set existing \<subseteq> file_keys db1"
    using Cons.prems(2) by blast
  note more = Cons.IH [OF rest this]
  show ?case
  proof (cases "df_rel_path df \<in> f_rel_path ` set existing")
    case True
    then have "file_keys db1 = file_keys db" "projects db1 = projects db" using one by auto
    with more True show ?thesis by auto
  next
    case False
    then obtain fid where fid: "fid \<notin> fst ` file_keys db"
        and db1: "file_keys db1 = insert (fid, p_id p, df_rel_path df) (file_keys db)" "projects db1 = projects db"
      using one by auto
    have fresh: "fid \<notin> f_id ` set existing" using fid Cons.prems(2) by (force simp: image_iff)
    have "file_keys db' - file_keys db = insert (fid, p_id p, df_rel_path df) (file_keys db' - file_keys db1)"
      using more db1 fid by (auto simp: image_iff)
    then show ?thesis using more db1 False fresh by auto
  qed
qed auto

lemma file_keys_delete: "file_keys (delete_files (\<lambda>r. f_id r = i) db) = {k \<in> file_keys db. fst k \<noteq> i}"
proof -
  have "(\<lambda>f. (f_id f, f_project_id f, f_rel_path f)) ` set (delete_where (\<lambda>r. f_id r = i) fs) =
      {k \<in> (\<lambda>f. (f_id f, f_project_id f, f_rel_path f)) ` set fs. fst k \<noteq> i}" for fs
    by (induction fs) (auto simp: delete_where_def)
  then show ?thesis by (simp add: file_keys_def delete_files_def)
qed

lemma file_keys_forget:
  "file_keys (fst (forget_files gone s)) = {k \<in> file_keys (fst s). fst k \<notin> f_id ` set gone} \<and>
     projects (fst (forget_files gone s)) = projects (fst s)"
proof (induction gone arbitrary: s)
  case (Cons f gone)
  obtain db res where s: "s = (db, res)" by fastforce
  have "file_keys (delete_files (\<lambda>r. f_id r = f_id f) db) = {k \<in> file_keys db. fst k \<noteq> f_id f}"
    by (rule file_keys_delete)
  moreover have "projects (delete_files (\<lambda>r. f_id r = f_id f) db) = projects db" by (simp add: delete_files_def)
  moreover have "forget_files (f # gone) s =
      forget_files gone (delete_files (\<lambda>r. f_id r = f_id f) db, res\<lparr>rr_files_removed := Suc (rr_files_removed res)\<rparr>)"
    by (simp add: forget_files_def s)
  ultimately show ?case
    using Cons.IH [of "(delete_files (\<lambda>r. f_id r = f_id f) db, res\<lparr>rr_files_removed := Suc (rr_files_removed res)\<rparr>)"]
    by (simp add: s)
qed (simp add: forget_files_def)

lemma state_of_iff: "st \<in> state_of q db \<longleftrightarrow> (\<exists>p \<in> set (projects db). p_id p = q \<and> p_state p = st)"
  by (auto simp: state_of_def)

lemma state_of_set:
  "state_of q (set_project_state pid st now db) =
     (if q = pid then (\<lambda>_. st) ` state_of pid db else state_of q db)"
proof (rule set_eqI)
  fix st'
  have upd: "(\<exists>p \<in> set (update_where (\<lambda>p. p_id p = pid) (\<lambda>p. p\<lparr>p_state := st, p_updated_at := now\<rparr>) ps).
      p_id p = q \<and> p_state p = st') \<longleftrightarrow> (\<exists>p \<in> set ps. p_id p = q \<and> (if q = pid then st else p_state p) = st')" for ps
    by (induction ps) (auto simp: update_where_def)
  have "st' \<in> state_of q (set_project_state pid st now db) \<longleftrightarrow>
      (\<exists>p \<in> set (projects db). p_id p = q \<and> (if q = pid then st else p_state p) = st')"
    using upd [of "projects db"] unfolding state_of_iff set_project_state_def by simp
  also have "\<dots> \<longleftrightarrow> st' \<in> (if q = pid then (\<lambda>_. st) ` state_of pid db else state_of q db)"
    by (auto simp: state_of_iff image_iff)
  finally show "st' \<in> state_of q (set_project_state pid st now db) \<longleftrightarrow>
      st' \<in> (if q = pid then (\<lambda>_. st) ` state_of pid db else state_of q db)" .
qed

lemma file_keys_set_state [simp]: "file_keys (set_project_state pid st now db) = file_keys db"
  by (simp add: file_keys_def set_project_state_def)

lemma typed_set_state: "map typed (projects (set_project_state pid st now db)) = map typed (projects db)"
  by (simp add: set_project_state_def) (rule map_update_where, simp add: typed_def)

lemma file_key_unique:
  "db_wf db \<Longrightarrow> k \<in> file_keys db \<Longrightarrow> l \<in> file_keys db \<Longrightarrow> fst k = fst l \<Longrightarrow> k = l"
  by (auto simp: wf_defs distinct_map file_keys_def dest: inj_onD)

text \<open>What the scan of one project leaves behind.\<close>

definition scanned :: "rescan_world \<Rightarrow> str list \<Rightarrow> project_row \<Rightarrow> db \<Rightarrow> bool" where
  "scanned w on_disk p db \<longleftrightarrow>
     (if p_dir_name p \<in> set on_disk
      then state_of (p_id p) db = {ProjOk} \<and>
        (\<exists>found. walk_files (rw_tree w (p_dir_name p)) = Inr found \<and>
           (\<lambda>k. snd (snd k)) ` keys_of (p_id p) db = df_rel_path ` set found)
      else state_of (p_id p) db = {ProjMissing})"

lemma scan_project_index:
  assumes "scan_project inflate_new inflate_read sha w new_id now on_disk p (db, res) = (Inr (), db', res')"
    "db_wf db" "state_of (p_id p) db = {p_state p}"
  shows "scanned w on_disk p db' \<and>
     (\<forall>q. q \<noteq> p_id p \<longrightarrow> keys_of q db' = keys_of q db \<and> state_of q db' = state_of q db) \<and>
     (p_dir_name p \<notin> set on_disk \<longrightarrow> file_keys db' = file_keys db) \<and>
     map typed (projects db') = map typed (projects db)"
proof (cases "p_dir_name p \<in> set on_disk")
  case False
  have "db' = (if p_state p = ProjMissing then db else set_project_state (p_id p) ProjMissing now db)"
    using assms(1) False by (auto simp: scan_project_def split: if_splits)
  then show ?thesis
    using False assms(3)
    by (simp add: scanned_def state_of_set keys_of_def typed_set_state)
next
  case True
  define db1 where "db1 = (if p_state p = ProjOk then db else set_project_state (p_id p) ProjOk now db)"
  define existing where "existing = filter (\<lambda>f. f_project_id f = p_id p) (files db1)"
  have st: "state_of (p_id p) db1 = {ProjOk}" "\<And>q. q \<noteq> p_id p \<Longrightarrow> state_of q db1 = state_of q db"
    using assms(3) by (auto simp: db1_def state_of_set)
  have fk: "file_keys db1 = file_keys db" by (simp add: db1_def)
  obtain found s' where found: "walk_files (rw_tree w (p_dir_name p)) = Inr found"
      and loop: "each (scan_file inflate_new inflate_read sha w new_id now p existing) found (db1, res) = (Inr (), s')"
      and out: "(db', res') = forget_files (filter (\<lambda>f. f_rel_path f \<notin> set (map df_rel_path found)) existing) s'"
    using assms(1) True unfolding scan_project_def Let_def prod.case db1_def existing_def
    by (cases "p_state p = ProjOk") (auto split: sum.splits prod.splits)
  obtain db2 res2 where s': "s' = (db2, res2)" by fastforce
  have known: "(\<lambda>f. (f_id f, f_project_id f, f_rel_path f)) ` set existing = {k \<in> file_keys db1. fst (snd k) = p_id p}"
    by (auto simp: existing_def file_keys_def)
  note keys = scan_files_keys [OF loop [unfolded s']]
  have sub: "(\<lambda>f. (f_id f, f_project_id f, f_rel_path f)) ` set existing \<subseteq> file_keys db1" using known by blast
  define gone where "gone = filter (\<lambda>f. f_rel_path f \<notin> set (map df_rel_path found)) existing"
  have db': "db' = fst (forget_files gone (db2, res2))" using out s' by (metis fst_conv gone_def)
  have new: "fst (snd k) = p_id p" "fst k \<notin> f_id ` set existing" if "k \<in> file_keys db2" "k \<notin> file_keys db1" for k
    using keys [OF sub] that by blast+
  have dropped: "fst k \<in> f_id ` set gone \<longleftrightarrow> k \<in> file_keys db1 \<and> fst (snd k) = p_id p \<and> snd (snd k) \<notin> df_rel_path ` set found"
    if k: "k \<in> file_keys db2" for k
  proof
    assume "fst k \<in> f_id ` set gone"
    then obtain f where f: "f \<in> set existing" "fst k = f_id f" "f_rel_path f \<notin> df_rel_path ` set found"
      by (auto simp: gone_def)
    have "k \<in> file_keys db1" using new [OF k] f(1,2) by auto
    moreover have "(f_id f, f_project_id f, f_rel_path f) \<in> file_keys db1" using f(1) sub by blast
    ultimately have "k = (f_id f, f_project_id f, f_rel_path f)"
      using file_key_unique [OF assms(2), of k "(f_id f, f_project_id f, f_rel_path f)"] f(2) fk by simp
    then show "k \<in> file_keys db1 \<and> fst (snd k) = p_id p \<and> snd (snd k) \<notin> df_rel_path ` set found"
      using \<open>k \<in> file_keys db1\<close> f(1,3) by (auto simp: existing_def)
  next
    assume "k \<in> file_keys db1 \<and> fst (snd k) = p_id p \<and> snd (snd k) \<notin> df_rel_path ` set found"
    then obtain f where "f \<in> set existing" "k = (f_id f, f_project_id f, f_rel_path f)" "snd (snd k) \<notin> df_rel_path ` set found"
      using known by blast
    then show "fst k \<in> f_id ` set gone" by (auto simp: gone_def)
  qed
  have final: "file_keys db' = {k \<in> file_keys db2. \<not> (k \<in> file_keys db1 \<and> fst (snd k) = p_id p \<and> snd (snd k) \<notin> df_rel_path ` set found)}"
    using file_keys_forget [of gone "(db2, res2)"] dropped by (auto simp: db')
  have projs: "projects db' = projects db1"
    using file_keys_forget [of gone "(db2, res2)"] keys [OF sub] by (simp add: db')
  have rels: "(\<lambda>k. snd (snd k)) ` keys_of (p_id p) db1 = f_rel_path ` set existing"
  proof -
    have "keys_of (p_id p) db1 = (\<lambda>f. (f_id f, f_project_id f, f_rel_path f)) ` set existing"
      using known by (simp add: keys_of_def)
    then show ?thesis by (simp add: image_image)
  qed
  have "keys_of (p_id p) db' = {k \<in> keys_of (p_id p) db1. snd (snd k) \<in> df_rel_path ` set found} \<union> (file_keys db2 - file_keys db1)"
    using keys [OF sub] new by (auto simp: keys_of_def final)
  then have "(\<lambda>k. snd (snd k)) ` keys_of (p_id p) db' =
      (f_rel_path ` set existing \<inter> df_rel_path ` set found) \<union> (df_rel_path ` set found - f_rel_path ` set existing)"
    using keys [OF sub] unfolding rels [symmetric] by (auto simp: image_Un)
  then have "(\<lambda>k. snd (snd k)) ` keys_of (p_id p) db' = df_rel_path ` set found" by blast
  moreover have "keys_of q db' = keys_of q db" if "q \<noteq> p_id p" for q
    using that keys [OF sub] new fk by (auto simp: keys_of_def final)
  moreover have "state_of q db' = state_of q db1" for q by (simp add: state_of_def projs)
  moreover have "map typed (projects db') = map typed (projects db)"
    using projs by (simp add: db1_def typed_set_state)
  ultimately show ?thesis using True st found by (auto simp: scanned_def)
qed

lemma each_Cons_ok:
  "each f (x # xs) s = (Inr (), s') \<Longrightarrow> \<exists>s1. f x s = (Inr (), s1) \<and> each f xs s1 = (Inr (), s')"
  by (cases "f x s"; cases "fst (f x s)") auto

text \<open>A loop whose steps each establish something about their own element and disturb no other.\<close>

lemma each_establishes:
  assumes "each f xs s = (Inr (), s')" "distinct xs" "J s" "\<And>x. x \<in> set xs \<Longrightarrow> Before x s"
    "\<And>x s s'. x \<in> set xs \<Longrightarrow> J s \<Longrightarrow> Before x s \<Longrightarrow> f x s = (Inr (), s') \<Longrightarrow> J s' \<and> After x s'"
    "\<And>x y s s'. x \<in> set xs \<Longrightarrow> J s \<Longrightarrow> Before x s \<Longrightarrow> f x s = (Inr (), s') \<Longrightarrow> x \<noteq> y \<Longrightarrow>
       y \<in> set xs \<union> done \<Longrightarrow> (Before y s \<longrightarrow> Before y s') \<and> (After y s \<longrightarrow> After y s')"
    "\<And>y. y \<in> done \<Longrightarrow> After y s" "set xs \<inter> done = {}"
  shows "J s' \<and> (\<forall>x \<in> set xs \<union> done. After x s')"
  using assms
proof (induction xs arbitrary: s "done")
  case Nil
  show ?case using Nil.prems(1,3,7) by simp
next
  case (Cons x xs)
  obtain s1 where step: "f x s = (Inr (), s1)" and rest: "each f xs s1 = (Inr (), s')"
    using each_Cons_ok [OF Cons.prems(1)] by blast
  have x: "J s1 \<and> After x s1" using Cons.prems(5) [of x s s1] Cons.prems(3,4) step by simp
  have other: "(Before y s \<longrightarrow> Before y s1) \<and> (After y s \<longrightarrow> After y s1)" if "x \<noteq> y" "y \<in> set xs \<union> done" for y
    using Cons.prems(6) [of x s s1 y] Cons.prems(3,4) step that by auto
  have "J s' \<and> (\<forall>y \<in> set xs \<union> insert x done. After y s')"
  proof (rule Cons.IH [OF rest])
    show "distinct xs" "J s1" using Cons.prems(2) x by simp_all
    show "Before y s1" if "y \<in> set xs" for y using that other [of y] Cons.prems(2,4) by auto
    show "J s'' \<and> After y s''" if "y \<in> set xs" "J s0" "Before y s0" "f y s0 = (Inr (), s'')" for y s0 s''
      using that Cons.prems(5) [of y s0 s''] by simp
    show "(Before z s0 \<longrightarrow> Before z s'') \<and> (After z s0 \<longrightarrow> After z s'')"
      if "y \<in> set xs" "J s0" "Before y s0" "f y s0 = (Inr (), s'')" "y \<noteq> z" "z \<in> set xs \<union> insert x done" for y z s0 s''
      using that Cons.prems(6) [of y s0 s'' z] by simp
    show "After y s1" if "y \<in> insert x done" for y
      using that x other [of y] Cons.prems(7,8) by auto
    show "set xs \<inter> insert x done = {}" using Cons.prems(2,8) by auto
  qed
  then show ?case by simp
qed

lemma typed_eq:
  assumes "typed p = typed q"
  shows "p_id p = p_id q \<and> p_owner_id p = p_owner_id q \<and> p_dir_name p = p_dir_name q"
proof -
  have "p_id (typed r) = p_id r" "p_owner_id (typed r) = p_owner_id r" "p_dir_name (typed r) = p_dir_name r" for r
    by (simp_all add: typed_def)
  with assms show ?thesis by metis
qed

lemma adopt_folders_taken:
  "adopt_folders c new_pid now dirs db = Inr (n, db') \<Longrightarrow> dir \<in> set dirs \<Longrightarrow> dir_taken c db' dir"
proof (induction dirs arbitrary: db n)
  case (Cons d dirs)
  have grows: "dir_taken c a x \<Longrightarrow> dir_taken c b x"
    if "adopt_folders c new_pid now ds a = Inr (m, b)" for ds a b m x
    using that
  proof (induction ds arbitrary: a m)
    case (Cons e ds)
    show ?case
    proof (cases "dir_taken c a e")
      case False
      then obtain a1 k where "insert_project (adopted_row c (new_pid e) e now) a = Inr a1"
          "adopt_folders c new_pid now ds a1 = Inr (k, b)"
        using Cons.prems(2) by (auto simp: result_iffs)
      moreover from this(1) have "dir_taken c a1 x"
        using Cons.prems(1) by (auto simp: insert_project_def dir_taken_def split: if_splits)
      ultimately show ?thesis using Cons.IH by blast
    qed (use Cons in auto)
  qed simp
  show ?case
  proof (cases "dir_taken c db d")
    case True
    then show ?thesis using Cons grows [of dirs db n db'] by auto
  next
    case False
    then obtain db1 m where ins: "insert_project (adopted_row c (new_pid d) d now) db = Inr db1"
        and rest: "adopt_folders c new_pid now dirs db1 = Inr (m, db')"
      using Cons.prems(1) by (auto simp: result_iffs)
    have "dir_taken c db1 d"
      using ins by (auto simp: insert_project_def dir_taken_def adopted_row_def split: if_splits)
    with Cons.prems(2) Cons.IH [OF rest] grows [OF rest] show ?thesis by auto
  qed
qed simp

lemma scanned_cong:
  "keys_of (p_id p) db' = keys_of (p_id p) db \<Longrightarrow> state_of (p_id p) db' = state_of (p_id p) db \<Longrightarrow>
     scanned w on_disk p db' = scanned w on_disk p db"
  by (simp add: scanned_def)

lemma state_of_own:
  assumes "db_wf db" "p \<in> set (projects db)"
  shows "state_of (p_id p) db = {p_state p}"
proof -
  have "inj_on p_id (set (projects db))" using assms(1) by (simp add: wf_defs distinct_map)
  then show ?thesis using assms(2) by (auto simp: state_of_iff dest: inj_onD)
qed

section \<open>Properties\<close>

text \<open>C14
  A rescan is safe for everything a user typed, whatever the disk shows and wherever it stops: no
  project, tag or tag link is deleted or changed in anything but a project's state and time stamp
  (a vanished folder only marks its project missing), everything of other users is untouched, and the
  database stays consistent.
\<close>

theorem rescan_keeps_typed:
  assumes "db_wf db"
  shows "keeps_typed (ctx_user_id c) db (snd (rescan inflate_new inflate_read sha lp w new_pid new_id now c db))"
proof -
  let ?uid = "ctx_user_id c"
  have start: "keeps_typed ?uid db db" using assms by (simp add: keeps_typed_def)
  show ?thesis
  proof (cases "bindE (require_user_row db ?uid) (\<lambda>u.
           bindE (lib_user_root lp (u_library_dir u)) (\<lambda>_.
           bindE (list_project_folders (rw_root w)) (\<lambda>on_disk.
           bindE (adopt_folders c new_pid now on_disk db) (\<lambda>(n, db1). Inr (on_disk, n, db1)))))")
    case (Inl e)
    then show ?thesis using start by (simp add: rescan_def)
  next
    case (Inr found)
    obtain on_disk n db1 where found: "found = (on_disk, n, db1)" using prod_cases3 by blast
    have adopt: "adopt_folders c new_pid now on_disk db = Inr (n, db1)"
      using Inr by (auto simp: found result_iffs)
    have db1: "keeps_typed ?uid db db1" by (rule keeps_adopt_folders [OF adopt start])
    have own: "p_id p \<notin> foreign_ids ?uid db" if "p \<in> set (own_projects c db1)" for p
      using that own_project_not_foreign [of db1 p ?uid] db1 keeps_typed_foreign [OF db1]
      by (auto simp: own_projects_def keeps_typed_def)
    have "keeps_typed ?uid db (fst (snd (each (scan_project inflate_new inflate_read sha w new_id now on_disk)
        (own_projects c db1) (db1, nothing_done\<lparr>rr_adopted := n\<rparr>))))"
      by (rule each_keeps [where P = "\<lambda>s. keeps_typed ?uid db (fst s)"])
        (use keeps_scan_project [OF _ own] db1 in simp_all)
    then show ?thesis using Inr by (auto simp: rescan_def found split: prod.splits sum.splits)
  qed
qed


definition unmounted :: rescan_world where
  "unmounted =
     \<lparr>rw_root = Root_Absent, rw_tree = (\<lambda>_. Inl (Other_Io (lit ''unmounted''))),
      rw_hash = (\<lambda>_ _. Inl (Other_Io (lit ''unmounted''))),
      rw_classify = (\<lambda>_ _. Inl (Other_Io (lit ''unmounted''))), rw_os = (\<lambda>_. Deliver 4096)\<rparr>"

lemma sample_unmounted:
  "rescan copy_new copy_read (\<lambda>bs. bs) nowhere unmounted (\<lambda>d. d) (\<lambda>d f. f) 7
     \<lparr>ctx_user_id = lit ''1'', ctx_is_admin = False\<rparr> sample_shelf =
   (Inr (nothing_done\<lparr>rr_marked_missing := 1\<rparr>), set_project_state (lit ''p'') ProjMissing 7 sample_shelf)"
proof -
  have own: "own_projects \<lparr>ctx_user_id = lit ''1'', ctx_is_admin = False\<rparr> sample_shelf = [hd (projects sample_shelf)]"
    by (simp add: own_projects_def sample_shelf_def)
  have row: "p_state (hd (projects sample_shelf)) = ProjOk" "p_id (hd (projects sample_shelf)) = lit ''p''"
    by (simp_all add: sample_shelf_def)
  have "plain_part (lit ''ann'')" "\<not> has_drive (lit ''ann'')"
    by (simp_all add: plain_part_def has_drive_def is_slash_def lit_def)
  then have "is_ok (lib_user_root nowhere (u_library_dir sample_user))"
    by (simp add: lib_user_root_def user_root_def nowhere_def sample_user_def safe_join_plain absolute_path_def)
  then obtain root where "lib_user_root nowhere (u_library_dir sample_user) = Inr root"
    by (metis is_ok_simps(2) old.sum.exhaust)
  then show ?thesis
    by (simp add: rescan_def sample_rows unmounted_def list_project_folders_def own scan_project_def row nothing_done_def)
qed


theorem rescan_keeps_typed_witness:
  "keeps_typed (lit ''1'') sample_shelf (set_project_state (lit ''p'') ProjMissing 7 sample_shelf)"
  using rescan_keeps_typed [OF sample_shelf_wf, of "\<lparr>ctx_user_id = lit ''1'', ctx_is_admin = False\<rparr>" copy_new copy_read
      "\<lambda>bs. bs" nowhere unmounted "\<lambda>d. d" "\<lambda>d f. f" 7]
  by (simp add: sample_unmounted)

end
