(* ===== verification/Previews.thy ===== *)
theory Previews
  imports Rescan
begin

text \<open>
  The preview queue, \<^verbatim>\<open>crates/spm-core/src/previews/queue.rs\<close>: claiming pending rows under a lease,
  rendering them, and recording each outcome only against the job's own claim. Handlers are
  arguments (\<open>Thumbnails\<close> models the embedded one); a handler may also panic. The queue is a machine:
  a state holds the database, the disk and the running jobs, and an event is one atomic step of a
  claim, of a job, of a rescan or of the outside. Properties: a row belongs to at most one running
  job, attempts stay within their budget, a ready preview shows the bytes its file row names unless a
  file returned to earlier bytes, and the two runs in which a stale picture survives.
\<close>

section \<open>Jobs and handlers\<close>

datatype preview_source = Embedded | Rasterized

fun preview_source_as_str :: "preview_source \<Rightarrow> str" where
  "preview_source_as_str Embedded = lit ''embedded''"
| "preview_source_as_str Rasterized = lit ''rasterized''"

record preview_job =
  pj_file_id :: str
  pj_abs_path :: path
  pj_kind :: file_kind
  pj_content_hash :: "bytes option"
  pj_claimed_at :: int

record preview_output =
  po_bytes :: bytes
  po_width :: nat
  po_height :: nat
  po_source :: preview_source

datatype handler_answer = Nothing_Here | Picture preview_output | Broken app_error | Panicked str

record handler =
  h_kinds :: "file_kind list"
  h_run :: "preview_job \<Rightarrow> disk \<Rightarrow> handler_answer"

definition MAX_PREVIEW_ATTEMPTS :: int where "MAX_PREVIEW_ATTEMPTS = 3"
definition DEFAULT_CONCURRENCY :: nat where "DEFAULT_CONCURRENCY = 1"
definition DEFAULT_BATCH_LIMIT :: nat where "DEFAULT_BATCH_LIMIT = 100"
definition PREVIEW_LEASE_MS :: int where "PREVIEW_LEASE_MS = 15 * 60 * 1000"

section \<open>Claiming\<close>

definition covered_kinds :: "handler list \<Rightarrow> file_kind list" where
  "covered_kinds handlers = remdups (concat (map h_kinds handlers))"

text \<open>The rows a preview joins to.\<close>

definition joined :: "db \<Rightarrow> preview_row \<Rightarrow> (file_row \<times> project_row \<times> user_row) option" where
  "joined db v =
     (case find (\<lambda>f. f_id f = pv_file_id v) (files db) of
        None \<Rightarrow> None
      | Some f \<Rightarrow>
          (case find (\<lambda>p. p_id p = f_project_id f) (projects db) of
             None \<Rightarrow> None
           | Some p \<Rightarrow>
               (case find_user_by_id db (p_owner_id p) of None \<Rightarrow> None | Some u \<Rightarrow> Some (f, p, u))))"

definition claimable :: "file_kind list \<Rightarrow> int \<Rightarrow> db \<Rightarrow> preview_row \<Rightarrow> bool" where
  "claimable kinds now db v \<longleftrightarrow>
     pv_state v = PvPending \<and> pv_attempts v < MAX_PREVIEW_ATTEMPTS \<and>
     (case pv_claimed_at v of None \<Rightarrow> True | Some t \<Rightarrow> t \<le> now - PREVIEW_LEASE_MS) \<and>
     (case joined db v of None \<Rightarrow> False | Some (f, p, u) \<Rightarrow> p_state p = ProjOk \<and> f_kind f \<in> set kinds)"

definition job_path :: "lib_place \<Rightarrow> file_row \<Rightarrow> project_row \<Rightarrow> user_row \<Rightarrow> path" where
  "job_path lp f p u =
     (let pl = lp_platform lp;
          root = (if u_library_dir u = lit ''.'' then lp_dir lp
                  else path_push (lp_dir lp) (components pl (u_library_dir u))) in
      Paths.extend pl (path_push root (components pl (p_dir_name p))) (rel_segments (f_rel_path f)))"

definition job_of :: "lib_place \<Rightarrow> int \<Rightarrow> db \<Rightarrow> preview_row \<Rightarrow> preview_job list" where
  "job_of lp now db v =
     (case joined db v of
        None \<Rightarrow> []
      | Some (f, p, u) \<Rightarrow>
          [\<lparr>pj_file_id = pv_file_id v, pj_abs_path = job_path lp f p u, pj_kind = f_kind f,
            pj_content_hash = f_content_hash f, pj_claimed_at = now\<rparr>])"

definition leased :: "int \<Rightarrow> preview_row \<Rightarrow> preview_row" where
  "leased now v = v\<lparr>pv_claimed_at := Some now, pv_attempts := pv_attempts v + 1\<rparr>"

definition claimed_rows :: "handler list \<Rightarrow> nat \<Rightarrow> int \<Rightarrow> db \<Rightarrow> preview_row list" where
  "claimed_rows handlers limit now db =
     take limit (sort_key pv_updated_at (filter (claimable (covered_kinds handlers) now db) (previews db)))"

definition claim_pending_previews ::
  "lib_place \<Rightarrow> handler list \<Rightarrow> nat \<Rightarrow> int \<Rightarrow> db \<Rightarrow> preview_job list \<times> db" where
  "claim_pending_previews lp handlers limit now db =
     (if covered_kinds handlers = [] then ([], db)
      else let rows = claimed_rows handlers limit now db in
        (concat (map (job_of lp now db) rows),
         db\<lparr>previews := update_where (\<lambda>v. pv_file_id v \<in> pv_file_id ` set rows) (leased now) (previews db)\<rparr>))"

section \<open>Recording\<close>

definition owns :: "preview_job \<Rightarrow> preview_row \<Rightarrow> bool" where
  "owns job v \<longleftrightarrow>
     pv_file_id v = pj_file_id job \<and> pv_state v = PvPending \<and> pv_claimed_at v = Some (pj_claimed_at job)"

definition finish :: "preview_job \<Rightarrow> (preview_row \<Rightarrow> preview_row) \<Rightarrow> db \<Rightarrow> bool \<times> db" where
  "finish job f db =
     (count_where (owns job) (previews db) = 1, db\<lparr>previews := update_where (owns job) f (previews db)\<rparr>)"

definition failure_message :: "app_error \<Rightarrow> str" where
  "failure_message e =
     take 500 (case (err_code e, err_cause e) of (Internal, Some cause) \<Rightarrow> cause | _ \<Rightarrow> err_message e)"

fun produce :: "handler list \<Rightarrow> preview_job \<Rightarrow> disk \<Rightarrow> preview_output option result" where
  "produce [] job disk = Inr None"
| "produce (h # matching) job disk =
     (case h_run h job disk of
        Nothing_Here \<Rightarrow> produce matching job disk
      | Picture output \<Rightarrow> Inr (Some output)
      | Broken e \<Rightarrow> Inl e
      | Panicked m \<Rightarrow> Inl (internal (lit ''preview handler panicked: '' @ m)))"

definition matching_handlers :: "handler list \<Rightarrow> preview_job \<Rightarrow> handler list" where
  "matching_handlers handlers job = filter (\<lambda>h. pj_kind job \<in> set (h_kinds h)) handlers"

text \<open>\<^verbatim>\<open>fs::write\<close> of the picture.\<close>

definition write_picture ::
  "lib_place \<Rightarrow> io_error option \<Rightarrow> preview_job \<Rightarrow> preview_output option result \<Rightarrow> disk \<Rightarrow>
   preview_output option result \<times> disk" where
  "write_picture lp refusal job produced disk =
     (case produced of
        Inr (Some output) \<Rightarrow>
          (case refusal of
             Some e \<Rightarrow> (Inl (app_error_of_io e), disk)
           | None \<Rightarrow> (produced, written (preview_path (lp_platform lp) (lp_dir lp) (pj_file_id job))
                                 (po_bytes output) 0 disk))
      | _ \<Rightarrow> (produced, disk))"

definition png_path_of :: "preview_job \<Rightarrow> str" where
  "png_path_of job = join_segments [SPM_DIR, PREVIEWS_DIR, pj_file_id job @ lit ''.png'']"

definition released :: "preview_row \<Rightarrow> preview_row" where
  "released v = v\<lparr>pv_claimed_at := None\<rparr>"

definition settled :: "preview_job \<Rightarrow> int \<Rightarrow> preview_output option result \<Rightarrow> preview_row \<Rightarrow> preview_row" where
  "settled job now r v =
     (case r of
        Inr None \<Rightarrow> v\<lparr>pv_state := PvUnsupported, pv_error := None, pv_claimed_at := None, pv_updated_at := now\<rparr>
      | Inr (Some output) \<Rightarrow>
          v\<lparr>pv_state := PvReady, pv_source := Some (preview_source_as_str (po_source output)),
            pv_png_path := Some (png_path_of job), pv_width := Some (int (po_width output)),
            pv_height := Some (int (po_height output)), pv_source_hash := pj_content_hash job,
            pv_error := None, pv_claimed_at := None, pv_updated_at := now\<rparr>
      | Inl e \<Rightarrow>
          v\<lparr>pv_state := PvFailed, pv_error := Some (failure_message e), pv_claimed_at := None,
            pv_updated_at := now\<rparr>)"

record batch_result =
  br_claimed :: nat
  br_ready :: nat
  br_failed :: nat
  br_unsupported :: nat

definition counted :: "preview_output option result \<Rightarrow> bool \<Rightarrow> batch_result \<Rightarrow> batch_result" where
  "counted r landed b =
     (if \<not> landed then b
      else case r of
             Inr None \<Rightarrow> b\<lparr>br_unsupported := Suc (br_unsupported b)\<rparr>
           | Inr (Some _) \<Rightarrow> b\<lparr>br_ready := Suc (br_ready b)\<rparr>
           | Inl _ \<Rightarrow> b\<lparr>br_failed := Suc (br_failed b)\<rparr>)"

definition run_one ::
  "lib_place \<Rightarrow> handler list \<Rightarrow> io_error option \<Rightarrow> int \<Rightarrow> preview_job \<Rightarrow> db \<times> disk \<times> batch_result \<Rightarrow>
   db \<times> disk \<times> batch_result" where
  "run_one lp handlers refusal now job s =
     (let (db, disk, b) = s; matching = matching_handlers handlers job in
      if matching = [] then (snd (finish job released db), disk, b)
      else let (r, disk') = write_picture lp refusal job (produce matching job disk) disk;
               (landed, db') = finish job (settled job now r) db in
           (db', disk', counted r landed b))"

text \<open>One worker: the jobs of a batch one after the other on the calling thread.\<close>

definition run_preview_queue ::
  "lib_place \<Rightarrow> handler list \<Rightarrow> nat \<Rightarrow> (nat \<Rightarrow> io_error option) \<Rightarrow> (nat \<Rightarrow> int) \<Rightarrow> db \<Rightarrow> disk \<Rightarrow>
   batch_result \<times> db \<times> disk" where
  "run_preview_queue lp handlers limit refuse tick db disk =
     (let (jobs, db1) = claim_pending_previews lp handlers limit (tick 0) db;
          start = (db1, disk, \<lparr>br_claimed = length jobs, br_ready = 0, br_failed = 0, br_unsupported = 0\<rparr>);
          (db2, disk2, b) = foldl (\<lambda>s (n, job). run_one lp handlers (refuse n) (tick (Suc n)) job s) start
                              (enumerate 0 jobs) in
      (b, db2, disk2))"

section \<open>The queue as a machine\<close>

text \<open>How far a running job has come.\<close>

datatype job_phase = Claimed | Produced "preview_output option result" | Stored "preview_output option result"

record queue_state =
  q_db :: db
  q_disk :: disk
  q_running :: "(preview_job \<times> job_phase) list"
  q_clock :: int

text \<open>
  The events: a claim (the clock has moved on since the last one), the next step of the \<open>n\<close>-th running
  job, its loss in a crash, the statement groups of a rescan and of the file use cases, a file changed
  on disk, and anything that leaves the files and the previews alone.
\<close>

datatype queue_event =
    Claim nat int
  | Advance nat "io_error option" int
  | Crash nat
  | Index file_row int
  | Reclassify file_row classification int
  | Reindex file_row classification disk_file bytes int
  | Forget str
  | Edit path "node option"
  | Elsewhere db

definition advance ::
  "lib_place \<Rightarrow> handler list \<Rightarrow> io_error option \<Rightarrow> int \<Rightarrow> preview_job \<times> job_phase \<Rightarrow> db \<Rightarrow> disk \<Rightarrow>
   (preview_job \<times> job_phase) list \<times> db \<times> disk" where
  "advance lp handlers refusal now running db disk =
     (let (job, phase) = running in
      case phase of
        Claimed \<Rightarrow>
          (let matching = matching_handlers handlers job in
           if matching = [] then ([], snd (finish job released db), disk)
           else ([(job, Produced (produce matching job disk))], db, disk))
      | Produced r \<Rightarrow>
          (let (r', disk') = write_picture lp refusal job r disk in ([(job, Stored r')], db, disk'))
      | Stored r \<Rightarrow> ([], snd (finish job (settled job now r) db), disk))"

definition replace_nth :: "nat \<Rightarrow> 'a list \<Rightarrow> 'a list \<Rightarrow> 'a list" where
  "replace_nth n ys xs = take n xs @ ys @ drop (Suc n) xs"

definition with_db :: "queue_state \<Rightarrow> db result \<Rightarrow> queue_state option" where
  "with_db s r = (case r of Inl _ \<Rightarrow> None | Inr db \<Rightarrow> Some (s\<lparr>q_db := db\<rparr>))"

fun queue_step :: "lib_place \<Rightarrow> handler list \<Rightarrow> queue_event \<Rightarrow> queue_state \<Rightarrow> queue_state option" where
  "queue_step lp hs (Claim limit now) s =
     (if now \<le> q_clock s then None
      else let (jobs, db) = claim_pending_previews lp hs limit now (q_db s) in
           Some (s\<lparr>q_db := db, q_running := q_running s @ map (\<lambda>j. (j, Claimed)) jobs, q_clock := now\<rparr>))"
| "queue_step lp hs (Advance n refusal now) s =
     (if length (q_running s) \<le> n then None
      else let (ys, db, disk) = advance lp hs refusal now (q_running s ! n) (q_db s) (q_disk s) in
           Some (s\<lparr>q_db := db, q_disk := disk, q_running := replace_nth n ys (q_running s)\<rparr>))"
| "queue_step lp hs (Crash n) s = Some (s\<lparr>q_running := replace_nth n [] (q_running s)\<rparr>)"
| "queue_step lp hs (Index f now) s = with_db s (index_file_tx f now (q_db s))"
| "queue_step lp hs (Reclassify known cl now) s =
     with_db s (map_sum (\<lambda>e. e) snd (reclassify_tx known cl now (q_db s)))"
| "queue_step lp hs (Reindex known cl df hash now) s =
     with_db s (map_sum (\<lambda>e. e) snd (reindex_tx known cl df hash now (q_db s)))"
| "queue_step lp hs (Forget fid) s = Some (s\<lparr>q_db := delete_files (\<lambda>f. f_id f = fid) (q_db s)\<rparr>)"
| "queue_step lp hs (Edit p content) s = Some (s\<lparr>q_disk := (q_disk s)(p := content)\<rparr>)"
| "queue_step lp hs (Elsewhere db) s =
     (if db_wf db \<and> files db = files (q_db s) \<and> previews db = previews (q_db s)
      then Some (s\<lparr>q_db := db\<rparr>) else None)"

text \<open>What can be reached by events of which \<open>allowed\<close> holds where they happen.\<close>

inductive queue_reach ::
  "lib_place \<Rightarrow> handler list \<Rightarrow> (queue_state \<Rightarrow> queue_event \<Rightarrow> bool) \<Rightarrow> queue_state \<Rightarrow> queue_state \<Rightarrow> bool"
  for lp hs allowed s0 where
  at_start: "queue_reach lp hs allowed s0 s0"
| after_event: "queue_reach lp hs allowed s0 s \<Longrightarrow> allowed s e \<Longrightarrow> queue_step lp hs e s = Some s' \<Longrightarrow>
    queue_reach lp hs allowed s0 s'"

fun queue_run :: "lib_place \<Rightarrow> handler list \<Rightarrow> queue_event list \<Rightarrow> queue_state \<Rightarrow> queue_state option" where
  "queue_run lp hs [] s = Some s"
| "queue_run lp hs (e # es) s =
     (case queue_step lp hs e s of None \<Rightarrow> None | Some s' \<Rightarrow> queue_run lp hs es s')"

text \<open>A library at rest: nothing is running and no lease lies in the future.\<close>

definition lease_row :: "int \<Rightarrow> preview_row \<Rightarrow> bool" where
  "lease_row clock v \<longleftrightarrow>
     (case pv_claimed_at v of None \<Rightarrow> True | Some t \<Rightarrow> t \<le> clock) \<and> pv_attempts v \<le> MAX_PREVIEW_ATTEMPTS"

definition at_rest :: "queue_state \<Rightarrow> bool" where
  "at_rest s \<longleftrightarrow>
     q_running s = [] \<and> db_wf (q_db s) \<and> (\<forall>v \<in> set (previews (q_db s)). lease_row (q_clock s) v)"

section \<open>What each statement does to the preview rows\<close>

text \<open>Every row after a step of a rescan was there before, or is queued afresh.\<close>

definition requeues :: "db \<Rightarrow> db \<Rightarrow> bool" where
  "requeues db db' \<longleftrightarrow>
     db_wf db' \<and>
     (\<forall>v \<in> set (previews db'). v \<in> set (previews db) \<or>
        (pv_state v = PvPending \<and> pv_claimed_at v = None \<and> pv_attempts v = 0))"

lemma requeues_trans: "requeues a b \<Longrightarrow> requeues b c \<Longrightarrow> requeues a c"
  unfolding requeues_def by blast

lemma requeues_update_file:
  "db_wf db \<Longrightarrow> (\<And>f. f_id (F f) = f_id f) \<Longrightarrow> (\<And>f. f_project_id (F f) = f_project_id f) \<Longrightarrow>
     (\<And>f. f_rel_path (F f) = f_rel_path f) \<Longrightarrow> requeues db (update_file fid F db)"
  using update_file_wf [of db F fid] by (simp add: requeues_def) (simp add: update_file_def)

lemma requeues_queue_again:
  assumes "queue_again fid now db = Inr db'" "db_wf db"
  shows "requeues db db'"
proof (cases "preview_exists fid db")
  case True
  then have db': "db' = reset_preview fid now db" using assms(1) by (simp add: queue_again_def)
  have "db_wf db'"
    unfolding db' reset_preview_def using assms(2) by (intro update_previews_wf) (simp_all add: reset_row_def)
  then show ?thesis
    by (auto simp: requeues_def db' reset_preview_def set_update_where reset_row_def)
next
  case False
  then have ins: "insert_preview (pending_preview fid now) db = Inr db'" using assms(1) by (simp add: queue_again_def)
  then have "previews db' = previews db @ [pending_preview fid now]"
    by (auto simp: insert_preview_def split: if_splits)
  then show ?thesis
    using insert_preview_wf [OF ins assms(2)] by (auto simp: requeues_def pending_preview_def)
qed

lemma requeues_index:
  assumes "index_file_tx f now db = Inr db'" "db_wf db"
  shows "requeues db db'"
proof -
  obtain db1 where ins: "insert_file f db = Inr db1" "insert_preview (pending_preview (f_id f) now) db1 = Inr db'"
    using assms(1) by (auto simp: index_file_tx_def result_iffs)
  have "db_wf db'" using insert_preview_wf [OF ins(2)] insert_file_wf [OF ins(1)] assms(2) by simp
  then show ?thesis
    using ins by (auto simp: requeues_def insert_file_def insert_preview_def pending_preview_def split: if_splits)
qed

lemma requeues_reclassify:
  assumes "reclassify_tx known cl now db = Inr (b, db')" "db_wf db"
  shows "requeues db db'"
proof -
  have upd: "requeues db (update_file (f_id known) (stamped cl) db)"
    using assms(2) by (intro requeues_update_file) (simp_all add: stamped_def)
  let ?db1 = "update_file (f_id known) (stamped cl) db"
  have "db' = ?db1 \<or> queue_again (f_id known) now ?db1 = Inr db'"
    using assms(1) by (auto simp: reclassify_tx_def Let_def result_iffs split: if_splits)
  then show ?thesis
    using upd requeues_trans [OF upd] requeues_queue_again [of "f_id known" now ?db1 db'] requeues_def by blast
qed

lemma requeues_reindex:
  assumes "reindex_tx known cl df hash now db = Inr (b, db')" "db_wf db"
  shows "requeues db db'"
proof -
  have upd: "requeues db (update_file (f_id known) (refreshed cl df hash) db)"
    using assms(2) by (intro requeues_update_file) (simp_all add: refreshed_def stamped_def)
  let ?db1 = "update_file (f_id known) (refreshed cl df hash) db"
  have "db' = ?db1 \<or> queue_again (f_id known) now ?db1 = Inr db'"
    using assms(1) by (auto simp: reindex_tx_def Let_def result_iffs split: if_splits)
  then show ?thesis
    using upd requeues_trans [OF upd] requeues_queue_again [of "f_id known" now ?db1 db'] requeues_def by blast
qed

lemma requeues_forget: "db_wf db \<Longrightarrow> requeues db (delete_files gone db)"
  using delete_files_wf [of db gone] by (auto simp: requeues_def delete_files_def table_simps)

lemmas requeueings = requeues_index requeues_reclassify requeues_reindex

lemma preview_unique:
  "db_wf db \<Longrightarrow> v \<in> set (previews db) \<Longrightarrow> w \<in> set (previews db) \<Longrightarrow> pv_file_id v = pv_file_id w \<Longrightarrow> v = w"
  by (auto simp: wf_defs distinct_map dest: inj_onD)

lemma claimed_rows_facts:
  assumes "db_wf db"
  shows "distinct (map pv_file_id (claimed_rows hs limit now db))"
    "v \<in> set (claimed_rows hs limit now db) \<Longrightarrow> v \<in> set (previews db) \<and> claimable (covered_kinds hs) now db v"
proof -
  let ?rows = "sort_key pv_updated_at (filter (claimable (covered_kinds hs) now db) (previews db))"
  have "distinct (map pv_file_id ?rows)"
    using assms by (simp add: wf_defs distinct_map inj_on_def)
  then show "distinct (map pv_file_id (claimed_rows hs limit now db))"
    unfolding claimed_rows_def take_map [symmetric] by (rule distinct_take)
  show "v \<in> set (claimed_rows hs limit now db) \<Longrightarrow> v \<in> set (previews db) \<and> claimable (covered_kinds hs) now db v"
    by (auto simp: claimed_rows_def dest!: in_set_takeD)
qed

text \<open>A claim: the claimed rows are leased, the jobs are theirs, one each.\<close>

lemma claim_facts:
  assumes "claim_pending_previews lp hs limit now db = (jobs, db')" "db_wf db"
  shows "db_wf db'"
    "w \<in> set (previews db') \<Longrightarrow> w \<in> set (previews db) \<or>
       (\<exists>v \<in> set (previews db). claimable (covered_kinds hs) now db v \<and> w = leased now v)"
    "distinct (map pj_file_id jobs)" "j \<in> set jobs \<Longrightarrow> pj_claimed_at j = now"
    "j \<in> set jobs \<Longrightarrow> \<exists>f \<in> set (files db). f_id f = pj_file_id j \<and> pj_content_hash j = f_content_hash f"
    "files db' = files db"
proof -
  let ?rows = "claimed_rows hs limit now db"
  note rows = claimed_rows_facts [OF assms(2), where hs = hs and limit = limit and now = now]
  have cases: "covered_kinds hs = [] \<and> jobs = [] \<and> db' = db \<or>
      jobs = concat (map (job_of lp now db) ?rows) \<and>
      db' = db\<lparr>previews := update_where (\<lambda>v. pv_file_id v \<in> pv_file_id ` set ?rows) (leased now) (previews db)\<rparr>"
    using assms(1) by (auto simp: claim_pending_previews_def Let_def split: if_splits)
  have job: "pj_claimed_at j = now \<and> pj_file_id j = pv_file_id v \<and>
      (\<exists>f \<in> set (files db). f_id f = pj_file_id j \<and> pj_content_hash j = f_content_hash f)"
    if "j \<in> set (job_of lp now db v)" for j v
    using that by (auto simp: job_of_def joined_def split: option.splits dest!: find_Some_set)
  have short: "length (job_of lp now db v) \<le> 1" for v by (auto simp: job_of_def split: option.splits)
  have dist: "distinct (map pv_file_id vs) \<Longrightarrow> distinct (map pj_file_id (concat (map (job_of lp now db) vs)))" for vs
  proof (induction vs)
    case (Cons v vs)
    have "map pj_file_id (job_of lp now db v) = [] \<or> map pj_file_id (job_of lp now db v) = [pv_file_id v]"
      by (auto simp: job_of_def split: option.splits)
    moreover have "set (map pj_file_id (concat (map (job_of lp now db) vs))) \<subseteq> pv_file_id ` set vs"
      using job by fastforce
    moreover have "pv_file_id v \<notin> pv_file_id ` set vs" "distinct (map pj_file_id (concat (map (job_of lp now db) vs)))"
      using Cons by simp_all
    moreover have "map pj_file_id (concat (map (job_of lp now db) (v # vs))) =
        map pj_file_id (job_of lp now db v) @ map pj_file_id (concat (map (job_of lp now db) vs))" by simp
    ultimately show ?case by (metis append_Nil append_Cons distinct.simps(2) subsetD)
  qed simp
  show "db_wf db'" using cases assms(2) by (auto intro!: update_previews_wf simp: leased_def)
  show "w \<in> set (previews db) \<or> (\<exists>v \<in> set (previews db). claimable (covered_kinds hs) now db v \<and> w = leased now v)"
    if "w \<in> set (previews db')"
    using cases that
  proof (elim disjE conjE)
    assume "db' = db\<lparr>previews := update_where (\<lambda>v. pv_file_id v \<in> pv_file_id ` set ?rows) (leased now) (previews db)\<rparr>"
    with that obtain v where v: "v \<in> set (previews db)"
        "w = (if pv_file_id v \<in> pv_file_id ` set ?rows then leased now v else v)"
      by (auto simp: set_update_where)
    show ?thesis
    proof (cases "pv_file_id v \<in> pv_file_id ` set ?rows")
      case True
      then obtain r where r: "r \<in> set ?rows" "pv_file_id r = pv_file_id v" by auto
      have "r = v" using preview_unique [OF assms(2)] rows(2) [OF r(1)] v(1) r(2) by blast
      then show ?thesis using rows(2) [OF r(1)] v True by auto
    qed (use v in auto)
  qed auto
  show "distinct (map pj_file_id jobs)" using cases dist rows(1) by auto
  show "pj_claimed_at j = now" if "j \<in> set jobs" using cases that job by auto
  show "\<exists>f \<in> set (files db). f_id f = pj_file_id j \<and> pj_content_hash j = f_content_hash f" if "j \<in> set jobs"
    using cases that job by fastforce
  show "files db' = files db" using cases by auto
qed

lemma finish_facts:
  assumes "db_wf db" "\<And>v. pv_file_id (F v) = pv_file_id v"
  shows "db_wf (snd (finish job F db))"
    "w \<in> set (previews (snd (finish job F db))) \<Longrightarrow>
       (w \<in> set (previews db) \<and> \<not> owns job w) \<or> (\<exists>v \<in> set (previews db). owns job v \<and> w = F v)"
    "files (snd (finish job F db)) = files db"
  using assms by (auto simp: finish_def set_update_where intro!: update_previews_wf)

lemma settled_id [simp]: "pv_file_id (settled job now r v) = pv_file_id v" "pv_file_id (released v) = pv_file_id v"
  by (auto simp: settled_def released_def split: sum.splits option.splits)

text \<open>A step of a job: the row it recorded, if any, and what is left of the job.\<close>

lemma advance_cases:
  assumes "advance lp hs refusal now (job, phase) db disk = (ys, db', disk')"
  shows "(db' = db \<and> (\<exists>phase'. ys = [(job, phase')])) \<or>
     (ys = [] \<and> (\<exists>F. db' = snd (finish job F db) \<and>
        (F = released \<or> (\<exists>r. phase = Stored r \<and> F = settled job now r))))"
  using assms by (auto simp: advance_def Let_def split: job_phase.splits if_splits prod.splits)

section \<open>Leases\<close>

definition job_key :: "preview_job \<times> job_phase \<Rightarrow> str \<times> int" where
  "job_key running = (pj_file_id (fst running), pj_claimed_at (fst running))"

definition lease_inv :: "queue_state \<Rightarrow> bool" where
  "lease_inv s \<longleftrightarrow>
     db_wf (q_db s) \<and>
     (\<forall>v \<in> set (previews (q_db s)). lease_row (q_clock s) v) \<and>
     (\<forall>k \<in> set (map job_key (q_running s)). snd k \<le> q_clock s) \<and>
     distinct (map job_key (q_running s))"

lemma set_replace_nth: "set (replace_nth n ys xs) \<subseteq> set ys \<union> set xs"
  by (auto simp: replace_nth_def dest: in_set_takeD in_set_dropD)

lemma map_replace_nth: "map k (replace_nth n ys xs) = replace_nth n (map k ys) (map k xs)"
  by (simp add: replace_nth_def take_map drop_map)

lemma distinct_replace_nth:
  assumes "distinct xs" "n < length xs" "ys = [] \<or> ys = [xs ! n]"
  shows "distinct (replace_nth n ys xs)"
proof -
  have "xs = take n xs @ xs ! n # drop (Suc n) xs" using assms(2) by (rule id_take_nth_drop)
  then have "distinct (take n xs @ xs ! n # drop (Suc n) xs)" using assms(1) by simp
  then show ?thesis using assms(3) by (auto simp: replace_nth_def)
qed

lemma distinct_dropped_nth: "distinct xs \<Longrightarrow> distinct (replace_nth n [] xs)"
  by (cases "n < length xs") (simp_all add: distinct_replace_nth, simp add: replace_nth_def)

lemma lease_inv_requeues:
  assumes "lease_inv s" "requeues (q_db s) db"
  shows "lease_inv (s\<lparr>q_db := db\<rparr>)"
proof -
  have "lease_row clock v" if "pv_claimed_at v = None" "pv_attempts v = 0" for clock v
    using that by (simp add: lease_row_def MAX_PREVIEW_ATTEMPTS_def)
  then show ?thesis using assms unfolding lease_inv_def requeues_def by (simp del: map_map) blast
qed

lemma lease_inv_finish:
  assumes "lease_inv s" "F = released \<or> (\<exists>r. F = settled job now r)"
  shows "lease_inv (s\<lparr>q_db := snd (finish job F (q_db s))\<rparr>)"
proof -
  have row: "pv_file_id (F v) = pv_file_id v" "pv_claimed_at (F v) = None" "pv_attempts (F v) = pv_attempts v" for v
    using assms(2) by (auto simp: released_def settled_def split: sum.splits option.splits)
  have wf: "db_wf (q_db s)" using assms(1) by (simp add: lease_inv_def)
  have keep: "lease_row (q_clock s) (F v)" if "lease_row (q_clock s) v" for v
    using that by (simp add: lease_row_def row)
  have "\<forall>w \<in> set (previews (snd (finish job F (q_db s)))). lease_row (q_clock s) w"
    using finish_facts(2) [OF wf row(1), of _ job] keep assms(1) unfolding lease_inv_def by blast
  then show ?thesis using assms(1) finish_facts(1) [OF wf row(1), of job] by (simp add: lease_inv_def)
qed

definition is_rescan :: "queue_event \<Rightarrow> bool" where
  "is_rescan e =
     (case e of Index _ _ \<Rightarrow> True | Reclassify _ _ _ \<Rightarrow> True | Reindex _ _ _ _ _ \<Rightarrow> True | Forget _ \<Rightarrow> True
      | _ \<Rightarrow> False)"

lemma with_db_eq: "with_db s r = Some s' \<longleftrightarrow> (\<exists>db. r = Inr db \<and> s' = s\<lparr>q_db := db\<rparr>)"
  by (auto simp: with_db_def split: sum.splits)

lemma map_sum_eq_Inr: "map_sum f g r = Inr y \<longleftrightarrow> (\<exists>x. r = Inr x \<and> y = g x)"
  by (cases r) auto

lemma rescan_event:
  assumes "queue_step lp hs e s = Some s'" "is_rescan e" "db_wf (q_db s)"
  shows "\<exists>db. s' = s\<lparr>q_db := db\<rparr> \<and> requeues (q_db s) db"
proof (cases e)
  case (Index f now)
  then show ?thesis using assms requeues_index by (auto simp: with_db_eq)
next
  case (Reclassify known cl now)
  then obtain b db where "reclassify_tx known cl now (q_db s) = Inr (b, db)" "s' = s\<lparr>q_db := db\<rparr>"
    using assms(1) by (auto simp: with_db_eq map_sum_eq_Inr)
  then show ?thesis using requeues_reclassify assms(3) by blast
next
  case (Reindex known cl df hash now)
  then obtain b db where "reindex_tx known cl df hash now (q_db s) = Inr (b, db)" "s' = s\<lparr>q_db := db\<rparr>"
    using assms(1) by (auto simp: with_db_eq map_sum_eq_Inr)
  then show ?thesis using requeues_reindex assms(3) by blast
next
  case (Forget fid)
  then show ?thesis using assms requeues_forget by auto
qed (use assms(2) in \<open>simp_all add: is_rescan_def\<close>)

lemma lease_inv_step:
  assumes "queue_step lp hs e s = Some s'" "lease_inv s"
  shows "lease_inv s'"
proof (cases e)
  case (Claim limit now)
  obtain jobs db where claim: "claim_pending_previews lp hs limit now (q_db s) = (jobs, db)" by fastforce
  have s': "s' = s\<lparr>q_db := db, q_running := q_running s @ map (\<lambda>j. (j, Claimed)) jobs, q_clock := now\<rparr>"
      and later: "q_clock s < now"
    using assms(1) claim by (auto simp: Claim split: if_splits)
  have wf: "db_wf (q_db s)" using assms(2) by (simp add: lease_inv_def)
  note facts = claim_facts [OF claim wf]
  have keys: "map job_key (map (\<lambda>j. (j, Claimed)) jobs) = map (\<lambda>j. (pj_file_id j, pj_claimed_at j)) jobs"
    by (simp add: job_key_def comp_def)
  have "distinct (map (\<lambda>j. (pj_file_id j, pj_claimed_at j)) jobs)"
    using facts(3) by (auto simp: distinct_map inj_on_def)
  moreover have "set (map job_key (q_running s)) \<inter> set (map (\<lambda>j. (pj_file_id j, pj_claimed_at j)) jobs) = {}"
  proof -
    have "snd k \<noteq> now" if "k \<in> set (map job_key (q_running s))" for k
      using assms(2) later that by (auto simp: lease_inv_def)
    then show ?thesis using facts(4) by (auto simp del: set_map) fastforce
  qed
  ultimately have "distinct (map job_key (q_running s'))"
    using assms(2) by (simp add: s' lease_inv_def keys del: map_map)
  moreover have "\<forall>k \<in> set (map job_key (q_running s')). snd k \<le> now"
    using assms(2) later facts(4) by (auto simp: s' lease_inv_def job_key_def)
  moreover have "lease_row now w" if "w \<in> set (previews db)" for w
  proof -
    have old: "lease_row now v" if "v \<in> set (previews (q_db s))" for v
      using assms(2) later that by (fastforce simp: lease_inv_def lease_row_def split: option.splits)
    have "lease_row now (leased now v)" if "claimable (covered_kinds hs) now (q_db s) v" for v
      using that by (simp add: lease_row_def leased_def claimable_def)
    with old facts(2) [OF that] show ?thesis by blast
  qed
  ultimately show ?thesis using facts(1) by (simp add: lease_inv_def s')
next
  case (Advance n refusal now)
  obtain job phase where run: "q_running s ! n = (job, phase)" by fastforce
  obtain ys db disk where adv: "advance lp hs refusal now (job, phase) (q_db s) (q_disk s) = (ys, db, disk)"
    using prod_cases3 by blast
  have n: "n < length (q_running s)"
      and s': "s' = s\<lparr>q_db := db, q_disk := disk, q_running := replace_nth n ys (q_running s)\<rparr>"
    using assms(1) run adv by (auto simp: Advance split: if_splits)
  have "map job_key ys = [] \<or> map job_key ys = [map job_key (q_running s) ! n]"
    using advance_cases [OF adv] n run by (auto simp: job_key_def)
  then have "distinct (map job_key (replace_nth n ys (q_running s)))"
      "set (map job_key (replace_nth n ys (q_running s))) \<subseteq> set (map job_key (q_running s))"
    using assms(2) n set_replace_nth [of n "map job_key ys" "map job_key (q_running s)"]
    by (auto simp: lease_inv_def map_replace_nth distinct_replace_nth)
  moreover have "lease_inv (s\<lparr>q_db := db\<rparr>)"
    using advance_cases [OF adv] lease_inv_finish [OF assms(2)] assms(2) by auto
  ultimately show ?thesis by (auto simp: lease_inv_def s')
next
  case (Crash n)
  have "set (replace_nth n [] (q_running s)) \<subseteq> set (q_running s)"
    using set_replace_nth [of n "[]" "q_running s"] by auto
  then show ?thesis
    using assms by (auto simp: Crash lease_inv_def map_replace_nth distinct_dropped_nth)
next
  case (Elsewhere db)
  then show ?thesis using assms by (auto simp: lease_inv_def split: if_splits)
next
  case (Edit p content)
  then show ?thesis using assms by (auto simp: lease_inv_def)
qed (use rescan_event [OF assms(1)] assms(2) lease_inv_requeues [OF assms(2)] in
    \<open>auto simp: is_rescan_def lease_inv_def [of s]\<close>)

lemma lease_inv_reachable:
  assumes "queue_reach lp hs allowed s0 s" "at_rest s0"
  shows "lease_inv s"
  using assms(1)
proof induction
  case at_start
  then show ?case using assms(2) by (simp add: lease_inv_def at_rest_def)
next
  case (after_event s e s')
  then show ?case using lease_inv_step by blast
qed

lemma few_owners:
  assumes "distinct (map job_key running)"
  shows "count_where (\<lambda>(job, _). owns job v) running \<le> 1"
  using assms
proof (induction running)
  case (Cons r running)
  show ?case
  proof (cases "owns (fst r) v")
    case True
    have "\<not> owns (fst q) v" if "q \<in> set running" for q
    proof
      assume "owns (fst q) v"
      with True have "job_key q = job_key r" by (simp add: owns_def job_key_def)
      with that Cons.prems show False by (metis distinct.simps(2) image_eqI list.set_map list.simps(9))
    qed
    then have "filter (\<lambda>(job, _). owns job v) running = []" by (auto simp: filter_empty_conv)
    then show ?thesis using True by (cases r) (simp add: count_where_def)
  next
    case False
    then show ?thesis using Cons by (cases r) (simp add: count_where_def)
  qed
qed (simp add: count_where_def)

lemma finish_without_owner:
  assumes "\<forall>v \<in> set (previews db). \<not> owns job v"
  shows "finish job F db = (False, db)"
proof -
  have "update_where (owns job) F (previews db) = previews db"
    using assms by (induction "previews db" arbitrary: db) (auto simp: update_where_def intro: map_idI)
  moreover have "count_where (owns job) (previews db) = 0" using assms by (simp add: table_simps)
  ultimately show ?thesis by (simp add: finish_def)
qed

section \<open>What a ready preview shows\<close>

definition shows_truth :: "db \<Rightarrow> bool" where
  "shows_truth db \<longleftrightarrow>
     (\<forall>v \<in> set (previews db). \<forall>f \<in> set (files db).
        pv_file_id v = f_id f \<and> pv_state v = PvReady \<longrightarrow> pv_source_hash v = f_content_hash f)"

definition jobs_current :: "queue_state \<Rightarrow> bool" where
  "jobs_current s \<longleftrightarrow>
     (\<forall>r \<in> set (q_running s). \<forall>v \<in> set (previews (q_db s)). \<forall>f \<in> set (files (q_db s)).
        owns (fst r) v \<and> f_id f = pv_file_id v \<longrightarrow> pj_content_hash (fst r) = f_content_hash f)"

text \<open>A rescan that finds a file back at the bytes of its last picture while that picture is not shown.\<close>

definition no_return :: "queue_state \<Rightarrow> queue_event \<Rightarrow> bool" where
  "no_return s e \<longleftrightarrow>
     (case e of
        Reindex known cl df hash now \<Rightarrow>
          (case find_preview (q_db s) (f_id known) of
             None \<Rightarrow> True
           | Some v \<Rightarrow> pv_source_hash v \<noteq> Some hash \<or> pv_state v = PvReady)
      | _ \<Rightarrow> True)"

text \<open>
  The general step: every row and every file is an old one, or the row is neither shown nor owned, or
  the row is settled by the job that owns it.
\<close>

definition unclaimed :: "preview_row \<Rightarrow> bool" where
  "unclaimed v \<longleftrightarrow> pv_state v \<noteq> PvReady \<and> pv_claimed_at v = None"

lemma unclaimed_not_owned: "unclaimed v \<Longrightarrow> \<not> owns job v"
  by (simp add: unclaimed_def owns_def)

lemma truth_kept:
  assumes "shows_truth (q_db s)" "jobs_current s"
    "\<And>v. v \<in> set (previews db) \<Longrightarrow> v \<in> set (previews (q_db s)) \<or> unclaimed v"
    "\<And>f v. f \<in> set (files db) \<Longrightarrow> v \<in> set (previews db) \<Longrightarrow> pv_file_id v = f_id f \<Longrightarrow> \<not> unclaimed v \<Longrightarrow>
       \<exists>g \<in> set (files (q_db s)). f_id g = f_id f \<and> f_content_hash g = f_content_hash f"
  shows "shows_truth db \<and> jobs_current (s\<lparr>q_db := db\<rparr>)"
proof -
  have "pv_source_hash v = f_content_hash f"
    if here: "v \<in> set (previews db)" "f \<in> set (files db)" "pv_file_id v = f_id f" "pv_state v = PvReady" for v f
  proof -
    have v: "\<not> unclaimed v" using here(4) by (simp add: unclaimed_def)
    obtain g where "g \<in> set (files (q_db s))" "f_id g = f_id f" "f_content_hash g = f_content_hash f"
      using assms(4) [OF here(2,1,3) v] by blast
    with assms(1,3) v here show ?thesis unfolding shows_truth_def by metis
  qed
  moreover have "pj_content_hash (fst r) = f_content_hash f"
    if here: "r \<in> set (q_running s)" "v \<in> set (previews db)" "f \<in> set (files db)" "owns (fst r) v" "f_id f = pv_file_id v" for r v f
  proof -
    have v: "\<not> unclaimed v" using here(4) unclaimed_not_owned by blast
    obtain g where "g \<in> set (files (q_db s))" "f_id g = f_id f" "f_content_hash g = f_content_hash f"
      using assms(4) [OF here(3,2) here(5) [symmetric] v] by blast
    with assms(2,3) v here show ?thesis unfolding jobs_current_def by metis
  qed
  ultimately show ?thesis by (simp add: shows_truth_def jobs_current_def)
qed

lemma requeued_rows:
  "requeues db0 db \<Longrightarrow> v \<in> set (previews db) \<Longrightarrow> v \<in> set (previews db0) \<or> unclaimed v"
  by (auto simp: requeues_def unclaimed_def)

lemma truth_index:
  assumes "index_file_tx f now (q_db s) = Inr db" "db_wf (q_db s)" "shows_truth (q_db s)" "jobs_current s"
  shows "shows_truth db \<and> jobs_current (s\<lparr>q_db := db\<rparr>)"
proof (rule truth_kept [OF assms(3,4)])
  note rows = requeued_rows [OF requeues_index [OF assms(1,2)]]
  show "v \<in> set (previews (q_db s)) \<or> unclaimed v" if "v \<in> set (previews db)" for v using rows that .
  show "\<exists>g \<in> set (files (q_db s)). f_id g = f_id h \<and> f_content_hash g = f_content_hash h"
    if "h \<in> set (files db)" "v \<in> set (previews db)" "pv_file_id v = f_id h" "\<not> unclaimed v" for h v
  proof -
    have v: "v \<in> set (previews (q_db s))" using rows that by blast
    have "pv_file_id ` set (previews (q_db s)) \<subseteq> f_id ` set (files (q_db s))" using assms(2) by (simp add: wf_defs)
    then have "f_id h \<in> f_id ` set (files (q_db s))" using v that(3) by (metis image_eqI subsetD)
    moreover have "files db = files (q_db s) @ [f]" "f_id f \<notin> f_id ` set (files (q_db s))"
      using assms(1) by (auto simp: index_file_tx_def insert_file_def insert_preview_def list_ex_iff result_iffs
          split: if_splits)
    ultimately show ?thesis using that(1) by auto
  qed
qed

lemma queue_again_files: "queue_again fid now db = Inr db' \<Longrightarrow> files db' = files db"
  by (auto simp: queue_again_def reset_preview_def insert_preview_def split: if_splits)

lemma queue_again_unclaimed:
  assumes "queue_again fid now db = Inr db'" "v \<in> set (previews db')" "pv_file_id v = fid"
  shows "unclaimed v"
proof (cases "preview_exists fid db")
  case True
  then have "db' = reset_preview fid now db" using assms(1) by (simp add: queue_again_def)
  then have "v \<in> (\<lambda>w. if pv_file_id w = fid then reset_row now w else w) ` set (previews db)"
    using assms(2) by (simp add: reset_preview_def set_update_where)
  then obtain w where w: "v = (if pv_file_id w = fid then reset_row now w else w)" by (rule imageE)
  with assms(3) have "v = reset_row now w" by (cases "pv_file_id w = fid") (simp_all add: reset_row_def)
  then show ?thesis by (simp add: unclaimed_def reset_row_def)
next
  case False
  then have "previews db' = previews db @ [pending_preview fid now]"
    using assms(1) by (auto simp: queue_again_def insert_preview_def split: if_splits)
  moreover have "v \<notin> set (previews db)" using False assms(3) by (auto simp: preview_exists_def list_ex_iff)
  ultimately have "v = pending_preview fid now" using assms(2) by simp
  then show ?thesis by (simp add: unclaimed_def pending_preview_def)
qed

lemma updated_file_origin:
  assumes "f \<in> set (files (update_file fid F db))" "\<And>g. f_id (F g) = f_id g"
    "f_id f = fid \<Longrightarrow> \<forall>g. f_content_hash (F g) = f_content_hash g"
  shows "\<exists>g \<in> set (files db). f_id g = f_id f \<and> f_content_hash g = f_content_hash f"
proof -
  obtain g where "g \<in> set (files db)" "f = (if f_id g = fid then F g else g)"
    using assms(1) by (auto simp: update_file_def set_update_where)
  then show ?thesis using assms(2,3) by (metis (no_types))
qed

lemma truth_reclassify:
  assumes "reclassify_tx known cl now (q_db s) = Inr (b, db)" "db_wf (q_db s)" "shows_truth (q_db s)" "jobs_current s"
  shows "shows_truth db \<and> jobs_current (s\<lparr>q_db := db\<rparr>)"
proof (rule truth_kept [OF assms(3,4)])
  let ?db1 = "update_file (f_id known) (stamped cl) (q_db s)"
  show "v \<in> set (previews (q_db s)) \<or> unclaimed v" if "v \<in> set (previews db)" for v
    using requeued_rows [OF requeues_reclassify [OF assms(1,2)]] that .
  have "db = ?db1 \<or> queue_again (f_id known) now ?db1 = Inr db"
    using assms(1) by (auto simp: reclassify_tx_def Let_def result_iffs split: if_splits)
  then have same: "files db = files ?db1" using queue_again_files by blast
  show "\<exists>g \<in> set (files (q_db s)). f_id g = f_id f \<and> f_content_hash g = f_content_hash f"
    if "f \<in> set (files db)" for f
    by (rule updated_file_origin [of f "f_id known" "stamped cl"]) (use that same in \<open>simp_all add: stamped_def\<close>)
qed

lemma truth_reindex:
  assumes "reindex_tx known cl df hash now (q_db s) = Inr (b, db)" "db_wf (q_db s)" "shows_truth (q_db s)" "jobs_current s"
    "no_return s (Reindex known cl df hash now)"
  shows "shows_truth db \<and> jobs_current (s\<lparr>q_db := db\<rparr>)"
proof -
  let ?fid = "f_id known"
  let ?db1 = "update_file ?fid (refreshed cl df hash) (q_db s)"
  have pv1: "previews ?db1 = previews (q_db s)" by (simp add: update_file_def)
  have "db = ?db1 \<or> queue_again ?fid now ?db1 = Inr db"
    using assms(1) by (auto simp: reindex_tx_def Let_def result_iffs split: if_splits)
  then have fs: "files db = files ?db1" using queue_again_files by blast
  have old: "\<exists>g \<in> set (files (q_db s)). f_id g = f_id f \<and> f_content_hash g = f_content_hash f"
    if "f \<in> set (files db)" "f_id f \<noteq> ?fid" for f
    by (rule updated_file_origin [of f ?fid "refreshed cl df hash"])
      (use that fs in \<open>simp_all add: refreshed_def stamped_def\<close>)
  have rows: "v \<in> set (previews (q_db s)) \<or> unclaimed v" if "v \<in> set (previews db)" for v
    using requeued_rows [OF requeues_reindex [OF assms(1,2)]] that .
  show ?thesis
  proof (cases "same_source ?fid hash ?db1")
    case False
    then have "queue_again ?fid now ?db1 = Inr db"
      using assms(1) by (auto simp: reindex_tx_def Let_def result_iffs)
    then have "unclaimed v" if "v \<in> set (previews db)" "pv_file_id v = ?fid" for v
      using queue_again_unclaimed that by blast
    then show ?thesis using truth_kept [OF assms(3,4) rows] old by metis
  next
    case True
    then have pv: "previews db = previews (q_db s)" using assms(1) pv1 by (simp add: reindex_tx_def Let_def)
    obtain v0 where v0: "find_preview (q_db s) ?fid = Some v0" "pv_source_hash v0 = Some hash"
      using True by (auto simp: same_source_def find_preview_def pv1 split: option.splits)
    have ready: "pv_state v0 = PvReady" using assms(5) v0 by (simp add: no_return_def)
    have only: "v = v0" if "v \<in> set (previews (q_db s))" "pv_file_id v = ?fid" for v
      using preview_unique [OF assms(2) that(1), of v0] find_Some_set [OF v0(1) [unfolded find_preview_def]] that(2) by simp
    have hash: "f_content_hash f = Some hash" if "f \<in> set (files db)" "f_id f = ?fid" for f
      using that by (auto simp: fs update_file_def set_update_where refreshed_def stamped_def split: if_splits)
    have "pv_source_hash v = f_content_hash f"
      if here: "v \<in> set (previews db)" "f \<in> set (files db)" "pv_file_id v = f_id f" "pv_state v = PvReady" for v f
    proof (cases "f_id f = ?fid")
      case True
      then show ?thesis using only hash v0(2) here pv by simp
    next
      case False
      then obtain g where "g \<in> set (files (q_db s))" "f_id g = f_id f" "f_content_hash g = f_content_hash f"
        using old here(2) by blast
      with assms(3) here pv show ?thesis unfolding shows_truth_def by metis
    qed
    moreover have "pj_content_hash (fst r) = f_content_hash f"
      if here: "r \<in> set (q_running s)" "v \<in> set (previews db)" "f \<in> set (files db)" "owns (fst r) v" "f_id f = pv_file_id v" for r v f
    proof (cases "f_id f = ?fid")
      case True
      then have "v = v0" using only here(2,5) pv by simp
      with ready here(4) show ?thesis by (simp add: owns_def)
    next
      case False
      then obtain g where "g \<in> set (files (q_db s))" "f_id g = f_id f" "f_content_hash g = f_content_hash f"
        using old here(3) by blast
      with assms(4) here pv show ?thesis unfolding jobs_current_def by metis
    qed
    ultimately show ?thesis by (simp add: shows_truth_def jobs_current_def)
  qed
qed

lemma truth_forget:
  assumes "db_wf (q_db s)" "shows_truth (q_db s)" "jobs_current s"
  shows "shows_truth (delete_files gone (q_db s)) \<and> jobs_current (s\<lparr>q_db := delete_files gone (q_db s)\<rparr>)"
proof (rule truth_kept [OF assms(2,3)])
  show "v \<in> set (previews (q_db s)) \<or> unclaimed v" if "v \<in> set (previews (delete_files gone (q_db s)))" for v
    using requeued_rows [OF requeues_forget [OF assms(1)]] that .
  show "\<exists>g \<in> set (files (q_db s)). f_id g = f_id f \<and> f_content_hash g = f_content_hash f"
    if "f \<in> set (files (delete_files gone (q_db s)))" for f
    using that by (auto simp: delete_files_def table_simps)
qed

text \<open>The job that owns a row settles it with the bytes the row's file names.\<close>

lemma settled_ready:
  "pv_state (settled job now r v) = PvReady \<Longrightarrow> pv_source_hash (settled job now r v) = pj_content_hash job"
  by (auto simp: settled_def split: sum.splits option.splits)

lemma recorded_row:
  assumes "F = released \<or> F = settled job now r" "owns job v"
  shows "pv_claimed_at (F v) = None" "pv_file_id (F v) = pv_file_id v"
    "pv_state (F v) = PvReady \<Longrightarrow> pv_source_hash (F v) = pj_content_hash job"
  using assms by (auto simp: released_def owns_def settled_def split: sum.splits option.splits)

lemma truth_finish:
  assumes "db_wf (q_db s)" "shows_truth (q_db s)" "jobs_current s" "(job, phase) \<in> set (q_running s)"
    "F = released \<or> F = settled job now r"
  shows "shows_truth (snd (finish job F (q_db s))) \<and> jobs_current (s\<lparr>q_db := snd (finish job F (q_db s))\<rparr>)"
proof -
  let ?db = "snd (finish job F (q_db s))"
  have id_F: "pv_file_id (F v) = pv_file_id v" for v using assms(5) by auto
  note rows = finish_facts(2) [OF assms(1) id_F, of _ job]
  have fs: "files ?db = files (q_db s)" by (simp add: finish_def)
  have "pv_source_hash v = f_content_hash f"
    if here: "v \<in> set (previews ?db)" "f \<in> set (files ?db)" "pv_file_id v = f_id f" "pv_state v = PvReady" for v f
    using rows [OF here(1)]
  proof (elim disjE conjE bexE)
    assume "v \<in> set (previews (q_db s))"
    then show ?thesis using assms(2) here fs by (simp add: shows_truth_def)
  next
    fix w assume w: "w \<in> set (previews (q_db s))" "owns job w" "v = F w"
    have "pv_source_hash v = pj_content_hash job" using recorded_row(3) [OF assms(5) w(2)] w(3) here(4) by simp
    moreover have "pj_content_hash job = f_content_hash f"
      using assms(3,4) w id_F here(2,3) fs unfolding jobs_current_def by (metis fst_conv)
    ultimately show ?thesis by simp
  qed
  moreover have "pj_content_hash (fst q) = f_content_hash f"
    if here: "q \<in> set (q_running s)" "v \<in> set (previews ?db)" "f \<in> set (files ?db)" "owns (fst q) v" "f_id f = pv_file_id v"
    for q v f
    using rows [OF here(2)]
  proof (elim disjE conjE bexE)
    assume "v \<in> set (previews (q_db s))"
    then show ?thesis using assms(3) here fs unfolding jobs_current_def by metis
  next
    fix w assume w: "w \<in> set (previews (q_db s))" "owns job w" "v = F w"
    have "pv_claimed_at v = None" using recorded_row(1) [OF assms(5) w(2)] w(3) by simp
    with here(4) show ?thesis by (simp add: owns_def)
  qed
  ultimately show ?thesis by (simp add: shows_truth_def jobs_current_def)
qed

text \<open>A claim shows nothing new, and its jobs carry the bytes of their files.\<close>

lemma truth_claim:
  assumes "claim_pending_previews lp hs limit now (q_db s) = (jobs, db)" "lease_inv s" "q_clock s < now"
    "shows_truth (q_db s)" "jobs_current s"
  shows "shows_truth db \<and>
     jobs_current (s\<lparr>q_db := db, q_running := q_running s @ map (\<lambda>j. (j, Claimed)) jobs, q_clock := now\<rparr>)"
proof -
  have wf: "db_wf (q_db s)" using assms(2) by (simp add: lease_inv_def)
  note facts = claim_facts [OF assms(1) wf]
  have rows: "v \<in> set (previews (q_db s)) \<or>
      (pv_state v = PvPending \<and> pv_claimed_at v = Some now)" if "v \<in> set (previews db)" for v
    using facts(2) [OF that] by (auto simp: leased_def claimable_def)
  have "shows_truth db"
    using assms(4) rows facts(6) by (fastforce simp: shows_truth_def)
  moreover have "pj_content_hash j = f_content_hash f"
    if here: "j \<in> set jobs" "f \<in> set (files db)" "owns j v" "f_id f = pv_file_id v" for j v f
  proof -
    obtain g where g: "g \<in> set (files (q_db s))" "f_id g = pj_file_id j" "pj_content_hash j = f_content_hash g"
      using facts(5) [OF here(1)] by blast
    have "f_id f = f_id g" using here(3,4) g(2) by (simp add: owns_def)
    moreover have "inj_on f_id (set (files (q_db s)))" using wf by (simp add: wf_defs distinct_map)
    ultimately have "f = g" using here(2) facts(6) g(1) by (simp add: inj_on_def)
    then show ?thesis using g(3) by simp
  qed
  moreover have "pj_content_hash (fst q) = f_content_hash f"
    if here: "q \<in> set (q_running s)" "v \<in> set (previews db)" "f \<in> set (files db)" "owns (fst q) v" "f_id f = pv_file_id v"
    for q v f
  proof -
    have "snd (job_key q) \<le> q_clock s" using assms(2) here(1) by (auto simp: lease_inv_def)
    then have "pv_claimed_at v \<noteq> Some now" using here(4) assms(3) by (auto simp: job_key_def owns_def)
    then have "v \<in> set (previews (q_db s))" using rows [OF here(2)] by blast
    then show ?thesis using assms(5) here facts(6) unfolding jobs_current_def by metis
  qed
  ultimately show ?thesis by (auto simp: jobs_current_def)
qed

lemma jobs_current_fewer:
  assumes "jobs_current s" "fst ` set running \<subseteq> fst ` set (q_running s)"
  shows "jobs_current (s\<lparr>q_disk := disk, q_running := running\<rparr>)"
  unfolding jobs_current_def
proof (intro ballI impI)
  fix q v f
  assume q: "q \<in> set (q_running (s\<lparr>q_disk := disk, q_running := running\<rparr>))"
    "v \<in> set (previews (q_db (s\<lparr>q_disk := disk, q_running := running\<rparr>)))"
    "f \<in> set (files (q_db (s\<lparr>q_disk := disk, q_running := running\<rparr>)))" "owns (fst q) v \<and> f_id f = pv_file_id v"
  then have "fst q \<in> fst ` set running" by simp
  then obtain q' where "q' \<in> set (q_running s)" "fst q' = fst q" using assms(2) by (metis imageE subsetD)
  with assms(1) q show "pj_content_hash (fst q) = f_content_hash f"
    unfolding jobs_current_def by (metis queue_state.select_convs(1) queue_state.update_convs(2,3) queue_state.surjective)
qed

lemma truth_step:
  assumes "queue_step lp hs e s = Some s'" "no_return s e" "lease_inv s" "shows_truth (q_db s)" "jobs_current s"
  shows "shows_truth (q_db s') \<and> jobs_current s'"
proof (cases e)
  case (Claim limit now)
  obtain jobs db where claim: "claim_pending_previews lp hs limit now (q_db s) = (jobs, db)" by fastforce
  then have "s' = s\<lparr>q_db := db, q_running := q_running s @ map (\<lambda>j. (j, Claimed)) jobs, q_clock := now\<rparr>" "q_clock s < now"
    using assms(1) by (auto simp: Claim split: if_splits)
  then show ?thesis using truth_claim [OF claim assms(3) _ assms(4,5)] by simp
next
  case (Advance n refusal now)
  obtain job phase where run: "q_running s ! n = (job, phase)" by fastforce
  obtain ys db disk where adv: "advance lp hs refusal now (job, phase) (q_db s) (q_disk s) = (ys, db, disk)"
    using prod_cases3 by blast
  have n: "n < length (q_running s)"
      and s': "s' = s\<lparr>q_db := db, q_disk := disk, q_running := replace_nth n ys (q_running s)\<rparr>"
    using assms(1) run adv by (auto simp: Advance split: if_splits)
  have mine: "(job, phase) \<in> set (q_running s)" using n run by (metis nth_mem)
  have wf: "db_wf (q_db s)" using assms(3) by (simp add: lease_inv_def)
  have "shows_truth db \<and> jobs_current (s\<lparr>q_db := db\<rparr>)"
    using advance_cases [OF adv] truth_finish [OF wf assms(4,5) mine] assms(4,5) by auto
  moreover have "fst ` set (replace_nth n ys (q_running s)) \<subseteq> fst ` set (q_running s)"
  proof -
    have "job \<in> fst ` set (q_running s)" using image_eqI [OF _ mine, of job fst] by simp
    moreover have "fst ` set ys \<subseteq> {job}" using advance_cases [OF adv] by auto
    ultimately have "fst ` set ys \<subseteq> fst ` set (q_running s)" by blast
    then show ?thesis using set_replace_nth [of n ys "q_running s"] by auto
  qed
  ultimately show ?thesis using jobs_current_fewer [of "s\<lparr>q_db := db\<rparr>"] by (simp add: s')
next
  case (Crash n)
  have "fst ` set (replace_nth n [] (q_running s)) \<subseteq> fst ` set (q_running s)"
    using set_replace_nth [of n "[]" "q_running s"] by auto
  then have "jobs_current (s\<lparr>q_running := replace_nth n [] (q_running s)\<rparr>)"
    using jobs_current_fewer [OF assms(5), of _ "q_disk s"] by simp
  moreover have "s' = s\<lparr>q_running := replace_nth n [] (q_running s)\<rparr>" using assms(1) by (simp add: Crash)
  ultimately show ?thesis using assms(4) by simp
next
  case (Index f now)
  then show ?thesis using assms truth_index by (auto simp: with_db_eq lease_inv_def)
next
  case (Reclassify known cl now)
  then show ?thesis using assms truth_reclassify by (auto simp: with_db_eq map_sum_eq_Inr lease_inv_def)
next
  case (Reindex known cl df hash now)
  then obtain b db where "reindex_tx known cl df hash now (q_db s) = Inr (b, db)" "s' = s\<lparr>q_db := db\<rparr>"
    using assms(1) by (auto simp: with_db_eq map_sum_eq_Inr)
  then show ?thesis using truth_reindex [of known cl df hash now s b db] assms Reindex by (simp add: lease_inv_def)
next
  case (Forget fid)
  then show ?thesis using assms truth_forget [of s "\<lambda>f. f_id f = fid"] by (auto simp: lease_inv_def)
next
  case (Edit p content)
  then have "s' = s\<lparr>q_disk := (q_disk s)(p := content)\<rparr>" using assms(1) by simp
  then show ?thesis using assms(4,5) by (simp add: jobs_current_def)
next
  case (Elsewhere db)
  then have "s' = s\<lparr>q_db := db\<rparr>" "files db = files (q_db s)" "previews db = previews (q_db s)"
    using assms(1) by (simp_all split: if_splits)
  then show ?thesis using assms(4,5) by (simp add: jobs_current_def shows_truth_def)
qed

lemma truth_reachable:
  assumes "queue_reach lp hs no_return s0 s" "at_rest s0" "shows_truth (q_db s0)"
  shows "shows_truth (q_db s) \<and> jobs_current s"
  using assms(1)
proof induction
  case at_start
  then show ?case using assms(2,3) by (simp add: at_rest_def jobs_current_def)
next
  case (after_event s e s')
  moreover have "lease_inv s" using lease_inv_reachable [OF after_event.hyps(1) assms(2)] .
  ultimately show ?case using truth_step by blast
qed

section \<open>Properties\<close>

text \<open>A library with one model, its row waiting, and a handler that pictures the bytes it reads.\<close>

definition sample_model :: "bytes \<Rightarrow> file_row" where
  "sample_model bs = uploaded_row (lit ''f'') (lit ''p'') (lit ''a.stl'') (classification_of Model None) 1 0 bs"

definition sample_waiting :: queue_state where
  "sample_waiting =
     \<lparr>q_db = sample_shelf\<lparr>files := [sample_model [1]], previews := [pending_preview (lit ''f'') 0]\<rparr>,
      q_disk = [sample_place \<mapsto> File [1] 0], q_running = [], q_clock = 0\<rparr>"

definition sample_eye :: handler where
  "sample_eye =
     \<lparr>h_kinds = [Model],
      h_run = (\<lambda>job disk. case disk (pj_abs_path job) of
                 Some (File bs _) \<Rightarrow> Picture \<lparr>po_bytes = bs, po_width = 1, po_height = 1, po_source = Rasterized\<rparr>
               | _ \<Rightarrow> Nothing_Here)\<rparr>"

definition sample_scan :: "bytes \<Rightarrow> int \<Rightarrow> int \<Rightarrow> queue_event" where
  "sample_scan bs mtime now =
     Reindex (sample_model [1]) (classification_of Model None)
       \<lparr>df_rel_path = lit ''a.stl'', df_size = 1, df_mtime_ms = mtime\<rparr> bs now"

lemma sample_waiting_at_rest: "at_rest sample_waiting" "shows_truth (q_db sample_waiting)"
  by (simp_all add: at_rest_def shows_truth_def sample_waiting_def wf_defs sample_shelf_def sample_db_def sample_user_def
      empty_db_def sample_model_def uploaded_row_def pending_preview_def lease_row_def MAX_PREVIEW_ATTEMPTS_def)

lemma sample_names:
  "components Unix (lit ''ann'') = [Normal (lit ''ann'')]"
  "components Unix (lit ''100% cube'') = [Normal (lit ''100% cube'')]"
  "components Unix SPM_DIR = [Normal SPM_DIR]" "components Unix PREVIEWS_DIR = [Normal PREVIEWS_DIR]"
  "components Unix (lit ''f'' @ lit ''.png'') = [Normal (lit ''f'' @ lit ''.png'')]"
  "components Unix (lit ''a.stl'') = [Normal (lit ''a.stl'')]"
  "rel_segments (lit ''a.stl'') = [lit ''a.stl'']"
  by (simp_all add: components_def rooted_components_def relative_components_def part_component_def is_separator_def
      rel_segments_def lit_def SPM_DIR_def PREVIEWS_DIR_def)

lemma sample_picture_place:
  "preview_path Unix (lp_dir nowhere) (lit ''f'') =
     [RootDir, Normal SPM_DIR, Normal PREVIEWS_DIR, Normal (lit ''f'' @ lit ''.png'')]"
  by (simp add: preview_path_def nowhere_def sample_names path_push_def)

lemma sample_job_path:
  "p_dir_name p = lit ''100% cube'' \<Longrightarrow> u_library_dir u = lit ''ann'' \<Longrightarrow> f_rel_path f = lit ''a.stl'' \<Longrightarrow>
     job_path nowhere f p u = sample_place"
  by (simp add: job_path_def nowhere_def sample_names path_push_def sample_place_def Paths.extend_def)
lemma sample_places_differ: "sample_place \<noteq> preview_path Unix (lp_dir nowhere) (lit ''f'')"
  unfolding sample_picture_place by (simp add: sample_place_def SPM_DIR_def lit_def)

lemma sample_rows_found:
  "find_user_by_id sample_shelf (lit ''1'') = Some sample_user"
  "p_id (hd (projects sample_shelf)) = lit ''p''"
  "p_dir_name (hd (projects sample_shelf)) = lit ''100% cube''"
  "p_owner_id (hd (projects sample_shelf)) = lit ''1''"
  "p_state (hd (projects sample_shelf)) = ProjOk"
  "u_library_dir sample_user = lit ''ann''"
  by (simp_all add: sample_shelf_def find_user_by_id_def sample_db_def sample_user_def)

lemma sample_project_found: "find (\<lambda>p. p_id p = lit ''p'') (projects sample_shelf) = Some (hd (projects sample_shelf))"
  by (simp add: sample_shelf_def)

text \<open>The shelf with one file row, one preview row, a disk and running jobs, and what each event makes of it.\<close>

definition shelf_with ::
  "file_row \<Rightarrow> preview_row \<Rightarrow> disk \<Rightarrow> (preview_job \<times> job_phase) list \<Rightarrow> int \<Rightarrow> queue_state" where
  "shelf_with f v d running clock =
     \<lparr>q_db = sample_shelf\<lparr>files := [f], previews := [v]\<rparr>, q_disk = d, q_running = running, q_clock = clock\<rparr>"

definition sample_file_at :: "bytes \<Rightarrow> int \<Rightarrow> file_row" where
  "sample_file_at bs mtime = (sample_model bs)\<lparr>f_mtime_ms := mtime\<rparr>"

definition sample_job :: "bytes \<Rightarrow> int \<Rightarrow> preview_job" where
  "sample_job bs now =
     \<lparr>pj_file_id = lit ''f'', pj_abs_path = sample_place, pj_kind = Model, pj_content_hash = Some bs,
      pj_claimed_at = now\<rparr>"

definition sample_picture :: "bytes \<Rightarrow> preview_output" where
  "sample_picture bs = \<lparr>po_bytes = bs, po_width = 1, po_height = 1, po_source = Rasterized\<rparr>"

definition picture_place :: path where "picture_place = preview_path Unix (lp_dir nowhere) (lit ''f'')"

lemma sample_joined:
  assumes "pv_file_id v = lit ''f''"
  shows "joined (sample_shelf\<lparr>files := [sample_file_at bs m], previews := vs\<rparr>) v =
     Some (sample_file_at bs m, hd (projects sample_shelf), sample_user)"
proof -
  have "find_user_by_id (sample_shelf\<lparr>files := fs, previews := vs\<rparr>) i = find_user_by_id sample_shelf i" for fs i
    by (simp add: find_user_by_id_def)
  then show ?thesis
    using assms by (simp add: joined_def sample_project_found sample_file_at_def sample_model_def uploaded_row_def sample_rows_found)
qed

lemma shelf_claim:
  assumes "pv_file_id v = lit ''f''" "pv_state v = PvPending" "pv_attempts v = 0" "pv_claimed_at v = None" "clock < now"
  shows "queue_step nowhere [sample_eye] (Claim 100 now) (shelf_with (sample_file_at bs m) v d rs clock) =
     Some (shelf_with (sample_file_at bs m) (leased now v) d (rs @ [(sample_job bs now, Claimed)]) now)"
proof -
  let ?db = "sample_shelf\<lparr>files := [sample_file_at bs m], previews := [v]\<rparr>"
  have kinds: "covered_kinds [sample_eye] = [Model]" by (simp add: covered_kinds_def sample_eye_def)
  have file_fields: "f_kind (sample_file_at bs m) = Model" "f_rel_path (sample_file_at bs m) = lit ''a.stl''"
      "f_content_hash (sample_file_at bs m) = Some bs"
    by (simp_all add: sample_file_at_def sample_model_def uploaded_row_def classification_of_def)
  have "claimable [Model] now ?db v"
    using assms sample_joined [OF assms(1)] file_fields
    by (simp add: claimable_def MAX_PREVIEW_ATTEMPTS_def sample_rows_found)
  then have rows: "claimed_rows [sample_eye] 100 now ?db = [v]" by (simp add: claimed_rows_def kinds)
  have "job_of nowhere now ?db v = [sample_job bs now]"
    using sample_joined [OF assms(1)] assms(1) file_fields
    by (simp add: job_of_def sample_job_def sample_job_path sample_rows_found)
  then show ?thesis
    using assms by (simp add: shelf_with_def claim_pending_previews_def kinds rows update_where_def Let_def)
qed

lemma shelf_produce:
  assumes "n < length rs" "rs ! n = (sample_job bs now, Claimed)" "d sample_place = Some (File cs t)"
  shows "queue_step nowhere [sample_eye] (Advance n None later) (shelf_with f v d rs clock) =
     Some (shelf_with f v d (replace_nth n [(sample_job bs now, Produced (Inr (Some (sample_picture cs))))] rs) clock)"
  using assms
  by (simp add: shelf_with_def advance_def matching_handlers_def sample_eye_def sample_job_def sample_picture_def Let_def)

lemma shelf_store:
  assumes "n < length rs" "rs ! n = (sample_job bs now, Produced (Inr (Some (sample_picture cs))))"
  shows "queue_step nowhere [sample_eye] (Advance n None later) (shelf_with f v d rs clock) =
     Some (shelf_with f v (d(picture_place \<mapsto> File cs 0))
             (replace_nth n [(sample_job bs now, Stored (Inr (Some (sample_picture cs))))] rs) clock)"
  using assms
  by (simp add: shelf_with_def advance_def write_picture_def written_def sample_job_def sample_picture_def
      picture_place_def nowhere_def Let_def)

lemma shelf_settle:
  assumes "n < length rs" "rs ! n = (sample_job bs now, Stored r)"
  shows "queue_step nowhere [sample_eye] (Advance n None later) (shelf_with f v d rs clock) =
     Some (shelf_with f (if owns (sample_job bs now) v then settled (sample_job bs now) later r v else v) d
             (replace_nth n [] rs) clock)"
  using assms by (simp add: shelf_with_def advance_def finish_def update_where_def Let_def)

lemma shelf_edit:
  "queue_step nowhere [sample_eye] (Edit sample_place c) (shelf_with f v d rs clock) =
     Some (shelf_with f v (d(sample_place := c)) rs clock)"
  by (simp add: shelf_with_def)

lemma shelf_scan:
  assumes "pv_file_id v = lit ''f''"
  shows "queue_step nowhere [sample_eye] (sample_scan cs m' now) (shelf_with (sample_file_at bs m) v d rs clock) =
     Some (shelf_with (sample_file_at cs m') (if pv_source_hash v = Some cs then v else reset_row now v) d rs clock)"
  using assms
  by (auto simp: sample_scan_def shelf_with_def with_db_def reindex_tx_def update_file_def update_where_def
      same_source_def find_preview_def queue_again_def preview_exists_def reset_preview_def refreshed_def stamped_def
      sample_file_at_def sample_model_def uploaded_row_def Let_def)

lemmas shelf_run = shelf_claim shelf_produce shelf_store shelf_settle shelf_edit shelf_scan


lemma sample_waiting_shelf:
  "sample_waiting = shelf_with (sample_file_at [1] 0) (pending_preview (lit ''f'') 0) [sample_place \<mapsto> File [1] 0] [] 0"
  by (simp add: sample_waiting_def shelf_with_def sample_file_at_def sample_model_def uploaded_row_def)

lemma sample_job_rows:
  "owns (sample_job bs now) v \<longleftrightarrow>
     pv_file_id v = lit ''f'' \<and> pv_state v = PvPending \<and> pv_claimed_at v = Some now"
  "settled (sample_job bs now) later (Inr (Some (sample_picture cs))) v =
     v\<lparr>pv_state := PvReady, pv_source := Some (lit ''rasterized''),
       pv_png_path := Some (png_path_of (sample_job bs now)), pv_width := Some 1, pv_height := Some 1,
       pv_source_hash := Some bs, pv_error := None, pv_claimed_at := None, pv_updated_at := later\<rparr>"
  by (simp_all add: owns_def settled_def sample_job_def sample_picture_def)

lemmas shelf_rows = pending_preview_def leased_def reset_row_def sample_job_rows replace_nth_def
  sample_places_differ [folded picture_place_def] sample_places_differ [folded picture_place_def, symmetric]

lemmas shelf_fields = shelf_with_def sample_file_at_def sample_model_def uploaded_row_def



text \<open>C17
  A ready preview names the bytes it was rendered from, and they are the bytes of its file: in every
  state the queue reaches, however claims, jobs, crashes and rescans interleave, a ready row's source
  hash is the content hash of its file, unless a rescan found a file back at the bytes of an earlier
  picture while that picture was not shown.
\<close>

theorem ready_shows_current:
  assumes "queue_reach lp hs no_return s0 s" "at_rest s0" "shows_truth (q_db s0)"
  shows "shows_truth (q_db s)"
  using truth_reachable [OF assms] by blast

theorem ready_shows_current_witness:
  "\<exists>s. queue_reach nowhere [sample_eye] no_return sample_waiting s \<and> shows_truth (q_db s)"
  using ready_shows_current [OF queue_reach.at_start sample_waiting_at_rest] queue_reach.at_start by blast

text \<open>C18
  The exception is real. A model is pictured, edited and scanned, and while the new picture is being
  made its first bytes come back and are scanned: the rescan leaves the row alone, because a reset
  keeps the hash of the picture it dropped, and the job then records its picture as ready. Nothing
  repairs it: the file's row has the size and time of the disk.
\<close>

theorem returned_file_keeps_stale_picture:
  "case queue_run nowhere [sample_eye]
          [Claim 100 1, Advance 0 None 2, Advance 0 None 3, Advance 0 None 4,
           Edit sample_place (Some (File [2] 1)), sample_scan [2] 1 5, Claim 100 6, Advance 0 None 7,
           Edit sample_place (Some (File [1] 2)), sample_scan [1] 2 8, Advance 0 None 9, Advance 0 None 10]
          sample_waiting of
     None \<Rightarrow> False
   | Some s \<Rightarrow>
       q_running s = [] \<and> map (\<lambda>v. (pv_state v, pv_source_hash v)) (previews (q_db s)) = [(PvReady, Some [2])] \<and>
       map (\<lambda>f. (f_content_hash f, f_size_bytes f, f_mtime_ms f)) (files (q_db s)) = [(Some [1], 1, 2)] \<and>
       q_disk s sample_place = Some (File [1] 2) \<and> q_disk s picture_place = Some (File [2] 0)"
  unfolding sample_waiting_shelf
  by (simp add: shelf_run shelf_rows del: queue_step.simps) (simp add: shelf_fields shelf_rows)

text \<open>
  A dropped result is not harmless. A job writes its picture before it asks whether the row is still
  its own: when the file was edited, scanned and pictured again by a later run in the meantime, the
  late job's result is dropped, but the picture of the old bytes now lies under the row that is ready
  with the hash of the new ones, and is served.
\<close>

theorem late_picture_overwrites:
  "case queue_run nowhere [sample_eye]
          [Claim 100 1, Advance 0 None 2, Edit sample_place (Some (File [2] 1)), sample_scan [2] 1 3,
           Claim 100 4, Advance 1 None 5, Advance 1 None 6, Advance 1 None 7, Advance 0 None 8, Advance 0 None 9]
          sample_waiting of
     None \<Rightarrow> False
   | Some s \<Rightarrow>
       q_running s = [] \<and> map (\<lambda>v. (pv_state v, pv_source_hash v)) (previews (q_db s)) = [(PvReady, Some [2])] \<and>
       map f_content_hash (files (q_db s)) = [Some [2]] \<and> q_disk s picture_place = Some (File [1] 0)"
  unfolding sample_waiting_shelf
  by (simp add: shelf_run shelf_rows del: queue_step.simps) (simp add: shelf_fields shelf_rows)

end
