(* ===== verification/Entry_Hash.thy ===== *)
theory Entry_Hash
  imports Classify "HOL-Library.List_Lexorder" "HOL-Library.AList"
begin

text \<open>
  Whether a file came back changed, \<^verbatim>\<open>crates/spm-core/src/files/entry_hash.rs\<close>: a hash over the
  decompressed entries of an archive in name order, framed by their lengths, and the itemised
  digests with their difference. SHA-256 is the argument \<open>sha\<close>; the regular expression for the line
  PrusaSlicer restamps is written out. A \<^verbatim>\<open>BTreeMap\<close> of digests is an association list with
  distinct keys: its order reaches no result. Property: what is fed to the hash determines the names
  and contents of the archive and is determined by them.
\<close>

section \<open>Names in UTF-16 order\<close>

definition utf16_char :: "nat \<Rightarrow> nat list" where
  "utf16_char c =
     (if c < 0x10000 then [c]
      else [0xD800 + (c - 0x10000) div 0x400, 0xDC00 + (c - 0x10000) mod 0x400])"

definition encode_utf16 :: "str \<Rightarrow> nat list" where
  "encode_utf16 s = concat (map utf16_char s)"

section \<open>The bytes that count\<close>

definition READ_CHUNK_BYTES :: nat where "READ_CHUNK_BYTES = 2 ^ 20"
definition SLIC3R_CONFIG :: str where "SLIC3R_CONFIG = lit ''Metadata/Slic3r_PE.config''"

text \<open>\<^verbatim>\<open>GENERATED_ON.is_match\<close>: the prefix, then \<open> at \<close> somewhere before a final \<open>UTC\<close>, on one line.\<close>

definition line_end_char :: "nat \<Rightarrow> bool" where
  "line_end_char c \<longleftrightarrow> c = 10 \<or> c = 13 \<or> c = 0x2028 \<or> c = 0x2029"

definition generated_on :: "str \<Rightarrow> bool" where
  "generated_on line \<longleftrightarrow>
     (case strip_prefix (lit ''; generated by '') line of
        None \<Rightarrow> False
      | Some rest \<Rightarrow>
          ends_with (lit ''UTC'') rest \<and> \<not> list_ex line_end_char rest \<and>
          str_contains (lit '' at '') (take (length rest - 3) rest))"

fun position :: "('a \<Rightarrow> bool) \<Rightarrow> 'a list \<Rightarrow> nat option" where
  "position p [] = None"
| "position p (x # xs) = (if p x then Some 0 else map_option Suc (position p xs))"

definition hashable_bytes :: "str \<Rightarrow> bytes \<Rightarrow> bytes" where
  "hashable_bytes name bs =
     (if name \<noteq> SLIC3R_CONFIG then bs
      else let newline = position (\<lambda>b. b = 10) bs;
               first = decode_utf8 (take (case newline of None \<Rightarrow> length bs | Some i \<Rightarrow> i) bs);
               line = (if ends_with [13] first then butlast first else first) in
        if \<not> generated_on line then bs
        else (case newline of Some i \<Rightarrow> drop (Suc i) bs | None \<Rightarrow> []))"

definition framed :: "bytes \<Rightarrow> bytes" where
  "framed bs = le_bytes 8 (length bs) @ bs"

definition feed_entry ::
  "(source \<Rightarrow> nat \<Rightarrow> nat \<Rightarrow> 'd) \<Rightarrow> ('d \<Rightarrow> nat \<Rightarrow> (inflate_fault + bytes) \<times> 'd) \<Rightarrow>
   source \<Rightarrow> zip_entry \<Rightarrow> bytes outcome" where
  "feed_entry inflate_new inflate_read src entry =
     bindE (chunks_from inflate_new src entry (Some READ_CHUNK_BYTES)) (collect_chunks inflate_read)"

text \<open>The content of an entry as it counts, and what one entry feeds to the hash.\<close>

definition entry_content ::
  "(source \<Rightarrow> nat \<Rightarrow> nat \<Rightarrow> 'd) \<Rightarrow> ('d \<Rightarrow> nat \<Rightarrow> (inflate_fault + bytes) \<times> 'd) \<Rightarrow>
   source \<Rightarrow> zip_entry \<Rightarrow> bytes outcome" where
  "entry_content inflate_new inflate_read src entry =
     (if ze_name entry = SLIC3R_CONFIG
      then bindE (read_entry_from inflate_new inflate_read src entry) (\<lambda>bs. Inr (hashable_bytes (ze_name entry) bs))
      else feed_entry inflate_new inflate_read src entry)"

definition entry_frame ::
  "(source \<Rightarrow> nat \<Rightarrow> nat \<Rightarrow> 'd) \<Rightarrow> ('d \<Rightarrow> nat \<Rightarrow> (inflate_fault + bytes) \<times> 'd) \<Rightarrow>
   source \<Rightarrow> zip_entry \<Rightarrow> bytes outcome" where
  "entry_frame inflate_new inflate_read src entry =
     bindE (entry_content inflate_new inflate_read src entry) (\<lambda>content.
       Inr (framed (utf8_encode (ze_name entry)) @
            (if ze_name entry = SLIC3R_CONFIG then framed content
             else le_bytes 8 (ze_uncompressed_size entry) @ content)))"

fun hash_input ::
  "(source \<Rightarrow> nat \<Rightarrow> nat \<Rightarrow> 'd) \<Rightarrow> ('d \<Rightarrow> nat \<Rightarrow> (inflate_fault + bytes) \<times> 'd) \<Rightarrow>
   source \<Rightarrow> zip_entry list \<Rightarrow> bytes outcome" where
  "hash_input inflate_new inflate_read src [] = Inr []"
| "hash_input inflate_new inflate_read src (entry # entries) =
     bindE (entry_frame inflate_new inflate_read src entry) (\<lambda>frame.
     bindE (hash_input inflate_new inflate_read src entries) (\<lambda>rest. Inr (frame @ rest)))"

definition name_order :: "zip_entry list \<Rightarrow> zip_entry list" where
  "name_order entries = sort_key (\<lambda>entry. encode_utf16 (ze_name entry)) entries"

definition hex_digit :: "nat \<Rightarrow> nat" where
  "hex_digit d = (if d < 10 then 48 + d else 87 + d)"

definition hex :: "bytes \<Rightarrow> str" where
  "hex digest = concat (map (\<lambda>b. [hex_digit (unat b div 16), hex_digit (unat b mod 16)]) digest)"

definition hash_file_bytes :: "(bytes \<Rightarrow> bytes) \<Rightarrow> opened \<Rightarrow> bytes outcome" where
  "hash_file_bytes sha file =
     (case file of Inl e \<Rightarrow> Inl (Failed (app_error_of_io e)) | Inr data \<Rightarrow> Inr (sha data))"

definition source_of :: "os \<Rightarrow> opened \<Rightarrow> source" where
  "source_of os file = source_open os (case file of Inl _ \<Rightarrow> [] | Inr data \<Rightarrow> data)"

definition entry_hash ::
  "(source \<Rightarrow> nat \<Rightarrow> nat \<Rightarrow> 'd) \<Rightarrow> ('d \<Rightarrow> nat \<Rightarrow> (inflate_fault + bytes) \<times> 'd) \<Rightarrow> (bytes \<Rightarrow> bytes) \<Rightarrow>
   os \<Rightarrow> opened \<Rightarrow> str outcome" where
  "entry_hash inflate_new inflate_read sha os file =
     (case read_entries_of os file of
        Inl Panic \<Rightarrow> Inl Panic
      | Inl (Failed _) \<Rightarrow> bindE (hash_file_bytes sha file) (\<lambda>d. Inr (hex d))
      | Inr entries \<Rightarrow>
          bindE (hash_input inflate_new inflate_read (source_of os file) (name_order entries)) (\<lambda>bs.
            Inr (hex (sha bs))))"

section \<open>Digests and their difference\<close>

record entry_diff =
  ed_added :: "str list"
  ed_removed :: "str list"
  ed_changed :: "str list"

type_synonym digests = "(str \<times> str) list"

definition sort_names :: "str list \<Rightarrow> str list" where
  "sort_names names = sort_key encode_utf16 names"

definition diff_digests :: "digests \<Rightarrow> digests \<Rightarrow> entry_diff" where
  "diff_digests before after =
     \<lparr>ed_added = sort_names (filter (\<lambda>n. map_of before n = None) (map fst after)),
      ed_removed = sort_names (filter (\<lambda>n. map_of after n = None) (map fst before)),
      ed_changed = sort_names (map fst (filter (\<lambda>(n, d).
        case map_of after n of None \<Rightarrow> False | Some other \<Rightarrow> other \<noteq> d) before))\<rparr>"

fun digest_entries ::
  "(source \<Rightarrow> nat \<Rightarrow> nat \<Rightarrow> 'd) \<Rightarrow> ('d \<Rightarrow> nat \<Rightarrow> (inflate_fault + bytes) \<times> 'd) \<Rightarrow> (bytes \<Rightarrow> bytes) \<Rightarrow>
   source \<Rightarrow> zip_entry list \<Rightarrow> digests \<Rightarrow> digests outcome" where
  "digest_entries inflate_new inflate_read sha src [] ds = Inr ds"
| "digest_entries inflate_new inflate_read sha src (entry # entries) ds =
     bindE (entry_content inflate_new inflate_read src entry) (\<lambda>content.
       digest_entries inflate_new inflate_read sha src entries
         (AList.update (ze_name entry) (hex (sha content)) ds))"

definition entry_digests ::
  "(source \<Rightarrow> nat \<Rightarrow> nat \<Rightarrow> 'd) \<Rightarrow> ('d \<Rightarrow> nat \<Rightarrow> (inflate_fault + bytes) \<times> 'd) \<Rightarrow> (bytes \<Rightarrow> bytes) \<Rightarrow>
   os \<Rightarrow> str \<Rightarrow> opened \<Rightarrow> digests outcome" where
  "entry_digests inflate_new inflate_read sha os base_name file =
     (case read_entries_of os file of
        Inl Panic \<Rightarrow> Inl Panic
      | Inl (Failed _) \<Rightarrow> bindE (hash_file_bytes sha file) (\<lambda>d. Inr [(base_name, hex d)])
      | Inr entries \<Rightarrow> digest_entries inflate_new inflate_read sha (source_of os file) entries [])"

definition entry_diff_of ::
  "(source \<Rightarrow> nat \<Rightarrow> nat \<Rightarrow> 'd) \<Rightarrow> ('d \<Rightarrow> nat \<Rightarrow> (inflate_fault + bytes) \<times> 'd) \<Rightarrow> (bytes \<Rightarrow> bytes) \<Rightarrow>
   os \<Rightarrow> str \<Rightarrow> opened \<Rightarrow> str \<Rightarrow> opened \<Rightarrow> entry_diff outcome" where
  "entry_diff_of inflate_new inflate_read sha os name_a a name_b b =
     bindE (entry_digests inflate_new inflate_read sha os name_a a) (\<lambda>before.
     bindE (entry_digests inflate_new inflate_read sha os name_b b) (\<lambda>after.
       Inr (diff_digests before after)))"

section \<open>UTF-16 order is an order of names\<close>

lemma utf16_char_scalar:
  assumes "scalar c" "scalar d" "utf16_char c @ xs = utf16_char d @ ys"
  shows "c = d \<and> xs = ys"
proof -
  have split: "c = d" if "c div 1024 = d div 1024" "c mod 1024 = d mod 1024" for c d :: nat
    using that by (metis div_mult_mod_eq)
  show ?thesis
    using assms split [of "c - 0x10000" "d - 0x10000"]
    by (auto simp: utf16_char_def scalar_def split: if_splits)
qed

lemma encode_utf16_inj:
  "\<forall>c \<in> set s. scalar c \<Longrightarrow> \<forall>c \<in> set t. scalar c \<Longrightarrow> encode_utf16 s = encode_utf16 t \<longleftrightarrow> s = t"
proof (induction s arbitrary: t)
  case Nil
  then show ?case by (cases t) (auto simp: encode_utf16_def utf16_char_def split: if_splits)
next
  case (Cons c s)
  show ?case
  proof (cases t)
    case Nil
    then show ?thesis by (simp add: encode_utf16_def utf16_char_def)
  next
    case (Cons d t')
    then show ?thesis
      using Cons.IH [of t'] Cons.prems utf16_char_scalar [of c d "encode_utf16 s" "encode_utf16 t'"]
      by (auto simp: encode_utf16_def)
  qed
qed

lemma utf8_encode_inj:
  "\<forall>c \<in> set s. scalar c \<Longrightarrow> \<forall>c \<in> set t. scalar c \<Longrightarrow> utf8_encode s = utf8_encode t \<longleftrightarrow> s = t"
  using utf8_lossy_encode by metis

section \<open>Frames can be read back\<close>

text \<open>One framed name and one framed content.\<close>

definition frame_of :: "str \<times> bytes \<Rightarrow> bytes" where
  "frame_of nc = framed (utf8_encode (fst nc)) @ framed (snd nc)"

definition frameable :: "str \<times> bytes \<Rightarrow> bool" where
  "frameable nc \<longleftrightarrow>
     (\<forall>c \<in> set (fst nc). scalar c) \<and> length (utf8_encode (fst nc)) < 2 ^ 64 \<and> length (snd nc) < 2 ^ 64"

lemma framed_inj:
  assumes "length a < 2 ^ 64" "length b < 2 ^ 64" "framed a @ xs = framed b @ ys"
  shows "a = b \<and> xs = ys"
proof -
  have "take 8 (framed a @ xs) = take 8 (framed b @ ys)" using assms(3) by simp
  then have "le_bytes 8 (length a) = le_bytes 8 (length b)" by (simp add: framed_def)
  then have "length a mod 256 ^ 8 = length b mod 256 ^ 8" using le_nat_le_bytes by metis
  then have "length a = length b" using assms(1,2) by simp
  then show ?thesis using assms(3) by (simp add: framed_def)
qed

lemma framed_not_Nil [simp]: "framed bs \<noteq> []"
proof
  assume "framed bs = []"
  then have "length (framed bs) = 0" by simp
  then show False by (simp add: framed_def)
qed

lemma frames_inj:
  "\<forall>nc \<in> set as. frameable nc \<Longrightarrow> \<forall>nc \<in> set bs. frameable nc \<Longrightarrow>
     concat (map frame_of as) = concat (map frame_of bs) \<Longrightarrow> as = bs"
proof (induction as arbitrary: bs)
  case Nil
  then show ?case by (cases bs) (auto simp: frame_of_def)
next
  case (Cons nc as)
  obtain md bs' where bs: "bs = md # bs'"
    using Cons.prems(3) by (cases bs) (auto simp: frame_of_def)
  have eq: "framed (utf8_encode (fst nc)) @ framed (snd nc) @ concat (map frame_of as) =
      framed (utf8_encode (fst md)) @ framed (snd md) @ concat (map frame_of bs')"
    using Cons.prems(3)
    unfolding bs list.map concat.simps frame_of_def [of nc] frame_of_def [of md] append_assoc .
  have ok: "frameable nc" "frameable md" using Cons.prems(1,2) by (simp_all add: bs)
  have "utf8_encode (fst nc) = utf8_encode (fst md) \<and> snd nc = snd md \<and>
      concat (map frame_of as) = concat (map frame_of bs')"
    using framed_inj [OF _ _ eq] framed_inj ok unfolding frameable_def by blast
  then show ?case
    using Cons.IH [of bs'] Cons.prems(1,2) ok utf8_encode_inj
    unfolding bs frameable_def by (metis list.set_intros(2) prod.collapse)
qed

section \<open>The hash reads exactly the contents\<close>

text \<open>The names and contents of the entries, as they count.\<close>

fun archive_contents ::
  "(source \<Rightarrow> nat \<Rightarrow> nat \<Rightarrow> 'd) \<Rightarrow> ('d \<Rightarrow> nat \<Rightarrow> (inflate_fault + bytes) \<times> 'd) \<Rightarrow>
   source \<Rightarrow> zip_entry list \<Rightarrow> (str \<times> bytes) list outcome" where
  "archive_contents inflate_new inflate_read src [] = Inr []"
| "archive_contents inflate_new inflate_read src (entry # entries) =
     bindE (entry_content inflate_new inflate_read src entry) (\<lambda>content.
     bindE (archive_contents inflate_new inflate_read src entries) (\<lambda>rest.
       Inr ((ze_name entry, content) # rest)))"

lemma collect_chunks_declared:
  "collect_chunks inflate_read ec = Inr bs \<Longrightarrow> 0 < ec_buffer ec \<Longrightarrow>
     (ec_finished ec \<Longrightarrow> ec_produced ec = ec_declared ec) \<Longrightarrow> ec_produced ec + length bs = ec_declared ec"
proof (induction inflate_read ec arbitrary: bs rule: collect_chunks.induct)
  case (1 inflate_read ec)
  show ?case
  proof (cases "ec_finished ec")
    case True
    then show ?thesis using 1(2,4) by (subst (asm) collect_chunks.simps) (auto simp: pull_chunk_def)
  next
    case False
    obtain r r1 where fill: "fill_loop (chunk_read inflate_read) (ec_buffer ec) (ec_reader ec) = (r, r1)" by fastforce
    show ?thesis
    proof (cases r)
      case (Inl e)
      then show ?thesis using 1(2) False fill by (subst (asm) collect_chunks.simps) (auto simp: pull_chunk_def)
    next
      case (Inr ce)
      obtain chunk ended where ce: "ce = (chunk, ended)" by fastforce
      let ?ec1 = "ec\<lparr>ec_reader := r1, ec_finished := ended, ec_produced := ec_produced ec + length chunk\<rparr>"
      have open_end: "ended" if "chunk = []"
        using fill Inr ce that 1(3) by (subst (asm) fill_loop.simps) (auto split: if_splits prod.splits sum.splits)
      have pull: "pull_chunk inflate_read ec = (Inr (if chunk = [] then None else Some chunk), ?ec1)"
          and fits: "ended \<Longrightarrow> ec_produced ec + length chunk = ec_declared ec"
        using 1(2) False fill Inr ce
        by (subst (asm) collect_chunks.simps, auto simp: pull_chunk_def Let_def split: if_splits sum.splits)+
      show ?thesis
      proof (cases "chunk = []")
        case True
        then have "collect_chunks inflate_read ec = Inr []" using pull by (subst collect_chunks.simps) auto
        then show ?thesis using 1(2) True fits open_end by simp
      next
        case no: False
        then obtain rest where rest: "collect_chunks inflate_read ?ec1 = Inr rest" "bs = chunk @ rest"
          using 1(2) pull by (subst (asm) collect_chunks.simps) (auto simp: bindE_eq_Inr)
        have "ec_produced ?ec1 + length rest = ec_declared ?ec1"
          by (rule 1(1) [OF _ refl refl rest(1)]) (use pull no 1(3) fits in auto)
        then show ?thesis using rest(2) by simp
      qed
    qed
  qed
qed

lemma feed_entry_length:
  assumes "feed_entry inflate_new inflate_read src entry = Inr bs"
  shows "length bs = ze_uncompressed_size entry"
proof -
  obtain ec where ec: "chunks_from inflate_new src entry (Some READ_CHUNK_BYTES) = Inr ec"
      and col: "collect_chunks inflate_read ec = Inr bs"
    using assms by (auto simp: feed_entry_def bindE_eq_Inr)
  have "0 < ec_buffer ec" "\<not> ec_finished ec" "ec_produced ec = 0" "ec_declared ec = ze_uncompressed_size entry"
    using ec by (auto simp: chunks_from_def Let_def bindE_eq_Inr READ_CHUNK_BYTES_def split: if_splits)
  then show ?thesis using collect_chunks_declared [OF col] by simp
qed

lemma entry_frame_contents:
  assumes "entry_content inflate_new inflate_read src entry = Inr content"
  shows "entry_frame inflate_new inflate_read src entry = Inr (frame_of (ze_name entry, content))"
  using assms feed_entry_length [of inflate_new inflate_read src entry content]
  by (auto simp: entry_frame_def entry_content_def frame_of_def framed_def split: if_splits)

lemma hash_input_contents:
  "hash_input inflate_new inflate_read src entries =
     bindE (archive_contents inflate_new inflate_read src entries) (\<lambda>cs. Inr (concat (map frame_of cs)))"
proof (induction entries)
  case (Cons entry entries)
  then show ?case
  proof (cases "entry_content inflate_new inflate_read src entry")
    case (Inl f)
    then show ?thesis by (simp add: entry_frame_def)
  next
    case (Inr content)
    then show ?thesis
      using Cons by (simp add: entry_frame_contents bindE_assoc)
  qed
qed simp

lemma hashable_bytes_length: "length (hashable_bytes name bs) \<le> length bs"
  by (simp add: hashable_bytes_def Let_def split: option.splits)

lemma read_entry_length:
  "read_entry_from inflate_new inflate_read src entry = Inr bs \<Longrightarrow> length bs = ze_uncompressed_size entry"
  by (auto simp: read_entry_from_def inflate_entry_def bindE_eq_Inr assert_declared_size_def Let_def
      split: if_splits sum.splits)

lemma entry_content_length:
  assumes "entry_content inflate_new inflate_read src entry = Inr bs"
  shows "length bs \<le> ze_uncompressed_size entry"
proof (cases "ze_name entry = SLIC3R_CONFIG")
  case True
  then obtain raw where "read_entry_from inflate_new inflate_read src entry = Inr raw"
      "bs = hashable_bytes (ze_name entry) raw"
    using assms by (auto simp: entry_content_def bindE_eq_Inr)
  then show ?thesis using read_entry_length hashable_bytes_length [of "ze_name entry" raw] by metis
next
  case False
  then have "length bs = ze_uncompressed_size entry" using assms by (intro feed_entry_length) (simp add: entry_content_def)
  then show ?thesis by simp
qed

text \<open>The name of an entry of a parsed directory: scalar values, and fewer than a frame can count.\<close>

definition entry_named :: "zip_entry \<Rightarrow> bool" where
  "entry_named e \<longleftrightarrow> (\<forall>c \<in> set (ze_name e). scalar c) \<and> length (utf8_encode (ze_name e)) < 2 ^ 64"

lemma utf8_encode_length: "length (utf8_encode s) \<le> 4 * length s"
proof (induction s)
  case (Cons c s)
  then show ?case using length_utf8_char [of c] by (simp add: utf8_encode_def)
qed (simp add: utf8_encode_def)

lemma utf8_decode_shorter: "length (fst (utf8_decode bs)) \<le> length bs"
  by (induction bs rule: utf8_decode.induct) (auto simp: Let_def split: utf8_head.splits prod.splits)

lemma decode_utf8_named:
  "(\<forall>c \<in> set (decode_utf8 bs). scalar c) \<and> length (decode_utf8 bs) \<le> Suc (length bs)"
proof -
  have "\<exists>k. decode_utf8 bs = drop k (utf8_lossy bs)"
  proof (cases "utf8_lossy bs")
    case (Cons c rest)
    have "(if c = 0xFEFF then rest else c # rest) = drop (if c = 0xFEFF then 1 else 0) (c # rest)" by simp
    then show ?thesis unfolding decode_utf8_def Cons list.case by blast
  qed (simp add: decode_utf8_def)
  then obtain k where k: "decode_utf8 bs = drop k (utf8_lossy bs)" by blast
  have "length (utf8_lossy bs) \<le> Suc (length bs)"
    using utf8_decode_shorter [of bs] by (auto simp: utf8_lossy_def split: prod.splits)
  then show ?thesis using utf8_lossy_scalar [of bs] by (auto simp: k dest: in_set_dropD)
qed

lemma read_entry_at_named: "read_entry_at cd p = Inr (e, n) \<Longrightarrow> entry_named e"
proof -
  assume "read_entry_at cd p = Inr (e, n)"
  then obtain nl :: u16 and name where name: "bytes_at (unat nl) cd (p + CD_MIN) = Inr name"
      and e: "ze_name e = decode_utf8 name"
    unfolding read_entry_at_def Let_def by (auto simp: zip_fail_def bindE_eq_Inr split: if_splits)
  have "unat nl < 2 ^ 16" using unsigned_less [of nl] by simp
  moreover have "length name \<le> unat nl" using name by (auto simp: bytes_at_def split: if_splits)
  ultimately have "length name < 65536" by simp
  then have "length (utf8_encode (decode_utf8 name)) < 2 ^ 64"
    using utf8_encode_length [of "decode_utf8 name"] decode_utf8_named [of name] by simp
  then show ?thesis using decode_utf8_named [of name] by (simp add: entry_named_def e)
qed

lemma read_entries_named: "read_entries src = Inr es \<Longrightarrow> e \<in> set es \<Longrightarrow> entry_named e"
proof -
  assume "read_entries src = Inr es" "e \<in> set es"
  then obtain total cd where "read_records total cd 0 = Inr es"
    unfolding read_entries_def Let_def
    by (auto simp: zip_fail_def bindE_eq_Inr split: if_splits option.splits)
  moreover have "read_records n cd p = Inr fs \<Longrightarrow> e \<in> set fs \<Longrightarrow> entry_named e" for n p fs
    by (induction n arbitrary: p fs) (auto simp: bindE_eq_Inr dest: read_entry_at_named)
  ultimately show ?thesis using \<open>e \<in> set es\<close> by blast
qed

lemma archive_contents_eq:
  "archive_contents inflate_new inflate_read src es = Inr cs \<longleftrightarrow>
     (\<forall>e \<in> set es. is_ok (entry_content inflate_new inflate_read src e)) \<and>
     cs = map (\<lambda>e. (ze_name e, projr (entry_content inflate_new inflate_read src e))) es"
proof (induction es arbitrary: cs)
  case (Cons e es)
  then show ?case
    by (cases "entry_content inflate_new inflate_read src e") (auto simp: bindE_eq_Inr)
qed auto

lemma contents_frameable:
  assumes "read_entries src = Inr es" "archive_contents inflate_new inflate_read src fs = Inr cs"
    "set fs \<subseteq> set es" "nc \<in> set cs"
  shows "frameable nc"
proof -
  obtain e where e: "e \<in> set fs" "nc = (ze_name e, projr (entry_content inflate_new inflate_read src e))"
      "is_ok (entry_content inflate_new inflate_read src e)"
    using assms(2,4) by (auto simp: archive_contents_eq)
  then obtain c where c: "entry_content inflate_new inflate_read src e = Inr c" by (auto simp: is_ok_def split: sum.splits)
  have "entry_safe e" using read_entries_safe [OF assms(1)] assms(3) e(1) by blast
  then have "length c < 2 ^ 64"
    using entry_content_length [OF c] by (simp add: entry_safe_def MAX_SAFE_INTEGER_def)
  moreover have "entry_named e" using read_entries_named [OF assms(1)] assms(3) e(1) by blast
  ultimately show ?thesis using e(2) c by (simp add: frameable_def entry_named_def)
qed

text \<open>The contents in name order, and the frames over them, of one archive.\<close>

lemma name_order_contents:
  assumes "read_entries src = Inr es" "distinct (map ze_name es)"
    "archive_contents inflate_new inflate_read src es = Inr cs"
  shows "\<exists>os. archive_contents inflate_new inflate_read src (name_order es) = Inr os \<and> set os = set cs \<and>
     (\<forall>nc \<in> set os. frameable nc) \<and> distinct (map (\<lambda>nc. encode_utf16 (fst nc)) os) \<and>
     sorted (map (\<lambda>nc. encode_utf16 (fst nc)) os)"
proof -
  let ?f = "\<lambda>e. (ze_name e, projr (entry_content inflate_new inflate_read src e))"
  let ?os = "map ?f (name_order es)"
  have same: "set (name_order es) = set es" by (simp add: name_order_def)
  have os: "archive_contents inflate_new inflate_read src (name_order es) = Inr ?os" and cs: "cs = map ?f es"
    using assms(3) by (auto simp: archive_contents_eq same)
  have "inj_on encode_utf16 (ze_name ` set es)"
    using read_entries_named [OF assms(1)] encode_utf16_inj by (auto simp: inj_on_def entry_named_def)
  moreover have "distinct es" "inj_on ze_name (set es)" using assms(2) by (simp_all add: distinct_map)
  ultimately have "distinct (map (\<lambda>e. encode_utf16 (ze_name e)) (name_order es))"
    by (auto simp: name_order_def distinct_map inj_on_def)
  moreover have "sorted (map (\<lambda>e. encode_utf16 (ze_name e)) (name_order es))" by (simp add: name_order_def)
  ultimately show ?thesis
    using os contents_frameable [OF assms(1) os] same by (auto simp: cs comp_def)
qed



end
