(* ===== verification/Slicer_Sessions.thy ===== *)
theory Slicer_Sessions
  imports Entry_Hash Validate
begin

text \<open>
  What became of the files handed to slicers, \<^verbatim>\<open>crates/spm-shell/src/slicers/sessions.rs\<close>, with the
  launch record and library keys of \<^verbatim>\<open>launch.rs\<close>. The sessions directory is a tree of depth two
  (nothing deeper is ever looked at); the file comparisons are \<open>Entry_Hash\<close> and \<open>Classify\<close>, gathered
  in a record of tools together with the JSON parser and printer, which are arguments. Timers are
  values the handlers return: the scheduler itself, the directory watch and log lines are outside.
  JSON numbers are integers here, and a removal or a write of a record may be refused. Properties:
  nothing is deleted that was neither answered nor compared, importing deletes only what was added,
  derived names never clash, settling ends, and the exit sweep that overlooks a fresh change.
\<close>

section \<open>The sessions directory\<close>

record leaf =
  lf_bytes :: bytes
  lf_mtime :: nat
  lf_locked :: bool

datatype child = Child_File leaf | Child_Other
datatype top_entry = Top_File leaf | Top_Folder "(str \<times> child) list option" | Top_Other

definition is_child_file :: "child \<Rightarrow> bool" where
  "is_child_file c = (case c of Child_File _ \<Rightarrow> True | Child_Other \<Rightarrow> False)"

definition is_top_file :: "top_entry \<Rightarrow> bool" where
  "is_top_file e = (case e of Top_File _ \<Rightarrow> True | _ \<Rightarrow> False)"

type_synonym tree = "(str \<times> top_entry) list"

datatype spath = Loose str | Inside str str

definition children_of :: "tree \<Rightarrow> str \<Rightarrow> (str \<times> child) list" where
  "children_of t dir =
     (case map_of t dir of Some (Top_Folder (Some cs)) \<Rightarrow> cs | _ \<Rightarrow> [])"

definition file_at :: "tree \<Rightarrow> spath \<Rightarrow> leaf option" where
  "file_at t p =
     (case p of
        Loose name \<Rightarrow> (case map_of t name of Some (Top_File l) \<Rightarrow> Some l | _ \<Rightarrow> None)
      | Inside dir name \<Rightarrow>
          (case map_of (children_of t dir) name of Some (Child_File l) \<Rightarrow> Some l | _ \<Rightarrow> None))"

definition opened_leaf :: "leaf \<Rightarrow> opened" where
  "opened_leaf l = (if lf_locked l then Inl (Other_Io (lit ''locked'')) else Inr (lf_bytes l))"

text \<open>Removing a file; a removal that is refused changes nothing.\<close>

definition remove_at :: "spath \<Rightarrow> tree \<Rightarrow> tree" where
  "remove_at p t =
     (case p of
        Loose name \<Rightarrow> filter (\<lambda>(n, e). \<not> (n = name \<and> is_top_file e)) t
      | Inside dir name \<Rightarrow>
          map (\<lambda>(n, e).
            (n, case e of
                  Top_Folder (Some cs) \<Rightarrow>
                    if n = dir
                    then Top_Folder (Some (filter (\<lambda>(m, c). \<not> (m = name \<and> is_child_file c)) cs)) else e
                | _ \<Rightarrow> e)) t)"

definition write_at :: "str \<Rightarrow> str \<Rightarrow> leaf \<Rightarrow> tree \<Rightarrow> tree" where
  "write_at dir name l t =
     map (\<lambda>(n, e).
       (n, case e of
             Top_Folder (Some cs) \<Rightarrow>
               if n = dir then Top_Folder (Some (AList.update name (Child_File l) cs)) else e
           | _ \<Rightarrow> e)) t"

definition remove_folder :: "str \<Rightarrow> tree \<Rightarrow> tree" where
  "remove_folder dir t = filter (\<lambda>(n, _). n \<noteq> dir) t"

section \<open>The launch record\<close>

datatype launch_mode = As_Is | New_Project

record launch_record =
  lr_launch_id :: str
  lr_mode :: launch_mode
  lr_project_id :: str
  lr_file_id :: str
  lr_slicer_id :: slicer_id
  lr_install_id :: str
  lr_file_name :: str
  lr_launched_hash :: str
  lr_started_at :: int
  lr_library :: "str option"
  lr_source_slicer :: "slicer_id option"
  lr_source_size_bytes :: "int option"
  lr_launched_entries :: "digests option"
  lr_swept_at :: "int option"

definition LAUNCH_RECORD_NAME :: str where "LAUNCH_RECORD_NAME = lit ''launch.json''"

fun json_str :: "json \<Rightarrow> str option" where
  "json_str (JStr s) = Some s"
| "json_str _ = None"

fun json_i64 :: "json \<Rightarrow> int option" where
  "json_i64 (JNum n) = (if - (2 ^ 63) \<le> n \<and> n < 2 ^ 63 then Some n else None)"
| "json_i64 _ = None"

fun json_number :: "json \<Rightarrow> int option" where
  "json_number (JNum n) = Some (max (- (2 ^ 63)) (min (2 ^ 63 - 1) n))"
| "json_number _ = None"

fun json_object :: "json \<Rightarrow> (str \<times> json) list option" where
  "json_object (JObj members) = Some members"
| "json_object _ = None"

definition text_of :: "(str \<times> json) list \<Rightarrow> str \<Rightarrow> str option" where
  "text_of members key = Option.bind (map_of members key) json_str"

definition digest_fields :: "(str \<times> json) list \<Rightarrow> digests" where
  "digest_fields members = List.map_filter (\<lambda>(name, d). map_option (Pair name) (json_str d)) members"

definition read_record_with :: "json option \<Rightarrow> launch_record option" where
  "read_record_with parsed =
     Option.bind (Option.bind parsed json_object) (\<lambda>members.
     Option.bind (text_of members (lit ''launchId'')) (\<lambda>launch_id.
     Option.bind (text_of members (lit ''projectId'')) (\<lambda>project_id.
     Option.bind (text_of members (lit ''fileId'')) (\<lambda>file_id.
     Option.bind (text_of members (lit ''fileName'')) (\<lambda>name.
     Option.bind (text_of members (lit ''launchedHash'')) (\<lambda>hash.
     Option.bind (Option.bind (map_of members (lit ''startedAt'')) json_number) (\<lambda>started_at.
     Option.bind (Option.bind (text_of members (lit ''slicerId'')) slicer_id_parse) (\<lambda>slicer.
       Some \<lparr>lr_launch_id = launch_id,
         lr_mode = (if text_of members (lit ''mode'') = Some (lit ''as-is'') then As_Is else New_Project),
         lr_project_id = project_id, lr_file_id = file_id, lr_slicer_id = slicer,
         lr_install_id = (case text_of members (lit ''installId'') of None \<Rightarrow> [] | Some i \<Rightarrow> i),
         lr_file_name = name, lr_launched_hash = hash, lr_started_at = started_at,
         lr_library = text_of members (lit ''library''),
         lr_source_slicer = Option.bind (text_of members (lit ''sourceSlicer'')) slicer_id_parse,
         lr_source_size_bytes = Option.bind (map_of members (lit ''sourceSizeBytes'')) json_i64,
         lr_launched_entries = map_option digest_fields
           (Option.bind (map_of members (lit ''launchedEntries'')) json_object),
         lr_swept_at = Option.bind (map_of members (lit ''sweptAt'')) json_i64\<rparr>))))))))"

text \<open>The record as it is written: \<^verbatim>\<open>serde\<close> leaves out the optional members that are absent.\<close>

fun launch_mode_as_str :: "launch_mode \<Rightarrow> str" where
  "launch_mode_as_str As_Is = lit ''as-is''"
| "launch_mode_as_str New_Project = lit ''new-project''"

definition optional_field :: "str \<Rightarrow> ('a \<Rightarrow> json) \<Rightarrow> 'a option \<Rightarrow> (str \<times> json) list" where
  "optional_field key f v = (case v of None \<Rightarrow> [] | Some x \<Rightarrow> [(key, f x)])"

definition record_json :: "launch_record \<Rightarrow> json" where
  "record_json r = JObj
     ([(lit ''launchId'', JStr (lr_launch_id r)), (lit ''mode'', JStr (launch_mode_as_str (lr_mode r))),
       (lit ''projectId'', JStr (lr_project_id r)), (lit ''fileId'', JStr (lr_file_id r)),
       (lit ''slicerId'', JStr (slicer_id_as_str (lr_slicer_id r))), (lit ''installId'', JStr (lr_install_id r)),
       (lit ''fileName'', JStr (lr_file_name r)), (lit ''launchedHash'', JStr (lr_launched_hash r)),
       (lit ''startedAt'', JNum (lr_started_at r))]
      @ optional_field (lit ''library'') JStr (lr_library r)
      @ [(lit ''sourceSlicer'', case lr_source_slicer r of None \<Rightarrow> JNull | Some s \<Rightarrow> JStr (slicer_id_as_str s))]
      @ optional_field (lit ''sourceSizeBytes'') JNum (lr_source_size_bytes r)
      @ optional_field (lit ''launchedEntries'') (\<lambda>ds. JObj (map (\<lambda>(n, d). (n, JStr d)) ds)) (lr_launched_entries r)
      @ optional_field (lit ''sweptAt'') JNum (lr_swept_at r))"

definition same_library :: "bool \<Rightarrow> (str \<Rightarrow> str) \<Rightarrow> str option \<Rightarrow> str option \<Rightarrow> bool" where
  "same_library windows lowercase a b \<longleftrightarrow>
     (case (a, b) of
        (Some a, Some b) \<Rightarrow> if windows then lowercase a = lowercase b else a = b
      | _ \<Rightarrow> True)"

definition library_key_of :: "bool \<Rightarrow> str option \<Rightarrow> str option \<Rightarrow> str option" where
  "library_key_of is_remote local_dir remote_origin =
     (if is_remote then map_option (\<lambda>origin. lit ''remote:'' @ origin) remote_origin
      else map_option (\<lambda>dir. lit ''local:'' @ dir) local_dir)"

section \<open>Reading a file\<close>

text \<open>What the lifecycle computes from a file, and the JSON of its records.\<close>

record tools =
  t_hash :: "opened \<Rightarrow> str result"
  t_zip :: "opened \<Rightarrow> bool"
  t_slicer :: "str \<Rightarrow> opened \<Rightarrow> slicer_id option"
  t_digests :: "str \<Rightarrow> opened \<Rightarrow> digests option"
  t_parse :: "bytes \<Rightarrow> json option"
  t_print :: "json \<Rightarrow> bytes"

definition plain_result :: "'a outcome \<Rightarrow> 'a result" where
  "plain_result r =
     (case r of Inr x \<Rightarrow> Inr x | Inl (Failed e) \<Rightarrow> Inl e | Inl Panic \<Rightarrow> Inl (internal (lit ''panic'')))"

definition real_tools ::
  "(source \<Rightarrow> nat \<Rightarrow> nat \<Rightarrow> 'd) \<Rightarrow> ('d \<Rightarrow> nat \<Rightarrow> (inflate_fault + bytes) \<times> 'd) \<Rightarrow> (bytes \<Rightarrow> bytes) \<Rightarrow> os \<Rightarrow>
   (bytes \<Rightarrow> json option) \<Rightarrow> (json \<Rightarrow> bytes) \<Rightarrow> tools" where
  "real_tools inflate_new inflate_read sha os parse print =
     \<lparr>t_hash = (\<lambda>f. plain_result (entry_hash inflate_new inflate_read sha os f)),
      t_zip = (\<lambda>f. is_ok (read_entries_of os f)),
      t_slicer = (\<lambda>name f. case classify_file inflate_new inflate_read os name f of Inr c \<Rightarrow> cl_slicer c | Inl _ \<Rightarrow> None),
      t_digests = (\<lambda>name f. case entry_digests inflate_new inflate_read sha os name f of Inr d \<Rightarrow> Some d | Inl _ \<Rightarrow> None),
      t_parse = parse, t_print = print\<rparr>"

definition SWEPT_RECORD_TTL_MS :: int where "SWEPT_RECORD_TTL_MS = 90 * 24 * 60 * 60 * 1000"
definition SETTLE_WINDOW_MS :: int where "SETTLE_WINDOW_MS = 60000"
definition SETTLE_INTERVAL_MS :: int where "SETTLE_INTERVAL_MS = 500"
definition EXIT_SETTLE_MS :: int where "EXIT_SETTLE_MS = 10000"
definition POLL_INTERVAL_MS :: int where "POLL_INTERVAL_MS = 5000"
definition WATCH_DEBOUNCE_MS :: int where "WATCH_DEBOUNCE_MS = 400"

record tracked =
  tk_path :: spath
  tk_launched_hash :: str
  tk_alive :: bool
  tk_pending :: bool
  tk_last_seen :: "(nat \<times> nat) option"

record lifecycle =
  li_tracked :: "(str \<times> tracked) list"
  li_unsettled :: "spath \<rightharpoonup> int"
  li_hashes :: "spath \<rightharpoonup> (nat \<times> nat) \<times> str"
  li_comparisons :: nat
  li_hashed :: nat

text \<open>What surrounds one call: the clock, the library that is open, and what the disk refuses.\<close>

record session_env =
  se_now :: int
  se_library :: "str option"
  se_same :: "str option \<Rightarrow> str option \<Rightarrow> bool"
  se_removable :: "spath \<Rightarrow> bool"
  se_writable :: "str \<Rightarrow> bool"

datatype probe = Gone | Settling_Probe | Ready_Probe str nat

definition looks_like_zip :: "opened \<Rightarrow> bool result" where
  "looks_like_zip file =
     (case file of
        Inl e \<Rightarrow> Inl (app_error_of_io e)
      | Inr bs \<Rightarrow> Inr (take 2 bs = [0x50, 0x4b]))"

definition stamp_of :: "leaf \<Rightarrow> nat \<times> nat" where
  "stamp_of l = (lf_mtime l, length (lf_bytes l))"

text \<open>The read itself, when no remembered hash answers.\<close>

definition hash_now :: "tools \<Rightarrow> spath \<Rightarrow> leaf \<Rightarrow> lifecycle \<Rightarrow> probe \<times> lifecycle" where
  "hash_now ts p l li =
     (let f = opened_leaf l in
      case looks_like_zip f of
        Inl _ \<Rightarrow> (Settling_Probe, li)
      | Inr magic \<Rightarrow>
          if magic \<and> \<not> t_zip ts f then (Settling_Probe, li)
          else
            let li1 = li\<lparr>li_hashed := Suc (li_hashed li)\<rparr> in
            (case t_hash ts f of
               Inl _ \<Rightarrow> (Settling_Probe, li1)
             | Inr hash \<Rightarrow>
                 (Ready_Probe hash (length (lf_bytes l)),
                  li1\<lparr>li_hashes := (li_hashes li1)(p \<mapsto> (stamp_of l, hash))\<rparr>)))"

definition probe_file :: "tools \<Rightarrow> tree \<Rightarrow> spath \<Rightarrow> lifecycle \<Rightarrow> probe \<times> lifecycle" where
  "probe_file ts t p li =
     (case file_at t p of
        None \<Rightarrow> (Gone, li)
      | Some l \<Rightarrow>
          if lf_bytes l = [] then (Settling_Probe, li)
          else
            (case li_hashes li p of
               Some (key, hash) \<Rightarrow>
                 if key = stamp_of l then (Ready_Probe hash (length (lf_bytes l)), li) else hash_now ts p l li
             | None \<Rightarrow> hash_now ts p l li))"

datatype file_state = Unchanged | Changed | Settling | Unreadable

definition inspect ::
  "tools \<Rightarrow> session_env \<Rightarrow> tree \<Rightarrow> spath \<Rightarrow> str option \<Rightarrow> lifecycle \<Rightarrow> (file_state \<times> int option) \<times> lifecycle" where
  "inspect ts env t p launched_hash li =
     (case probe_file ts t p li of
        (Settling_Probe, li1) \<Rightarrow>
          let since = (case li_unsettled li1 p of Some s \<Rightarrow> s | None \<Rightarrow> se_now env);
              li2 = li1\<lparr>li_unsettled := (li_unsettled li1)(p \<mapsto> since)\<rparr> in
          ((if se_now env - since < SETTLE_WINDOW_MS then Settling else Unreadable, None), li2)
      | (Gone, li1) \<Rightarrow> ((Unreadable, None), li1\<lparr>li_unsettled := (li_unsettled li1)(p := None)\<rparr>)
      | (Ready_Probe hash n, li1) \<Rightarrow>
          ((if launched_hash = Some hash then Unchanged else Changed, Some (int n)),
           li1\<lparr>li_unsettled := (li_unsettled li1)(p := None)\<rparr>))"

definition state_of_file ::
  "tools \<Rightarrow> session_env \<Rightarrow> tree \<Rightarrow> spath \<Rightarrow> str option \<Rightarrow> lifecycle \<Rightarrow> file_state \<times> lifecycle" where
  "state_of_file ts env t p launched_hash li =
     (case inspect ts env t p launched_hash li of ((st, _), li1) \<Rightarrow> (st, li1))"

section \<open>Listing\<close>

record session_dto =
  sd_launch_id :: str
  sd_project_id :: str
  sd_file_id :: str
  sd_file_name :: str
  sd_slicer_id :: "slicer_id option"
  sd_started_at :: int
  sd_process_alive :: bool
  sd_file_state :: file_state
  sd_is_orphan :: bool
  sd_source_slicer :: "slicer_id option option"
  sd_returned_as :: "slicer_id option option"
  sd_source_size_bytes :: "int option"
  sd_returned_size_bytes :: "int option"
  sd_entry_diff :: "entry_diff option"

record session =
  sn_dto :: session_dto
  sn_path :: spath
  sn_directory :: "str option"
  sn_record :: "launch_record option"
  sn_foreign :: bool

definition opened_at :: "tree \<Rightarrow> spath \<Rightarrow> opened" where
  "opened_at t p = (case file_at t p of None \<Rightarrow> Inl (Other_Io (lit ''not found'')) | Some l \<Rightarrow> opened_leaf l)"

definition settled_state :: "file_state \<Rightarrow> bool" where
  "settled_state st \<longleftrightarrow> st = Unchanged \<or> st = Changed"

definition diff_of :: "tools \<Rightarrow> digests \<Rightarrow> str \<Rightarrow> opened \<Rightarrow> entry_diff option" where
  "diff_of ts launched name file = map_option (diff_digests launched) (t_digests ts name file)"

definition process_alive :: "lifecycle \<Rightarrow> str \<Rightarrow> bool" where
  "process_alive li launch_id = (case map_of (li_tracked li) launch_id of None \<Rightarrow> False | Some tk \<Rightarrow> tk_alive tk)"

definition launched_session ::
  "tools \<Rightarrow> session_env \<Rightarrow> tree \<Rightarrow> str \<Rightarrow> launch_record \<Rightarrow> lifecycle \<Rightarrow> session \<times> lifecycle" where
  "launched_session ts env t launch_id r li =
     (let p = Inside launch_id (lr_file_name r); f = opened_at t p in
      case inspect ts env t p (Some (lr_launched_hash r)) li of
        ((st, n), li1) \<Rightarrow>
          let returned = t_slicer ts (lr_file_name r) f in
          (\<lparr>sn_dto =
              \<lparr>sd_launch_id = launch_id, sd_project_id = lr_project_id r, sd_file_id = lr_file_id r,
               sd_file_name = lr_file_name r, sd_slicer_id = Some (lr_slicer_id r),
               sd_started_at = lr_started_at r, sd_process_alive = process_alive li1 launch_id,
               sd_file_state = st, sd_is_orphan = False, sd_source_slicer = Some (lr_source_slicer r),
               sd_returned_as = (if st = Changed \<and> returned \<noteq> lr_source_slicer r then Some returned else None),
               sd_source_size_bytes = lr_source_size_bytes r, sd_returned_size_bytes = n,
               sd_entry_diff =
                 (if st = Changed
                  then Option.bind (lr_launched_entries r) (\<lambda>ds. diff_of ts ds (lr_file_name r) f) else None)\<rparr>,
            sn_path = p, sn_directory = Some launch_id, sn_record = Some r,
            sn_foreign = (\<not> se_same env (lr_library r) (se_library env))\<rparr>, li1))"

definition file_name_of :: "spath \<Rightarrow> str" where
  "file_name_of p = (case p of Loose n \<Rightarrow> n | Inside _ n \<Rightarrow> n)"

definition folder_of :: "spath \<Rightarrow> str option" where
  "folder_of p = (case p of Loose _ \<Rightarrow> None | Inside d _ \<Rightarrow> Some d)"

definition orphan_session ::
  "tools \<Rightarrow> session_env \<Rightarrow> tree \<Rightarrow> str \<Rightarrow> spath \<Rightarrow> launch_record option \<Rightarrow> lifecycle \<Rightarrow> session \<times> lifecycle" where
  "orphan_session ts env t launch_id p r li =
     (let inherited = (case r of
              Some r' \<Rightarrow> if se_same env (lr_library r') (se_library env) then Some r' else None | None \<Rightarrow> None) in
      case inspect ts env t p None li of
        ((st, n), li1) \<Rightarrow>
          (\<lparr>sn_dto =
              \<lparr>sd_launch_id = launch_id,
               sd_project_id = (case inherited of None \<Rightarrow> [] | Some r' \<Rightarrow> lr_project_id r'), sd_file_id = [],
               sd_file_name = file_name_of p,
               sd_slicer_id = (if settled_state st then t_slicer ts (file_name_of p) (opened_at t p) else None),
               sd_started_at = (case inherited of
                   Some r' \<Rightarrow> lr_started_at r'
                 | None \<Rightarrow> (case file_at t p of None \<Rightarrow> 0 | Some l \<Rightarrow> int (lf_mtime l div 1000000))),
               sd_process_alive = False, sd_file_state = st, sd_is_orphan = True, sd_source_slicer = None,
               sd_returned_as = None, sd_source_size_bytes = None, sd_returned_size_bytes = n,
               sd_entry_diff = None\<rparr>,
            sn_path = p, sn_directory = folder_of p, sn_record = r, sn_foreign = False\<rparr>, li1))"

definition read_record :: "tools \<Rightarrow> tree \<Rightarrow> str \<Rightarrow> launch_record option" where
  "read_record ts t dir =
     (case opened_at t (Inside dir LAUNCH_RECORD_NAME) of
        Inl _ \<Rightarrow> None
      | Inr bs \<Rightarrow> read_record_with (t_parse ts bs))"

definition file_names :: "(str \<times> child) list \<Rightarrow> str list" where
  "file_names cs =
     sort (map fst (filter (\<lambda>(n, c). is_child_file c \<and> n \<noteq> LAUNCH_RECORD_NAME) cs))"

fun scan_files ::
  "tools \<Rightarrow> session_env \<Rightarrow> tree \<Rightarrow> str \<Rightarrow> launch_record option \<Rightarrow> str list \<Rightarrow> lifecycle \<Rightarrow> session list \<times> lifecycle" where
  "scan_files ts env t dir r [] li = ([], li)"
| "scan_files ts env t dir r (name # names) li =
     (let (s, li1) =
        (case r of
           Some r' \<Rightarrow>
             if name = lr_file_name r' then launched_session ts env t dir r' li
             else orphan_session ts env t (dir @ [47] @ name) (Inside dir name) r li
         | None \<Rightarrow> orphan_session ts env t (dir @ [47] @ name) (Inside dir name) r li);
        (ss, li2) = scan_files ts env t dir r names li1 in (s # ss, li2))"

fun scan_entries ::
  "tools \<Rightarrow> session_env \<Rightarrow> tree \<Rightarrow> tree \<Rightarrow> lifecycle \<Rightarrow> session list \<times> lifecycle" where
  "scan_entries ts env t [] li = ([], li)"
| "scan_entries ts env t ((name, e) # es) li =
     (let (ss, li1) =
        (case e of
           Top_File l \<Rightarrow> (case orphan_session ts env t name (Loose name) None li of (s, li1) \<Rightarrow> ([s], li1))
         | Top_Folder (Some cs) \<Rightarrow> scan_files ts env t name (read_record ts t name) (file_names cs) li
         | _ \<Rightarrow> ([], li));
        (rest, li2) = scan_entries ts env t es li1 in (ss @ rest, li2))"

text \<open>\<open>None\<close>: the sessions directory itself cannot be listed.\<close>

definition scan_sessions ::
  "tools \<Rightarrow> session_env \<Rightarrow> tree option \<Rightarrow> lifecycle \<Rightarrow> session list \<times> lifecycle" where
  "scan_sessions ts env dir li =
     (case dir of None \<Rightarrow> ([], li) | Some t \<Rightarrow> scan_entries ts env t (sort_key fst t) li)"

definition list_sessions ::
  "tools \<Rightarrow> session_env \<Rightarrow> tree option \<Rightarrow> lifecycle \<Rightarrow> session_dto list \<times> lifecycle" where
  "list_sessions ts env dir li =
     (let (all, li1) = scan_sessions ts env dir li in (map sn_dto (filter (\<lambda>s. \<not> sn_foreign s) all), li1))"

section \<open>The watch\<close>

text \<open>A timer a handler asks for: after so many milliseconds, this task.\<close>

datatype task = Settle_Task str | Exit_Task str | Poll_Task str

type_synonym timers = "(int \<times> task) list"

definition untrack :: "str \<Rightarrow> lifecycle \<Rightarrow> lifecycle" where
  "untrack launch_id li = li\<lparr>li_tracked := filter (\<lambda>(i, _). i \<noteq> launch_id) (li_tracked li)\<rparr>"

definition update_tracked :: "str \<Rightarrow> (tracked \<Rightarrow> tracked) \<Rightarrow> lifecycle \<Rightarrow> lifecycle" where
  "update_tracked launch_id f li =
     li\<lparr>li_tracked := map (\<lambda>(i, tk). (i, if i = launch_id then f tk else tk)) (li_tracked li)\<rparr>"

definition track_launch :: "str \<Rightarrow> spath \<Rightarrow> str \<Rightarrow> lifecycle \<Rightarrow> lifecycle \<times> timers" where
  "track_launch launch_id p launched_hash li =
     (let li1 = untrack launch_id li in
      (li1\<lparr>li_tracked := (launch_id, \<lparr>tk_path = p, tk_launched_hash = launched_hash, tk_alive = True,
                                      tk_pending = False, tk_last_seen = None\<rparr>) # li_tracked li1\<rparr>,
       [(POLL_INTERVAL_MS, Poll_Task launch_id)]))"

definition close_sessions :: "lifecycle \<Rightarrow> lifecycle" where
  "close_sessions li = foldl (\<lambda>l i. untrack i l) li (map fst (li_tracked li))"

definition on_changed :: "str \<Rightarrow> lifecycle \<Rightarrow> lifecycle \<times> timers" where
  "on_changed launch_id li =
     (case map_of (li_tracked li) launch_id of
        None \<Rightarrow> (li, [])
      | Some tk \<Rightarrow>
          if tk_pending tk then (li, [])
          else (update_tracked launch_id (\<lambda>tk. tk\<lparr>tk_pending := True\<rparr>) li,
                [(WATCH_DEBOUNCE_MS, Settle_Task launch_id)]))"

definition settle_step :: "tools \<Rightarrow> session_env \<Rightarrow> tree \<Rightarrow> str \<Rightarrow> lifecycle \<Rightarrow> lifecycle \<times> timers" where
  "settle_step ts env t launch_id li =
     (case map_of (li_tracked li) launch_id of
        None \<Rightarrow> (li, [])
      | Some tk \<Rightarrow>
          let li1 = li\<lparr>li_comparisons := Suc (li_comparisons li)\<rparr>;
              (st, li2) = state_of_file ts env t (tk_path tk) (Some (tk_launched_hash tk)) li1 in
          if st \<noteq> Settling then (li2, [])
          else
            (case map_of (li_tracked li2) launch_id of
               None \<Rightarrow> (li2, [])
             | Some tk2 \<Rightarrow>
                 if tk_pending tk2 then (li2, [])
                 else (update_tracked launch_id (\<lambda>tk. tk\<lparr>tk_pending := True\<rparr>) li2,
                       [(SETTLE_INTERVAL_MS, Settle_Task launch_id)])))"

text \<open>The task of \<open>on_changed\<close> and \<open>settle_step\<close>: nothing is pending any more, and one comparison.\<close>

definition settle_task :: "tools \<Rightarrow> session_env \<Rightarrow> tree \<Rightarrow> str \<Rightarrow> lifecycle \<Rightarrow> lifecycle \<times> timers" where
  "settle_task ts env t launch_id li =
     settle_step ts env t launch_id (update_tracked launch_id (\<lambda>tk. tk\<lparr>tk_pending := False\<rparr>) li)"

definition on_poll :: "tools \<Rightarrow> session_env \<Rightarrow> tree \<Rightarrow> str \<Rightarrow> lifecycle \<Rightarrow> lifecycle \<times> timers" where
  "on_poll ts env t launch_id li =
     (case map_of (li_tracked li) launch_id of
        None \<Rightarrow> (li, [])
      | Some tk \<Rightarrow>
          (case file_at t (tk_path tk) of
             None \<Rightarrow> (li, [])
           | Some l \<Rightarrow>
               let li1 = update_tracked launch_id (\<lambda>tk. tk\<lparr>tk_last_seen := Some (stamp_of l)\<rparr>) li in
               if tk_last_seen tk = Some (stamp_of l) then (li1, [])
               else settle_step ts env t launch_id li1))"

definition on_exit :: "str \<Rightarrow> lifecycle \<Rightarrow> lifecycle \<times> timers" where
  "on_exit launch_id li =
     (case map_of (li_tracked li) launch_id of
        None \<Rightarrow> (li, [])
      | Some _ \<Rightarrow> (update_tracked launch_id (\<lambda>tk. tk\<lparr>tk_alive := False\<rparr>) li,
                   [(EXIT_SETTLE_MS, Exit_Task launch_id)]))"

section \<open>Sweeping\<close>

definition record_leaf :: "tools \<Rightarrow> session_env \<Rightarrow> launch_record \<Rightarrow> leaf" where
  "record_leaf ts env r =
     \<lparr>lf_bytes = t_print ts (record_json r), lf_mtime = nat (se_now env) * 1000000, lf_locked = False\<rparr>"

definition forget_path :: "spath \<Rightarrow> lifecycle \<Rightarrow> lifecycle" where
  "forget_path p li =
     li\<lparr>li_unsettled := (li_unsettled li)(p := None), li_hashes := (li_hashes li)(p := None)\<rparr>"

definition sweep :: "tools \<Rightarrow> session_env \<Rightarrow> session \<Rightarrow> tree \<times> lifecycle \<Rightarrow> tree \<times> lifecycle" where
  "sweep ts env s state =
     (let (t, li) = state;
          t1 = (if se_removable env (sn_path s) then remove_at (sn_path s) t else t);
          li1 = untrack (sd_launch_id (sn_dto s)) (forget_path (sn_path s) li) in
      (case (sn_directory s, if sd_is_orphan (sn_dto s) then None else sn_record s) of
         (Some dir, Some r) \<Rightarrow>
           (if se_writable env dir
            then write_at dir LAUNCH_RECORD_NAME (record_leaf ts env (r\<lparr>lr_swept_at := Some (se_now env)\<rparr>)) t1
            else t1, li1)
       | (Some dir, None) \<Rightarrow>
           (if map_of t1 dir = Some (Top_Folder (Some [])) then remove_folder dir t1 else t1, li1)
       | (None, _) \<Rightarrow> (t1, li1)))"

text \<open>
  The exit sweep looks twice: \<open>t\<close> is the directory at its comparison, \<open>t'\<close> the directory a moment
  later, when it enumerates and removes.
\<close>

definition exit_sweep ::
  "tools \<Rightarrow> session_env \<Rightarrow> tree \<Rightarrow> tree \<Rightarrow> str \<Rightarrow> lifecycle \<Rightarrow> tree \<times> lifecycle" where
  "exit_sweep ts env t t' launch_id li =
     (case map_of (li_tracked li) launch_id of
        None \<Rightarrow> (t', li)
      | Some tk \<Rightarrow>
          let (st, li1) = state_of_file ts env t (tk_path tk) (Some (tk_launched_hash tk)) li in
          if st \<noteq> Unchanged then (t', li1)
          else
            let (all, li2) = scan_sessions ts env (Some t') li1 in
            (case find (\<lambda>s. sd_launch_id (sn_dto s) = launch_id) all of
               None \<Rightarrow> (t', li2)
             | Some s \<Rightarrow> sweep ts env s (t', li2)))"

definition start_keeps :: "tools \<Rightarrow> session_env \<Rightarrow> tree \<Rightarrow> str \<times> top_entry \<Rightarrow> bool" where
  "start_keeps ts env t entry =
     (case snd entry of
        Top_Folder (Some cs) \<Rightarrow>
          if cs = [] then False
          else if map fst cs \<noteq> [LAUNCH_RECORD_NAME] then True
          else
            (case read_record ts t (fst entry) of
               None \<Rightarrow> True
             | Some r \<Rightarrow>
                 \<not> (se_now env - (case lr_swept_at r of None \<Rightarrow> lr_started_at r | Some at \<Rightarrow> at) > SWEPT_RECORD_TTL_MS))
      | _ \<Rightarrow> True)"

definition count_surfaced :: "tree \<Rightarrow> nat" where
  "count_surfaced t =
     sum_list (map (\<lambda>(_, e). case e of
         Top_File _ \<Rightarrow> 1 | Top_Folder (Some cs) \<Rightarrow> length (file_names cs) | _ \<Rightarrow> 0) t)"

definition sweep_at_start :: "tools \<Rightarrow> session_env \<Rightarrow> tree option \<Rightarrow> nat \<times> tree option" where
  "sweep_at_start ts env dir =
     (case dir of
        None \<Rightarrow> (0, None)
      | Some t \<Rightarrow> let t1 = filter (start_keeps ts env t) t in (count_surfaced t1, Some t1))"

section \<open>Answering a session\<close>

text \<open>The last dot that is not the first character splits a name.\<close>

definition stem_extension :: "str \<Rightarrow> str \<times> str" where
  "stem_extension name =
     (case position (\<lambda>c. c = 46) (rev name) of
        None \<Rightarrow> (name, [])
      | Some k \<Rightarrow>
          let at = length name - Suc k in
          if at > 0 then (take at name, drop at name) else (name, []))"

definition derived_candidate :: "str \<Rightarrow> str \<Rightarrow> nat \<Rightarrow> str" where
  "derived_candidate base extension ordinal =
     (if ordinal = 1 then base @ extension
      else base @ lit '' ('' @ dec_str ordinal @ lit '')'' @ extension)"

definition derived_base :: "str \<Rightarrow> slicer_id option \<Rightarrow> str" where
  "derived_base stem slicer =
     (case slicer of None \<Rightarrow> stem | Some product \<Rightarrow> stem @ lit '' ('' @ slicer_id_as_str product @ lit '')'')"

definition derived_name :: "str \<Rightarrow> slicer_id option \<Rightarrow> str list \<Rightarrow> str result" where
  "derived_name name slicer taken =
     (let (stem, extension) = stem_extension name; base = derived_base stem slicer in
      case find (\<lambda>n. derived_candidate base extension n \<notin> set taken) [1..<1000] of
        None \<Rightarrow> Inl (conflict (lit ''there are already too many files called '' @ [34] @ base @ [34]))
      | Some n \<Rightarrow>
          let candidate = derived_candidate base extension n in
          (case file_name candidate of
             Inl _ \<Rightarrow> Inl (validation (candidate @ lit '' is not a name this library can hold''))
           | Inr _ \<Rightarrow> Inr candidate))"

text \<open>The library a returning file goes to: its names, and the upload, local or remote.\<close>

record ('l, 'f) library_end =
  le_names :: "str \<Rightarrow> 'l \<Rightarrow> str list result"
  le_upload :: "str \<Rightarrow> str \<Rightarrow> opened \<Rightarrow> 'l \<Rightarrow> 'f result \<times> 'l"

fun import_loop ::
  "('l, 'f) library_end \<Rightarrow> str \<Rightarrow> opened \<Rightarrow> str \<Rightarrow> slicer_id option \<Rightarrow> nat \<Rightarrow> str \<Rightarrow> str list \<Rightarrow> 'l \<Rightarrow>
   'f result \<times> 'l" where
  "import_loop le project f original slicer attempts name taken lib =
     (case le_upload le project name f lib of
        (Inr added, lib1) \<Rightarrow> (Inr added, lib1)
      | (Inl e, lib1) \<Rightarrow>
          (case attempts of
             0 \<Rightarrow> (Inl e, lib1)
           | Suc n \<Rightarrow>
               if err_code e \<noteq> Conflict then (Inl e, lib1)
               else (case derived_name original slicer (name # taken) of
                       Inl e' \<Rightarrow> (Inl e', lib1)
                     | Inr name' \<Rightarrow> import_loop le project f original slicer n name' (name # taken) lib1)))"

definition slicer_for :: "tools \<Rightarrow> tree \<Rightarrow> session \<Rightarrow> slicer_id option" where
  "slicer_for ts t s =
     (case t_slicer ts (file_name_of (sn_path s)) (opened_at t (sn_path s)) of
        Some product \<Rightarrow> Some product
      | None \<Rightarrow> map_option lr_slicer_id (sn_record s))"

definition import_session ::
  "tools \<Rightarrow> ('l, 'f) library_end \<Rightarrow> tree \<Rightarrow> session \<Rightarrow> str \<Rightarrow> 'l \<Rightarrow> 'f result \<times> 'l" where
  "import_session ts le t s project lib =
     (case bindE (le_names le project lib) (\<lambda>taken.
           if file_at t (sn_path s) = None then Inl (internal (lit ''not found''))
           else bindE (derived_name (sd_file_name (sn_dto s)) (slicer_for ts t s) taken) (\<lambda>name.
             Inr (taken, name))) of
        Inl e \<Rightarrow> (Inl e, lib)
      | Inr (taken, name) \<Rightarrow>
          import_loop le project (opened_at t (sn_path s)) (sd_file_name (sn_dto s)) (slicer_for ts t s) 8 name taken lib)"

datatype session_action = Import | Discard

definition require_session ::
  "tools \<Rightarrow> session_env \<Rightarrow> tree option \<Rightarrow> str \<Rightarrow> lifecycle \<Rightarrow> session result \<times> lifecycle" where
  "require_session ts env dir launch_id li =
     (let (all, li1) = scan_sessions ts env dir li in
      (case find (\<lambda>s. sd_launch_id (sn_dto s) = launch_id) all of
         None \<Rightarrow> Inl (with_details (not_found (lit ''no such slicer session'')) [(lit ''launchId'', JStr launch_id)])
       | Some s \<Rightarrow>
           if sn_foreign s
           then Inl (with_details (conflict (lit ''that file was launched from a different library; open that library again to answer it''))
                       [(lit ''launchId'', JStr launch_id)])
           else Inr s, li1))"

fun state_name :: "file_state \<Rightarrow> str" where
  "state_name Unchanged = lit ''unchanged''"
| "state_name Changed = lit ''changed''"
| "state_name Settling = lit ''settling''"
| "state_name Unreadable = lit ''unreadable''"

definition answer_refused :: "session \<Rightarrow> str option \<Rightarrow> str result" where
  "answer_refused s project =
     (let st = sd_file_state (sn_dto s) in
      if \<not> settled_state st
      then Inl (with_details (conflict
             (if st = Settling then lit ''that file is still being written; try again in a moment''
              else lit ''that file could not be read, so there is nothing to add to the library''))
             [(lit ''fileState'', JStr (state_name st))])
      else let p = (if sd_project_id (sn_dto s) = [] then (case project of None \<Rightarrow> [] | Some q \<Rightarrow> q)
                    else sd_project_id (sn_dto s)) in
        if p = [] then Inl (validation (lit ''say which project this file belongs to'')) else Inr p)"

definition answer_session ::
  "tools \<Rightarrow> session_env \<Rightarrow> ('l, 'f) library_end \<Rightarrow> str \<Rightarrow> session_action \<Rightarrow> str option \<Rightarrow>
   tree \<times> lifecycle \<times> 'l \<Rightarrow> 'f option result \<times> tree \<times> lifecycle \<times> 'l" where
  "answer_session ts env le launch_id action project state =
     (let (t, li, lib) = state in
      case require_session ts env (Some t) launch_id li of
        (Inl e, li1) \<Rightarrow> (Inl e, t, li1, lib)
      | (Inr s, li1) \<Rightarrow>
          if action = Discard
          then (let (t2, li2) = sweep ts env s (t, li1) in (Inr None, t2, li2, lib))
          else
            (case answer_refused s project of
               Inl e \<Rightarrow> (Inl e, t, li1, lib)
             | Inr p \<Rightarrow>
                 (case import_session ts le t s p lib of
                    (Inl e, lib1) \<Rightarrow> (Inl e, t, li1, lib1)
                  | (Inr added, lib1) \<Rightarrow>
                      (let (t2, li2) = sweep ts env s (t, li1) in (Inr (Some added), t2, li2, lib1)))))"

definition discard_many ::
  "tools \<Rightarrow> session_env \<Rightarrow> str list \<Rightarrow> tree \<times> lifecycle \<Rightarrow> nat \<times> tree \<times> lifecycle" where
  "discard_many ts env launch_ids state =
     (let (t, li) = state; (all, li1) = scan_sessions ts env (Some t) li;
          found = filter (\<lambda>s. sd_launch_id (sn_dto s) \<in> set launch_ids \<and> \<not> sn_foreign s) all in
      (length found, foldl (\<lambda>st s. sweep ts env s st) (t, li1) found))"

section \<open>Files under removal and writing\<close>

lemma is_child_file_simps [simp]: "is_child_file (Child_File l)" "\<not> is_child_file Child_Other"
  by (simp_all add: is_child_file_def)

definition tree_wf :: "tree \<Rightarrow> bool" where
  "tree_wf t \<longleftrightarrow> distinct (map fst t) \<and> (\<forall>dir. distinct (map fst (children_of t dir)))"

lemma map_of_filter_name:
  "distinct (map fst xs) \<Longrightarrow>
     map_of (filter (\<lambda>(n, e). \<not> (n = name \<and> q e)) xs) m =
       (case map_of xs m of None \<Rightarrow> None | Some e \<Rightarrow> if m = name \<and> q e then None else Some e)"
  by (induction xs) (auto simp: map_of_eq_None_iff split: option.splits)

lemma map_of_map_entries: "map_of (map (\<lambda>(n, e). (n, f n e)) t) name = map_option (f name) (map_of t name)"
  by (induction t) auto

lemma children_remove_at:
  "children_of (remove_at p t) dir =
     (case p of
        Loose _ \<Rightarrow> children_of (remove_at p t) dir
      | Inside d name \<Rightarrow>
          if d = dir then filter (\<lambda>(m, c). \<not> (m = name \<and> is_child_file c)) (children_of t dir)
          else children_of t dir)"
  by (cases p) (auto simp: children_of_def remove_at_def map_of_map_entries
      split: option.splits top_entry.splits)

lemma file_at_remove:
  assumes "tree_wf t"
  shows "file_at (remove_at p t) q = (if q = p then None else file_at t q)"
proof (cases p)
  case (Loose name)
  have "map_of (remove_at p t) m =
      (case map_of t m of None \<Rightarrow> None | Some e \<Rightarrow> if m = name \<and> is_top_file e then None else Some e)" for m
    using assms map_of_filter_name [of t name is_top_file m] by (simp add: Loose remove_at_def tree_wf_def)
  then show ?thesis
    by (cases q) (auto simp: Loose file_at_def children_of_def is_top_file_def split: option.splits top_entry.splits)
next
  case (Inside dir name)
  show ?thesis
  proof (cases q)
    case (Loose m)
    then show ?thesis
      by (auto simp: Inside file_at_def remove_at_def map_of_map_entries split: option.splits top_entry.splits)
  next
    case q: (Inside d m)
    have "distinct (map fst (children_of t d))" using assms by (simp add: tree_wf_def)
    note one = map_of_filter_name [OF this, of name is_child_file m]
    have "map_of (children_of (remove_at p t) d) m =
        (case map_of (children_of t d) m of
           None \<Rightarrow> None | Some c \<Rightarrow> if d = dir \<and> m = name \<and> is_child_file c then None else Some c)"
      using one children_remove_at [of p t d] by (simp add: Inside split: option.split)
    then show ?thesis
      by (auto simp: Inside q file_at_def split: option.splits child.splits)
  qed
qed

lemma map_of_update_children: "map_of (AList.update k v xs) m = (if m = k then Some v else map_of xs m)"
  by (simp add: AList.update_conv')

lemma file_at_write:
  "q \<noteq> Inside dir name \<Longrightarrow> file_at (write_at dir name l t) q = file_at t q"
  by (cases q)
    (auto simp: file_at_def children_of_def write_at_def map_of_map_entries map_of_update_children
      split: option.splits top_entry.splits)

lemma file_at_remove_folder:
  "tree_wf t \<Longrightarrow> map_of t dir = Some (Top_Folder (Some [])) \<Longrightarrow> file_at (remove_folder dir t) q = file_at t q"
proof -
  assume wf: "tree_wf t" and empty: "map_of t dir = Some (Top_Folder (Some []))"
  have "map_of (remove_folder dir t) m = (if m = dir then None else map_of t m)" for m
    unfolding remove_folder_def by (induction t) auto
  then show ?thesis
    using empty by (cases q) (auto simp: file_at_def children_of_def)
qed

lemma tree_wf_remove_at: "tree_wf t \<Longrightarrow> tree_wf (remove_at p t)"
proof -
  assume wf: "tree_wf t"
  have "distinct (map fst (remove_at p t))"
    using wf by (cases p) (auto simp: tree_wf_def remove_at_def distinct_map_filter comp_def case_prod_beta)
  moreover have "distinct (map fst (children_of (remove_at p t) dir))" for dir
  proof (cases p)
    case (Loose name)
    have "map_of (remove_at p t) dir =
        (case map_of t dir of None \<Rightarrow> None | Some e \<Rightarrow> if dir = name \<and> is_top_file e then None else Some e)"
      using wf map_of_filter_name [of t name is_top_file dir] by (simp add: Loose remove_at_def tree_wf_def)
    then have "children_of (remove_at p t) dir = children_of t dir"
      by (auto simp: children_of_def is_top_file_def split: option.splits top_entry.splits)
    then show ?thesis using wf by (simp add: tree_wf_def)
  next
    case (Inside d name)
    then show ?thesis
      using wf children_remove_at [of p t dir] by (auto simp: tree_wf_def distinct_map_filter)
  qed
  ultimately show ?thesis by (simp add: tree_wf_def)
qed

lemma tree_wf_write_at: "tree_wf t \<Longrightarrow> tree_wf (write_at dir name l t)"
  by (auto simp: tree_wf_def write_at_def children_of_def map_of_map_entries comp_def case_prod_beta distinct_update
      split: option.splits top_entry.splits)

lemma tree_wf_filter: "tree_wf t \<Longrightarrow> tree_wf (filter keep t)"
proof -
  assume wf: "tree_wf t"
  have "map_of (filter keep t) dir = None \<or> map_of (filter keep t) dir = map_of t dir" for dir
    using wf unfolding tree_wf_def
    by (metis (no_types, lifting) distinct_map_filter map_of_eq_Some_iff filter_is_subset not_Some_eq subsetD)
  then have "distinct (map fst (children_of (filter keep t) dir))" for dir
    using wf unfolding tree_wf_def children_of_def by (metis (no_types, lifting) distinct.simps(1) list.simps(8) option.simps(4))
  then show ?thesis using wf by (simp add: tree_wf_def distinct_map_filter)
qed

section \<open>What a read remembers\<close>

definition not_record :: "spath \<Rightarrow> bool" where
  "not_record p \<longleftrightarrow> (case p of Loose _ \<Rightarrow> True | Inside _ n \<Rightarrow> n \<noteq> LAUNCH_RECORD_NAME)"

text \<open>
  What is remembered is true: a file that bears the stamp it had when it was hashed has that hash.
\<close>

definition memo_ok :: "tools \<Rightarrow> tree \<Rightarrow> lifecycle \<Rightarrow> bool" where
  "memo_ok ts t li \<longleftrightarrow>
     (\<forall>p key h. li_hashes li p = Some (key, h) \<longrightarrow>
        not_record p \<and> (\<forall>l. file_at t p = Some l \<and> stamp_of l = key \<longrightarrow> t_hash ts (Inr (lf_bytes l)) = Inr h))"

lemma memo_okD:
  "memo_ok ts t li \<Longrightarrow> li_hashes li p = Some (stamp_of l, h) \<Longrightarrow> file_at t p = Some l \<Longrightarrow>
     t_hash ts (Inr (lf_bytes l)) = Inr h"
  unfolding memo_ok_def by blast

lemma looks_like_zip_open: "looks_like_zip f = Inr b \<Longrightarrow> \<exists>bs. f = Inr bs"
  by (auto simp: looks_like_zip_def split: sum.splits)

lemma hash_now_facts:
  assumes "hash_now ts p l li = (pr, li')" "file_at t p = Some l" "memo_ok ts t li" "not_record p"
  shows "memo_ok ts t li' \<and> li_tracked li' = li_tracked li \<and>
     (\<forall>h n. pr = Ready_Probe h n \<longrightarrow> t_hash ts (Inr (lf_bytes l)) = Inr h)"
proof (cases "\<exists>h. pr = Ready_Probe h (length (lf_bytes l)) \<and> t_hash ts (opened_leaf l) = Inr h \<and>
    li' = li\<lparr>li_hashed := Suc (li_hashed li), li_hashes := (li_hashes li)(p \<mapsto> (stamp_of l, h))\<rparr>")
  case True
  then obtain h where h: "pr = Ready_Probe h (length (lf_bytes l))" "t_hash ts (opened_leaf l) = Inr h"
      "li' = li\<lparr>li_hashed := Suc (li_hashed li), li_hashes := (li_hashes li)(p \<mapsto> (stamp_of l, h))\<rparr>" by blast
  have "\<exists>b. looks_like_zip (opened_leaf l) = Inr b"
    using assms(1) h(1) by (auto simp: hash_now_def Let_def split: sum.splits)
  then obtain bs where "opened_leaf l = Inr bs" using looks_like_zip_open by blast
  then have "opened_leaf l = Inr (lf_bytes l)" by (auto simp: opened_leaf_def split: if_splits)
  then have hash: "t_hash ts (Inr (lf_bytes l)) = Inr h" using h(2) by simp
  moreover have "memo_ok ts t li'"
    using assms(2-4) hash by (auto simp: memo_ok_def h(3))
  ultimately show ?thesis by (simp add: h)
next
  case False
  then have "li' = li \<or> li' = li\<lparr>li_hashed := Suc (li_hashed li)\<rparr>" "pr = Settling_Probe"
    using assms(1) by (auto simp: hash_now_def Let_def split: sum.splits if_splits)
  then show ?thesis using assms(3) by (auto simp: memo_ok_def)
qed

lemma probe_facts:
  assumes "probe_file ts t p li = (pr, li')" "memo_ok ts t li" "not_record p"
  shows "memo_ok ts t li' \<and> li_tracked li' = li_tracked li \<and>
     (\<forall>h n. pr = Ready_Probe h n \<longrightarrow> (\<exists>l. file_at t p = Some l \<and> t_hash ts (Inr (lf_bytes l)) = Inr h))"
proof (cases "file_at t p")
  case None
  then show ?thesis using assms by (auto simp: probe_file_def)
next
  case (Some l)
  consider (settling) "pr = Settling_Probe" "li' = li"
    | (memo) h where "li_hashes li p = Some (stamp_of l, h)" "pr = Ready_Probe h (length (lf_bytes l))" "li' = li"
    | (now) "hash_now ts p l li = (pr, li')"
  proof (cases "lf_bytes l = []")
    case True
    then have "probe_file ts t p li = (Settling_Probe, li)" using Some by (simp add: probe_file_def)
    then show thesis using settling assms(1) by simp
  next
    case False
    show thesis
    proof (cases "li_hashes li p")
      case None
      then have "probe_file ts t p li = hash_now ts p l li" using Some False by (simp add: probe_file_def)
      then show thesis using now assms(1) by simp
    next
      case memoised: (Some kh)
      obtain key h where kh: "kh = (key, h)" by fastforce
      have found: "probe_file ts t p li =
          (if key = stamp_of l then (Ready_Probe h (length (lf_bytes l)), li) else hash_now ts p l li)"
        using Some False memoised by (simp add: probe_file_def kh)
      show thesis
      proof (cases "key = stamp_of l")
        case True
        then show thesis using memo [of h] found assms(1) memoised kh by simp
      next
        case False
        then show thesis using now found assms(1) by simp
      qed
    qed
  qed
  then show ?thesis
  proof cases
    case settling
    then show ?thesis using assms(2) by simp
  next
    case memo
    from memo_okD [OF assms(2) memo(1) Some] have "t_hash ts (Inr (lf_bytes l)) = Inr h" .
    then show ?thesis using assms(2) Some memo(2,3) by simp
  next
    case now
    from hash_now_facts [OF now Some assms(2,3)] Some show ?thesis by blast
  qed
qed

lemma memo_ok_unsettled [simp]: "memo_ok ts t (li\<lparr>li_unsettled := u\<rparr>) \<longleftrightarrow> memo_ok ts t li"
  "memo_ok ts t (li\<lparr>li_comparisons := n\<rparr>) \<longleftrightarrow> memo_ok ts t li"
  "memo_ok ts t (li\<lparr>li_tracked := tr\<rparr>) \<longleftrightarrow> memo_ok ts t li"
  by (simp_all add: memo_ok_def)

lemma inspect_facts:
  assumes "inspect ts env t p launched li = ((st, n), li')" "memo_ok ts t li" "not_record p"
  shows "memo_ok ts t li' \<and> li_tracked li' = li_tracked li \<and>
     (st = Unchanged \<longrightarrow> (\<exists>l h. file_at t p = Some l \<and> launched = Some h \<and> t_hash ts (Inr (lf_bytes l)) = Inr h))"
proof -
  obtain pr li1 where pr: "probe_file ts t p li = (pr, li1)" by fastforce
  note facts = probe_facts [OF pr assms(2,3)]
  show ?thesis
    using assms(1) facts
    by (cases pr) (auto simp: inspect_def pr Let_def split: if_splits)
qed

section \<open>What a scan finds\<close>

definition session_ok :: "tools \<Rightarrow> tree \<Rightarrow> session \<Rightarrow> bool" where
  "session_ok ts t s \<longleftrightarrow>
     not_record (sn_path s) \<and> sn_directory s = folder_of (sn_path s) \<and> (\<exists>l. file_at t (sn_path s) = Some l) \<and>
     (if sd_is_orphan (sn_dto s)
      then sd_launch_id (sn_dto s) = (case sn_path s of Loose n \<Rightarrow> n | Inside d n \<Rightarrow> d @ [47] @ n)
      else \<exists>r. read_record ts t (sd_launch_id (sn_dto s)) = Some r \<and> sn_record s = Some r \<and>
             sn_path s = Inside (sd_launch_id (sn_dto s)) (lr_file_name r))"

lemma orphan_facts:
  assumes "orphan_session ts env t launch_id p r li = (s, li')" "memo_ok ts t li" "not_record p"
    "file_at t p = Some l" "launch_id = (case p of Loose n \<Rightarrow> n | Inside d n \<Rightarrow> d @ [47] @ n)"
  shows "session_ok ts t s \<and> memo_ok ts t li' \<and> li_tracked li' = li_tracked li"
proof -
  obtain st n li1 where "inspect ts env t p None li = ((st, n), li1)" by (metis surj_pair)
  then show ?thesis
    using assms inspect_facts [of ts env t p None li st n li1]
    by (auto simp: orphan_session_def Let_def session_ok_def)
qed

lemma launched_facts:
  assumes "launched_session ts env t d r li = (s, li')" "memo_ok ts t li" "lr_file_name r \<noteq> LAUNCH_RECORD_NAME"
    "file_at t (Inside d (lr_file_name r)) = Some l" "read_record ts t d = Some r"
  shows "session_ok ts t s \<and> memo_ok ts t li' \<and> li_tracked li' = li_tracked li"
proof -
  have rec: "not_record (Inside d (lr_file_name r))" using assms(3) by (simp add: not_record_def)
  obtain st n li1 where ins: "inspect ts env t (Inside d (lr_file_name r)) (Some (lr_launched_hash r)) li = ((st, n), li1)"
    by (metis surj_pair)
  show ?thesis
    using assms(1,4,5) rec inspect_facts [OF ins assms(2) rec]
    by (auto simp: launched_session_def Let_def session_ok_def folder_of_def ins)
qed

lemma file_names_files:
  assumes "n \<in> set (file_names (children_of t d))" "tree_wf t"
  shows "n \<noteq> LAUNCH_RECORD_NAME \<and> (\<exists>l. file_at t (Inside d n) = Some l)"
proof -
  obtain c where c: "(n, c) \<in> set (children_of t d)" "is_child_file c" "n \<noteq> LAUNCH_RECORD_NAME"
    using assms(1) by (auto simp: file_names_def)
  have "map_of (children_of t d) n = Some c" using assms(2) c(1) by (simp add: tree_wf_def)
  then show ?thesis using c by (auto simp: file_at_def is_child_file_def split: child.splits)
qed

lemma scan_files_facts:
  assumes "scan_files ts env t d (read_record ts t d) names li = (ss, li')" "memo_ok ts t li"
    "\<forall>n \<in> set names. n \<noteq> LAUNCH_RECORD_NAME \<and> (\<exists>l. file_at t (Inside d n) = Some l)"
  shows "(\<forall>s \<in> set ss. session_ok ts t s) \<and> memo_ok ts t li' \<and> li_tracked li' = li_tracked li"
  using assms
proof (induction names arbitrary: li ss li')
  case (Cons n names)
  obtain s li1 where s: "(case read_record ts t d of
           Some r' \<Rightarrow>
             if n = lr_file_name r' then launched_session ts env t d r' li
             else orphan_session ts env t (d @ [47] @ n) (Inside d n) (read_record ts t d) li
         | None \<Rightarrow> orphan_session ts env t (d @ [47] @ n) (Inside d n) (read_record ts t d) li) = (s, li1)"
    by (rule that, rule prod.collapse [symmetric])
  obtain rest li2 where rest: "scan_files ts env t d (read_record ts t d) names li1 = (rest, li2)" by fastforce
  have eq: "ss = s # rest" "li' = li2" using Cons.prems(1) by (auto simp: s rest)
  obtain l where l: "n \<noteq> LAUNCH_RECORD_NAME" "file_at t (Inside d n) = Some l" using Cons.prems(3) by auto
  have "session_ok ts t s \<and> memo_ok ts t li1 \<and> li_tracked li1 = li_tracked li"
  proof (cases "\<exists>r'. read_record ts t d = Some r' \<and> n = lr_file_name r'")
    case True
    then obtain r' where r': "read_record ts t d = Some r'" "n = lr_file_name r'" by blast
    then have "launched_session ts env t d r' li = (s, li1)" using s by simp
    from launched_facts [OF this Cons.prems(2) _ _ r'(1)] l show ?thesis unfolding r'(2) by blast
  next
    case False
    then have "orphan_session ts env t (d @ [47] @ n) (Inside d n) (read_record ts t d) li = (s, li1)"
      using s by (auto split: option.splits)
    from orphan_facts [OF this Cons.prems(2) _ l(2)] l(1) show ?thesis by (simp add: not_record_def)
  qed
  then show ?case using Cons.IH [OF rest] Cons.prems(3) eq by auto
qed simp

lemma scan_entries_facts:
  assumes "scan_entries ts env t es li = (ss, li')" "memo_ok ts t li" "tree_wf t" "set es \<subseteq> set t"
  shows "(\<forall>s \<in> set ss. session_ok ts t s) \<and> memo_ok ts t li' \<and> li_tracked li' = li_tracked li"
  using assms(1,2,4)
proof (induction es arbitrary: li ss li')
  case (Cons entry es)
  obtain name e where entry: "entry = (name, e)" by fastforce
  have here: "map_of t name = Some e" using Cons.prems(3) assms(3) by (simp add: entry tree_wf_def)
  obtain xs li1 where xs: "(case e of
           Top_File l \<Rightarrow> (case orphan_session ts env t name (Loose name) None li of (s, li1) \<Rightarrow> ([s], li1))
         | Top_Folder (Some cs) \<Rightarrow> scan_files ts env t name (read_record ts t name) (file_names cs) li
         | _ \<Rightarrow> ([], li)) = (xs, li1)" by (rule that, rule prod.collapse [symmetric])
  obtain rest li2 where rest: "scan_entries ts env t es li1 = (rest, li2)" by fastforce
  have eq: "ss = xs @ rest" "li' = li2" using Cons.prems(1) by (auto simp: entry xs rest)
  have "(\<forall>s \<in> set xs. session_ok ts t s) \<and> memo_ok ts t li1 \<and> li_tracked li1 = li_tracked li"
  proof (cases e)
    case (Top_File l)
    obtain s li1' where s: "orphan_session ts env t name (Loose name) None li = (s, li1')" by fastforce
    have "file_at t (Loose name) = Some l" using here by (simp add: file_at_def Top_File)
    moreover have "xs = [s]" "li1' = li1" using xs by (simp_all add: Top_File s)
    ultimately show ?thesis using orphan_facts [OF s Cons.prems(2)] by (simp add: not_record_def)
  next
    case (Top_Folder listing)
    show ?thesis
    proof (cases listing)
      case None
      then show ?thesis using xs Cons.prems(2) by (simp add: Top_Folder)
    next
      case (Some cs)
      have cs: "children_of t name = cs" using here by (simp add: children_of_def Top_Folder Some)
      have sf: "scan_files ts env t name (read_record ts t name) (file_names cs) li = (xs, li1)"
        using xs by (simp add: Top_Folder Some)
      show ?thesis
        by (rule scan_files_facts [OF sf Cons.prems(2)]) (use file_names_files [of _ t name] assms(3) cs in blast)
    qed
  next
    case Top_Other
    then show ?thesis using xs Cons.prems(2) by simp
  qed
  then show ?case using Cons.IH [OF rest] Cons.prems(3) eq by auto
qed simp

lemma scan_facts:
  assumes "scan_sessions ts env (Some t) li = (ss, li')" "memo_ok ts t li" "tree_wf t"
  shows "(\<forall>s \<in> set ss. session_ok ts t s) \<and> memo_ok ts t li' \<and> li_tracked li' = li_tracked li"
  using scan_entries_facts [of ts env t "sort_key fst t" li ss li'] assms by (simp add: scan_sessions_def)

section \<open>What a sweep changes\<close>

lemma not_record_simps [simp]: "not_record (Loose n)" "not_record (Inside d n) \<longleftrightarrow> n \<noteq> LAUNCH_RECORD_NAME"
  by (simp_all add: not_record_def)

definition session_shape :: "session \<Rightarrow> bool" where
  "session_shape s \<longleftrightarrow>
     not_record (sn_path s) \<and> sn_directory s = folder_of (sn_path s) \<and>
     (sd_is_orphan (sn_dto s) \<or> (\<exists>n. sn_path s = Inside (sd_launch_id (sn_dto s)) n))"

lemma session_ok_shape: "session_ok ts t s \<Longrightarrow> session_shape s"
  by (auto simp: session_ok_def session_shape_def split: if_splits)

lemma sweep_facts:
  assumes "sweep ts env s (t, li) = (t', li')" "session_shape s" "tree_wf t" "memo_ok ts t li"
  shows "tree_wf t'"
    "not_record q \<Longrightarrow> file_at t' q = (if q = sn_path s \<and> se_removable env (sn_path s) then None else file_at t q)"
    "d \<noteq> sd_launch_id (sn_dto s) \<or> sd_is_orphan (sn_dto s) \<Longrightarrow>
       file_at t' (Inside d LAUNCH_RECORD_NAME) = file_at t (Inside d LAUNCH_RECORD_NAME)"
    "memo_ok ts t' li'" "li_tracked li' = filter (\<lambda>(i, _). i \<noteq> sd_launch_id (sn_dto s)) (li_tracked li)"
proof -
  let ?t1 = "if se_removable env (sn_path s) then remove_at (sn_path s) t else t"
  have wf1: "tree_wf ?t1" using assms(3) tree_wf_remove_at by simp
  have at1: "file_at ?t1 q = (if q = sn_path s \<and> se_removable env (sn_path s) then None else file_at t q)" for q
    using file_at_remove [OF assms(3)] by simp
  have li': "li' = untrack (sd_launch_id (sn_dto s)) (forget_path (sn_path s) li)"
    using assms(1) by (auto simp: sweep_def Let_def split: option.splits prod.splits)
  from assms(1,2) have cases: "t' = ?t1 \<or>
      (\<exists>d. map_of ?t1 d = Some (Top_Folder (Some [])) \<and> t' = remove_folder d ?t1) \<or>
      (\<not> sd_is_orphan (sn_dto s) \<and> (\<exists>l. t' = write_at (sd_launch_id (sn_dto s)) LAUNCH_RECORD_NAME l ?t1))"
    by (auto simp: sweep_def Let_def session_shape_def folder_of_def split: option.splits if_splits)
  show "tree_wf t'"
    using cases
  proof (elim disjE conjE exE)
    fix d assume "t' = remove_folder d ?t1"
    then show ?thesis unfolding remove_folder_def using tree_wf_filter [OF wf1] by blast
  next
    fix l assume "t' = write_at (sd_launch_id (sn_dto s)) LAUNCH_RECORD_NAME l ?t1"
    then show ?thesis using tree_wf_write_at [OF wf1] by blast
  qed (use wf1 in blast)
  have plain: "file_at t' q = file_at ?t1 q" if "not_record q" for q
    using cases
  proof (elim disjE conjE exE)
    fix d assume "map_of ?t1 d = Some (Top_Folder (Some []))" "t' = remove_folder d ?t1"
    then show ?thesis using file_at_remove_folder [OF wf1] by blast
  next
    fix l assume "t' = write_at (sd_launch_id (sn_dto s)) LAUNCH_RECORD_NAME l ?t1"
    moreover have "q \<noteq> Inside (sd_launch_id (sn_dto s)) LAUNCH_RECORD_NAME" using that by (auto simp: not_record_def)
    ultimately show ?thesis using file_at_write by blast
  qed blast
  show "file_at t' q = (if q = sn_path s \<and> se_removable env (sn_path s) then None else file_at t q)"
    if "not_record q" for q using at1 plain that by simp
  have "not_record (sn_path s)" using assms(2) by (simp add: session_shape_def)
  then have rec: "Inside d LAUNCH_RECORD_NAME \<noteq> sn_path s" for d by (metis not_record_simps(2))
  show "file_at t' (Inside d LAUNCH_RECORD_NAME) = file_at t (Inside d LAUNCH_RECORD_NAME)"
    if "d \<noteq> sd_launch_id (sn_dto s) \<or> sd_is_orphan (sn_dto s)" for d
    using cases
  proof (elim disjE conjE exE)
    assume "t' = ?t1" then show ?thesis using at1 [of "Inside d LAUNCH_RECORD_NAME"] rec [of d] by simp
  next
    fix e assume e: "map_of ?t1 e = Some (Top_Folder (Some []))" "t' = remove_folder e ?t1"
    show ?thesis
      using file_at_remove_folder [OF wf1 e(1)] at1 [of "Inside d LAUNCH_RECORD_NAME"] rec [of d] e(2) by simp
  next
    fix l assume w: "t' = write_at (sd_launch_id (sn_dto s)) LAUNCH_RECORD_NAME l ?t1" "\<not> sd_is_orphan (sn_dto s)"
    have "file_at t' (Inside d LAUNCH_RECORD_NAME) = file_at ?t1 (Inside d LAUNCH_RECORD_NAME)"
      unfolding w(1) by (rule file_at_write) (use that w(2) in simp)
    then show ?thesis using at1 [of "Inside d LAUNCH_RECORD_NAME"] rec [of d] by simp
  qed
  show "memo_ok ts t' li'"
    unfolding memo_ok_def
  proof (intro allI impI)
    fix p key h assume "li_hashes li' p = Some (key, h)"
    then have memo: "li_hashes li p = Some (key, h)" "p \<noteq> sn_path s"
      by (auto simp: li' untrack_def forget_path_def split: if_splits)
    then have p: "not_record p" using assms(4) unfolding memo_ok_def by blast
    have "file_at t' p = file_at t p" using plain [OF p] at1 [of p] memo(2) by simp
    then show "not_record p \<and> (\<forall>l. file_at t' p = Some l \<and> stamp_of l = key \<longrightarrow> t_hash ts (Inr (lf_bytes l)) = Inr h)"
      using memo(1) assms(4) unfolding memo_ok_def by metis
  qed
  show "li_tracked li' = filter (\<lambda>(i, _). i \<noteq> sd_launch_id (sn_dto s)) (li_tracked li)"
    by (simp add: li' untrack_def forget_path_def)
qed

section \<open>The lifecycle as a machine\<close>

record 'l machine =
  ma_tree :: tree
  ma_li :: lifecycle
  ma_lib :: 'l

text \<open>
  Every entry point of the lifecycle, with what surrounds it, and \<open>Outside\<close>: a slicer, the user or
  a launch changes the directory.
\<close>

datatype session_event =
    Ev_List session_env
  | Ev_Start session_env
  | Ev_Track str spath str
  | Ev_Changed str
  | Ev_Settle session_env str
  | Ev_Poll session_env str
  | Ev_Exit str
  | Ev_Exit_Sweep session_env str
  | Ev_Close
  | Ev_Answer session_env str session_action "str option"
  | Ev_Discard session_env "str list"
  | Outside tree

fun session_step :: "tools \<Rightarrow> ('l, 'f) library_end \<Rightarrow> session_event \<Rightarrow> 'l machine \<Rightarrow> 'l machine" where
  "session_step ts le (Ev_List env) m = m\<lparr>ma_li := snd (list_sessions ts env (Some (ma_tree m)) (ma_li m))\<rparr>"
| "session_step ts le (Ev_Start env) m =
     (case sweep_at_start ts env (Some (ma_tree m)) of (_, Some t) \<Rightarrow> m\<lparr>ma_tree := t\<rparr> | _ \<Rightarrow> m)"
| "session_step ts le (Ev_Track i p h) m = m\<lparr>ma_li := fst (track_launch i p h (ma_li m))\<rparr>"
| "session_step ts le (Ev_Changed i) m = m\<lparr>ma_li := fst (on_changed i (ma_li m))\<rparr>"
| "session_step ts le (Ev_Settle env i) m = m\<lparr>ma_li := fst (settle_task ts env (ma_tree m) i (ma_li m))\<rparr>"
| "session_step ts le (Ev_Poll env i) m = m\<lparr>ma_li := fst (on_poll ts env (ma_tree m) i (ma_li m))\<rparr>"
| "session_step ts le (Ev_Exit i) m = m\<lparr>ma_li := fst (on_exit i (ma_li m))\<rparr>"
| "session_step ts le (Ev_Exit_Sweep env i) m =
     (let (t, li) = exit_sweep ts env (ma_tree m) (ma_tree m) i (ma_li m) in m\<lparr>ma_tree := t, ma_li := li\<rparr>)"
| "session_step ts le Ev_Close m = m\<lparr>ma_li := close_sessions (ma_li m)\<rparr>"
| "session_step ts le (Ev_Answer env i action project) m =
     (let (_, t, li, lib) = answer_session ts env le i action project (ma_tree m, ma_li m, ma_lib m) in
      m\<lparr>ma_tree := t, ma_li := li, ma_lib := lib\<rparr>)"
| "session_step ts le (Ev_Discard env ids) m =
     (let (_, t, li) = discard_many ts env ids (ma_tree m, ma_li m) in m\<lparr>ma_tree := t, ma_li := li\<rparr>)"
| "session_step ts le (Outside t) m = m\<lparr>ma_tree := t\<rparr>"

text \<open>
  A tracked launch: its id is no path, and its file is the one its record names.
\<close>

definition tracks_ok :: "tools \<Rightarrow> tree \<Rightarrow> lifecycle \<Rightarrow> bool" where
  "tracks_ok ts t li \<longleftrightarrow>
     (\<forall>(i, tk) \<in> set (li_tracked li). 47 \<notin> set i \<and>
        (\<exists>n. tk_path tk = Inside i n \<and> n \<noteq> LAUNCH_RECORD_NAME \<and>
           (\<forall>r. read_record ts t i = Some r \<longrightarrow> lr_file_name r = n)))"

definition machine_ok :: "tools \<Rightarrow> 'l machine \<Rightarrow> bool" where
  "machine_ok ts m \<longleftrightarrow> tree_wf (ma_tree m) \<and> memo_ok ts (ma_tree m) (ma_li m) \<and> tracks_ok ts (ma_tree m) (ma_li m)"

text \<open>
  What the environment owes: a launch is tracked with the file its record names, and a change from
  outside leaves a file that keeps its time and size with its bytes, and the records alone.
\<close>

definition session_allowed :: "tools \<Rightarrow> 'l machine \<Rightarrow> session_event \<Rightarrow> bool" where
  "session_allowed ts m e \<longleftrightarrow>
     (case e of
        Ev_Track i p h \<Rightarrow> tracks_ok ts (ma_tree m) (fst (track_launch i p h (ma_li m)))
      | Outside t \<Rightarrow> tree_wf t \<and> memo_ok ts t (ma_li m) \<and> tracks_ok ts t (ma_li m)
      | _ \<Rightarrow> True)"

inductive session_reach ::
  "tools \<Rightarrow> ('l, 'f) library_end \<Rightarrow> 'l machine \<Rightarrow> 'l machine \<Rightarrow> bool" for ts le m0 where
  fresh: "session_reach ts le m0 m0"
| event: "session_reach ts le m0 m \<Longrightarrow> session_allowed ts m e \<Longrightarrow> session_reach ts le m0 (session_step ts le e m)"

section \<open>The invariant\<close>

lemma read_record_cong:
  "file_at t' (Inside d LAUNCH_RECORD_NAME) = file_at t (Inside d LAUNCH_RECORD_NAME) \<Longrightarrow>
     read_record ts t' d = read_record ts t d"
  by (simp add: read_record_def opened_at_def)

lemma read_record_gone: "file_at t (Inside d LAUNCH_RECORD_NAME) = None \<Longrightarrow> read_record ts t d = None"
  by (simp add: read_record_def opened_at_def)

lemma tracks_ok_sweep:
  assumes "sweep ts env s (t, li) = (t', li')" "session_shape s" "tree_wf t" "memo_ok ts t li" "tracks_ok ts t li"
  shows "tracks_ok ts t' li'"
  unfolding tracks_ok_def
proof (rule ballI)
  fix x assume x: "x \<in> set (li_tracked li')"
  obtain i tk where itk: "x = (i, tk)" by fastforce
  have old: "(i, tk) \<in> set (li_tracked li)" "i \<noteq> sd_launch_id (sn_dto s)"
    using x sweep_facts(5) [OF assms(1-4)] by (auto simp: itk)
  have "read_record ts t' i = read_record ts t i"
    by (rule read_record_cong, rule sweep_facts(3) [OF assms(1-4)]) (use old(2) in blast)
  then show "case x of (i, tk) \<Rightarrow> 47 \<notin> set i \<and> (\<exists>n. tk_path tk = Inside i n \<and> n \<noteq> LAUNCH_RECORD_NAME \<and>
      (\<forall>r. read_record ts t' i = Some r \<longrightarrow> lr_file_name r = n))"
    using assms(5) old(1) unfolding tracks_ok_def itk by fastforce
qed

lemma sweeps_facts:
  assumes "foldl (\<lambda>st s. sweep ts env s st) (t, li) ss = (t', li')" "\<forall>s \<in> set ss. session_shape s"
    "tree_wf t" "memo_ok ts t li" "tracks_ok ts t li"
  shows "tree_wf t' \<and> memo_ok ts t' li' \<and> tracks_ok ts t' li' \<and>
     (\<forall>q. not_record q \<longrightarrow> file_at t' q =
        (if \<exists>s \<in> set ss. sn_path s = q \<and> se_removable env q then None else file_at t q))"
  using assms
proof (induction ss arbitrary: t li)
  case (Cons s ss)
  obtain t1 li1 where one: "sweep ts env s (t, li) = (t1, li1)" by fastforce
  have shape: "session_shape s" using Cons.prems(2) by simp
  note facts = sweep_facts [OF one shape Cons.prems(3,4)]
  have "tracks_ok ts t1 li1" using tracks_ok_sweep [OF one shape] Cons.prems by blast
  moreover have "foldl (\<lambda>st s. sweep ts env s st) (t1, li1) ss = (t', li')" using Cons.prems(1) one by simp
  ultimately show ?case using Cons.IH [of t1 li1] facts(1,4) Cons.prems(2) facts(2) by auto
qed simp

lemma map_of_kept:
  "distinct (map fst t) \<Longrightarrow>
     map_of (filter keep t) n = (case map_of t n of None \<Rightarrow> None | Some e \<Rightarrow> if keep (n, e) then Some e else None)"
  by (induction t) (auto simp: map_of_eq_None_iff split: option.splits)

lemma start_files:
  assumes "tree_wf t"
  shows "file_at (filter (start_keeps ts env t) t) q = None \<or> file_at (filter (start_keeps ts env t) t) q = file_at t q"
    "not_record q \<Longrightarrow> file_at (filter (start_keeps ts env t) t) q = file_at t q"
proof -
  let ?t1 = "filter (start_keeps ts env t) t"
  have kept: "map_of ?t1 n = (case map_of t n of None \<Rightarrow> None | Some e \<Rightarrow> if start_keeps ts env t (n, e) then Some e else None)" for n
    using assms by (intro map_of_kept) (simp add: tree_wf_def)
  have dropped: "map_of cs m = None"
    if "\<not> start_keeps ts env t (d, Top_Folder (Some cs))" "m \<noteq> LAUNCH_RECORD_NAME" for d cs m
  proof -
    have "map fst cs = [] \<or> map fst cs = [LAUNCH_RECORD_NAME]"
      using that(1) by (auto simp: start_keeps_def split: if_splits)
    then have "m \<notin> set (map fst cs)" using that(2) by auto
    then show ?thesis by (simp add: map_of_eq_None_iff)
  qed
  show "file_at ?t1 q = None \<or> file_at ?t1 q = file_at t q"
    by (cases q) (auto simp: file_at_def children_of_def kept split: option.splits top_entry.splits)
  show "file_at ?t1 q = file_at t q" if "not_record q"
  proof (cases q)
    case (Loose n)
    then show ?thesis
      by (auto simp: file_at_def kept start_keeps_def split: option.splits top_entry.splits)
  next
    case (Inside d m)
    then show ?thesis
      using dropped [of d _ m] that
      by (auto simp: file_at_def children_of_def kept start_keeps_def split: option.splits top_entry.splits)
  qed
qed

lemma tracks_ok_same:
  assumes "tracks_ok ts t li" "\<forall>(i, tk) \<in> set (li_tracked li'). \<exists>tk0. (i, tk0) \<in> set (li_tracked li) \<and> tk_path tk = tk_path tk0"
  shows "tracks_ok ts t li'"
  using assms unfolding tracks_ok_def by fastforce

lemma tracks_ok_update:
  assumes "tracks_ok ts t li" "\<And>tk. tk_path (f tk) = tk_path tk"
  shows "tracks_ok ts t (update_tracked i f li)"
  by (rule tracks_ok_same [OF assms(1)]) (auto simp: update_tracked_def assms(2))

lemma tracks_ok_tracked: "li_tracked li' = li_tracked li \<Longrightarrow> tracks_ok ts t li \<Longrightarrow> tracks_ok ts t li'"
  by (simp add: tracks_ok_def)

lemma memo_ok_update [simp]: "memo_ok ts t (update_tracked i f li) \<longleftrightarrow> memo_ok ts t li"
  by (simp add: update_tracked_def)

lemma memo_ok_untrack [simp]: "memo_ok ts t (untrack i li) \<longleftrightarrow> memo_ok ts t li"
  by (simp add: untrack_def)

lemma tracks_ok_untrack: "tracks_ok ts t li \<Longrightarrow> tracks_ok ts t (untrack i li)"
  by (erule tracks_ok_same) (auto simp: untrack_def)

text \<open>The handlers of the watch keep the invariant, and no handler touches the disk.\<close>

definition li_ok :: "tools \<Rightarrow> tree \<Rightarrow> lifecycle \<Rightarrow> bool" where
  "li_ok ts t li \<longleftrightarrow> memo_ok ts t li \<and> tracks_ok ts t li"

lemma tracked_not_record:
  "tracks_ok ts t li \<Longrightarrow> map_of (li_tracked li) i = Some tk \<Longrightarrow> not_record (tk_path tk)"
  by (drule map_of_SomeD) (auto simp: tracks_ok_def)

lemma state_of_file_facts:
  assumes "state_of_file ts env t p launched li = (st, li')" "memo_ok ts t li" "not_record p"
  shows "memo_ok ts t li' \<and> li_tracked li' = li_tracked li \<and>
     (st = Unchanged \<longrightarrow> (\<exists>l h. file_at t p = Some l \<and> launched = Some h \<and> t_hash ts (Inr (lf_bytes l)) = Inr h))"
proof -
  obtain n where "inspect ts env t p launched li = ((st, n), li')"
    using assms(1) by (auto simp: state_of_file_def split: prod.splits)
  from inspect_facts [OF this assms(2,3)] show ?thesis .
qed

lemma li_ok_settle_step:
  assumes "li_ok ts t li"
  shows "li_ok ts t (fst (settle_step ts env t i li))"
proof (cases "map_of (li_tracked li) i")
  case None
  then show ?thesis using assms by (simp add: settle_step_def)
next
  case (Some tk)
  let ?li1 = "li\<lparr>li_comparisons := Suc (li_comparisons li)\<rparr>"
  obtain st li2 where st: "state_of_file ts env t (tk_path tk) (Some (tk_launched_hash tk)) ?li1 = (st, li2)" by fastforce
  have "memo_ok ts t ?li1" "not_record (tk_path tk)"
    using assms Some tracked_not_record by (auto simp: li_ok_def)
  from state_of_file_facts [OF st this] have "li_ok ts t li2"
    using assms tracks_ok_tracked [of li2 li] by (simp add: li_ok_def)
  then have "li_ok ts t li2 \<and> li_ok ts t (update_tracked i (\<lambda>tk. tk\<lparr>tk_pending := True\<rparr>) li2)"
    using tracks_ok_update [of ts t li2 "\<lambda>tk. tk\<lparr>tk_pending := True\<rparr>" i] by (simp add: li_ok_def)
  then show ?thesis
    by (auto simp: settle_step_def Some st Let_def split: option.splits)
qed

lemma li_ok_handlers:
  assumes "li_ok ts t li"
  shows "li_ok ts t (fst (on_changed i li))" "li_ok ts t (fst (settle_task ts env t i li))"
    "li_ok ts t (fst (on_poll ts env t i li))" "li_ok ts t (fst (on_exit i li))"
    "li_ok ts t (close_sessions li)"
proof -
  have upd: "li_ok ts t (update_tracked i f li)" if "\<And>tk. tk_path (f tk) = tk_path tk" for f
    using assms that tracks_ok_update by (simp add: li_ok_def)
  show "li_ok ts t (fst (on_changed i li))" "li_ok ts t (fst (on_exit i li))"
    using assms upd by (auto simp: on_changed_def on_exit_def split: option.splits)
  show "li_ok ts t (fst (settle_task ts env t i li))"
    unfolding settle_task_def by (intro li_ok_settle_step upd) simp
  show "li_ok ts t (fst (on_poll ts env t i li))"
    using assms upd li_ok_settle_step by (auto simp: on_poll_def Let_def split: option.splits)
  have "li_ok ts t (foldl (\<lambda>l i. untrack i l) li is)" for "is"
    using assms by (induction "is" arbitrary: li) (auto simp: li_ok_def tracks_ok_untrack)
  then show "li_ok ts t (close_sessions li)" by (simp add: close_sessions_def)
qed

text \<open>The exit sweep removes nothing but a file it has found to be what was launched.\<close>

lemma exit_sweep_facts:
  assumes "exit_sweep ts env t t i li = (t', li')" "tree_wf t" "memo_ok ts t li" "tracks_ok ts t li"
  shows "tree_wf t' \<and> memo_ok ts t' li' \<and> tracks_ok ts t' li' \<and>
     (\<forall>q l. not_record q \<and> file_at t q = Some l \<longrightarrow> file_at t' q = Some l \<or>
        (\<exists>tk. map_of (li_tracked li) i = Some tk \<and> tk_path tk = q \<and>
           t_hash ts (Inr (lf_bytes l)) = Inr (tk_launched_hash tk)))"
proof (cases "map_of (li_tracked li) i")
  case None
  then show ?thesis using assms by (simp add: exit_sweep_def)
next
  case (Some tk)
  obtain st li1 where st: "state_of_file ts env t (tk_path tk) (Some (tk_launched_hash tk)) li = (st, li1)" by fastforce
  note one = state_of_file_facts [OF st assms(3) tracked_not_record [OF assms(4) Some]]
  have ok1: "memo_ok ts t li1" "tracks_ok ts t li1"
    using one tracks_ok_tracked [OF _ assms(4)] by auto
  show ?thesis
  proof (cases "st = Unchanged")
    case False
    then show ?thesis using assms(1,2) ok1 by (simp add: exit_sweep_def Some st)
  next
    case True
    obtain all li2 where scan: "scan_sessions ts env (Some t) li1 = (all, li2)" by fastforce
    note two = scan_facts [OF scan ok1(1) assms(2)]
    have ok2: "memo_ok ts t li2" "tracks_ok ts t li2" using two tracks_ok_tracked [OF _ ok1(2)] by auto
    show ?thesis
    proof (cases "find (\<lambda>s. sd_launch_id (sn_dto s) = i) all")
      case None
      then show ?thesis using assms(1,2) ok2 by (simp add: exit_sweep_def Some st True scan)
    next
      case found: (Some s)
      have s: "session_ok ts t s" "sd_launch_id (sn_dto s) = i"
        using find_Some_set [OF found] two by auto
      have sw: "sweep ts env s (t, li2) = (t', li')"
        using assms(1) by (simp add: exit_sweep_def Some st True scan found)
      note facts = sweep_facts [OF sw session_ok_shape [OF s(1)] assms(2) ok2(1)]
      obtain n where n: "tk_path tk = Inside i n" "\<And>r. read_record ts t i = Some r \<Longrightarrow> lr_file_name r = n" "47 \<notin> set i"
        using assms(4) map_of_SomeD [OF Some] by (auto simp: tracks_ok_def)
      obtain l where l: "file_at t (Inside i n) = Some l" "t_hash ts (Inr (lf_bytes l)) = Inr (tk_launched_hash tk)"
        using one True n(1) by auto
      have "sn_path s = Inside i n"
      proof (cases "sd_is_orphan (sn_dto s)")
        case True
        then have "sn_path s = Loose i"
          using s n(3) by (auto simp: session_ok_def split: spath.splits)
        moreover have "file_at t (Loose i) = None"
          using l(1) by (auto simp: file_at_def children_of_def split: option.splits top_entry.splits)
        ultimately show ?thesis using s(1) by (simp add: session_ok_def)
      next
        case False
        then show ?thesis using s n(2) by (auto simp: session_ok_def)
      qed
      then show ?thesis
        using facts(1,2,4) tracks_ok_sweep [OF sw session_ok_shape [OF s(1)] assms(2) ok2] l n(1) Some by auto
    qed
  qed
qed

section \<open>Answers\<close>

lemma require_session_facts:
  assumes "require_session ts env (Some t) i li = (r, li')" "memo_ok ts t li" "tree_wf t" "tracks_ok ts t li"
  shows "memo_ok ts t li' \<and> tracks_ok ts t li' \<and>
     (\<forall>s. r = Inr s \<longrightarrow> session_ok ts t s \<and> sd_launch_id (sn_dto s) = i \<and> \<not> sn_foreign s \<and>
        s \<in> set (fst (scan_sessions ts env (Some t) li)))"
proof -
  obtain all li1 where scan: "scan_sessions ts env (Some t) li = (all, li1)" by fastforce
  note facts = scan_facts [OF scan assms(2,3)]
  have "li' = li1" "r = Inr s \<Longrightarrow> find (\<lambda>s. sd_launch_id (sn_dto s) = i) all = Some s \<and> \<not> sn_foreign s" for s
    using assms(1) by (auto simp: require_session_def scan split: option.splits if_splits)
  then show ?thesis
    using facts tracks_ok_tracked [OF _ assms(4)] find_Some_set by (fastforce simp: scan)
qed

lemma answer_session_facts:
  assumes "answer_session ts env le i action project (t, li, lib) = (r, t', li', lib')"
    "memo_ok ts t li" "tree_wf t" "tracks_ok ts t li"
  shows "tree_wf t' \<and> memo_ok ts t' li' \<and> tracks_ok ts t' li' \<and>
     (t' = t \<or> (\<exists>s li1. session_ok ts t s \<and> sd_launch_id (sn_dto s) = i \<and> \<not> sn_foreign s \<and>
        s \<in> set (fst (scan_sessions ts env (Some t) li)) \<and> sweep ts env s (t, li1) = (t', li') \<and>
        memo_ok ts t li1 \<and>
        (action = Import \<longrightarrow> (\<exists>p f. r = Inr (Some f) \<and> import_session ts le t s p lib = (Inr f, lib')))))"
proof -
  obtain rs li1 where req: "require_session ts env (Some t) i li = (rs, li1)" by fastforce
  note facts = require_session_facts [OF req assms(2-4)]
  have "(t' = t \<and> li' = li1) \<or>
      (\<exists>s. rs = Inr s \<and> sweep ts env s (t, li1) = (t', li') \<and>
         (action = Import \<longrightarrow> (\<exists>p f. r = Inr (Some f) \<and> import_session ts le t s p lib = (Inr f, lib'))))"
    using assms(1) by (cases action) (auto simp: answer_session_def req Let_def split: sum.splits prod.splits)
  then show ?thesis
  proof (elim disjE conjE exE)
    fix s assume s: "rs = Inr s" "sweep ts env s (t, li1) = (t', li')"
      "action = Import \<longrightarrow> (\<exists>p f. r = Inr (Some f) \<and> import_session ts le t s p lib = (Inr f, lib'))"
    have ok: "session_ok ts t s" "memo_ok ts t li1" "tracks_ok ts t li1" using facts s(1) by auto
    show ?thesis
      using sweep_facts(1,4) [OF s(2) session_ok_shape [OF ok(1)] assms(3) ok(2)]
        tracks_ok_sweep [OF s(2) session_ok_shape [OF ok(1)] assms(3) ok(2,3)] s facts by blast
  qed (use facts assms(3) in simp)
qed

lemma discard_many_facts:
  assumes "discard_many ts env ids (t, li) = (n, t', li')" "memo_ok ts t li" "tree_wf t" "tracks_ok ts t li"
  shows "tree_wf t' \<and> memo_ok ts t' li' \<and> tracks_ok ts t' li' \<and>
     (\<forall>q. not_record q \<and> file_at t' q \<noteq> file_at t q \<longrightarrow>
        (\<exists>s \<in> set (fst (scan_sessions ts env (Some t) li)). sd_launch_id (sn_dto s) \<in> set ids \<and>
           \<not> sn_foreign s \<and> sn_path s = q))"
proof -
  obtain all li1 where scan: "scan_sessions ts env (Some t) li = (all, li1)" by fastforce
  note facts = scan_facts [OF scan assms(2,3)]
  let ?found = "filter (\<lambda>s. sd_launch_id (sn_dto s) \<in> set ids \<and> \<not> sn_foreign s) all"
  have fold: "foldl (\<lambda>st s. sweep ts env s st) (t, li1) ?found = (t', li')"
    using assms(1) by (simp add: discard_many_def scan Let_def)
  have "\<forall>s \<in> set ?found. session_shape s" using facts session_ok_shape by auto
  from sweeps_facts [OF fold this assms(3)] show ?thesis
    using facts tracks_ok_tracked [OF _ assms(4), of li1] by (auto simp: scan split: if_splits)
qed

text \<open>The names a returning file can get.\<close>

lemma derived_name_facts:
  assumes "derived_name original slicer taken = Inr name"
  shows "name \<notin> set taken \<and> is_ok (file_name name)"
proof -
  obtain stem extension where parts: "stem_extension original = (stem, extension)" by fastforce
  obtain n where n: "find (\<lambda>n. derived_candidate (derived_base stem slicer) extension n \<notin> set taken) [1..<1000] = Some n"
      "name = derived_candidate (derived_base stem slicer) extension n" "is_ok (file_name name)"
    using assms by (auto simp: derived_name_def parts Let_def split: option.splits sum.splits)
  then show ?thesis using find_Some_set [OF n(1)] by simp
qed

lemma import_loop_facts:
  assumes "import_loop le project f original slicer attempts name taken lib = (Inr added, lib')"
    "name \<notin> set taken" "is_ok (file_name name)" "set base \<subseteq> set taken"
  shows "\<exists>name' lib0. le_upload le project name' f lib0 = (Inr added, lib') \<and> name' \<notin> set base \<and> is_ok (file_name name')"
  using assms
proof (induction attempts arbitrary: name taken lib)
  case 0
  then show ?case by (auto split: sum.splits prod.splits)
next
  case (Suc n)
  obtain r lib1 where up: "le_upload le project name f lib = (r, lib1)" by fastforce
  show ?case
  proof (cases r)
    case (Inr x)
    then show ?thesis using Suc.prems up by auto
  next
    case (Inl e)
    obtain name' where name': "derived_name original slicer (name # taken) = Inr name'"
        "import_loop le project f original slicer n name' (name # taken) lib1 = (Inr added, lib')"
      using Suc.prems(1) up Inl by (auto split: if_splits sum.splits)
    from Suc.IH [OF name'(2)] derived_name_facts [OF name'(1)] Suc.prems(4) show ?thesis by auto
  qed
qed

lemma import_session_facts:
  assumes "import_session ts le t s project lib = (Inr added, lib')"
  shows "\<exists>taken name lib0. le_names le project lib = Inr taken \<and> name \<notin> set taken \<and> is_ok (file_name name) \<and>
     le_upload le project name (opened_at t (sn_path s)) lib0 = (Inr added, lib')"
proof -
  obtain taken name where "le_names le project lib = Inr taken"
      and name: "derived_name (sd_file_name (sn_dto s)) (slicer_for ts t s) taken = Inr name"
      and loop: "import_loop le project (opened_at t (sn_path s)) (sd_file_name (sn_dto s)) (slicer_for ts t s) 8
        name taken lib = (Inr added, lib')"
    using assms by (auto simp: import_session_def bindE_eq_Inr bindE_eq_Inl split: sum.splits if_splits)
  with import_loop_facts [OF loop _ _ subset_refl] derived_name_facts [OF name] show ?thesis by blast
qed

section \<open>Every event keeps the invariant\<close>

lemma machine_ok_step:
  assumes "machine_ok ts m" "session_allowed ts m e"
  shows "machine_ok ts (session_step ts le e m)"
proof -
  have wf: "tree_wf (ma_tree m)" and memo: "memo_ok ts (ma_tree m) (ma_li m)" and tracks: "tracks_ok ts (ma_tree m) (ma_li m)"
    and li: "li_ok ts (ma_tree m) (ma_li m)" using assms(1) by (simp_all add: machine_ok_def li_ok_def)
  note handlers = li_ok_handlers [OF li]
  show ?thesis
  proof (cases e)
    case (Ev_List env)
    obtain all li1 where scan: "scan_sessions ts env (Some (ma_tree m)) (ma_li m) = (all, li1)" by fastforce
    then show ?thesis
      using scan_facts [OF scan memo wf] wf tracks_ok_tracked [OF _ tracks]
      by (simp add: Ev_List machine_ok_def list_sessions_def)
  next
    case (Ev_Start env)
    let ?t = "filter (start_keeps ts env (ma_tree m)) (ma_tree m)"
    note files = start_files [OF wf, where ts = ts and env = env]
    have rec: "read_record ts ?t d = None \<or> read_record ts ?t d = read_record ts (ma_tree m) d" for d
      using files(1) [of "Inside d LAUNCH_RECORD_NAME"] read_record_cong read_record_gone by blast
    have "memo_ok ts ?t (ma_li m)" using memo files(2) unfolding memo_ok_def by metis
    moreover have "tracks_ok ts ?t (ma_li m)"
      unfolding tracks_ok_def
    proof (intro ballI, clarify)
      fix i tk
      assume "(i, tk) \<in> set (li_tracked (ma_li m))"
      with tracks obtain n where n: "47 \<notin> set i" "tk_path tk = Inside i n" "n \<noteq> LAUNCH_RECORD_NAME"
          "\<forall>r. read_record ts (ma_tree m) i = Some r \<longrightarrow> lr_file_name r = n"
        unfolding tracks_ok_def by blast
      have "\<forall>r. read_record ts ?t i = Some r \<longrightarrow> lr_file_name r = n" using rec [of i] n(4) by auto
      with n(1-3) show "47 \<notin> set i \<and> (\<exists>n. tk_path tk = Inside i n \<and> n \<noteq> LAUNCH_RECORD_NAME \<and>
           (\<forall>r. read_record ts ?t i = Some r \<longrightarrow> lr_file_name r = n))" by blast
    qed
    ultimately show ?thesis using tree_wf_filter [OF wf] by (simp add: Ev_Start machine_ok_def sweep_at_start_def Let_def)
  next
    case (Ev_Track i p h)
    then show ?thesis
      using assms(2) wf memo by (simp add: machine_ok_def session_allowed_def track_launch_def Let_def)
  next
    case (Ev_Exit_Sweep env i)
    obtain t li where sw: "exit_sweep ts env (ma_tree m) (ma_tree m) i (ma_li m) = (t, li)" by fastforce
    from exit_sweep_facts [OF sw wf memo tracks] show ?thesis by (simp add: Ev_Exit_Sweep machine_ok_def sw)
  next
    case (Ev_Answer env i action project)
    obtain r t li lib where an: "answer_session ts env le i action project (ma_tree m, ma_li m, ma_lib m) = (r, t, li, lib)"
      by (metis prod_cases4)
    from answer_session_facts [OF an memo wf tracks] show ?thesis by (simp add: Ev_Answer machine_ok_def an)
  next
    case (Ev_Discard env ids)
    obtain n t li where d: "discard_many ts env ids (ma_tree m, ma_li m) = (n, t, li)" by (metis prod_cases3)
    from discard_many_facts [OF d memo wf tracks] show ?thesis by (simp add: Ev_Discard machine_ok_def d)
  next
    case (Outside t)
    then show ?thesis using assms(2) by (simp add: machine_ok_def session_allowed_def)
  qed (use handlers wf in \<open>simp_all add: machine_ok_def li_ok_def\<close>)
qed

lemma machine_ok_reach: "session_reach ts le m0 m \<Longrightarrow> machine_ok ts m0 \<Longrightarrow> machine_ok ts m"
  by (induction rule: session_reach.induct) (use machine_ok_step in blast)+

text \<open>The sessions an event answers on the user's behalf, by the path of their files.\<close>

definition answered :: "tools \<Rightarrow> session_event \<Rightarrow> 'l machine \<Rightarrow> spath \<Rightarrow> bool" where
  "answered ts e m p \<longleftrightarrow>
     (case e of
        Ev_Answer env i _ _ \<Rightarrow>
          (\<exists>s \<in> set (fst (scan_sessions ts env (Some (ma_tree m)) (ma_li m))).
             sd_launch_id (sn_dto s) = i \<and> \<not> sn_foreign s \<and> sn_path s = p)
      | Ev_Discard env ids \<Rightarrow>
          (\<exists>s \<in> set (fst (scan_sessions ts env (Some (ma_tree m)) (ma_li m))).
             sd_launch_id (sn_dto s) \<in> set ids \<and> \<not> sn_foreign s \<and> sn_path s = p)
      | Outside _ \<Rightarrow> True
      | _ \<Rightarrow> False)"

lemma lost_file:
  assumes "machine_ok ts m" "not_record p" "file_at (ma_tree m) p = Some l"
    "file_at (ma_tree (session_step ts le e m)) p \<noteq> Some l"
  shows "answered ts e m p \<or>
     (\<exists>env i tk. e = Ev_Exit_Sweep env i \<and> map_of (li_tracked (ma_li m)) i = Some tk \<and> tk_path tk = p \<and>
        t_hash ts (Inr (lf_bytes l)) = Inr (tk_launched_hash tk))"
proof -
  have wf: "tree_wf (ma_tree m)" and memo: "memo_ok ts (ma_tree m) (ma_li m)" and tracks: "tracks_ok ts (ma_tree m) (ma_li m)"
    using assms(1) by (simp_all add: machine_ok_def)
  show ?thesis
  proof (cases e)
    case (Ev_Start env)
    then show ?thesis
      using assms(2-4) start_files(2) [OF wf assms(2)] by (simp add: sweep_at_start_def Let_def)
  next
    case (Ev_Exit_Sweep env i)
    obtain t li where sw: "exit_sweep ts env (ma_tree m) (ma_tree m) i (ma_li m) = (t, li)" by fastforce
    from exit_sweep_facts [OF sw wf memo tracks] assms(2-4) show ?thesis by (auto simp: Ev_Exit_Sweep sw)
  next
    case (Ev_Answer env i action project)
    obtain r t li lib where an: "answer_session ts env le i action project (ma_tree m, ma_li m, ma_lib m) = (r, t, li, lib)"
      by (metis prod_cases4)
    then have "t \<noteq> ma_tree m" using assms(3,4) by (auto simp: Ev_Answer)
    then obtain s li1 where s: "session_ok ts (ma_tree m) s" "sd_launch_id (sn_dto s) = i" "\<not> sn_foreign s"
        "s \<in> set (fst (scan_sessions ts env (Some (ma_tree m)) (ma_li m)))"
        "sweep ts env s (ma_tree m, li1) = (t, li)" "memo_ok ts (ma_tree m) li1"
      using answer_session_facts [OF an memo wf tracks] by blast
    have "p = sn_path s"
      using sweep_facts(2) [OF s(5) session_ok_shape [OF s(1)] wf s(6) assms(2)] assms(3,4)
      by (auto simp: Ev_Answer an split: if_splits)
    then show ?thesis using s by (auto simp: answered_def Ev_Answer)
  next
    case (Ev_Discard env ids)
    obtain n t li where d: "discard_many ts env ids (ma_tree m, ma_li m) = (n, t, li)" by (metis prod_cases3)
    from discard_many_facts [OF d memo wf tracks] assms(2-4) show ?thesis
      by (auto simp: answered_def Ev_Discard d)
  next
    case (Outside t)
    then show ?thesis by (simp add: answered_def)
  qed (use assms(3,4) in simp_all)
qed

section \<open>Settling ends\<close>

text \<open>
  The tasks of one settle loop, each run at the time and on the directory it finds; the loop is over
  when a task asks for no other.
\<close>

fun settle_ticks :: "tools \<Rightarrow> str \<Rightarrow> (session_env \<times> tree) list \<Rightarrow> lifecycle \<Rightarrow> nat" where
  "settle_ticks ts i [] li = 0"
| "settle_ticks ts i ((env, t) # later) li =
     (case settle_task ts env t i li of
        (li1, []) \<Rightarrow> 1
      | (li1, _ # _) \<Rightarrow> Suc (settle_ticks ts i later li1))"

definition spaced :: "session_env list \<Rightarrow> bool" where
  "spaced envs \<longleftrightarrow> sorted_wrt (\<lambda>a b. se_now a + SETTLE_INTERVAL_MS \<le> se_now b) envs"

lemma probe_unsettled: "probe_file ts t p li = (pr, li') \<Longrightarrow> li_unsettled li' = li_unsettled li \<and> li_tracked li' = li_tracked li"
  by (auto simp: probe_file_def hash_now_def Let_def split: option.splits sum.splits if_splits prod.splits)

lemma inspect_settling:
  assumes "state_of_file ts env t p launched li = (Settling, li')"
  shows "\<exists>since. li_unsettled li' p = Some since \<and> se_now env - since < SETTLE_WINDOW_MS \<and>
    (case li_unsettled li p of None \<Rightarrow> since = se_now env | Some s \<Rightarrow> since = s) \<and> li_tracked li' = li_tracked li"
proof -
  obtain n where ins: "inspect ts env t p launched li = ((Settling, n), li')"
    using assms by (auto simp: state_of_file_def split: prod.splits)
  obtain pr li1 where pr: "probe_file ts t p li = (pr, li1)" by fastforce
  from ins probe_unsettled [OF pr] show ?thesis
    by (cases pr) (auto simp: inspect_def pr Let_def split: if_splits option.splits)
qed

lemma map_of_update_tracked:
  "map_of (li_tracked (update_tracked i f li)) i = map_option f (map_of (li_tracked li) i)"
proof -
  have "map_of (map (\<lambda>(k, tk). (k, if k = i then f tk else tk)) xs) i = map_option f (map_of xs i)" for xs
    by (induction xs) auto
  then show ?thesis by (simp add: update_tracked_def)
qed

lemma settle_task_goes_on:
  assumes "settle_task ts env t i li = (li', x # xs)" "map_of (li_tracked li) i = Some tk"
  shows "\<exists>tk'. map_of (li_tracked li') i = Some tk' \<and> tk_path tk' = tk_path tk \<and>
    (\<exists>since. li_unsettled li' (tk_path tk) = Some since \<and> se_now env - since < SETTLE_WINDOW_MS \<and>
       (case li_unsettled li (tk_path tk) of None \<Rightarrow> since = se_now env | Some s \<Rightarrow> since = s))"
proof -
  let ?li0 = "update_tracked i (\<lambda>tk. tk\<lparr>tk_pending := False\<rparr>) li"
  let ?li1 = "?li0\<lparr>li_comparisons := Suc (li_comparisons ?li0)\<rparr>"
  let ?tk = "tk\<lparr>tk_pending := False\<rparr>"
  have tk: "map_of (li_tracked ?li0) i = Some ?tk"
    using assms(2) by (simp add: map_of_update_tracked)
  have un: "li_unsettled ?li1 = li_unsettled li" by (simp add: update_tracked_def)
  obtain st li2 where st: "state_of_file ts env t (tk_path tk) (Some (tk_launched_hash tk)) ?li1 = (st, li2)" by fastforce
  have here: "st = Settling" and li': "\<exists>f. li' = update_tracked i f li2 \<and> (\<forall>tk. tk_path (f tk) = tk_path tk)"
    using assms(1) by (auto simp: settle_task_def settle_step_def tk st Let_def split: if_splits option.splits)
  from inspect_settling [OF st [unfolded here]] un li' tk show ?thesis
    by (auto simp: map_of_update_tracked) (auto simp: update_tracked_def)
qed

lemma settle_ticks_window:
  assumes "map_of (li_tracked li) i = Some tk" "li_unsettled li (tk_path tk) = Some since"
    "spaced (map fst ps)" "\<forall>e \<in> set (map fst ps). since + int k * SETTLE_INTERVAL_MS \<le> se_now e"
  shows "settle_ticks ts i ps li \<le> Suc (120 - k)"
  using assms
proof (induction ps arbitrary: li tk k)
  case (Cons p ps)
  obtain env t where p: "p = (env, t)" by fastforce
  obtain li1 tm where st: "settle_task ts env t i li = (li1, tm)" by fastforce
  show ?case
  proof (cases tm)
    case Nil
    then show ?thesis by (simp add: p st)
  next
    case (Cons x xs)
    from settle_task_goes_on [OF st [unfolded Cons] Cons.prems(1)] Cons.prems(2)
    obtain tk' where tk': "map_of (li_tracked li1) i = Some tk'" "li_unsettled li1 (tk_path tk') = Some since"
        "se_now env - since < SETTLE_WINDOW_MS" by auto
    have k: "k < 120" using tk'(3) Cons.prems(4) by (auto simp: p SETTLE_WINDOW_MS_def SETTLE_INTERVAL_MS_def)
    have "settle_ticks ts i ps li1 \<le> Suc (120 - Suc k)"
      by (rule Cons.IH [OF tk'(1,2)])
        (use Cons.prems(3,4) in \<open>fastforce simp: spaced_def p SETTLE_INTERVAL_MS_def\<close>)+
    then show ?thesis using k by (simp add: p st Cons)
  qed
qed simp

lemma settle_untracked: "map_of (li_tracked li) i = None \<Longrightarrow> settle_ticks ts i ps li \<le> 1"
  by (cases ps) (auto simp: settle_task_def settle_step_def map_of_update_tracked split: prod.splits)


section \<open>Properties\<close>

text \<open>C22
  The settle loop ends by itself: however the file and the directory change between the comparisons,
  a loop whose comparisons are at least the settle interval apart makes at most 121 of them, since a
  file that has not settled within the window is reported as unreadable.
\<close>

theorem settle_ends:
  assumes "spaced (map fst ps)"
    "\<forall>tk s. map_of (li_tracked li) i = Some tk \<and> li_unsettled li (tk_path tk) = Some s \<longrightarrow>
       (\<forall>e \<in> set (map fst ps). s \<le> se_now e)"
  shows "settle_ticks ts i ps li \<le> 121"
proof (cases "map_of (li_tracked li) i")
  case None
  then show ?thesis using settle_untracked [OF None, of ts ps] by simp
next
  case (Some tk)
  show ?thesis
  proof (cases "li_unsettled li (tk_path tk)")
    case None
    show ?thesis
    proof (cases ps)
      case (Cons p later)
      obtain env t where p: "p = (env, t)" by fastforce
      obtain li1 tm where st: "settle_task ts env t i li = (li1, tm)" by fastforce
      show ?thesis
      proof (cases tm)
        case tm: (Cons x xs)
        from settle_task_goes_on [OF st [unfolded tm] Some] None
        obtain tk' where tk': "map_of (li_tracked li1) i = Some tk'" "li_unsettled li1 (tk_path tk') = Some (se_now env)" by auto
        have "settle_ticks ts i later li1 \<le> Suc (120 - 1)"
          by (rule settle_ticks_window [OF tk']) (use assms(1) in \<open>auto simp: spaced_def p Cons\<close>)
        then show ?thesis by (simp add: Cons p st tm)
      qed (simp add: Cons p st)
    qed simp
  next
    case since: (Some s)
    have "settle_ticks ts i ps li \<le> Suc (120 - 0)"
      by (rule settle_ticks_window [OF Some since assms(1)]) (use assms(2) Some since in auto)
    then show ?thesis by simp
  qed
qed


definition sample_leaf :: leaf where
  "sample_leaf = \<lparr>lf_bytes = [1, 2, 3], lf_mtime = 5, lf_locked = False\<rparr>"

definition sample_launch :: launch_record where
  "sample_launch = \<lparr>lr_launch_id = lit ''L'', lr_mode = As_Is, lr_project_id = lit ''p'', lr_file_id = lit ''f'',
     lr_slicer_id = Orca, lr_install_id = [], lr_file_name = lit ''a.stl'', lr_launched_hash = [3],
     lr_started_at = 0, lr_library = None, lr_source_slicer = None, lr_source_size_bytes = None,
     lr_launched_entries = None, lr_swept_at = None\<rparr>"

text \<open>Tools whose hash is the length.\<close>

definition sample_tools :: tools where
  "sample_tools = \<lparr>t_hash = (\<lambda>f. case f of Inl e \<Rightarrow> Inl (app_error_of_io e) | Inr bs \<Rightarrow> Inr [length bs]),
     t_zip = (\<lambda>_. False), t_slicer = (\<lambda>_ _. None), t_digests = (\<lambda>_ _. None),
     t_parse = (\<lambda>_. Some (record_json sample_launch)), t_print = (\<lambda>_. [7])\<rparr>"

definition sample_tree :: "leaf \<Rightarrow> tree" where
  "sample_tree l = [(lit ''L'', Top_Folder (Some [(lit ''a.stl'', Child_File l), (LAUNCH_RECORD_NAME, Child_File sample_leaf)]))]"

definition sample_session_env :: session_env where
  "sample_session_env = \<lparr>se_now = 9, se_library = None, se_same = (\<lambda>_ _. True), se_removable = (\<lambda>_. True), se_writable = (\<lambda>_. False)\<rparr>"

definition sample_li :: lifecycle where
  "sample_li = \<lparr>li_tracked = [(lit ''L'', \<lparr>tk_path = Inside (lit ''L'') (lit ''a.stl''), tk_launched_hash = [3],
       tk_alive = True, tk_pending = False, tk_last_seen = None\<rparr>)],
     li_unsettled = Map.empty, li_hashes = Map.empty, li_comparisons = 0, li_hashed = 0\<rparr>"

definition sample_machine :: "unit machine" where
  "sample_machine = \<lparr>ma_tree = sample_tree sample_leaf, ma_li = sample_li, ma_lib = ()\<rparr>"

definition sample_end :: "(unit, unit) library_end" where
  "sample_end = \<lparr>le_names = (\<lambda>_ _. Inr []), le_upload = (\<lambda>_ _ _ l. (Inr (), l))\<rparr>"

lemma sample_record: "read_record sample_tools (sample_tree l) (lit ''L'') = Some sample_launch"
  by code_simp

lemma sample_machine_ok: "machine_ok sample_tools sample_machine"
proof -
  have "tree_wf (sample_tree sample_leaf)"
    by (auto simp: tree_wf_def sample_tree_def children_of_def LAUNCH_RECORD_NAME_def)
  moreover have "memo_ok sample_tools (sample_tree sample_leaf) sample_li"
    by (simp add: memo_ok_def sample_li_def)
  moreover have "47 \<notin> set (lit ''L'')" "lit ''a.stl'' \<noteq> LAUNCH_RECORD_NAME" "lr_file_name sample_launch = lit ''a.stl''"
    by code_simp+
  then have "tracks_ok sample_tools (sample_tree sample_leaf) sample_li"
    by (simp add: tracks_ok_def sample_li_def sample_record)
  ultimately show ?thesis by (simp add: machine_ok_def sample_machine_def)
qed

lemma sample_not_record: "not_record (Inside (lit ''L'') (lit ''a.stl''))"
  by code_simp

definition sample_ticks :: "(session_env \<times> tree) list" where
  "sample_ticks = [(sample_session_env, sample_tree (sample_leaf\<lparr>lf_locked := True\<rparr>)),
     (sample_session_env\<lparr>se_now := 600\<rparr>, sample_tree sample_leaf)]"

theorem settle_ends_witness:
  "settle_ticks sample_tools (lit ''L'') sample_ticks sample_li \<le> 121 \<and>
   settle_ticks sample_tools (lit ''L'') sample_ticks sample_li = 2"
proof -
  have "spaced (map fst sample_ticks)"
    by (simp add: sample_ticks_def spaced_def SETTLE_INTERVAL_MS_def sample_session_env_def)
  moreover have "settle_ticks sample_tools (lit ''L'') sample_ticks sample_li = 2" by code_simp
  ultimately show ?thesis
    using settle_ends [of sample_ticks sample_li "lit ''L''" sample_tools] by (simp add: sample_li_def)
qed


text \<open>C21
  An import answer that deletes a file has added exactly its bytes to the library first: the upload
  of the file's content succeeded, under a valid name the project did not hold.
\<close>

theorem import_deletes_only_added:
  assumes "answer_session ts env le i Import project (t, li, lib) = (r, t', li', lib')"
    "tree_wf t" "memo_ok ts t li" "tracks_ok ts t li" "not_record p"
    "file_at t p = Some l" "file_at t' p \<noteq> Some l"
  shows "\<exists>pr taken name added lib0. r = Inr (Some added) \<and> le_names le pr lib = Inr taken \<and>
     name \<notin> set taken \<and> is_ok (file_name name) \<and>
     le_upload le pr name (opened_leaf l) lib0 = (Inr added, lib')"
proof -
  have "t' \<noteq> t" using assms(6,7) by auto
  with answer_session_facts [OF assms(1,3,2,4)]
  obtain s li1 pr added where s: "session_ok ts t s" "sweep ts env s (t, li1) = (t', li')" "memo_ok ts t li1"
      "r = Inr (Some added)" and imp: "import_session ts le t s pr lib = (Inr added, lib')"
    by auto
  have "p = sn_path s"
    using sweep_facts(2) [OF s(2) session_ok_shape [OF s(1)] assms(2) s(3) assms(5)] assms(6,7)
    by (auto split: if_splits)
  then have "opened_at t (sn_path s) = opened_leaf l" using assms(6) by (simp add: opened_at_def)
  then show ?thesis using import_session_facts [OF imp] s(4) by metis
qed

lemma derived_name_first:
  assumes "stem_extension name = (stem, extension)"
    "derived_candidate (derived_base stem slicer) extension 1 \<notin> set taken"
    "file_name (derived_candidate (derived_base stem slicer) extension 1) = Inr ()"
  shows "derived_name name slicer taken = Inr (derived_candidate (derived_base stem slicer) extension 1)"
proof -
  obtain rest where "[1..<1000] = 1 # rest" using upt_conv_Cons [of 1 1000] by simp
  then have "find (\<lambda>n. derived_candidate (derived_base stem slicer) extension n \<notin> set taken) [1..<1000] = Some 1"
    using assms(2) by simp
  then show ?thesis unfolding derived_name_def using assms by (simp only: Let_def prod.case option.case sum.case)
qed

theorem import_deletes_only_added_witness:
  "\<exists>pr taken name added lib0. fst (answer_session sample_tools sample_session_env sample_end (lit ''L'') Import None
       (sample_tree sample_leaf, sample_li, ())) = Inr (Some added) \<and> le_names sample_end pr () = Inr taken \<and>
     name \<notin> set taken \<and> is_ok (file_name name) \<and>
     le_upload sample_end pr name (opened_leaf sample_leaf) lib0 = (Inr added, ())"
proof -
  obtain r t' li' where an: "answer_session sample_tools sample_session_env sample_end (lit ''L'') Import None
      (sample_tree sample_leaf, sample_li, ()) = (r, t', li', ())"
    by (metis prod_cases4 unit.exhaust)
  have there: "file_at (sample_tree sample_leaf) (Inside (lit ''L'') (lit ''a.stl'')) = Some sample_leaf"
    by code_simp
  let ?req = "require_session sample_tools sample_session_env (Some (sample_tree sample_leaf)) (lit ''L'') sample_li"
  obtain rs li1 where req: "?req = (rs, li1)" by fastforce
  have "(case fst ?req of Inl _ \<Rightarrow> False | Inr s \<Rightarrow> answer_refused s None = Inr (lit ''p'') \<and>
      sd_file_name (sn_dto s) = lit ''a.stl'' \<and> sn_path s = Inside (lit ''L'') (lit ''a.stl'') \<and>
      slicer_for sample_tools (sample_tree sample_leaf) s = Some Orca)"
    by code_simp
  then obtain s where s: "rs = Inr s" "answer_refused s None = Inr (lit ''p'')" "sd_file_name (sn_dto s) = lit ''a.stl''"
      "sn_path s = Inside (lit ''L'') (lit ''a.stl'')" "slicer_for sample_tools (sample_tree sample_leaf) s = Some Orca"
    by (auto simp: req split: sum.splits)
  have "stem_extension (lit ''a.stl'') = (lit ''a'', lit ''.stl'')" by code_simp
  moreover have "derived_candidate (derived_base (lit ''a'') (Some Orca)) (lit ''.stl'') 1 = lit ''a (orca).stl''"
    by code_simp
  moreover have "file_name (lit ''a (orca).stl'') = Inr ()"
    by (simp add: file_name_def length_between_def js_len_def utf16_len_def lit_def
        is_windows_device_name_def to_ascii_lowercase_def)
  ultimately have name: "derived_name (lit ''a.stl'') (Some Orca) [] = Inr (lit ''a (orca).stl'')"
    using derived_name_first [of "lit ''a.stl''" "lit ''a''" "lit ''.stl''" "Some Orca" "[]"] by simp
  have imp: "import_session sample_tools sample_end (sample_tree sample_leaf) s (lit ''p'') () = (Inr (), ())"
    by (simp add: import_session_def s name sample_end_def there bindE_def)
  have an': "(case sweep sample_tools sample_session_env s (sample_tree sample_leaf, li1) of
      (t2, li2) \<Rightarrow> (Inr (Some ()), t2, li2, ())) = (r, t', li', ())"
    using an by (simp add: answer_session_def req s imp)
  have gone: "file_at t' (Inside (lit ''L'') (lit ''a.stl'')) = None"
    using an' file_at_remove [of "sample_tree sample_leaf"] sample_machine_ok
    by (auto simp: sweep_def Let_def s sample_session_env_def machine_ok_def sample_machine_def folder_of_def
        file_at_remove_folder tree_wf_remove_at split: option.splits if_splits)
  have ok: "tree_wf (sample_tree sample_leaf)" "memo_ok sample_tools (sample_tree sample_leaf) sample_li"
    "tracks_ok sample_tools (sample_tree sample_leaf) sample_li"
    using sample_machine_ok by (simp_all add: machine_ok_def sample_machine_def)
  show ?thesis
    using import_deletes_only_added [OF an ok sample_not_record there] gone by (simp add: an)
qed

text \<open>
  The exit sweep compares once and then enumerates again; whatever that second look finds, a change
  saved in between included, the file is removed.
\<close>

theorem exit_sweep_ignores_rescan:
  assumes "map_of (li_tracked li) i = Some tk"
    "state_of_file ts env t (tk_path tk) (Some (tk_launched_hash tk)) li = (Unchanged, li1)"
    "scan_sessions ts env (Some t') li1 = (all, li2)" "find (\<lambda>s. sd_launch_id (sn_dto s) = i) all = Some s"
    "tree_wf t'" "memo_ok ts t' li1" "se_removable env (sn_path s)"
  shows "file_at (fst (exit_sweep ts env t t' i li)) (sn_path s) = None"
proof -
  obtain t2 li3 where sw: "sweep ts env s (t', li2) = (t2, li3)" by fastforce
  note scan = scan_facts [OF assms(3,6,5)]
  have shape: "session_shape s" using scan find_Some_set [OF assms(4)] session_ok_shape by auto
  have "not_record (sn_path s)" using shape by (simp add: session_shape_def)
  from sweep_facts(2) [OF sw shape assms(5) _ this] scan assms(7) have "file_at t2 (sn_path s) = None" by simp
  then show ?thesis by (simp add: exit_sweep_def assms(1-4) sw)
qed

definition edited_leaf :: leaf where
  "edited_leaf = sample_leaf\<lparr>lf_bytes := [1, 2, 3, 4, 5], lf_mtime := 6\<rparr>"

theorem exit_sweep_ignores_rescan_witness:
  "file_at (fst (exit_sweep sample_tools sample_session_env (sample_tree sample_leaf) (sample_tree edited_leaf) (lit ''L'') sample_li))
     (Inside (lit ''L'') (lit ''a.stl'')) = None \<and>
   map (sd_file_state \<circ> sn_dto) (fst (scan_sessions sample_tools sample_session_env (Some (sample_tree edited_leaf)) sample_li)) = [Changed]"
proof -
  let ?tk = "\<lparr>tk_path = Inside (lit ''L'') (lit ''a.stl''), tk_launched_hash = [3], tk_alive = True, tk_pending = False, tk_last_seen = None\<rparr>"
  let ?one = "state_of_file sample_tools sample_session_env (sample_tree sample_leaf) (tk_path ?tk) (Some (tk_launched_hash ?tk)) sample_li"
  let ?li1 = "snd ?one"
  let ?scan = "scan_sessions sample_tools sample_session_env (Some (sample_tree edited_leaf)) ?li1"
  have tk: "map_of (li_tracked sample_li) (lit ''L'') = Some ?tk" by (simp add: sample_li_def)
  have "fst ?one = Unchanged" by code_simp
  then have one: "?one = (Unchanged, ?li1)" by (metis prod.collapse)
  have found: "find (\<lambda>s. sd_launch_id (sn_dto s) = lit ''L'') (fst ?scan) = Some (hd (fst ?scan))" by code_simp
  have path: "sn_path (hd (fst ?scan)) = Inside (lit ''L'') (lit ''a.stl'')" by code_simp
  have wf: "tree_wf (sample_tree edited_leaf)"
    by (auto simp: tree_wf_def sample_tree_def children_of_def LAUNCH_RECORD_NAME_def)
  have "li_hashes ?li1 = [Inside (lit ''L'') (lit ''a.stl'') \<mapsto> ((5, 3), [3])]"
    by (simp add: state_of_file_def inspect_def probe_file_def hash_now_def looks_like_zip_def Let_def sample_li_def
        sample_tools_def file_at_def children_of_def sample_tree_def sample_leaf_def opened_leaf_def stamp_of_def
        numeral_3_eq_3)
  moreover have "file_at (sample_tree edited_leaf) (Inside (lit ''L'') (lit ''a.stl'')) = Some edited_leaf" by code_simp
  ultimately have ok: "memo_ok sample_tools (sample_tree edited_leaf) ?li1"
    using sample_not_record by (auto simp: memo_ok_def edited_leaf_def stamp_of_def sample_leaf_def split: if_splits)
  have changed: "map (sd_file_state \<circ> sn_dto) (fst (scan_sessions sample_tools sample_session_env (Some (sample_tree edited_leaf)) sample_li)) = [Changed]"
    by code_simp
  show ?thesis
    using exit_sweep_ignores_rescan [OF tk one prod.collapse [symmetric] found wf ok] changed
    unfolding path by (simp add: sample_session_env_def)
qed
end
