(* ===== verification/Strip3mf.thy ===== *)
theory Strip3mf
  imports Zip_Writer Classify
begin

text \<open>
  Removing a 3MF's embedded slicer configuration, \<^verbatim>\<open>crates/spm-core/src/files/strip3mf.rs\<close>, over the
  rewriter of \<open>Zip_Writer\<close> and the classification of \<open>Classify\<close>. The regular expressions are written
  as the matchers they are: leftmost, each lazy repetition stopping at its first way out. The input
  keeps its bytes while it is stripped; a failing copy or removal of the output is an argument.
  Properties: a strip delivers a configuration-free archive without dangling references or nothing,
  and a part name is recognised however it is escaped.
\<close>

section \<open>Refusals\<close>

datatype strip_reason = Encrypted_Entry | Unreadable_Zip | Left_Behind

fun strip_reason_as_str :: "strip_reason \<Rightarrow> str" where
  "strip_reason_as_str Encrypted_Entry = lit ''encrypted''"
| "strip_reason_as_str Unreadable_Zip = lit ''unreadable''"
| "strip_reason_as_str Left_Behind = lit ''configuration-left-behind''"

definition strip_reason_parse :: "str \<Rightarrow> strip_reason option" where
  "strip_reason_parse value =
     find (\<lambda>r. strip_reason_as_str r = value) [Encrypted_Entry, Unreadable_Zip, Left_Behind]"

definition strip_refusal_reason :: "app_error \<Rightarrow> strip_reason option" where
  "strip_refusal_reason e =
     (case err_details e of
        None \<Rightarrow> None
      | Some ds \<Rightarrow>
          (case map_of ds (lit ''reason'') of Some (JStr r) \<Rightarrow> strip_reason_parse r | _ \<Rightarrow> None))"

definition strip_refusal :: "strip_reason \<Rightarrow> str \<Rightarrow> details \<Rightarrow> app_error" where
  "strip_refusal reason message extra =
     with_details (validation message) (AList.update (lit ''reason'') (JStr (strip_reason_as_str reason)) extra)"

record strip_result =
  sr_classification :: classification
  sr_stripped :: bool
  sr_removed :: "str list"
  sr_rewritten :: "str list"

definition classification_json :: "classification \<Rightarrow> json" where
  "classification_json c =
     JObj [(lit ''kind'', JStr (file_kind_as_str (cl_kind c))),
           (lit ''slicer'', case cl_slicer c of None \<Rightarrow> JNull | Some s \<Rightarrow> JStr (slicer_id_as_str s))]"

section \<open>The strip sets\<close>

definition CURA_STRIP_PREFIX :: str where "CURA_STRIP_PREFIX = lit ''Cura/''"

definition PRUSA_STRIP_ENTRIES :: "str list" where
  "PRUSA_STRIP_ENTRIES = [lit ''Metadata/Slic3r_PE.config'', lit ''Metadata/Slic3r_PE_model.config'']"

definition BAMBU_LINEAGE_STRIP_ENTRIES :: "str list" where
  "BAMBU_LINEAGE_STRIP_ENTRIES =
     [lit ''Metadata/slice_info.config'', lit ''Metadata/project_settings.config'',
      lit ''Metadata/model_settings.config'', lit ''Metadata/custom_gcode_per_layer.xml'',
      lit ''Metadata/cut_information.xml'']"

definition strip_set_for :: "classification \<Rightarrow> str list \<Rightarrow> str list" where
  "strip_set_for c names =
     (if cl_kind c = Model then []
      else
        (case cl_slicer c of
           Some Cura \<Rightarrow> filter (starts_with CURA_STRIP_PREFIX) names
         | Some Prusaslicer \<Rightarrow> filter (\<lambda>name. name \<in> set names) PRUSA_STRIP_ENTRIES
         | _ \<Rightarrow> filter (\<lambda>name. name \<in> set names) BAMBU_LINEAGE_STRIP_ENTRIES))"

section \<open>The parts that name other parts\<close>

definition CONTENT_TYPES :: str where "CONTENT_TYPES = lit ''[Content_Types].xml''"

definition slash_parts :: "str \<Rightarrow> str list" where
  "slash_parts = split_on (\<lambda>c. c = 47)"

definition is_rels_part :: "str \<Rightarrow> bool" where
  "is_rels_part name =
     (case rev (slash_parts name) of
        leaf # folder # _ \<Rightarrow> folder = lit ''_rels'' \<and> leaf \<noteq> []
      | _ \<Rightarrow> False)"

definition is_referencing_part :: "str \<Rightarrow> bool" where
  "is_referencing_part name \<longleftrightarrow> name = CONTENT_TYPES \<or> is_rels_part name"

section \<open>Elements and attributes\<close>

definition is_alpha :: "nat \<Rightarrow> bool" where
  "is_alpha c \<longleftrightarrow> 65 \<le> c \<and> c \<le> 90 \<or> 97 \<le> c \<and> c \<le> 122"

definition is_dec_digit :: "nat \<Rightarrow> bool" where
  "is_dec_digit c \<longleftrightarrow> 48 \<le> c \<and> c \<le> 57"

definition word_char :: "nat \<Rightarrow> bool" where
  "word_char c \<longleftrightarrow> is_alpha c \<or> is_dec_digit c \<or> c = 95"

definition prefix_char :: "nat \<Rightarrow> bool" where
  "prefix_char c \<longleftrightarrow> word_char c \<or> c = 46 \<or> c = 45"

text \<open>A run of characters, and one more: that one, and the text behind it.\<close>

definition skip_to :: "(nat \<Rightarrow> bool) \<Rightarrow> (nat \<Rightarrow> bool) \<Rightarrow> str \<Rightarrow> (nat \<times> str) option" where
  "skip_to p q s = (case dropWhile p s of [] \<Rightarrow> None | d # rest \<Rightarrow> if q d then Some (d, rest) else None)"

lemma skip_to_shorter: "skip_to p q s = Some (d, rest) \<Longrightarrow> length rest < length s"
proof -
  assume "skip_to p q s = Some (d, rest)"
  then have "dropWhile p s = d # rest" unfolding skip_to_def by (cases "dropWhile p s") (simp_all split: if_splits)
  with length_dropWhile_le [of p s] show ?thesis by simp
qed

text \<open>The text behind a namespace prefix, when there is one.\<close>

definition skip_prefix :: "str \<Rightarrow> str option" where
  "skip_prefix s =
     (case s of
        [] \<Rightarrow> None
      | c # r \<Rightarrow>
          if is_alpha c \<or> c = 95
          then map_option snd (skip_to prefix_char (\<lambda>d. d = 58) r) else None)"

definition or_else :: "'a option \<Rightarrow> 'a option \<Rightarrow> 'a option" where
  "or_else a b = (case a of None \<Rightarrow> b | Some x \<Rightarrow> Some x)"

text \<open>An element name that ends at a word boundary.\<close>

definition after_name :: "str \<Rightarrow> str \<Rightarrow> str option" where
  "after_name name s =
     Option.bind (strip_prefix name s) (\<lambda>rest. if rest = [] \<or> \<not> word_char (hd rest) then Some rest else None)"

definition close_tail :: "str \<Rightarrow> str \<Rightarrow> str option" where
  "close_tail name s =
     Option.bind (strip_prefix name s) (\<lambda>r. map_option snd (skip_to is_whitespace (\<lambda>d. d = 62) r))"

definition close_tag :: "str \<Rightarrow> str \<Rightarrow> str option" where
  "close_tag name s =
     Option.bind (strip_prefix (lit ''</'') s) (\<lambda>r.
       or_else (Option.bind (skip_prefix r) (close_tail name)) (close_tail name r))"

fun after_close :: "str \<Rightarrow> str \<Rightarrow> str option" where
  "after_close name [] = None"
| "after_close name (c # s) = or_else (close_tag name (c # s)) (after_close name s)"

text \<open>What follows the name: attributes up to the first \<open>>\<close>, then nothing or the closing tag.\<close>

definition element_tail :: "str \<Rightarrow> str \<Rightarrow> str option" where
  "element_tail name s =
     (let attrs = takeWhile (\<lambda>c. c \<noteq> 62) s in
      case dropWhile (\<lambda>c. c \<noteq> 62) s of
        [] \<Rightarrow> None
      | _ # rest \<Rightarrow> if attrs \<noteq> [] \<and> last attrs = 47 then Some rest else after_close name rest)"

text \<open>The text behind an element of this name at the front, when one is there.\<close>

definition element_at :: "str \<Rightarrow> str \<Rightarrow> str option" where
  "element_at name s =
     (case s of
        [] \<Rightarrow> None
      | c # r \<Rightarrow>
          if c \<noteq> 60 then None
          else or_else (Option.bind (Option.bind (skip_prefix r) (after_name name)) (element_tail name))
                       (Option.bind (after_name name r) (element_tail name)))"

lemma strip_prefix_shorter: "strip_prefix p s = Some r \<Longrightarrow> length r \<le> length s"
  by (auto simp: strip_prefix_def split: if_splits)

lemma skip_prefix_shorter: "skip_prefix s = Some r \<Longrightarrow> length r \<le> length s"
  by (auto simp: skip_prefix_def dest!: skip_to_shorter split: list.splits if_splits)

lemma close_tag_shorter: "close_tag name s = Some r \<Longrightarrow> length r \<le> length s"
proof -
  assume "close_tag name s = Some r"
  then obtain a b where a: "strip_prefix (lit ''</'') s = Some a" "close_tail name b = Some r" "length b \<le> length a"
    by (auto simp: close_tag_def or_else_def bind_eq_Some_conv dest: skip_prefix_shorter split: option.splits)
  from a(2) obtain x d where "strip_prefix name b = Some x" "skip_to is_whitespace (\<lambda>d. d = 62) x = Some (d, r)"
    by (auto simp: close_tail_def bind_eq_Some_conv)
  with a show ?thesis by (auto dest!: strip_prefix_shorter skip_to_shorter)
qed

lemma after_close_shorter: "after_close name s = Some r \<Longrightarrow> length r \<le> length s"
  by (induction s) (fastforce simp: or_else_def dest: close_tag_shorter split: option.splits)+

lemma element_tail_shorter: "element_tail name s = Some r \<Longrightarrow> length r \<le> length s"
proof -
  assume "element_tail name s = Some r"
  then obtain d x where "dropWhile (\<lambda>c. c \<noteq> 62) s = d # x" "x = r \<or> after_close name x = Some r"
    by (auto simp: element_tail_def Let_def split: list.splits if_splits)
  with length_dropWhile_le [of "\<lambda>c. c \<noteq> 62" s] show ?thesis by (auto dest!: after_close_shorter)
qed

lemma element_at_shorter: "element_at name s = Some r \<Longrightarrow> length r < length s"
proof -
  assume "element_at name s = Some r"
  then obtain c t a b where "s = c # t" "after_name name a = Some b" "element_tail name b = Some r" "length a \<le> length t"
    by (auto simp: element_at_def or_else_def bind_eq_Some_conv dest: skip_prefix_shorter
        split: list.splits option.splits if_splits)
  then show ?thesis
    by (auto simp: after_name_def bind_eq_Some_conv split: if_splits dest!: strip_prefix_shorter element_tail_shorter)
qed

text \<open>\<^verbatim>\<open>replace_all\<close>: the text without the accepted elements, and whether there were any.\<close>

function drop_loop :: "str \<Rightarrow> (str \<Rightarrow> bool) \<Rightarrow> str \<Rightarrow> str \<times> bool" where
  "drop_loop name accept s =
     (case s of
        [] \<Rightarrow> ([], False)
      | c # t \<Rightarrow>
          (case element_at name s of
             None \<Rightarrow> (let (out, changed) = drop_loop name accept t in (c # out, changed))
           | Some rest \<Rightarrow>
               let element = take (length s - length rest) s;
                   (out, changed) = drop_loop name accept rest
               in if accept element then (out, True) else (element @ out, changed)))"
  by pat_completeness auto
termination
  by (relation "measure (\<lambda>(name, accept, s). length s)") (auto dest: element_at_shorter)

declare drop_loop.simps [simp del]

definition drop_elements :: "str \<Rightarrow> (str \<Rightarrow> bool) \<Rightarrow> str \<Rightarrow> str option" where
  "drop_elements name accept s = (case drop_loop name accept s of (out, changed) \<Rightarrow> if changed then Some out else None)"

text \<open>An attribute of one of these names at the front: its value, and the text behind it.\<close>

definition attr_at :: "str list \<Rightarrow> str \<Rightarrow> (str \<times> str) option" where
  "attr_at names s =
     Option.bind (find (\<lambda>name. starts_with name s) names) (\<lambda>name.
       Option.bind (skip_to is_whitespace (\<lambda>e. e = 61) (drop (length name) s)) (\<lambda>(_, r).
       Option.bind (skip_to is_whitespace (\<lambda>q. q = 34 \<or> q = 39) r) (\<lambda>(q, v).
         map_option (\<lambda>(_, rest). (takeWhile (\<lambda>c. c \<noteq> q) v, rest)) (skip_to (\<lambda>c. c \<noteq> q) (\<lambda>c. True) v))))"

lemma attr_at_shorter: "attr_at names s = Some (v, rest) \<Longrightarrow> length rest < length s"
  by (fastforce simp: attr_at_def bind_eq_Some_conv split: prod.splits dest!: skip_to_shorter)

text \<open>The values of these attributes, in order; \<open>boundary\<close>: the character before is no word character.\<close>

function attr_values :: "str list \<Rightarrow> bool \<Rightarrow> str \<Rightarrow> str list" where
  "attr_values names boundary s =
     (case s of
        [] \<Rightarrow> []
      | c # t \<Rightarrow>
          (case if boundary then attr_at names s else None of
             None \<Rightarrow> attr_values names (\<not> word_char c) t
           | Some (v, rest) \<Rightarrow> v # attr_values names True rest))"
  by pat_completeness auto
termination
  by (relation "measure (\<lambda>(names, boundary, s). length s)") (auto dest: attr_at_shorter split: if_splits)

declare attr_values.simps [simp del]

definition attribute :: "str \<Rightarrow> str \<Rightarrow> str option" where
  "attribute name element = (case attr_values [name] True element of [] \<Rightarrow> None | v # _ \<Rightarrow> Some v)"

definition part_references :: "str \<Rightarrow> str list" where
  "part_references s = attr_values [lit ''Target'', lit ''PartName''] True s"


section \<open>Part names\<close>

definition named_entity :: "str \<Rightarrow> nat option" where
  "named_entity name =
     map_of [(lit ''amp'', 38), (lit ''lt'', 60), (lit ''gt'', 62), (lit ''quot'', 34), (lit ''apos'', 39)] name"

definition hex_value :: "nat \<Rightarrow> nat option" where
  "hex_value c =
     (if 48 \<le> c \<and> c \<le> 57 then Some (c - 48)
      else if 65 \<le> c \<and> c \<le> 70 then Some (c - 55)
      else if 97 \<le> c \<and> c \<le> 102 then Some (c - 87) else None)"

definition is_hex :: "nat \<Rightarrow> bool" where "is_hex c \<longleftrightarrow> hex_value c \<noteq> None"

definition radix_value :: "nat \<Rightarrow> str \<Rightarrow> nat" where
  "radix_value radix digits = foldl (\<lambda>n c. n * radix + (case hex_value c of None \<Rightarrow> 0 | Some d \<Rightarrow> d)) 0 digits"

text \<open>\<^verbatim>\<open>u32::from_str_radix\<close> then \<^verbatim>\<open>char::from_u32\<close>.\<close>

definition char_of_digits :: "nat \<Rightarrow> str \<Rightarrow> nat option" where
  "char_of_digits radix digits =
     (let v = radix_value radix digits in if v < 2 ^ 32 \<and> scalar v then Some v else None)"

text \<open>
  A character reference, behind its \<open>&\<close>: what it stands for, \<open>None\<close> when it stays as it is, and the
  text behind its semicolon.
\<close>

definition reference_body :: "(nat \<Rightarrow> bool) \<Rightarrow> str \<Rightarrow> (str \<times> str) option" where
  "reference_body digit s =
     (let digits = takeWhile digit s in
      case dropWhile digit s of
        [] \<Rightarrow> None
      | d # rest \<Rightarrow> if d = 59 \<and> digits \<noteq> [] then Some (digits, rest) else None)"

definition char_reference :: "str \<Rightarrow> (nat option \<times> str) option" where
  "char_reference s =
     (case s of
        [] \<Rightarrow> None
      | c # r \<Rightarrow>
          if c = 35
          then (case reference_body is_dec_digit r of
                  Some (digits, rest) \<Rightarrow> Some (char_of_digits 10 digits, rest)
                | None \<Rightarrow>
                    (case r of
                       [] \<Rightarrow> None
                     | x # h \<Rightarrow>
                         if x = 120 \<or> x = 88
                         then map_option (\<lambda>(digits, rest). (char_of_digits 16 digits, rest)) (reference_body is_hex h)
                         else None))
          else map_option (\<lambda>(name, rest). (named_entity name, rest)) (reference_body is_alpha s))"

lemma reference_body_shorter: "reference_body digit s = Some (digits, rest) \<Longrightarrow> length rest < length s"
proof -
  assume "reference_body digit s = Some (digits, rest)"
  then obtain d where "dropWhile digit s = d # rest"
    unfolding reference_body_def Let_def by (cases "dropWhile digit s") (simp_all split: if_splits)
  with length_dropWhile_le [of digit s] show ?thesis by simp
qed

lemma char_reference_shorter: "char_reference s = Some (v, rest) \<Longrightarrow> length rest < length s"
  by (fastforce simp: char_reference_def split: list.splits if_splits option.splits dest!: reference_body_shorter)

function decode_character_references :: "str \<Rightarrow> str" where
  "decode_character_references s =
     (case s of
        [] \<Rightarrow> []
      | c # t \<Rightarrow>
          (case if c = 38 then char_reference t else None of
             None \<Rightarrow> c # decode_character_references t
           | Some (v, rest) \<Rightarrow>
               (case v of None \<Rightarrow> take (length s - length rest) s | Some ch \<Rightarrow> [ch])
                 @ decode_character_references rest))"
  by pat_completeness auto
termination
  by (relation "measure length") (auto dest: char_reference_shorter split: if_splits)

declare decode_character_references.simps [simp del]

fun unescape :: "bytes \<Rightarrow> bytes option" where
  "unescape [] = Some []"
| "unescape (b # bs) =
     (if b = 0x25
      then (case bs of
              h # l # rest \<Rightarrow>
                (case (hex_value (unat h), hex_value (unat l)) of
                   (Some x, Some y) \<Rightarrow> map_option ((#) (of_nat (16 * x + y))) (unescape rest)
                 | _ \<Rightarrow> None)
            | _ \<Rightarrow> None)
      else map_option ((#) b) (unescape bs))"

definition decode_uri_component :: "str \<Rightarrow> str option" where
  "decode_uri_component s =
     Option.bind (unescape (utf8_encode s)) (\<lambda>bs. case from_utf8 bs of (t, None) \<Rightarrow> Some t | _ \<Rightarrow> None)"

fun scheme_rest :: "str \<Rightarrow> bool" where
  "scheme_rest [] = False"
| "scheme_rest (c # s) =
     (if c = 58 then True
      else if \<not> (is_alpha c \<or> is_dec_digit c \<or> c = 43 \<or> c = 46 \<or> c = 45) then False else scheme_rest s)"

definition has_scheme :: "str \<Rightarrow> bool" where
  "has_scheme s = (case s of [] \<Rightarrow> False | c # r \<Rightarrow> is_alpha c \<and> scheme_rest r)"

fun push_segments :: "str list \<Rightarrow> str list \<Rightarrow> str list" where
  "push_segments base [] = base"
| "push_segments base (seg # segs) =
     push_segments (if seg = [] \<or> seg = lit ''.'' then base
                    else if seg = lit ''..'' then butlast base else base @ [seg]) segs"

fun join_slash :: "str list \<Rightarrow> str" where
  "join_slash [] = []"
| "join_slash [p] = p"
| "join_slash (p # q # ps) = p @ [47] @ join_slash (q # ps)"

definition resolve_part_name :: "str \<Rightarrow> str \<Rightarrow> str option" where
  "resolve_part_name part_name reference =
     (let literal = decode_character_references reference in
      if has_scheme literal then None
      else
        let without_fragment = takeWhile (\<lambda>c. c \<noteq> 63) (takeWhile (\<lambda>c. c \<noteq> 35) literal);
            decoded = (case decode_uri_component without_fragment of None \<Rightarrow> without_fragment | Some d \<Rightarrow> d);
            rooted = (starts_with (lit ''/'') decoded);
            parts = slash_parts part_name;
            base = (if rooted then [] else take (length parts - 2) parts)
        in Some (join_slash (push_segments base (slash_parts (if rooted then drop 1 decoded else decoded)))))"

section \<open>Repairing references\<close>

definition names_removed :: "str \<Rightarrow> str list \<Rightarrow> str option \<Rightarrow> bool" where
  "names_removed name removed reference =
     (case reference of
        None \<Rightarrow> False
      | Some r \<Rightarrow> (case resolve_part_name name r of None \<Rightarrow> False | Some part \<Rightarrow> part \<in> set removed))"

definition repair_references :: "str \<Rightarrow> str \<Rightarrow> str list \<Rightarrow> str option" where
  "repair_references name content removed =
     (if name = CONTENT_TYPES
      then drop_elements (lit ''Override'')
             (\<lambda>element. names_removed name removed (attribute (lit ''PartName'') element)) content
      else drop_elements (lit ''Relationship'')
             (\<lambda>element. attribute (lit ''TargetMode'') element \<noteq> Some (lit ''External'') \<and>
                names_removed name removed (attribute (lit ''Target'') element)) content)"

definition dangling_reference :: "str \<Rightarrow> str \<Rightarrow> str list \<Rightarrow> str option" where
  "dangling_reference name content removed =
     List.find (\<lambda>part. part \<in> set removed) (List.map_filter (resolve_part_name name) (part_references content))"

section \<open>Stripping\<close>

text \<open>The replacement texts; a later entry of the same name wins.\<close>

fun repairs ::
  "(source \<Rightarrow> nat \<Rightarrow> nat \<Rightarrow> 'd) \<Rightarrow> ('d \<Rightarrow> nat \<Rightarrow> (inflate_fault + bytes) \<times> 'd) \<Rightarrow> source \<Rightarrow> str list \<Rightarrow>
   zip_entry list \<Rightarrow> (str \<times> bytes) list outcome" where
  "repairs inflate_new inflate_read src removed [] = Inr []"
| "repairs inflate_new inflate_read src removed (entry # entries) =
     (if ze_name entry \<in> set removed \<or> \<not> is_referencing_part (ze_name entry)
      then repairs inflate_new inflate_read src removed entries
      else
        bindE (read_zip_entry_text inflate_new inflate_read src entry) (\<lambda>original.
          let repaired = repair_references (ze_name entry) original removed;
              written = (case repaired of None \<Rightarrow> original | Some r \<Rightarrow> r)
          in case dangling_reference (ze_name entry) written removed of
               Some target \<Rightarrow>
                 Inl (Failed (strip_refusal Left_Behind (lit ''stripping left a reference to a part it removed'')
                   [(lit ''part'', JStr (ze_name entry)), (lit ''target'', JStr target)]))
             | None \<Rightarrow>
                 bindE (repairs inflate_new inflate_read src removed entries) (\<lambda>rest.
                   Inr (case repaired of None \<Rightarrow> rest | Some r \<Rightarrow> rest @ [(ze_name entry, utf8_encode r)]))))"

text \<open>\<^verbatim>\<open>fs::copy\<close> with what it leaves when it fails.\<close>

datatype copy_outcome = Copied | Copy_Failed io_error "bytes option"

definition strip_into ::
  "(bytes \<Rightarrow> u32) \<Rightarrow> (source \<Rightarrow> nat \<Rightarrow> nat \<Rightarrow> 'd) \<Rightarrow> ('d \<Rightarrow> nat \<Rightarrow> (inflate_fault + bytes) \<times> 'd) \<Rightarrow> os \<Rightarrow>
   copy_outcome \<Rightarrow> opened \<Rightarrow> bytes option \<Rightarrow> classification \<Rightarrow> strip_result outcome \<times> bytes option" where
  "strip_into crc32 inflate_new inflate_read os copy file output c =
     (case file of
        Inl e \<Rightarrow> (Inl (Failed (app_error_of_io e)), output)
      | Inr data \<Rightarrow>
          (case read_zip_entries os data of
             Inl f \<Rightarrow> (Inl f, output)
           | Inr entries \<Rightarrow>
               let removed = strip_set_for c (map ze_name entries) in
               if removed = [] then
                 (case copy of
                    Copied \<Rightarrow> (Inr \<lparr>sr_classification = c, sr_stripped = False, sr_removed = [], sr_rewritten = []\<rparr>, Some data)
                  | Copy_Failed e left \<Rightarrow> (Inl (Failed (app_error_of_io e)), left))
               else
                 (case repairs inflate_new inflate_read (source_open os data) removed entries of
                    Inl f \<Rightarrow> (Inl f, output)
                  | Inr replace \<Rightarrow>
                      (case rewrite_zip crc32 os data output \<lparr>rw_drop = removed, rw_replace = replace\<rparr> of
                         (Inl f, output1) \<Rightarrow> (Inl f, output1)
                       | (Inr written, output1) \<Rightarrow>
                           (Inr \<lparr>sr_classification = c, sr_stripped = True, sr_removed = rr_dropped written,
                              sr_rewritten = rr_replaced written\<rparr>, output1)))))"

text \<open>The file at the output path, opened.\<close>

definition output_file :: "bytes option \<Rightarrow> opened" where
  "output_file output = (case output of None \<Rightarrow> Inl (Other_Io (lit ''not found'')) | Some bs \<Rightarrow> Inr bs)"

definition same_file :: "('p \<Rightarrow> 'p option) \<Rightarrow> 'p \<Rightarrow> 'p \<Rightarrow> bool" where
  "same_file canonicalize a b \<longleftrightarrow>
     a = b \<or> (case (canonicalize a, canonicalize b) of (Some x, Some y) \<Rightarrow> x = y | _ \<Rightarrow> False)"

definition error_text :: "app_error \<Rightarrow> str" where
  "error_text e = code_as_str (err_code e) @ lit '': '' @ err_message e"

definition strip3mf ::
  "(bytes \<Rightarrow> u32) \<Rightarrow> (source \<Rightarrow> nat \<Rightarrow> nat \<Rightarrow> 'd) \<Rightarrow> ('d \<Rightarrow> nat \<Rightarrow> (inflate_fault + bytes) \<times> 'd) \<Rightarrow> os \<Rightarrow>
   copy_outcome \<Rightarrow> bool \<Rightarrow> str \<Rightarrow> opened \<Rightarrow> bytes option \<Rightarrow> strip_result outcome \<times> bytes option" where
  "strip3mf crc32 inflate_new inflate_read os copy same input file output =
     (if same then
        (Inl (Failed (strip_refusal Unreadable_Zip (lit ''a 3MF cannot be stripped onto itself'')
           [(lit ''path'', JStr input)])), output)
      else
        (case classify_3mf inflate_new inflate_read os file of
           Inl f \<Rightarrow> (Inl f, output)
         | Inr c \<Rightarrow>
             if cl_kind c = OtherFile then
               (Inl (Failed (strip_refusal Unreadable_Zip (lit ''file is not a readable 3MF archive'')
                  [(lit ''path'', JStr input)])), output)
             else
               (let (r, output1) = strip_into crc32 inflate_new inflate_read os copy file output c;
                    r1 = bindE r (\<lambda>result.
                      bindE (classify_3mf inflate_new inflate_read os (output_file output1)) (\<lambda>after.
                        if cl_kind after = Model then Inr result
                        else Inl (Failed (strip_refusal Left_Behind (lit ''stripping left slicer configuration in the file'')
                               [(lit ''was'', classification_json c), (lit ''after'', classification_json after)]))))
                in case r1 of
                     Inr result \<Rightarrow> (Inr result, output1)
                   | Inl Panic \<Rightarrow> (Inl Panic, output1)
                   | Inl (Failed e) \<Rightarrow>
                       (Inl (Failed
                          (if strip_refusal_reason e \<noteq> None then e
                           else strip_refusal Unreadable_Zip (lit ''the 3MF could not be rewritten'')
                                  [(lit ''cause'', JStr (error_text e))])), None))))"

section \<open>Refusals name a reason\<close>

interpretation strip_reason: wire_enum strip_reason_as_str strip_reason_parse
  apply unfold_locales
  subgoal for c by (cases c) (simp_all add: strip_reason_parse_def)
  subgoal by (auto simp: strip_reason_parse_def split: if_splits)
  done

lemma strip_refusal_names [simp]: "strip_refusal_reason (strip_refusal r message extra) = Some r"
  by (simp add: strip_refusal_reason_def strip_refusal_def with_details_def update_conv' strip_reason.parse_as_str)

section \<open>Nothing panics\<close>

lemma no_panic_text [no_panics]: "no_panic (read_zip_entry_text inflate_new inflate_read src entry)"
  unfolding read_zip_entry_text_def by (intro no_panics no_panic_simps)

lemma no_panic_repairs: "no_panic (repairs inflate_new inflate_read src removed entries)"
proof (induction entries)
  case (Cons entry entries)
  then show ?case by (auto intro!: no_panics simp: Let_def split: option.split)
qed simp

lemma no_panic_rewrite: "fst (rewrite_zip crc32 os data output rw) \<noteq> Inl Panic"
proof -
  have "no_panic (read_zip_entries os data)" unfolding read_zip_entries_def by (rule no_panics)
  then show ?thesis
    by (auto simp: rewrite_zip_def no_panic_def Let_def split: sum.splits list.splits prod.splits if_splits)
qed

lemma no_panic_strip_into: "fst (strip_into crc32 inflate_new inflate_read os copy file output c) \<noteq> Inl Panic"
proof -
  have "no_panic (read_zip_entries os data)" for data unfolding read_zip_entries_def by (rule no_panics)
  then have "read_zip_entries os data \<noteq> Inl Panic" for data by (simp add: no_panic_def)
  moreover have "repairs inflate_new inflate_read src removed entries \<noteq> Inl Panic" for src removed entries
    using no_panic_repairs by (simp add: no_panic_def)
  moreover have "rewrite_zip crc32 os data output rw \<noteq> (Inl Panic, out1)" for data rw out1
    using no_panic_rewrite by (metis fst_conv)
  ultimately show ?thesis
    by (auto simp: strip_into_def Let_def split: sum.splits copy_outcome.splits prod.splits)
qed

section \<open>What the repairs guarantee\<close>

lemma repairs_facts:
  assumes "repairs inflate_new inflate_read src removed entries = Inr replace"
  shows "(\<forall>(n, b) \<in> set replace. is_referencing_part n \<and> (\<exists>s. b = utf8_encode s \<and> dangling_reference n s removed = None)) \<and>
    (\<forall>e \<in> set entries. ze_name e \<notin> set removed \<and> is_referencing_part (ze_name e) \<and> map_of replace (ze_name e) = None \<longrightarrow>
       (\<exists>s. read_zip_entry_text inflate_new inflate_read src e = Inr s \<and> dangling_reference (ze_name e) s removed = None))"
  using assms
proof (induction entries arbitrary: replace)
  case (Cons entry entries)
  show ?case
  proof (cases "ze_name entry \<in> set removed \<or> \<not> is_referencing_part (ze_name entry)")
    case True
    then show ?thesis using Cons by auto
  next
    case False
    obtain original rest where o: "read_zip_entry_text inflate_new inflate_read src entry = Inr original"
      "repairs inflate_new inflate_read src removed entries = Inr rest"
      and d: "dangling_reference (ze_name entry)
        (case repair_references (ze_name entry) original removed of None \<Rightarrow> original | Some r \<Rightarrow> r) removed = None"
      and r: "replace = (case repair_references (ze_name entry) original removed of None \<Rightarrow> rest
         | Some r \<Rightarrow> rest @ [(ze_name entry, utf8_encode r)])"
      using Cons.prems False by (auto simp: bindE_eq_Inr Let_def split: option.splits)
    note ih = Cons.IH [OF o(2)]
    show ?thesis
    proof (cases "repair_references (ze_name entry) original removed")
      case None
      then show ?thesis using ih r d o(1) by simp
    next
      case (Some t)
      let ?new = "(ze_name entry, utf8_encode t)"
      have rep: "replace = rest @ [?new]" using r Some by simp
      have none: "map_of replace n = None \<longleftrightarrow> map_of rest n = None \<and> n \<noteq> ze_name entry" for n
        unfolding rep map_of_eq_None_iff by auto
      have dn: "dangling_reference (ze_name entry) t removed = None" using d Some by simp
      have "\<forall>(n, b) \<in> set replace. is_referencing_part n \<and> (\<exists>s. b = utf8_encode s \<and> dangling_reference n s removed = None)"
        using ih False dn unfolding rep by auto
      then show ?thesis using ih unfolding none by auto
    qed
  qed
qed simp

text \<open>An entry of the output beside the entry it comes from.\<close>

definition stripped_entry ::
  "(source \<Rightarrow> nat \<Rightarrow> nat \<Rightarrow> 'd) \<Rightarrow> ('d \<Rightarrow> nat \<Rightarrow> (inflate_fault + bytes) \<times> 'd) \<Rightarrow> os \<Rightarrow> bytes \<Rightarrow> bytes \<Rightarrow>
   str list \<Rightarrow> zip_entry \<Rightarrow> zip_entry \<Rightarrow> bool" where
  "stripped_entry inflate_new inflate_read os data out removed e e' \<longleftrightarrow>
     ze_name e' = decode_utf8 (utf8_encode (ze_name e)) \<and>
     (raw_entry_data os out e' = raw_entry_data os data e \<and> ze_method e' = ze_method e \<or>
      is_referencing_part (ze_name e) \<and> ze_method e' = 0) \<and>
     (is_referencing_part (ze_name e) \<longrightarrow>
        (\<exists>s. dangling_reference (ze_name e) s removed = None \<and>
           (raw_entry_data os out e' = Inr (utf8_encode s) \<or>
            raw_entry_data os out e' = raw_entry_data os data e \<and>
            read_zip_entry_text inflate_new inflate_read (source_open os data) e = Inr s)))"

lemma stripped_entries:
  assumes "repairs inflate_new inflate_read (source_open os data) removed entries = Inr replace"
    "rewrite_zip crc32 os data output \<lparr>rw_drop = removed, rw_replace = replace\<rparr> = (Inr res, Some out)"
    "read_zip_entries os data = Inr entries" "os_delivers os" "length data \<le> MAX_SAFE_INTEGER"
  shows "\<exists>outs. read_zip_entries os out = Inr outs \<and>
    list_all2 (stripped_entry inflate_new inflate_read os data out removed)
      (filter (\<lambda>e. ze_name e \<notin> set removed) (sort_key ze_local_header_offset entries)) outs"
proof -
  let ?rw = "\<lparr>rw_drop = removed, rw_replace = replace\<rparr>"
  let ?kept = "filter (\<lambda>e. ze_name e \<notin> set removed) (sort_key ze_local_header_offset entries)"
  obtain outs where outs: "read_zip_entries os out = Inr outs"
      "list_all2 (\<lambda>e e'. copied_entry crc32 ?rw e e' \<and> raw_entry_data os out e' = payload_of os data ?rw e) ?kept outs"
    using rewrite_reads_back [OF assms(2,3,4,5)] by (auto simp: Let_def)
  note facts = repairs_facts [OF assms(1)]
  have "stripped_entry inflate_new inflate_read os data out removed e e'"
    if e: "e \<in> set ?kept" and c: "copied_entry crc32 ?rw e e'" "raw_entry_data os out e' = payload_of os data ?rw e" for e e'
  proof (cases "map_of replace (ze_name e)")
    case None
    then have raw: "raw_entry_data os out e' = raw_entry_data os data e" "ze_method e' = ze_method e"
      using c by (auto simp: payload_of_def copied_entry_def)
    have "is_referencing_part (ze_name e) \<longrightarrow> (\<exists>s. read_zip_entry_text inflate_new inflate_read (source_open os data) e = Inr s \<and>
        dangling_reference (ze_name e) s removed = None)"
      using facts None e by simp
    then show ?thesis using raw c(1) unfolding stripped_entry_def copied_entry_def by (auto simp: Let_def)
  next
    case (Some b)
    then have "(ze_name e, b) \<in> set replace" by (rule map_of_SomeD)
    with facts obtain s where s: "is_referencing_part (ze_name e)" "b = utf8_encode s"
        "dangling_reference (ze_name e) s removed = None" by blast
    have "raw_entry_data os out e' = Inr b" "ze_method e' = 0" "ze_name e' = decode_utf8 (utf8_encode (ze_name e))"
      using c Some by (auto simp: payload_of_def copied_entry_def)
    then show ?thesis using s unfolding stripped_entry_def by auto
  qed
  then have "list_all2 (stripped_entry inflate_new inflate_read os data out removed) ?kept outs"
    using outs(2) unfolding list_all2_conv_all_nth by (meson nth_mem)
  then show ?thesis using outs(1) by blast
qed

lemma strip_set_bound: "set (strip_set_for c names) \<subseteq> set names"
  by (auto simp: strip_set_for_def split: option.splits slicer_id.splits)

lemma rewrite_writes: "rewrite_zip crc32 os data output rw = (Inr res, out) \<Longrightarrow> \<exists>bs. out = Some bs"
  by (auto simp: rewrite_zip_def write_archive_def Let_def split: sum.splits list.splits prod.splits if_splits)

lemma strip_into_facts:
  assumes "strip_into crc32 inflate_new inflate_read os copy (Inr data) output c = (Inr res, out)"
    "os_delivers os" "length data \<le> MAX_SAFE_INTEGER"
  shows "sr_classification res = c \<and> (\<exists>bs entries. out = Some bs \<and> read_zip_entries os data = Inr entries \<and>
     (let removed = strip_set_for c (map ze_name entries) in
      if removed = [] then \<not> sr_stripped res \<and> bs = data
      else sr_stripped res \<and> (\<exists>outs. read_zip_entries os bs = Inr outs \<and>
             list_all2 (stripped_entry inflate_new inflate_read os data bs removed)
               (filter (\<lambda>e. ze_name e \<notin> set removed) (sort_key ze_local_header_offset entries)) outs)))"
proof -
  obtain entries where entries: "read_zip_entries os data = Inr entries"
    using assms(1) by (auto simp: strip_into_def split: sum.splits)
  let ?removed = "strip_set_for c (map ze_name entries)"
  show ?thesis
  proof (cases "?removed = []")
    case True
    then show ?thesis using assms(1) entries by (auto simp: strip_into_def Let_def split: copy_outcome.splits)
  next
    case False
    obtain replace written where parts:
        "repairs inflate_new inflate_read (source_open os data) ?removed entries = Inr replace"
        "rewrite_zip crc32 os data output \<lparr>rw_drop = ?removed, rw_replace = replace\<rparr> = (Inr written, out)"
        "sr_classification res = c" "sr_stripped res"
      using assms(1) entries False by (auto simp: strip_into_def Let_def split: sum.splits prod.splits)
    obtain bs where bs: "out = Some bs" using rewrite_writes [OF parts(2)] by blast
    from stripped_entries [OF parts(1) parts(2) [unfolded bs] entries assms(2,3)] show ?thesis
      using parts(3,4) bs entries False by (simp add: Let_def)
  qed
qed

lemma strip3mf_cases:
  assumes "strip3mf crc32 inflate_new inflate_read os copy False input file output = (r, out)"
  shows "(\<exists>c. classify_3mf inflate_new inflate_read os file = Inr c \<and> cl_kind c = OtherFile \<and> out = output \<and>
            (\<exists>e. r = Inl (Failed e) \<and> strip_refusal_reason e = Some Unreadable_Zip)) \<or>
    (\<exists>e. r = Inl (Failed e) \<and> strip_refusal_reason e \<noteq> None \<and> out = None) \<or>
    (\<exists>c res after. r = Inr res \<and> classify_3mf inflate_new inflate_read os file = Inr c \<and>
       strip_into crc32 inflate_new inflate_read os copy file output c = (Inr res, out) \<and>
       classify_3mf inflate_new inflate_read os (output_file out) = Inr after \<and> cl_kind after = Model)"
proof -
  obtain c where c: "classify_3mf inflate_new inflate_read os file = Inr c"
    using classify_3mf_outcome by metis
  show ?thesis
  proof (cases "cl_kind c = OtherFile")
    case True
    then show ?thesis using assms c by (auto simp: strip3mf_def)
  next
    case False
    obtain r0 out1 where into: "strip_into crc32 inflate_new inflate_read os copy file output c = (r0, out1)" by fastforce
    obtain after where after: "classify_3mf inflate_new inflate_read os (output_file out1) = Inr after"
      using classify_3mf_outcome by metis
    have "r0 \<noteq> Inl Panic"
      using no_panic_strip_into into by (metis fst_conv)
    then show ?thesis
      using assms c False into after
      by (cases r0) (auto simp: strip3mf_def Let_def split: fault.splits if_splits)
  qed
qed

section \<open>Spellings of a part name\<close>

definition upper_hex :: "nat \<Rightarrow> nat" where
  "upper_hex d = (if d < 10 then 48 + d else 55 + d)"

definition escape_byte :: "byte \<Rightarrow> str" where
  "escape_byte b = [37, upper_hex (unat b div 16), upper_hex (unat b mod 16)]"

text \<open>Every byte of a text percent-escaped, and every character as a numeric reference.\<close>

definition percent_spelling :: "str \<Rightarrow> str" where
  "percent_spelling s = concat (map escape_byte (utf8_encode s))"

definition numeric_spelling :: "str \<Rightarrow> str" where
  "numeric_spelling s = concat (map (\<lambda>c. lit ''&#'' @ dec_str c @ [59]) s)"

lemma foldl_digits:
  "\<forall>c \<in> set s. is_dec_digit c \<Longrightarrow>
     foldl (\<lambda>n c. n * 10 + (case hex_value c of None \<Rightarrow> 0 | Some d \<Rightarrow> d)) n s = foldl (\<lambda>a d. 10 * a + (d - 48)) n s"
  by (induction s arbitrary: n) (auto simp: is_dec_digit_def hex_value_def algebra_simps)

lemma dec_str_is_digits: "\<forall>c \<in> set (dec_str n). is_dec_digit c"
  using dec_str_digits by (simp add: is_dec_digit_def)

lemma radix_dec_str: "radix_value 10 (dec_str n) = n"
  unfolding radix_value_def foldl_digits [OF dec_str_is_digits] by (rule dec_str_value)

lemma char_reference_numeric:
  assumes "scalar c"
  shows "char_reference (35 # dec_str c @ 59 # rest) = Some (Some c, rest)"
proof -
  have "takeWhile is_dec_digit (dec_str c @ 59 # rest) = dec_str c"
    "dropWhile is_dec_digit (dec_str c @ 59 # rest) = 59 # rest"
    using dec_str_is_digits [of c] by (simp_all add: takeWhile_append2 dropWhile_append2 is_dec_digit_def)
  moreover have "c < 2 ^ 32" using assms by (auto simp: scalar_def)
  ultimately show ?thesis
    using assms by (simp add: char_reference_def reference_body_def Let_def char_of_digits_def radix_dec_str)
qed

lemma decode_numeric: "\<forall>c \<in> set s. scalar c \<Longrightarrow> decode_character_references (numeric_spelling s) = s"
proof (induction s)
  case Nil
  then show ?case by (simp add: numeric_spelling_def decode_character_references.simps)
next
  case (Cons c s)
  have eq: "numeric_spelling (c # s) = 38 # 35 # dec_str c @ 59 # numeric_spelling s"
    by (simp add: numeric_spelling_def lit_def)
  show ?case
    unfolding eq using Cons char_reference_numeric [of c "numeric_spelling s"]
    by (subst decode_character_references.simps) simp
qed

lemma decode_plain: "38 \<notin> set s \<Longrightarrow> decode_character_references s = s"
  by (induction s) (simp_all add: decode_character_references.simps)

lemma from_utf8_encode: "\<forall>c \<in> set s. scalar c \<Longrightarrow> from_utf8 (utf8_encode s) = (s, None)"
proof (induction s)
  case (Cons c s)
  then have "scalar c" by simp
  then obtain b bs where b: "utf8_char c = b # bs" "\<And>rest. utf8_head b (bs @ rest) = Scalar c (length bs)"
    using utf8_head_char by metis
  have "from_utf8 (b # bs @ utf8_encode s) = (c # fst (from_utf8 (utf8_encode s)), snd (from_utf8 (utf8_encode s)))"
    using b(2) by (simp add: case_prod_beta)
  then show ?case using Cons b(1) by (simp add: utf8_encode_def)
qed (simp add: utf8_encode_def)

lemma utf8_encode_append: "utf8_encode (s @ t) = utf8_encode s @ utf8_encode t"
  by (simp add: utf8_encode_def)

lemma hex_value_digit: "d < 16 \<Longrightarrow> hex_value (upper_hex d) = Some d"
  by (auto simp: hex_value_def upper_hex_def)

lemma byte_bound: "unat (b :: byte) < 256"
  using unsigned_less [of b] by simp

lemma digit_char: "d < 16 \<Longrightarrow> upper_hex d \<in> {48..57} \<union> {65..70}"
  by (auto simp: upper_hex_def)

lemma unescape_byte: "unescape (utf8_encode (escape_byte b) @ bs) = map_option ((#) b) (unescape bs)"
proof -
  obtain hi lo where h: "unat b div 16 = hi" "unat b mod 16 = lo" by blast
  have small: "hi < 16" "lo < 16" using byte_bound [of b] by (auto simp flip: h)
  then have "upper_hex hi < 80" "upper_hex lo < 80" by (simp_all add: upper_hex_def)
  then have enc: "utf8_encode (escape_byte b) = [0x25, of_nat (upper_hex hi), of_nat (upper_hex lo)]"
    and again: "unat (of_nat (upper_hex hi) :: byte) = upper_hex hi" "unat (of_nat (upper_hex lo) :: byte) = upper_hex lo"
    by (simp_all add: escape_byte_def utf8_encode_def utf8_char_def h unat_of_nat_byte)
  have "16 * hi + lo = unat b" unfolding h [symmetric] by (rule mult_div_mod_eq)
  then have "of_nat (16 * hi + lo) = b" by simp
  then show ?thesis unfolding enc by (simp add: again hex_value_digit small)
qed

lemma unescape_spelling: "unescape (utf8_encode (percent_spelling s) @ bs) = map_option ((@) (utf8_encode s)) (unescape bs)"
proof -
  have "unescape (utf8_encode (concat (map escape_byte xs)) @ bs) = map_option ((@) xs) (unescape bs)" for xs
    by (induction xs)
      (simp_all add: utf8_encode_append unescape_byte option.map_comp comp_def option.map_ident,
       simp add: utf8_encode_def option.map_ident)
  then show ?thesis by (simp add: percent_spelling_def)
qed

lemma unescape_slash: "unescape (utf8_encode (47 # s) @ bs) = map_option ((#) 47) (unescape (utf8_encode s @ bs))"
  by (simp add: utf8_encode_def utf8_char_def)

lemma unescape_joined:
  "unescape (utf8_encode (join_slash (map percent_spelling segs))) = Some (utf8_encode (join_slash segs))"
proof (induction segs rule: join_slash.induct)
  case 1
  then show ?case by (simp add: utf8_encode_def)
next
  case (2 p)
  then show ?case using unescape_spelling [of p "[]"] by simp
next
  case (3 p q ps)
  have "unescape (utf8_encode (percent_spelling p @ 47 # join_slash (map percent_spelling (q # ps)))) =
      Some (utf8_encode (p @ 47 # join_slash (q # ps)))"
    using 3 unescape_spelling [of p "utf8_encode (47 # join_slash (map percent_spelling (q # ps)))"]
      unescape_slash [of "join_slash (map percent_spelling (q # ps))" "[]"]
    by (simp add: utf8_encode_append) (simp add: utf8_encode_def utf8_char_def)
  then show ?case by simp
qed

lemma escape_byte_chars: "c \<in> set (escape_byte b) \<Longrightarrow> c \<noteq> 38 \<and> c \<noteq> 35 \<and> c \<noteq> 63 \<and> scalar c"
proof -
  have digits: "unat b div 16 < 16" "unat b mod 16 < 16" using byte_bound [of b] by simp_all
  assume "c \<in> set (escape_byte b)"
  then have "c = 37 \<or> c \<in> {48..57} \<union> {65..70}"
    using digit_char [OF digits(1)] digit_char [OF digits(2)] by (auto simp only: escape_byte_def list.set insert_iff)
  then show ?thesis by (auto simp: scalar_def)
qed

lemma joined_chars:
  "c \<in> set (join_slash (map percent_spelling segs)) \<Longrightarrow> c \<noteq> 38 \<and> c \<noteq> 35 \<and> c \<noteq> 63 \<and> scalar c"
proof (induction segs rule: join_slash.induct)
  case (2 p)
  then show ?case using escape_byte_chars by (auto simp: percent_spelling_def)
next
  case (3 p q ps)
  then show ?case using escape_byte_chars by (auto simp: percent_spelling_def scalar_def)
qed simp

text \<open>A segment of a part name.\<close>

definition plain_segment :: "str \<Rightarrow> bool" where
  "plain_segment s \<longleftrightarrow> s \<noteq> [] \<and> s \<noteq> lit ''.'' \<and> s \<noteq> lit ''..'' \<and> 47 \<notin> set s \<and> (\<forall>c \<in> set s. scalar c)"

lemma push_plain: "\<forall>s \<in> set segs. plain_segment s \<Longrightarrow> push_segments base segs = base @ segs"
  by (induction segs arbitrary: base) (auto simp: plain_segment_def)

lemma split_on_sep: "\<forall>x \<in> set xs. \<not> p x \<Longrightarrow> p y \<Longrightarrow> split_on p (xs @ y # ys) = xs # split_on p ys"
  by (induction xs) (auto simp: list.case_eq_if)

lemma slash_parts_joined: "segs \<noteq> [] \<Longrightarrow> \<forall>s \<in> set segs. plain_segment s \<Longrightarrow> slash_parts (join_slash segs) = segs"
proof (induction segs rule: join_slash.induct)
  case (2 p)
  then show ?case by (auto simp: slash_parts_def plain_segment_def intro!: split_on_none)
next
  case (3 p q ps)
  then show ?case
    using split_on_sep [of p "\<lambda>c. c = 47" 47 "join_slash (q # ps)"] by (auto simp: slash_parts_def plain_segment_def)
qed simp

lemma joined_scalar: "\<forall>s \<in> set segs. plain_segment s \<Longrightarrow> \<forall>c \<in> set (join_slash segs). scalar c"
  by (induction segs rule: join_slash.induct) (auto simp: plain_segment_def scalar_def)

lemma resolve_literal:
  assumes "decode_character_references reference = 47 # join_slash (map percent_spelling segs)"
    "segs \<noteq> []" "\<forall>s \<in> set segs. plain_segment s"
  shows "resolve_part_name name reference = Some (join_slash segs)"
proof -
  let ?l = "47 # join_slash (map percent_spelling segs)"
  have whole: "takeWhile (\<lambda>c. c \<noteq> 63) (takeWhile (\<lambda>c. c \<noteq> 35) ?l) = ?l"
  proof -
    have "takeWhile (\<lambda>c. c \<noteq> 35) ?l = ?l" "takeWhile (\<lambda>c. c \<noteq> 63) ?l = ?l"
      using joined_chars [of _ segs] by (auto simp: takeWhile_eq_all_conv)
    then show ?thesis by (simp only:)
  qed
  have "\<forall>c \<in> set (47 # join_slash segs). scalar c" using joined_scalar [OF assms(3)] by (simp add: scalar_def)
  then have decoded: "from_utf8 (utf8_encode (47 # join_slash segs)) = (47 # join_slash segs, None)"
    by (rule from_utf8_encode)
  have "utf8_encode (47 # join_slash segs) = 47 # utf8_encode (join_slash segs)"
    by (simp add: utf8_encode_def utf8_char_def)
  then have "unescape (utf8_encode ?l) = Some (utf8_encode (47 # join_slash segs))"
    using unescape_slash [of "join_slash (map percent_spelling segs)" "[]"] unescape_joined [of segs] by simp
  then have "decode_uri_component ?l = Some (47 # join_slash segs)"
    by (simp only: decode_uri_component_def decoded Option.bind.bind_lunit prod.case option.case)
  then show ?thesis
    using assms whole slash_parts_joined [OF assms(2,3)] push_plain [OF assms(3)]
    by (simp add: resolve_part_name_def Let_def has_scheme_def is_alpha_def starts_with_def lit_def)
qed

section \<open>Properties\<close>

text \<open>C23
  A strip is all or nothing. A refusal always names one of the three reasons, and leaves no file at
  the output (or leaves alone what was there, when the input is not a 3MF at all). A success leaves
  an archive that classifies as a plain model: the input's bytes when there was nothing to strip,
  and otherwise, read back, the entries outside the strip set in their physical order, each with its
  payload, where the parts that can name other parts are repaired so that no reference to a removed
  part is left.
\<close>

theorem strip_all_or_nothing:
  assumes "strip3mf crc32 inflate_new inflate_read os copy False input (Inr data) output = (r, out)"
    "os_delivers os" "length data \<le> MAX_SAFE_INTEGER"
  shows "case r of
      Inl f \<Rightarrow> (\<exists>e. f = Failed e \<and> strip_refusal_reason e \<noteq> None) \<and>
        (out = None \<or> out = output \<and>
           (\<exists>c. classify_3mf inflate_new inflate_read os (Inr data) = Inr c \<and> cl_kind c = OtherFile))
    | Inr res \<Rightarrow> \<exists>bs entries after. out = Some bs \<and> read_zip_entries os data = Inr entries \<and>
        classify_3mf inflate_new inflate_read os (Inr bs) = Inr after \<and> cl_kind after = Model \<and>
        (let removed = strip_set_for (sr_classification res) (map ze_name entries) in
         if removed = [] then \<not> sr_stripped res \<and> bs = data
         else sr_stripped res \<and> (\<exists>outs. read_zip_entries os bs = Inr outs \<and>
                list_all2 (stripped_entry inflate_new inflate_read os data bs removed)
                  (filter (\<lambda>e. ze_name e \<notin> set removed) (sort_key ze_local_header_offset entries)) outs))"
  using strip3mf_cases [OF assms(1)]
proof (elim disjE exE conjE)
  fix c res after
  assume r: "r = Inr res" "classify_3mf inflate_new inflate_read os (output_file out) = Inr after" "cl_kind after = Model"
    and into: "strip_into crc32 inflate_new inflate_read os copy (Inr data) output c = (Inr res, out)"
  from strip_into_facts [OF into assms(2,3)] r show ?thesis
    by (elim conjE exE) (simp add: output_file_def)
qed auto

text \<open>
  A part is recognised however its name is escaped: every byte of every segment percent-escaped,
  and on top of that every character written as a numeric character reference, still resolves to the
  same part of the package, from whatever part the reference is made.
\<close>

theorem part_name_spellings:
  assumes "segs \<noteq> []" "\<forall>s \<in> set segs. plain_segment s"
  shows "resolve_part_name name (47 # join_slash (map percent_spelling segs)) = Some (join_slash segs) \<and>
    resolve_part_name name (numeric_spelling (47 # join_slash (map percent_spelling segs))) = Some (join_slash segs)"
proof -
  let ?l = "47 # join_slash (map percent_spelling segs)"
  have "38 \<notin> set ?l" "\<forall>c \<in> set ?l. scalar c" using joined_chars [of _ segs] by (auto simp: scalar_def)
  then show ?thesis
    using resolve_literal [OF decode_plain assms] resolve_literal [OF decode_numeric assms] by blast
qed

text \<open>An archive whose one entry is Cura's; what is left of it is an empty archive.\<close>

definition cura_fields :: zip_central_fields where
  "cura_fields = sample_fields\<lparr>zf_common := (zf_common sample_fields)\<lparr>zc_name := utf8_encode (lit ''Cura/a'')\<rparr>\<rparr>"

definition cura_archive :: bytes where
  "cura_archive =
     (local_header_bytes (zf_common cura_fields) @ [1, 2]) @ central_header_bytes cura_fields @
     end_of_central_directory_bytes (of_nat 1) (of_nat (length (central_header_bytes cura_fields)))
       (of_nat (length (local_header_bytes (zf_common cura_fields) @ [1, 2])))"

lemma cura_name_length: "length (utf8_encode (lit ''Cura/a'')) = 6"
  by (simp add: utf8_encode_def utf8_char_def lit_def)

lemma cura_entries: "read_zip_entries always cura_archive = Inr [entry_of_fields cura_fields]"
proof -
  have "list_all fields_plain [cura_fields]"
    by (simp add: fields_plain_def cura_fields_def sample_fields_def U16_MAX_def U32_MAX_def cura_name_length)
  from read_records_central [OF this, of "[]" "[]"]
  have "read_records 1 (central_header_bytes cura_fields) 0 = Inr [entry_of_fields cura_fields]" by simp
  then show ?thesis
    unfolding cura_archive_def
    by (subst eocd_read [OF always_delivers])
      (simp_all add: MAX_SAFE_INTEGER_def U16_MAX_def U32_MAX_def cura_fields_def sample_fields_def cura_name_length)
qed

lemma cura_entry_name: "ze_name (entry_of_fields cura_fields) = lit ''Cura/a''"
proof -
  have "\<forall>c \<in> set (lit ''Cura/a''). scalar c" by (simp add: lit_def scalar_def)
  from utf8_lossy_encode [OF this] show ?thesis
    by (simp add: entry_of_fields_def cura_fields_def decode_utf8_def) (simp add: lit_def)
qed

lemma cura_classified:
  "classify_3mf inflate_new inflate_read always (Inr cura_archive) = Inr (classification_of SlicerProject (Some Cura))"
  by (simp add: classify_3mf_def read_entries_of_def cura_entries cura_entry_name) (simp add: starts_with_def lit_def)

lemma empty_reads: "read_zip_entries always (end_of_central_directory_bytes 0 0 0) = Inr []"
  using eocd_read [OF always_delivers, of "[]" "[]" 0] by (simp add: MAX_SAFE_INTEGER_def U16_MAX_def U32_MAX_def)

lemma empty_classified:
  "classify_3mf inflate_new inflate_read always (Inr (end_of_central_directory_bytes 0 0 0)) = Inr (classification_of Model None)"
  by (simp add: classify_3mf_def read_entries_of_def empty_reads find_zip_entry_def)

lemma cura_stripped:
  "strip3mf crc32 inflate_new inflate_read always Copied False [] (Inr cura_archive) None =
     (Inr \<lparr>sr_classification = classification_of SlicerProject (Some Cura), sr_stripped = True,
        sr_removed = [lit ''Cura/a''], sr_rewritten = []\<rparr>, Some (end_of_central_directory_bytes 0 0 0))"
proof -
  have set: "strip_set_for (classification_of SlicerProject (Some Cura)) [lit ''Cura/a''] = [lit ''Cura/a'']"
    by (simp add: strip_set_for_def classification_of_def CURA_STRIP_PREFIX_def starts_with_def lit_def)
  have "rewrite_zip crc32 always cura_archive None \<lparr>rw_drop = [lit ''Cura/a''], rw_replace = []\<rparr> =
      (Inr \<lparr>rr_kept = [], rr_dropped = [lit ''Cura/a''], rr_replaced = []\<rparr>, Some (end_of_central_directory_bytes 0 0 0))"
    by (simp add: rewrite_zip_def cura_entries cura_entry_name Let_def write_archive_def U32_MAX_def MAX_NON_ZIP64_ENTRIES_def)
  then show ?thesis
    by (simp add: strip3mf_def cura_classified strip_into_def cura_entries cura_entry_name set Let_def output_file_def
        empty_classified)
      (simp add: classification_of_def)
qed

theorem strip_all_or_nothing_witness:
  "\<exists>res out. strip3mf (\<lambda>_. 5) copy_new copy_read always Copied False [] (Inr cura_archive) None = (Inr res, out) \<and>
     sr_stripped res \<and> (\<exists>bs after. out = Some bs \<and> classify_3mf copy_new copy_read always (Inr bs) = Inr after \<and> cl_kind after = Model)"
proof -
  have "length cura_archive \<le> MAX_SAFE_INTEGER"
    by (simp add: cura_archive_def cura_fields_def sample_fields_def MAX_SAFE_INTEGER_def cura_name_length)
  from strip_all_or_nothing [OF cura_stripped [of "\<lambda>_. 5" copy_new copy_read] always_delivers this] show ?thesis
    using cura_stripped [of "\<lambda>_. 5" copy_new copy_read] by fastforce
qed

theorem part_name_spellings_witness:
  "resolve_part_name (lit ''_rels/.rels'') (47 # join_slash (map percent_spelling [lit ''3D'', lit ''a b.model''])) =
     Some (lit ''3D/a b.model'')"
proof -
  have "\<forall>s \<in> set [lit ''3D'', lit ''a b.model'']. plain_segment s" by (simp add: plain_segment_def lit_def scalar_def)
  from part_name_spellings [OF _ this, of "lit ''_rels/.rels''"] show ?thesis by (simp add: lit_def)
qed

end
