(* ===== verification/Launch.thy ===== *)
theory Launch
  imports Slicer_Sessions Strip3mf Files "HOL-Library.Countable"
begin

text \<open>
  Handing a file to a slicer, \<^verbatim>\<open>crates/spm-shell/src/slicers/launch.rs\<close>, with the products of
  \<^verbatim>\<open>registry.rs\<close>. The sessions directory is the tree of \<open>Slicer_Sessions\<close>; the library, the server,
  the installs, the process that is spawned and every refusal of the disk are arguments. Properties:
  a launch with a directory is a session the lifecycle recognises, a refused launch leaves nothing
  behind except after the copy is made, a 3MF handed over for a new project carries no slicer
  configuration, and a launch record is read back as it was written.
\<close>

section \<open>The products\<close>

record windows_detection =
  wd_display_name_prefix :: str
  wd_exe_name :: str
  wd_msix_package_family :: "str option"

record slicer_behaviour =
  sb_saves_in_place :: bool
  sb_discards_foreign_projects :: bool
  sb_always_prompts_on_3mf :: bool
  sb_prompts_without_own_config :: bool
  sb_opens_step :: bool

record slicer_def =
  sl_id :: slicer_id
  sl_display_name :: str
  sl_windows :: windows_detection
  sl_behaviour :: slicer_behaviour

definition SLICER_IDS :: "slicer_id list" where
  "SLICER_IDS = [Cura, Prusaslicer, Anycubic, Bambu, Orca]"

fun slicer :: "slicer_id \<Rightarrow> slicer_def" where
  "slicer Cura =
     \<lparr>sl_id = Cura, sl_display_name = lit ''UltiMaker Cura'',
      sl_windows = \<lparr>wd_display_name_prefix = lit ''UltiMaker Cura'', wd_exe_name = lit ''UltiMaker-Cura.exe'',
        wd_msix_package_family = None\<rparr>,
      sl_behaviour = \<lparr>sb_saves_in_place = False, sb_discards_foreign_projects = False,
        sb_always_prompts_on_3mf = False, sb_prompts_without_own_config = False, sb_opens_step = False\<rparr>\<rparr>"
| "slicer Prusaslicer =
     \<lparr>sl_id = Prusaslicer, sl_display_name = lit ''PrusaSlicer'',
      sl_windows = \<lparr>wd_display_name_prefix = lit ''PrusaSlicer'', wd_exe_name = lit ''prusa-slicer.exe'',
        wd_msix_package_family = None\<rparr>,
      sl_behaviour = \<lparr>sb_saves_in_place = True, sb_discards_foreign_projects = False,
        sb_always_prompts_on_3mf = True, sb_prompts_without_own_config = False, sb_opens_step = True\<rparr>\<rparr>"
| "slicer Anycubic =
     \<lparr>sl_id = Anycubic, sl_display_name = lit ''Anycubic Slicer Next'',
      sl_windows = \<lparr>wd_display_name_prefix = lit ''AnycubicSlicerNext'', wd_exe_name = lit ''AnycubicSlicerNext.exe'',
        wd_msix_package_family = None\<rparr>,
      sl_behaviour = \<lparr>sb_saves_in_place = True, sb_discards_foreign_projects = True,
        sb_always_prompts_on_3mf = False, sb_prompts_without_own_config = False, sb_opens_step = True\<rparr>\<rparr>"
| "slicer Bambu =
     \<lparr>sl_id = Bambu, sl_display_name = lit ''Bambu Studio'',
      sl_windows = \<lparr>wd_display_name_prefix = lit ''Bambu Studio'', wd_exe_name = lit ''bambu-studio.exe'',
        wd_msix_package_family = None\<rparr>,
      sl_behaviour = \<lparr>sb_saves_in_place = True, sb_discards_foreign_projects = False,
        sb_always_prompts_on_3mf = False, sb_prompts_without_own_config = True, sb_opens_step = True\<rparr>\<rparr>"
| "slicer Orca =
     \<lparr>sl_id = Orca, sl_display_name = lit ''OrcaSlicer'',
      sl_windows = \<lparr>wd_display_name_prefix = lit ''OrcaSlicer'', wd_exe_name = lit ''orca-slicer.exe'',
        wd_msix_package_family = Some (lit ''OrcaSlicer.OrcaSlicer_3qd7h69xpne0g'')\<rparr>,
      sl_behaviour = \<lparr>sb_saves_in_place = True, sb_discards_foreign_projects = False,
        sb_always_prompts_on_3mf = False, sb_prompts_without_own_config = False, sb_opens_step = True\<rparr>\<rparr>"

definition argv :: "slicer_def \<Rightarrow> 'h \<Rightarrow> 'h list" where
  "argv product handed = [handed]"

definition display_name_matches :: "(nat \<Rightarrow> str) \<Rightarrow> str \<Rightarrow> str \<Rightarrow> bool" where
  "display_name_matches lowercase name prefix \<longleftrightarrow>
     (if length name < length prefix then False
      else if \<not> list_all (\<lambda>(a, b). lowercase a = lowercase b) (List.zip name prefix) then False
      else case drop (length prefix) name of [] \<Rightarrow> True | next_char # _ \<Rightarrow> \<not> word_char next_char)"

definition slicer_for_display_name :: "(nat \<Rightarrow> str) \<Rightarrow> str \<Rightarrow> slicer_id option" where
  "slicer_for_display_name lowercase name =
     find (\<lambda>i. display_name_matches lowercase name (wd_display_name_prefix (sl_windows (slicer i)))) SLICER_IDS"

section \<open>What the app may honestly say\<close>

record launched_source =
  ls_classification :: classification
  ls_is_3mf :: bool

definition PROMPT_BEFORE_LOADING :: str where
  "PROMPT_BEFORE_LOADING = lit ''It will ask what to do with the file before opening it, and nothing loads until you answer.''"
definition INVALID_CONFIG_GEOMETRY_ONLY :: str where
  "INVALID_CONFIG_GEOMETRY_ONLY = lit ''It will say the config is invalid and load geometry only.''"
definition MAY_DISCARD_SILENTLY :: str where
  "MAY_DISCARD_SILENTLY = lit ''It may discard the file without telling you.''"
definition VERSION_WARNING_AND_REWRITE :: str where
  "VERSION_WARNING_AND_REWRITE = lit ''It will warn about the version and may rewrite print settings.''"
definition GEOMETRY_DATA_ONLY :: str where
  "GEOMETRY_DATA_ONLY =
     lit ''It will show one informational notice, '' @ [34] @ lit ''loading geometry data only'' @ [34] @ lit ''.''"
definition SLOW_TO_SHOW_A_WINDOW :: str where
  "SLOW_TO_SHOW_A_WINDOW = lit ''A slicer can take up to a minute to show a window (measured 2 s to 35 s).''"
definition WIZARD_OR_UPDATE_PROMPT :: str where
  "WIZARD_OR_UPDATE_PROMPT = lit ''It may open a configuration wizard or an update prompt in front of your model.''"
definition NOTHING_COMES_BACK_FROM_CURA :: str where
  "NOTHING_COMES_BACK_FROM_CURA =
     lit ''This slicer never saves back over the file it was given '' @ [8212] @
     lit '' its save is always a '' @ [34] @ lit ''save as'' @ [34] @
     lit '' into a folder of its own on this computer. Nothing will come back here, so anything you want in this library has to be uploaded by hand afterwards.''"

definition notice :: "bool \<Rightarrow> str \<Rightarrow> str list" where
  "notice b s = (if b then [s] else [])"

definition notices :: "slicer_id \<Rightarrow> launched_source \<Rightarrow> bool \<Rightarrow> bool \<Rightarrow> str list" where
  "notices sid source stripped remote =
     (let behaviour = sl_behaviour (slicer sid); authored = cl_slicer (ls_classification source) in
      notice (sb_always_prompts_on_3mf behaviour \<and> ls_is_3mf source) PROMPT_BEFORE_LOADING
      @ notice (sb_prompts_without_own_config behaviour \<and> ls_is_3mf source \<and> (stripped \<or> authored \<noteq> Some sid))
          INVALID_CONFIG_GEOMETRY_ONLY
      @ notice (sb_discards_foreign_projects behaviour \<and> \<not> stripped \<and> (authored = Some Bambu \<or> authored = Some Orca))
          MAY_DISCARD_SILENTLY
      @ notice (sid = Orca \<and> (case authored of None \<Rightarrow> False | Some a \<Rightarrow> a \<noteq> sid))
          (if stripped then GEOMETRY_DATA_ONLY else VERSION_WARNING_AND_REWRITE)
      @ notice (remote \<and> \<not> sb_saves_in_place behaviour) NOTHING_COMES_BACK_FROM_CURA
      @ [SLOW_TO_SHOW_A_WINDOW, WIZARD_OR_UPDATE_PROMPT])"

section \<open>Names\<close>

definition path_file_name :: "platform \<Rightarrow> str \<Rightarrow> str option" where
  "path_file_name pf name = (case rev (components pf name) of Normal n # _ \<Rightarrow> Some n | _ \<Rightarrow> None)"

definition extension_of :: "platform \<Rightarrow> str \<Rightarrow> str" where
  "extension_of pf name =
     (case path_file_name pf name of None \<Rightarrow> [] | Some n \<Rightarrow> to_ascii_lowercase (snd (stem_extension n)))"

definition base_name :: "platform \<Rightarrow> str \<Rightarrow> str" where
  "base_name pf name = (case path_file_name pf name of None \<Rightarrow> name | Some n \<Rightarrow> n)"

definition DOWNLOAD_SUFFIX :: str where "DOWNLOAD_SUFFIX = lit ''.spm-download''"

section \<open>Refusals\<close>

definition refuse_not_a_project :: "file_kind \<Rightarrow> app_error" where
  "refuse_not_a_project kind =
     with_details (validation (lit ''only a slicer project can be opened as it is; start a new slicer project from this file instead''))
       [(lit ''kind'', JStr (file_kind_as_str kind))]"

fun join_comma :: "str list \<Rightarrow> str" where
  "join_comma [] = []"
| "join_comma [p] = p"
| "join_comma (p # q # ps) = p @ lit '', '' @ join_comma (q # ps)"

definition refuse_step_format :: "slicer_id \<Rightarrow> str \<Rightarrow> app_error" where
  "refuse_step_format sid extension =
     with_details (validation (sl_display_name (slicer sid) @ lit '' cannot open STEP files. Choose one of '' @
         join_comma (map (\<lambda>i. sl_display_name (slicer i)) (filter (\<lambda>i. sb_opens_step (sl_behaviour (slicer i))) SLICER_IDS)) @
         lit '' instead.''))
       [(lit ''slicerId'', JStr (slicer_id_as_str sid)), (lit ''extension'', JStr extension)]"

text \<open>No other scalar lowercases to a text of the letters of \<^verbatim>\<open>launch.json\<close>, so the ASCII fold stands for it.\<close>

definition refuse_record_name :: "str \<Rightarrow> unit result" where
  "refuse_record_name name =
     (if to_ascii_lowercase name \<noteq> LAUNCH_RECORD_NAME then Inr ()
      else Inl (with_details (validation (lit ''a file called '' @ LAUNCH_RECORD_NAME @
             lit '' cannot be prepared for a new project, because the app writes a record of that name beside the copy it hands over''))
             [(lit ''fileName'', JStr name)]))"

definition choose_slicer ::
  "launch_mode \<Rightarrow> slicer_id option \<Rightarrow> slicer_id option \<Rightarrow> slicer_id option \<Rightarrow> (slicer_id \<times> str option) result" where
  "choose_slicer mode asked file_slicer default_slicer =
     (case asked of
        Some sid \<Rightarrow> Inr (sid, None)
      | None \<Rightarrow>
          (case if mode = As_Is then file_slicer else None of
             Some sid \<Rightarrow> Inr (sid, None)
           | None \<Rightarrow>
               (case default_slicer of
                  None \<Rightarrow> Inl (conflict (if mode = As_Is
                            then lit ''this file does not say which slicer wrote it, and no default slicer is set''
                            else lit ''no slicer was chosen, and no default slicer is set''))
                | Some sid \<Rightarrow>
                    let chosen = sl_display_name (slicer sid) in
                    Inr (sid, Some (if mode = As_Is
                           then lit ''This file does not say which slicer wrote it, so your default ('' @ chosen @ lit '') was used.''
                           else lit ''No slicer was chosen, so your default ('' @ chosen @ lit '') was used.'')))))"

datatype install_state = Install_Ok | Install_Missing

record install =
  in_id :: str
  in_slicer_id :: slicer_id
  in_label :: str
  in_state :: install_state

record slicer_config =
  sc_installs :: "install list"
  sc_bindings :: "(slicer_id \<times> str) list"
  sc_default :: "slicer_id option"

definition unbound_install :: "slicer_id \<Rightarrow> slicer_config \<Rightarrow> app_error" where
  "unbound_install sid config =
     (let product = sl_display_name (slicer sid);
          candidates = map in_label (filter (\<lambda>i. in_slicer_id i = sid \<and> in_state i \<noteq> Install_Missing) (sc_installs config));
          extra = [(lit ''slicerId'', JStr (slicer_id_as_str sid))]
      in case candidates of
           [] \<Rightarrow> with_details (not_found (product @ lit '' is not set up on this machine; add it under Settings, Slicers'')) extra
         | [label] \<Rightarrow> with_details (conflict (product @ lit '' is installed ('' @ label @
               lit '') but not chosen for launching; pick it under Settings, Slicers'')) extra
         | _ \<Rightarrow> with_details (conflict (lit ''this machine has '' @ dec_str (length candidates) @ lit '' installs of '' @
               product @ lit '' ('' @ join_comma candidates @ lit ''); choose which one to launch under Settings, Slicers'')) extra)"

fun refusal_wording :: "strip_reason \<Rightarrow> str" where
  "refusal_wording Encrypted_Entry = lit ''it is an encrypted archive''"
| "refusal_wording Unreadable_Zip = lit ''it could not be read as a 3MF archive''"
| "refusal_wording Left_Behind = lit ''stripping it left slicer configuration behind''"

definition refuse_strip :: "app_error \<Rightarrow> str \<Rightarrow> app_error" where
  "refuse_strip e name =
     (case strip_refusal_reason e of
        None \<Rightarrow> e
      | Some reason \<Rightarrow>
          with_details (validation (name @ lit '' could not be prepared for a new project because '' @ refusal_wording reason @
              lit ''. Opening it as it is, without stripping, is still available.''))
            [(lit ''reason'', JStr (strip_reason_as_str reason))])"

section \<open>The source of a launch\<close>

record source_file =
  so_name :: str
  so_indexed :: classification
  so_abs_path :: "path option"

definition not_in_project :: "str \<Rightarrow> app_error" where
  "not_in_project fid = with_details (not_found (lit ''that file is not in that project'')) [(lit ''fileId'', JStr fid)]"

text \<open>The open library; between the two queries the database may have become \<open>db2\<close>.\<close>

definition local_source ::
  "(lib_place \<times> ctx \<times> db \<times> db) option \<Rightarrow> str \<Rightarrow> str \<Rightarrow> source_file result" where
  "local_source session fid pid =
     (case session of
        None \<Rightarrow> Inl (conflict (lit ''no library folder is open''))
      | Some (lp, c, db, db2) \<Rightarrow>
          bindE (get_project_in c pid db) (\<lambda>detail.
            case find (\<lambda>f. cf_id f = fid) (cd_files detail) of
              None \<Rightarrow> Inl (not_in_project fid)
            | Some f \<Rightarrow>
                bindE (resolve_file_path lp c fid db2) (\<lambda>resolved.
                  Inr \<lparr>so_name = rf_name resolved,
                       so_indexed = \<lparr>cl_kind = cf_kind f, cl_slicer = cf_slicer f, cl_unreadable = False\<rparr>,
                       so_abs_path = Some (rf_abs_path resolved)\<rparr>)))"

record remote_file =
  rm_id :: str
  rm_name :: str
  rm_kind :: file_kind
  rm_slicer :: "slicer_id option"

definition remote_source :: "(str \<Rightarrow> remote_file list result) option \<Rightarrow> str \<Rightarrow> str \<Rightarrow> source_file result" where
  "remote_source remote fid pid =
     (case remote of
        None \<Rightarrow> Inl (conflict (lit ''this app is not connected to a server''))
      | Some project \<Rightarrow>
          bindE (project pid) (\<lambda>files.
            case find (\<lambda>f. rm_id f = fid) files of
              None \<Rightarrow> Inl (not_in_project fid)
            | Some f \<Rightarrow>
                if is_ok (file_name (rm_name f))
                then Inr \<lparr>so_name = rm_name f,
                         so_indexed = \<lparr>cl_kind = rm_kind f, cl_slicer = rm_slicer f, cl_unreadable = False\<rparr>,
                         so_abs_path = None\<rparr>
                else Inl (with_details (validation (lit ''the server named that file in a way this app cannot use''))
                            [(lit ''fileId'', JStr fid)])))"

section \<open>Preparing what is handed over\<close>

text \<open>What is handed to the slicer: a file of the library, or one in the launch directory.\<close>

datatype handed = In_Place path | In_Launch str

record launch_plan =
  la_handed :: handed
  la_stripped :: bool
  la_source :: launched_source

text \<open>What a launch computes from files.\<close>

record launch_tools =
  lt_tools :: tools
  lt_classify :: "str \<Rightarrow> opened \<Rightarrow> classification"
  lt_digests :: "str \<Rightarrow> opened \<Rightarrow> digests result"
  lt_strip :: "str \<Rightarrow> opened \<Rightarrow> strip_result result \<times> bytes option"

definition real_launch_tools ::
  "(bytes \<Rightarrow> u32) \<Rightarrow> (source \<Rightarrow> nat \<Rightarrow> nat \<Rightarrow> 'd) \<Rightarrow> ('d \<Rightarrow> nat \<Rightarrow> (inflate_fault + bytes) \<times> 'd) \<Rightarrow>
   (bytes \<Rightarrow> bytes) \<Rightarrow> os \<Rightarrow> copy_outcome \<Rightarrow> (bytes \<Rightarrow> json option) \<Rightarrow> (json \<Rightarrow> bytes) \<Rightarrow> launch_tools" where
  "real_launch_tools crc32 inflate_new inflate_read sha os copy parse print =
     \<lparr>lt_tools = real_tools inflate_new inflate_read sha os parse print,
      lt_classify = (\<lambda>name f. case classify_file inflate_new inflate_read os name f of
          Inr c \<Rightarrow> c | Inl _ \<Rightarrow> classification_of OtherFile None),
      lt_digests = (\<lambda>name f. plain_result (entry_digests inflate_new inflate_read sha os name f)),
      lt_strip = (\<lambda>input f. case strip3mf crc32 inflate_new inflate_read os copy False input f None of
          (r, out) \<Rightarrow> (plain_result r, out))\<rparr>"

text \<open>What surrounds one launch: identity, clock, disk, server and the process that is started.\<close>

datatype work_dir = Launch_Dir | Scratch_Dir

record launch_env =
  lv_platform :: platform
  lv_now :: int
  lv_launch_id :: str
  lv_library :: "str option"
  lv_mtime :: nat
  lv_show :: "path \<Rightarrow> str"
  lv_read :: "path \<Rightarrow> opened"
  lv_create :: "io_error option"
  lv_copy :: "io_error option"
  lv_download :: "str \<Rightarrow> bytes result"
  lv_rename :: "io_error option"
  lv_remove_download :: bool
  lv_write_record :: "io_error option"
  lv_scratch :: "str option"
  lv_spawn :: "str \<Rightarrow> handed list \<Rightarrow> work_dir \<Rightarrow> str + nat option"

text \<open>\<^verbatim>\<open>create_dir_all\<close>, a file written into it, and \<^verbatim>\<open>remove_dir_all\<close> (\<open>remove_folder\<close>).\<close>

definition make_folder :: "str \<Rightarrow> tree \<Rightarrow> tree" where
  "make_folder dir t = (if map_of t dir = None then t @ [(dir, Top_Folder (Some []))] else t)"

definition put_file :: "launch_env \<Rightarrow> str \<Rightarrow> bytes \<Rightarrow> tree \<Rightarrow> tree" where
  "put_file env name bs = write_at (lv_launch_id env) name \<lparr>lf_bytes = bs, lf_mtime = lv_mtime env, lf_locked = False\<rparr>"

definition STRIPPABLE :: str where "STRIPPABLE = lit ''.3mf''"

definition prepare ::
  "launch_tools \<Rightarrow> launch_env \<Rightarrow> launch_mode \<Rightarrow> classification \<Rightarrow> str \<Rightarrow> path \<Rightarrow> tree \<Rightarrow> launch_plan result \<times> tree" where
  "prepare lt env mode indexed name abs_path t =
     (let extension = extension_of (lv_platform env) name; dir = lv_launch_id env; input = lv_read env abs_path in
      if mode = As_Is then
        (if cl_kind indexed \<noteq> SlicerProject then Inl (refuse_not_a_project (cl_kind indexed))
         else Inr \<lparr>la_handed = In_Place abs_path, la_stripped = False,
                la_source = \<lparr>ls_classification = indexed, ls_is_3mf = (extension = STRIPPABLE)\<rparr>\<rparr>, t)
      else if extension = lit ''.stl'' \<or> extension = lit ''.obj'' then
        (Inr \<lparr>la_handed = In_Place abs_path, la_stripped = False,
            la_source = \<lparr>ls_classification = lt_classify lt (lv_show env abs_path) input, ls_is_3mf = False\<rparr>\<rparr>, t)
      else
        let base = base_name (lv_platform env) name in
        (case refuse_record_name base of
           Inl e \<Rightarrow> (Inl e, t)
         | Inr _ \<Rightarrow>
             (case lv_create env of
                Some e \<Rightarrow> (Inl (app_error_of_io e), t)
              | None \<Rightarrow>
                  let t1 = make_folder dir t in
                  if extension \<noteq> STRIPPABLE then
                    (case (input, lv_copy env) of
                       (Inr bs, None) \<Rightarrow>
                         (Inr \<lparr>la_handed = In_Launch base, la_stripped = False,
                             la_source = \<lparr>ls_classification = lt_classify lt (lv_show env abs_path) input, ls_is_3mf = False\<rparr>\<rparr>,
                          put_file env base bs t1)
                     | (Inr bs, Some e) \<Rightarrow> (Inl (app_error_of_io e), remove_folder dir t1)
                     | (Inl e, _) \<Rightarrow> (Inl (app_error_of_io e), remove_folder dir t1))
                  else
                    (case lt_strip lt (lv_show env abs_path) input of
                       (Inr res, Some bs) \<Rightarrow>
                         (Inr \<lparr>la_handed = In_Launch base, la_stripped = sr_stripped res,
                             la_source = \<lparr>ls_classification = sr_classification res, ls_is_3mf = True\<rparr>\<rparr>,
                          put_file env base bs t1)
                     | (Inr res, None) \<Rightarrow>
                         (Inr \<lparr>la_handed = In_Launch base, la_stripped = sr_stripped res,
                             la_source = \<lparr>ls_classification = sr_classification res, ls_is_3mf = True\<rparr>\<rparr>, t1)
                     | (Inl e, _) \<Rightarrow> (Inl (refuse_strip e name), remove_folder dir t1)))))"

definition prepare_remote ::
  "launch_tools \<Rightarrow> launch_env \<Rightarrow> launch_mode \<Rightarrow> source_file \<Rightarrow> str \<Rightarrow> tree \<Rightarrow> launch_plan result \<times> tree" where
  "prepare_remote lt env mode source fid t =
     (if mode = As_Is \<and> cl_kind (so_indexed source) \<noteq> SlicerProject
      then (Inl (refuse_not_a_project (cl_kind (so_indexed source))), t)
      else
        let name = base_name (lv_platform env) (so_name source); dir = lv_launch_id env;
            download = name @ DOWNLOAD_SUFFIX; extension = extension_of (lv_platform env) name in
        (case refuse_record_name name of
           Inl e \<Rightarrow> (Inl e, t)
         | Inr _ \<Rightarrow>
             (case lv_create env of
                Some e \<Rightarrow> (Inl (app_error_of_io e), t)
              | None \<Rightarrow>
                  let t1 = make_folder dir t in
                  (case lv_download env fid of
                     Inl e \<Rightarrow> (Inl e, remove_folder dir t1)
                   | Inr bs \<Rightarrow>
                       let t2 = put_file env download bs t1 in
                       if mode = As_Is \<or> extension \<noteq> STRIPPABLE then
                         (case lv_rename env of
                            Some e \<Rightarrow> (Inl (app_error_of_io e), remove_folder dir t2)
                          | None \<Rightarrow>
                              (Inr \<lparr>la_handed = In_Launch name, la_stripped = False,
                                  la_source = \<lparr>ls_classification = lt_classify lt name (Inr bs), ls_is_3mf = (extension = STRIPPABLE)\<rparr>\<rparr>,
                               put_file env name bs (remove_at (Inside dir download) t2)))
                       else
                         (case lt_strip lt download (Inr bs) of
                            (Inl e, _) \<Rightarrow> (Inl (refuse_strip e (so_name source)), remove_folder dir t2)
                          | (Inr res, out) \<Rightarrow>
                              let t3 = (case out of None \<Rightarrow> t2 | Some made \<Rightarrow> put_file env name made t2) in
                              (Inr \<lparr>la_handed = In_Launch name, la_stripped = sr_stripped res,
                                  la_source = \<lparr>ls_classification = sr_classification res, ls_is_3mf = True\<rparr>\<rparr>,
                               if lv_remove_download env then remove_at (Inside dir download) t3 else t3))))))"

text \<open>Preparing, on either side of the wire.\<close>

definition prepare_source ::
  "launch_tools \<Rightarrow> launch_env \<Rightarrow> launch_mode \<Rightarrow> source_file \<Rightarrow> str \<Rightarrow> tree \<Rightarrow> launch_plan result \<times> tree" where
  "prepare_source lt env mode src fid t =
     (case so_abs_path src of
        None \<Rightarrow> prepare_remote lt env mode src fid t
      | Some abs_path \<Rightarrow> prepare lt env mode (so_indexed src) (so_name src) abs_path t)"

section \<open>The launch\<close>

record launch_dto =
  ld_launch_id :: str
  ld_slicer_id :: slicer_id
  ld_install_label :: str
  ld_stripped :: bool
  ld_notices :: "str list"
  ld_pid :: "nat option"

text \<open>Everything that refuses before anything is written.\<close>

definition launch_choice ::
  "launch_env \<Rightarrow> launch_mode \<Rightarrow> slicer_id option \<Rightarrow> slicer_config \<Rightarrow> (str \<Rightarrow> (install \<times> str) result) \<Rightarrow>
   source_file result \<Rightarrow> (source_file \<times> slicer_id \<times> str option \<times> install \<times> str) result" where
  "launch_choice env mode asked config resolve source =
     bindE source (\<lambda>src.
     bindE (choose_slicer mode asked (cl_slicer (so_indexed src)) (sc_default config)) (\<lambda>(sid, why).
       let extension = extension_of (lv_platform env) (so_name src) in
       if (extension = lit ''.step'' \<or> extension = lit ''.stp'') \<and> \<not> sb_opens_step (sl_behaviour (slicer sid))
       then Inl (refuse_step_format sid extension)
       else
         (case map_of (sc_bindings config) sid of
            None \<Rightarrow> Inl (unbound_install sid config)
          | Some iid \<Rightarrow> bindE (resolve iid) (\<lambda>(inst, exe). Inr (src, sid, why, inst, exe)))))"

text \<open>The hash and the record of the copy; no launch directory, no record.\<close>

definition launch_record_of ::
  "launch_env \<Rightarrow> launch_mode \<Rightarrow> str \<Rightarrow> str \<Rightarrow> slicer_id \<Rightarrow> install \<Rightarrow> launch_plan \<Rightarrow> str \<Rightarrow> str \<Rightarrow> leaf \<Rightarrow> digests \<Rightarrow>
   launch_record" where
  "launch_record_of env mode pid fid sid inst plan name hash l digests =
     \<lparr>lr_launch_id = lv_launch_id env, lr_mode = mode, lr_project_id = pid, lr_file_id = fid, lr_slicer_id = sid,
      lr_install_id = in_id inst, lr_file_name = name, lr_launched_hash = hash, lr_started_at = lv_now env,
      lr_library = lv_library env, lr_source_slicer = cl_slicer (ls_classification (la_source plan)),
      lr_source_size_bytes = Some (int (length (lf_bytes l))), lr_launched_entries = Some digests, lr_swept_at = None\<rparr>"

definition record_launch ::
  "launch_tools \<Rightarrow> launch_env \<Rightarrow> launch_mode \<Rightarrow> str \<Rightarrow> str \<Rightarrow> slicer_id \<Rightarrow> install \<Rightarrow> launch_plan \<Rightarrow> tree \<Rightarrow>
   str result \<times> tree" where
  "record_launch lt env mode pid fid sid inst plan t =
     (case la_handed plan of
        In_Place _ \<Rightarrow> (Inr [], t)
      | In_Launch name \<Rightarrow>
          let p = Inside (lv_launch_id env) name; f = opened_at t p in
          (case bindE (t_hash (lt_tools lt) f) (\<lambda>hash.
                case file_at t p of
                  None \<Rightarrow> Inl (internal (lit ''not found''))
                | Some l \<Rightarrow> bindE (lt_digests lt name f) (\<lambda>digests.
                    case lv_write_record env of
                      Some e \<Rightarrow> Inl (app_error_of_io e)
                    | None \<Rightarrow> Inr (hash, launch_record_of env mode pid fid sid inst plan name hash l digests))) of
             Inl e \<Rightarrow> (Inl e, t)
           | Inr (hash, r) \<Rightarrow>
               (Inr hash, put_file env LAUNCH_RECORD_NAME (t_print (lt_tools lt) (record_json r)) t)))"

definition spawn_or_clean ::
  "launch_env \<Rightarrow> str \<Rightarrow> slicer_id \<Rightarrow> launch_plan \<Rightarrow> tree \<Rightarrow> nat option result \<times> tree" where
  "spawn_or_clean env exe sid plan t =
     (case (case (la_handed plan, lv_scratch env) of
              (In_Place _, Some cause) \<Rightarrow> Inl cause
            | _ \<Rightarrow> lv_spawn env exe (argv (slicer sid) (la_handed plan))
                     (case la_handed plan of In_Place _ \<Rightarrow> Scratch_Dir | In_Launch _ \<Rightarrow> Launch_Dir)) of
        Inr pid \<Rightarrow> (Inr pid, t)
      | Inl cause \<Rightarrow>
          (Inl ((with_details (new_error Internal (lit ''could not start '' @ sl_display_name (slicer sid)))
                   [(lit ''cause'', JStr cause)])\<lparr>err_cause := Some cause\<rparr>),
           case la_handed plan of In_Place _ \<Rightarrow> t | In_Launch _ \<Rightarrow> remove_folder (lv_launch_id env) t))"

text \<open>The last component: what \<^verbatim>\<open>on_launched\<close> hears, as \<open>track_launch\<close> takes it.\<close>

definition open_launch ::
  "launch_tools \<Rightarrow> launch_env \<Rightarrow> bool \<Rightarrow> str \<Rightarrow> str \<Rightarrow> launch_mode \<Rightarrow> slicer_id option \<Rightarrow> source_file result \<Rightarrow>
   slicer_config \<Rightarrow> (str \<Rightarrow> (install \<times> str) result) \<Rightarrow> tree \<Rightarrow>
   launch_dto result \<times> tree \<times> (str \<times> spath \<times> str) option" where
  "open_launch lt env remote fid pid mode asked source config resolve t =
     (case launch_choice env mode asked config resolve source of
        Inl e \<Rightarrow> (Inl e, t, None)
      | Inr (src, sid, why, inst, exe) \<Rightarrow>
          (case prepare_source lt env mode src fid t of
             (Inl e, t1) \<Rightarrow> (Inl e, t1, None)
           | (Inr plan, t1) \<Rightarrow>
               (case record_launch lt env mode pid fid sid inst plan t1 of
                  (Inl e, t2) \<Rightarrow> (Inl e, t2, None)
                | (Inr hash, t2) \<Rightarrow>
                    (case spawn_or_clean env exe sid plan t2 of
                       (Inl e, t3) \<Rightarrow> (Inl e, t3, None)
                     | (Inr process, t3) \<Rightarrow>
                         (Inr \<lparr>ld_launch_id = lv_launch_id env, ld_slicer_id = sid, ld_install_label = in_label inst,
                               ld_stripped = la_stripped plan,
                               ld_notices = (case why of None \<Rightarrow> [] | Some w \<Rightarrow> [w])
                                 @ notices sid (la_source plan) (la_stripped plan) remote,
                               ld_pid = process\<rparr>,
                          t3,
                          case la_handed plan of
                            In_Place _ \<Rightarrow> None
                          | In_Launch name \<Rightarrow> Some (lv_launch_id env, Inside (lv_launch_id env) name, hash))))))"


section \<open>The launch directory\<close>

text \<open>A tree with one more folder, whose name was free.\<close>

definition with_folder :: "tree \<Rightarrow> str \<Rightarrow> (str \<times> child) list \<Rightarrow> tree" where
  "with_folder t dir cs = t @ [(dir, Top_Folder (Some cs))]"

lemma with_folder_inject [simp]: "with_folder t dir cs = with_folder t dir cs' \<longleftrightarrow> cs = cs'"
  by (simp add: with_folder_def)

lemma make_folder_fresh: "map_of t dir = None \<Longrightarrow> make_folder dir t = with_folder t dir []"
  by (simp add: make_folder_def with_folder_def)

lemma map_fresh: "map_of t dir = None \<Longrightarrow> (\<And>n e. n \<noteq> dir \<Longrightarrow> f n e = e) \<Longrightarrow> map (\<lambda>(n, e). (n, f n e)) t = t"
  by (induction t) (auto split: if_splits)

lemma put_file_fresh:
  assumes "map_of t (lv_launch_id env) = None"
  shows "put_file env name bs (with_folder t (lv_launch_id env) cs) =
     with_folder t (lv_launch_id env)
       (AList.update name (Child_File \<lparr>lf_bytes = bs, lf_mtime = lv_mtime env, lf_locked = False\<rparr>) cs)"
proof -
  let ?f = "\<lambda>n e. case e of Top_Folder (Some cs) \<Rightarrow>
      if n = lv_launch_id env
      then Top_Folder (Some (AList.update name (Child_File \<lparr>lf_bytes = bs, lf_mtime = lv_mtime env, lf_locked = False\<rparr>) cs)) else e
      | _ \<Rightarrow> e"
  have "map (\<lambda>(n, e). (n, ?f n e)) t = t"
    by (rule map_fresh [OF assms]) (auto split: top_entry.splits option.splits)
  then show ?thesis by (simp add: put_file_def write_at_def with_folder_def)
qed

lemma remove_at_fresh:
  assumes "map_of t dir = None"
  shows "remove_at (Inside dir name) (with_folder t dir cs) =
     with_folder t dir (filter (\<lambda>(m, c). \<not> (m = name \<and> is_child_file c)) cs)"
proof -
  let ?f = "\<lambda>n e. case e of Top_Folder (Some cs) \<Rightarrow>
      if n = dir then Top_Folder (Some (filter (\<lambda>(m, c). \<not> (m = name \<and> is_child_file c)) cs)) else e | _ \<Rightarrow> e"
  have "map (\<lambda>(n, e). (n, ?f n e)) t = t"
    by (rule map_fresh [OF assms]) (auto split: top_entry.splits option.splits)
  then show ?thesis by (simp add: remove_at_def with_folder_def)
qed

lemma remove_folder_fresh:
  assumes "map_of t dir = None"
  shows "remove_folder dir (with_folder t dir cs) = t" "remove_folder dir t = t"
  using assms by (auto simp: remove_folder_def with_folder_def filter_id_conv map_of_eq_None_iff image_iff)

lemma children_with_folder:
  "map_of t dir = None \<Longrightarrow> children_of (with_folder t dir cs) d = (if d = dir then cs else children_of t d)"
  by (auto simp: children_of_def with_folder_def map_add_def split: option.splits)

lemma file_at_with_folder:
  "map_of t dir = None \<Longrightarrow> file_at (with_folder t dir cs) q =
     (case q of
        Loose n \<Rightarrow> file_at t (Loose n)
      | Inside d n \<Rightarrow>
          if d = dir then (case map_of cs n of Some (Child_File l) \<Rightarrow> Some l | _ \<Rightarrow> None) else file_at t (Inside d n))"
proof (cases q)
  case (Loose n)
  assume "map_of t dir = None"
  then show ?thesis by (auto simp: Loose file_at_def with_folder_def map_add_def split: option.splits)
next
  case (Inside d n)
  assume "map_of t dir = None"
  then show ?thesis by (simp add: Inside file_at_def children_with_folder)
qed

lemma tree_wf_with_folder:
  "tree_wf t \<Longrightarrow> map_of t dir = None \<Longrightarrow> distinct (map fst cs) \<Longrightarrow> tree_wf (with_folder t dir cs)"
  by (auto simp: tree_wf_def children_with_folder) (auto simp: with_folder_def map_of_eq_None_iff)

section \<open>What preparing leaves\<close>

lemma record_name_lower: "to_ascii_lowercase LAUNCH_RECORD_NAME = LAUNCH_RECORD_NAME"
  by (simp add: to_ascii_lowercase_def LAUNCH_RECORD_NAME_def lit_def)

lemma refuse_record_name_ok: "refuse_record_name name = Inr u \<Longrightarrow> name \<noteq> LAUNCH_RECORD_NAME"
  using record_name_lower by (auto simp: refuse_record_name_def split: if_splits)

lemma download_not_record: "name @ DOWNLOAD_SUFFIX \<noteq> LAUNCH_RECORD_NAME"
proof
  assume "name @ DOWNLOAD_SUFFIX = LAUNCH_RECORD_NAME"
  then have "List.last (name @ DOWNLOAD_SUFFIX) = List.last LAUNCH_RECORD_NAME" by simp
  then show False by (simp add: DOWNLOAD_SUFFIX_def LAUNCH_RECORD_NAME_def lit_def)
qed

text \<open>Where a prepared launch leaves the tree: untouched, or with its folder and no record in it.\<close>

definition prepared :: "launch_env \<Rightarrow> tree \<Rightarrow> handed \<Rightarrow> tree \<Rightarrow> bool" where
  "prepared env t handed t1 \<longleftrightarrow>
     (case handed of
        In_Place _ \<Rightarrow> t1 = t
      | In_Launch name \<Rightarrow>
          name \<noteq> LAUNCH_RECORD_NAME \<and>
          (\<exists>cs. t1 = with_folder t (lv_launch_id env) cs \<and> distinct (map fst cs) \<and> LAUNCH_RECORD_NAME \<notin> fst ` set cs \<and>
             (\<forall>l. (name, Child_File l) \<in> set cs \<longrightarrow> \<not> lf_locked l)))"

lemma prepare_facts:
  assumes "prepare lt env mode indexed name abs_path t = (r, t1)" "map_of t (lv_launch_id env) = None"
  shows "case r of Inl e \<Rightarrow> t1 = t | Inr plan \<Rightarrow> prepared env t (la_handed plan) t1"
  using assms
  by (auto simp: prepare_def Let_def make_folder_fresh put_file_fresh remove_folder_fresh prepared_def
      dest!: refuse_record_name_ok split: if_splits sum.splits option.splits prod.splits)

lemma prepare_remote_facts:
  assumes "prepare_remote lt env mode src fid t = (r, t1)" "map_of t (lv_launch_id env) = None"
  shows "case r of Inl e \<Rightarrow> t1 = t | Inr plan \<Rightarrow> prepared env t (la_handed plan) t1"
proof (cases r)
  case (Inl e)
  then show ?thesis
    using assms by (auto simp: prepare_remote_def Let_def make_folder_fresh put_file_fresh remove_folder_fresh
      split: if_splits sum.splits option.splits prod.splits)
next
  case (Inr plan)
  let ?name = "base_name (lv_platform env) (so_name src)"
  let ?d = "?name @ DOWNLOAD_SUFFIX"
  have name: "?name \<noteq> LAUNCH_RECORD_NAME" "la_handed plan = In_Launch ?name"
    using assms(1) Inr
    by (auto simp: prepare_remote_def Let_def dest!: refuse_record_name_ok split: if_splits sum.splits option.splits prod.splits)
  obtain cs where "t1 = with_folder t (lv_launch_id env) cs" "distinct (map fst cs)" "fst ` set cs \<subseteq> {?name, ?d}"
      "\<forall>(n, c) \<in> set cs. \<exists>l. c = Child_File l \<and> \<not> lf_locked l"
    using assms Inr
    by (auto simp: prepare_remote_def Let_def make_folder_fresh put_file_fresh remove_at_fresh
        split: if_splits sum.splits option.splits prod.splits)
  then show ?thesis using Inr name download_not_record [of ?name] by (fastforce simp: prepared_def)
qed

section \<open>What opening leaves\<close>

lemma record_launch_cases:
  assumes "record_launch lt env mode pid fid sid inst plan t = (r, t1)"
  shows "(\<exists>e. r = Inl e \<and> t1 = t) \<or> (\<exists>p. la_handed plan = In_Place p \<and> r = Inr [] \<and> t1 = t) \<or>
    (\<exists>name l hash digests. la_handed plan = In_Launch name \<and> r = Inr hash \<and>
       file_at t (Inside (lv_launch_id env) name) = Some l \<and>
       t_hash (lt_tools lt) (opened_leaf l) = Inr hash \<and> lv_write_record env = None \<and>
       t1 = put_file env LAUNCH_RECORD_NAME
         (t_print (lt_tools lt) (record_json (launch_record_of env mode pid fid sid inst plan name hash l digests))) t)"
proof (cases "la_handed plan")
  case (In_Place p)
  then show ?thesis using assms by (auto simp: record_launch_def)
next
  case (In_Launch name)
  show ?thesis
  proof (cases r)
    case (Inl e)
    then show ?thesis using assms In_Launch by (auto simp: record_launch_def Let_def split: sum.splits)
  next
    case (Inr h)
    then show ?thesis
      using assms In_Launch
      by (auto simp: record_launch_def Let_def opened_at_def bindE_eq_Inr split: sum.splits option.splits)
  qed
qed

lemma spawn_cases:
  "spawn_or_clean env exe sid plan t = (r, t1) \<Longrightarrow>
     (case r of Inr _ \<Rightarrow> t1 = t
      | Inl _ \<Rightarrow> (case la_handed plan of In_Place _ \<Rightarrow> t1 = t | In_Launch _ \<Rightarrow> t1 = remove_folder (lv_launch_id env) t))"
  by (auto simp: spawn_or_clean_def split: sum.splits handed.splits option.splits)

lemma prepare_source_facts:
  assumes "prepare_source lt env mode src fid t = (r, t1)" "map_of t (lv_launch_id env) = None"
  shows "case r of Inl e \<Rightarrow> t1 = t | Inr plan \<Rightarrow> prepared env t (la_handed plan) t1"
  using assms prepare_facts prepare_remote_facts by (simp add: prepare_source_def split: option.splits)

lemma prepared_recorded:
  assumes "prepared env t (In_Launch name) t1" "map_of t (lv_launch_id env) = None"
  obtains cs where "t1 = with_folder t (lv_launch_id env) cs" "distinct (map fst cs)" "LAUNCH_RECORD_NAME \<notin> fst ` set cs"
    "name \<noteq> LAUNCH_RECORD_NAME" "\<And>l. (name, Child_File l) \<in> set cs \<Longrightarrow> \<not> lf_locked l"
  using assms by (auto simp: prepared_def)

lemma open_launch_fails:
  assumes "open_launch lt env remote fid pid mode asked source config resolve t = (Inl e, t', tr)"
    "map_of t (lv_launch_id env) = None"
  shows "tr = None \<and> (t' = t \<or>
    (\<exists>src sid why inst exe plan name. launch_choice env mode asked config resolve source = Inr (src, sid, why, inst, exe) \<and>
       prepare_source lt env mode src fid t = (Inr plan, t') \<and> la_handed plan = In_Launch name \<and>
       record_launch lt env mode pid fid sid inst plan t' = (Inl e, t')))"
proof (cases "launch_choice env mode asked config resolve source")
  case (Inl e')
  then show ?thesis using assms(1) by (simp add: open_launch_def)
next
  case (Inr choice)
  obtain src sid why inst exe where choice: "choice = (src, sid, why, inst, exe)" by (metis surj_pair)
  obtain rp t1 where prep: "prepare_source lt env mode src fid t = (rp, t1)" by fastforce
  note left = prepare_source_facts [OF prep assms(2)]
  show ?thesis
  proof (cases rp)
    case (Inl e')
    then show ?thesis using assms(1) Inr prep left by (simp add: open_launch_def choice)
  next
    case plan: (Inr plan)
    obtain rr t2 where rec: "record_launch lt env mode pid fid sid inst plan t1 = (rr, t2)" by fastforce
    show ?thesis
    proof (cases rr)
      case (Inl e')
      then have "t2 = t1" using record_launch_cases [OF rec] by auto
      moreover have "la_handed plan = In_Place p \<Longrightarrow> False" for p
        using rec Inl by (simp add: record_launch_def)
      ultimately show ?thesis
        using assms(1) Inr prep plan rec Inl by (cases "la_handed plan") (auto simp: open_launch_def choice)
    next
      case hash: (Inr hash)
      obtain rs t3 where sp: "spawn_or_clean env exe sid plan t2 = (rs, t3)" by fastforce
      have fin: "rs = Inl e" "t' = t3" "tr = None"
        using assms(1) Inr prep plan rec hash sp by (auto simp: open_launch_def choice split: sum.splits)
      have "t3 = t"
      proof (cases "la_handed plan")
        case (In_Place p)
        then show ?thesis using record_launch_cases [OF rec] hash spawn_cases [OF sp] fin(1) left plan by (auto simp: prepared_def)
      next
        case (In_Launch name)
        obtain cs where "t1 = with_folder t (lv_launch_id env) cs"
          using left plan In_Launch assms(2) prepared_recorded by (metis sum.case(2))
        then have "\<exists>cs. t2 = with_folder t (lv_launch_id env) cs"
          using record_launch_cases [OF rec] hash In_Launch put_file_fresh [OF assms(2)] by auto
        then show ?thesis using spawn_cases [OF sp] fin(1) In_Launch remove_folder_fresh [OF assms(2)] by auto
      qed
      then show ?thesis using fin by simp
    qed
  qed
qed


section \<open>The record, read back\<close>

lemma digest_fields_back [simp]: "digest_fields (map (\<lambda>(n, d). (n, JStr d)) ds) = ds"
  by (induction ds) (auto simp: digest_fields_def List.map_filter_def)

lemma read_record_json:
  assumes "- (2 ^ 63) \<le> lr_started_at r" "lr_started_at r < 2 ^ 63"
    "\<And>n. lr_source_size_bytes r = Some n \<Longrightarrow> - (2 ^ 63) \<le> n \<and> n < 2 ^ 63"
    "\<And>n. lr_swept_at r = Some n \<Longrightarrow> - (2 ^ 63) \<le> n \<and> n < 2 ^ 63"
  shows "read_record_with (Some (record_json r)) = Some r"
proof -
  show ?thesis
    using assms
    by (cases "lr_mode r"; cases r)
      (simp_all add: read_record_with_def record_json_def text_of_def optional_field_def
        slicer_id.parse_as_str lit_def split: option.splits)
qed

lemma open_launch_ok:
  assumes "open_launch lt env remote fid pid mode asked source config resolve t = (Inr dto, t', Some (i, p, h))"
    "map_of t (lv_launch_id env) = None"
  obtains src sid inst plan name l digests cs where
    "source = Inr src" "prepare_source lt env mode src fid t = (Inr plan, with_folder t (lv_launch_id env) cs)"
    "la_handed plan = In_Launch name" "ld_stripped dto = la_stripped plan"
    "i = lv_launch_id env" "p = Inside i name" "name \<noteq> LAUNCH_RECORD_NAME" "distinct (map fst cs)"
    "map_of cs name = Some (Child_File l)" "\<not> lf_locked l" "t_hash (lt_tools lt) (Inr (lf_bytes l)) = Inr h"
    "t' = put_file env LAUNCH_RECORD_NAME (t_print (lt_tools lt)
       (record_json (launch_record_of env mode pid fid sid inst plan name h l digests))) (with_folder t i cs)"
proof -
  obtain src sid why inst exe where choice: "launch_choice env mode asked config resolve source = Inr (src, sid, why, inst, exe)"
    using assms(1) by (auto simp: open_launch_def split: sum.splits)
  have src: "source = Inr src" using choice by (auto simp: launch_choice_def bindE_eq_Inr Let_def split: if_splits option.splits)
  obtain plan t1 where prep: "prepare_source lt env mode src fid t = (Inr plan, t1)"
    using assms(1) choice by (auto simp: open_launch_def split: sum.splits prod.splits)
  obtain t2 name process where rec: "record_launch lt env mode pid fid sid inst plan t1 = (Inr h, t2)"
      "la_handed plan = In_Launch name" "spawn_or_clean env exe sid plan t2 = (Inr process, t')"
      "i = lv_launch_id env" "p = Inside i name" "ld_stripped dto = la_stripped plan"
    using assms(1) choice prep by (auto simp: open_launch_def split: sum.splits prod.splits handed.splits)
  have spawned: "t' = t2" using spawn_cases [OF rec(3)] by simp
  have left: "prepared env t (In_Launch name) t1" using prepare_source_facts [OF prep assms(2)] rec(2) by simp
  obtain cs where cs: "t1 = with_folder t i cs" "distinct (map fst cs)" "name \<noteq> LAUNCH_RECORD_NAME"
      "\<And>l. (name, Child_File l) \<in> set cs \<Longrightarrow> \<not> lf_locked l"
    using prepared_recorded [OF left assms(2)] rec(4) by blast
  obtain l digests where l: "file_at t1 (Inside i name) = Some l" "t_hash (lt_tools lt) (opened_leaf l) = Inr h"
      "t2 = put_file env LAUNCH_RECORD_NAME (t_print (lt_tools lt)
         (record_json (launch_record_of env mode pid fid sid inst plan name h l digests))) t1"
    using record_launch_cases [OF rec(1)] rec(2,4) by auto
  have at: "map_of cs name = Some (Child_File l)"
    using l(1) file_at_with_folder [of t i cs] assms(2) rec(4) by (auto simp: cs(1) split: option.splits child.splits)
  have free: "\<not> lf_locked l" using at cs(4) by (blast dest: map_of_SomeD)
  show ?thesis
    using that [OF src _ rec(2,6,4,5) cs(3,2) at free] prep l(2,3) free spawned rec(4) cs(1)
    by (simp add: opened_leaf_def)
qed

lemma launched_tree:
  assumes "map_of t i = None" "distinct (map fst cs)" "name \<noteq> LAUNCH_RECORD_NAME" "map_of cs name = Some (Child_File l)"
    "lv_launch_id env = i"
  shows "file_at (put_file env LAUNCH_RECORD_NAME bs (with_folder t i cs)) (Inside i name) = Some l"
    "opened_at (put_file env LAUNCH_RECORD_NAME bs (with_folder t i cs)) (Inside i LAUNCH_RECORD_NAME) = Inr bs"
    "(\<And>n. q \<noteq> Inside i n) \<Longrightarrow> file_at (put_file env LAUNCH_RECORD_NAME bs (with_folder t i cs)) q = file_at t q"
    "tree_wf t \<Longrightarrow> tree_wf (put_file env LAUNCH_RECORD_NAME bs (with_folder t i cs))"
  using assms
  by (auto simp: put_file_fresh file_at_with_folder opened_at_def opened_leaf_def update_conv' tree_wf_with_folder distinct_update
      split: spath.splits)

section \<open>Properties\<close>

text \<open>A launch id nobody has used: no folder, no memory and no watch bears it, and it is no path.\<close>

definition unused_id :: "str \<Rightarrow> 'l machine \<Rightarrow> bool" where
  "unused_id i m \<longleftrightarrow> map_of (ma_tree m) i = None \<and> 47 \<notin> set i \<and>
     (\<forall>n. li_hashes (ma_li m) (Inside i n) = None) \<and> i \<notin> fst ` set (li_tracked (ma_li m))"

lemma tracks_ok_launched:
  assumes "tracks_ok ts t li" "i \<notin> fst ` set (li_tracked li)" "\<And>q. (\<And>n. q \<noteq> Inside i n) \<Longrightarrow> file_at t' q = file_at t q"
  shows "tracks_ok ts t' li"
proof -
  have "read_record ts t' j = read_record ts t j" if "j \<noteq> i" for j
    by (rule read_record_cong) (use assms(3) that in auto)
  then show ?thesis using assms(1,2) unfolding tracks_ok_def by (fastforce simp: image_iff)
qed

lemma memo_ok_launched:
  assumes "memo_ok ts t li" "\<And>n. li_hashes li (Inside i n) = None" "\<And>q. (\<And>n. q \<noteq> Inside i n) \<Longrightarrow> file_at t' q = file_at t q"
  shows "memo_ok ts t' li"
  unfolding memo_ok_def
proof (intro allI impI)
  fix q key h
  assume some: "li_hashes li q = Some (key, h)"
  have "q \<noteq> Inside i n" for n using some assms(2) [of n] by auto
  then show "not_record q \<and> (\<forall>l. file_at t' q = Some l \<and> stamp_of l = key \<longrightarrow> t_hash ts (Inr (lf_bytes l)) = Inr h)"
    using assms(1,3) some unfolding memo_ok_def by metis
qed

lemma tracks_ok_track:
  assumes "tracks_ok ts t li" "47 \<notin> set i" "n \<noteq> LAUNCH_RECORD_NAME" "\<And>r. read_record ts t i = Some r \<Longrightarrow> lr_file_name r = n"
  shows "tracks_ok ts t (fst (track_launch i (Inside i n) h li))"
  using assms tracks_ok_untrack [OF assms(1), of i] by (auto simp: tracks_ok_def track_launch_def Let_def)

text \<open>C24
  A launch that builds a directory is a session from its first moment: the file the slicer gets has
  the hash the app remembers, the record beside it is read back with that hash, that file and that
  project, every other file of the directory is untouched, and both changes are ones the session
  lifecycle is verified for.
\<close>
theorem launch_is_session:
  assumes "open_launch lt env remote fid pid mode asked source config resolve (ma_tree m) = (Inr dto, t', Some (i, p, h))"
    "machine_ok (lt_tools lt) m" "unused_id (lv_launch_id env) m"
    "\<forall>j. t_parse (lt_tools lt) (t_print (lt_tools lt) j) = Some j"
    "- (2 ^ 63) \<le> lv_now env" "lv_now env < 2 ^ 63" "\<forall>l. file_at t' p = Some l \<longrightarrow> int (length (lf_bytes l)) < 2 ^ 63"
  shows "(\<exists>l r. file_at t' p = Some l \<and> t_hash (lt_tools lt) (Inr (lf_bytes l)) = Inr h \<and>
           read_record (lt_tools lt) t' i = Some r \<and> p = Inside i (lr_file_name r) \<and> lr_launch_id r = i \<and>
           lr_launched_hash r = h \<and> lr_file_id r = fid \<and> lr_project_id r = pid \<and> lr_mode r = mode \<and> lr_swept_at r = None) \<and>
         (\<forall>q. (\<forall>n. q \<noteq> Inside i n) \<longrightarrow> file_at t' q = file_at (ma_tree m) q) \<and>
         session_allowed (lt_tools lt) m (Outside t') \<and>
         session_allowed (lt_tools lt) (session_step (lt_tools lt) le (Outside t') m) (Ev_Track i p h)"
proof -
  let ?ts = "lt_tools lt" and ?t = "ma_tree m" and ?li = "ma_li m"
  have new: "map_of ?t (lv_launch_id env) = None" using assms(3) by (simp add: unused_id_def)
  obtain src sid inst plan name l digests cs where fin: "i = lv_launch_id env" "p = Inside i name" "name \<noteq> LAUNCH_RECORD_NAME"
      "distinct (map fst cs)" "map_of cs name = Some (Child_File l)" "t_hash ?ts (Inr (lf_bytes l)) = Inr h"
      "t' = put_file env LAUNCH_RECORD_NAME (t_print ?ts
         (record_json (launch_record_of env mode pid fid sid inst plan name h l digests))) (with_folder ?t i cs)"
    by (rule open_launch_ok [OF assms(1) new])
  let ?r = "launch_record_of env mode pid fid sid inst plan name h l digests"
  note left = launched_tree [OF new [folded fin(1)] fin(4,3,5) fin(1) [symmetric],
      where bs = "t_print ?ts (record_json ?r)", folded fin(7)]
  have bound: "int (length (lf_bytes l)) < 2 ^ 63" using assms(7) left(1) fin(2) by blast
  have rec: "read_record ?ts t' i = Some ?r"
    using left(2) assms(4-6) bound read_record_json [of ?r] by (simp add: read_record_def launch_record_of_def)
  have others: "(\<forall>n. q \<noteq> Inside i n) \<Longrightarrow> file_at t' q = file_at ?t q" for q using left(3) by blast
  have ok: "tree_wf ?t" "memo_ok ?ts ?t ?li" "tracks_ok ?ts ?t ?li" using assms(2) by (auto simp: machine_ok_def)
  have tracks: "tracks_ok ?ts t' ?li"
    by (rule tracks_ok_launched [OF ok(3)]) (use assms(3) fin(1) others in \<open>auto simp: unused_id_def\<close>)
  moreover have "memo_ok ?ts t' ?li"
    by (rule memo_ok_launched [OF ok(2)]) (use assms(3) fin(1) others in \<open>auto simp: unused_id_def\<close>)
  moreover have "tracks_ok ?ts t' (fst (track_launch i p h ?li))"
    unfolding fin(2)
    by (rule tracks_ok_track [OF tracks _ fin(3)])
      (use assms(3) fin(1) rec in \<open>auto simp: unused_id_def launch_record_of_def\<close>)
  ultimately show ?thesis
    using left(1) left(4) [OF ok(1)] fin(1,2,6) rec others
    by (auto simp: session_allowed_def launch_record_of_def)
qed

text \<open>The name whose extension decides, and the bytes a launch starts from.\<close>

definition deciding_name :: "platform \<Rightarrow> source_file \<Rightarrow> str" where
  "deciding_name pf src = (if so_abs_path src = None then base_name pf (so_name src) else so_name src)"

definition launch_input :: "launch_env \<Rightarrow> str \<Rightarrow> source_file \<Rightarrow> bytes option" where
  "launch_input env fid src =
     (case so_abs_path src of
        None \<Rightarrow> (case lv_download env fid of Inr bs \<Rightarrow> Some bs | Inl _ \<Rightarrow> None)
      | Some a \<Rightarrow> (case lv_read env a of Inr bs \<Rightarrow> Some bs | Inl _ \<Rightarrow> None))"

lemma map_of_filter_other:
  "n \<noteq> d \<Longrightarrow> map_of (filter (\<lambda>(m, c). \<not> (m = d \<and> q c)) xs) n = map_of xs n"
  by (induction xs) auto

lemma name_not_download: "n \<noteq> n @ DOWNLOAD_SUFFIX" "n @ DOWNLOAD_SUFFIX \<noteq> n" "DOWNLOAD_SUFFIX \<noteq> []"
  by (simp_all add: DOWNLOAD_SUFFIX_def lit_def)

lemma prepare_strips:
  assumes "prepare_source lt env New_Project src fid t = (Inr plan, with_folder t (lv_launch_id env) cs)"
    "map_of t (lv_launch_id env) = None" "extension_of (lv_platform env) (deciding_name (lv_platform env) src) = STRIPPABLE"
  obtains input f res out name where
    "lt_strip lt input f = (Inr res, out)" "\<And>bs. f = Inr bs \<Longrightarrow> launch_input env fid src = Some bs"
    "la_handed plan = In_Launch name" "la_stripped plan = sr_stripped res"
    "\<And>bs. out = Some bs \<Longrightarrow> map_of cs name = Some (Child_File \<lparr>lf_bytes = bs, lf_mtime = lv_mtime env, lf_locked = False\<rparr>)"
proof (cases "so_abs_path src")
  case (Some a)
  have ext: "extension_of (lv_platform env) (so_name src) = STRIPPABLE" "STRIPPABLE \<noteq> lit ''.stl''" "STRIPPABLE \<noteq> lit ''.obj''"
    using assms(3) Some by (simp_all add: deciding_name_def STRIPPABLE_def lit_def)
  obtain r out where strip: "lt_strip lt (lv_show env a) (lv_read env a) = (r, out)" by fastforce
  then obtain res where res: "r = Inr res"
    using assms(1,2) Some ext
    by (auto simp: prepare_source_def prepare_def Let_def split: sum.splits option.splits)
  show ?thesis
    by (rule that [OF strip [unfolded res], where name = "base_name (lv_platform env) (so_name src)"])
      (use assms(1,2) Some ext strip res in \<open>auto simp: prepare_source_def prepare_def Let_def make_folder_fresh
        put_file_fresh launch_input_def split: sum.splits option.splits\<close>)
next
  case None
  let ?name = "base_name (lv_platform env) (so_name src)"
  have ext: "extension_of (lv_platform env) ?name = STRIPPABLE"
    using assms(3) None by (simp add: deciding_name_def)
  obtain bs where bs: "lv_download env fid = Inr bs"
    using assms(1,2) None ext by (auto simp: prepare_source_def prepare_remote_def Let_def split: sum.splits option.splits)
  obtain r out where strip: "lt_strip lt (?name @ DOWNLOAD_SUFFIX) (Inr bs) = (r, out)" by fastforce
  then obtain res where res: "r = Inr res"
    using assms(1,2) None ext bs by (auto simp: prepare_source_def prepare_remote_def Let_def split: sum.splits option.splits)
  show ?thesis
    by (rule that [OF strip [unfolded res], where name = ?name])
      (use assms(1,2) None ext strip res bs in \<open>auto simp: prepare_source_def prepare_remote_def Let_def make_folder_fresh
        put_file_fresh remove_at_fresh launch_input_def map_of_filter_other name_not_download update_conv'
        split: if_splits sum.splits option.splits\<close>)
qed

lemma plain_result_Inr: "plain_result r = Inr x \<longleftrightarrow> r = Inr x"
  by (auto simp: plain_result_def split: sum.splits fault.splits)

lemma real_strip:
  assumes "lt_strip (real_launch_tools crc32 inflate_new inflate_read sha os copy parse print) input f = (Inr res, out)"
    "os_delivers os" "\<And>data. f = Inr data \<Longrightarrow> length data \<le> MAX_SAFE_INTEGER"
  obtains data bs after where "f = Inr data" "out = Some bs" "classify_3mf inflate_new inflate_read os (Inr bs) = Inr after"
    "cl_kind after = Model" "\<not> sr_stripped res \<Longrightarrow> bs = data"
proof -
  have strip: "strip3mf crc32 inflate_new inflate_read os copy False input f None = (Inr res, out)"
    using assms(1) by (simp add: real_launch_tools_def plain_result_Inr split: prod.splits)
  obtain c after where into: "strip_into crc32 inflate_new inflate_read os copy f None c = (Inr res, out)"
      "classify_3mf inflate_new inflate_read os (output_file out) = Inr after" "cl_kind after = Model"
    using strip3mf_cases [OF strip] by auto
  obtain data where data: "f = Inr data" using into(1) by (cases f) (auto simp: strip_into_def read_zip_entries_def)
  show ?thesis
    using strip_into_facts [OF into(1) [unfolded data] assms(2) assms(3) [OF data]] into(2,3)
    by (auto simp: Let_def output_file_def intro!: that [OF data] split: if_splits)
qed


text \<open>C27
  When the copy has been made and its hash, its digests or the record then fail, the launch is
  refused but its directory stays, with the copy and without a record.
\<close>
theorem unrecorded_copy_stays:
  assumes "launch_choice env mode asked config resolve source = Inr (src, sid, why, inst, exe)"
    "prepare_source lt env mode src fid t = (Inr plan, t1)" "la_handed plan = In_Launch name"
    "fst (record_launch lt env mode pid fid sid inst plan t1) = Inl e" "map_of t (lv_launch_id env) = None"
  shows "open_launch lt env remote fid pid mode asked source config resolve t = (Inl e, t1, None) \<and>
    map_of t1 (lv_launch_id env) \<noteq> None \<and> read_record (lt_tools lt) t1 (lv_launch_id env) = None"
proof -
  obtain t2 where rec: "record_launch lt env mode pid fid sid inst plan t1 = (Inl e, t2)"
    using assms(4) by (metis prod.collapse)
  then have "t2 = t1" using record_launch_cases [OF rec] by auto
  moreover have left: "prepared env t (In_Launch name) t1" using prepare_source_facts [OF assms(2,5)] assms(3) by simp
  obtain cs where cs: "t1 = with_folder t (lv_launch_id env) cs" "LAUNCH_RECORD_NAME \<notin> fst ` set cs"
    by (rule prepared_recorded [OF left assms(5)])
  have "file_at t1 (Inside (lv_launch_id env) LAUNCH_RECORD_NAME) = None"
    using cs by (simp add: file_at_with_folder [OF assms(5)] map_of_eq_None_iff [symmetric])
  moreover have "map_of t1 (lv_launch_id env) \<noteq> None"
    using cs(1) by (simp add: with_folder_def map_of_eq_None_iff)
  ultimately show ?thesis using assms(1,2) rec by (simp add: open_launch_def read_record_gone)
qed

text \<open>C26
  A launch that is refused tells the session lifecycle nothing and leaves the sessions directory as
  it was, whichever step refused, with one exception: a copy that was made and could not be hashed
  or recorded.
\<close>
theorem refused_launch_leaves_nothing:
  assumes "open_launch lt env remote fid pid mode asked source config resolve t = (Inl e, t', tr)"
    "map_of t (lv_launch_id env) = None"
  shows "tr = None \<and> (t' = t \<or>
    (\<exists>src sid why inst exe plan name. launch_choice env mode asked config resolve source = Inr (src, sid, why, inst, exe) \<and>
       prepare_source lt env mode src fid t = (Inr plan, t') \<and> la_handed plan = In_Launch name \<and>
       fst (record_launch lt env mode pid fid sid inst plan t') = Inl e))"
  using open_launch_fails [OF assms] by fastforce

section \<open>Witnesses\<close>

text \<open>The archive whose one entry is Cura's, opened in Orca as a new project.\<close>

definition sample_launch_env :: "io_error option \<Rightarrow> str + nat option \<Rightarrow> launch_env" where
  "sample_launch_env refused spawned =
     \<lparr>lv_platform = Unix, lv_now = 9, lv_launch_id = lit ''N'', lv_library = None, lv_mtime = 4, lv_show = (\<lambda>_. []),
      lv_read = (\<lambda>_. Inr cura_archive), lv_create = None, lv_copy = None,
      lv_download = (\<lambda>_. Inl (internal (lit ''offline''))), lv_rename = None, lv_remove_download = True,
      lv_write_record = refused, lv_scratch = None, lv_spawn = (\<lambda>_ _ _. spawned)\<rparr>"

definition sample_source :: source_file where
  "sample_source = \<lparr>so_name = lit ''a.3mf'', so_indexed = classification_of SlicerProject (Some Cura), so_abs_path = Some []\<rparr>"

definition sample_config :: slicer_config where
  "sample_config = \<lparr>sc_installs = [], sc_bindings = [(Orca, lit ''i'')], sc_default = Some Orca\<rparr>"

definition sample_install :: install where
  "sample_install = \<lparr>in_id = lit ''i'', in_slicer_id = Orca, in_label = lit ''OrcaSlicer 2'', in_state = Install_Ok\<rparr>"

definition sample_launch_tools :: "(bytes \<Rightarrow> json option) \<Rightarrow> (json \<Rightarrow> bytes) \<Rightarrow> launch_tools" where
  "sample_launch_tools = real_launch_tools (\<lambda>_. 5) copy_new copy_read id always Copied"

definition sample_copy :: leaf where
  "sample_copy = \<lparr>lf_bytes = end_of_central_directory_bytes 0 0 0, lf_mtime = 4, lf_locked = False\<rparr>"

definition sample_plan :: launch_plan where
  "sample_plan = \<lparr>la_handed = In_Launch (lit ''a.3mf''), la_stripped = True,
     la_source = \<lparr>ls_classification = classification_of SlicerProject (Some Cura), ls_is_3mf = True\<rparr>\<rparr>"

lemma sample_extension:
  "extension_of Unix (lit ''a.3mf'') = STRIPPABLE" "base_name Unix (lit ''a.3mf'') = lit ''a.3mf''"
  by code_simp+

lemma sample_choice:
  "\<exists>why. launch_choice (sample_launch_env w s) New_Project None sample_config (\<lambda>_. Inr (sample_install, lit ''orca'')) (Inr sample_source) =
     Inr (sample_source, Orca, why, sample_install, lit ''orca'')"
  by (simp add: launch_choice_def choose_slicer_def sample_config_def sample_source_def Let_def sample_launch_env_def sample_extension
      STRIPPABLE_def lit_def)

lemma sample_prepared:
  "prepare_source (sample_launch_tools parse print) (sample_launch_env w s) New_Project sample_source fid [] =
     (Inr sample_plan, with_folder [] (lit ''N'') [(lit ''a.3mf'', Child_File sample_copy)])"
proof -
  have "refuse_record_name (lit ''a.3mf'') = Inr ()" by code_simp
  moreover have "STRIPPABLE \<noteq> lit ''.stl''" "STRIPPABLE \<noteq> lit ''.obj''" by code_simp+
  ultimately show ?thesis
    by (simp add: prepare_source_def sample_source_def prepare_def Let_def sample_launch_env_def sample_extension
        sample_launch_tools_def real_launch_tools_def cura_stripped plain_result_def sample_plan_def make_folder_def)
      (simp add: put_file_def write_at_def with_folder_def sample_copy_def)
qed

lemma sample_recorded:
  "record_launch (sample_launch_tools parse print) (sample_launch_env w s) New_Project pid fid Orca sample_install sample_plan
     (with_folder [] (lit ''N'') [(lit ''a.3mf'', Child_File sample_copy)]) =
   (case w of
      Some e \<Rightarrow> (Inl (app_error_of_io e), with_folder [] (lit ''N'') [(lit ''a.3mf'', Child_File sample_copy)])
    | None \<Rightarrow> (Inr [], put_file (sample_launch_env w s) LAUNCH_RECORD_NAME (print (record_json
        (launch_record_of (sample_launch_env w s) New_Project pid fid Orca sample_install sample_plan (lit ''a.3mf'') [] sample_copy [])))
        (with_folder [] (lit ''N'') [(lit ''a.3mf'', Child_File sample_copy)])))"
proof -
  have at: "file_at (with_folder [] (lit ''N'') [(lit ''a.3mf'', Child_File sample_copy)]) (Inside (lit ''N'') (lit ''a.3mf'')) = Some sample_copy"
    by (simp add: file_at_with_folder)
  have hash: "entry_hash copy_new copy_read id always (Inr (end_of_central_directory_bytes 0 0 0)) = Inr []"
    by (simp add: entry_hash_def read_entries_of_def empty_reads name_order_def hash_input.simps hex_def)
  have digests: "entry_digests copy_new copy_read id always name (Inr (end_of_central_directory_bytes 0 0 0)) = Inr []" for name
    by (simp add: entry_digests_def read_entries_of_def empty_reads sort_names_def)
  show ?thesis
    by (cases w)
      (simp_all add: record_launch_def sample_plan_def Let_def sample_launch_env_def opened_at_def at opened_leaf_def
        sample_copy_def sample_launch_tools_def real_launch_tools_def real_tools_def hash digests plain_result_def
        at [unfolded sample_copy_def])
qed

definition sample_open :: "(bytes \<Rightarrow> json option) \<Rightarrow> (json \<Rightarrow> bytes) \<Rightarrow> io_error option \<Rightarrow> str + nat option \<Rightarrow>
   launch_dto result \<times> tree \<times> (str \<times> spath \<times> str) option" where
  "sample_open parse print refused spawned =
     open_launch (sample_launch_tools parse print) (sample_launch_env refused spawned) False (lit ''f'') (lit ''p'') New_Project None
       (Inr sample_source) sample_config (\<lambda>_. Inr (sample_install, lit ''orca'')) []"

lemma sample_opened:
  obtains dto t' where
    "sample_open parse print None (Inr (Some 7)) = (Inr dto, t', Some (lit ''N'', Inside (lit ''N'') (lit ''a.3mf''), []))"
    "file_at t' (Inside (lit ''N'') (lit ''a.3mf'')) = Some sample_copy"
proof -
  let ?env = "sample_launch_env None (Inr (Some 7))"
  obtain why where choice: "launch_choice ?env New_Project None sample_config
      (\<lambda>_. Inr (sample_install, lit ''orca'')) (Inr sample_source) = Inr (sample_source, Orca, why, sample_install, lit ''orca'')"
    using sample_choice by blast
  have copied: "file_at (put_file ?env LAUNCH_RECORD_NAME bs (with_folder [] (lit ''N'') [(lit ''a.3mf'', Child_File sample_copy)]))
      (Inside (lit ''N'') (lit ''a.3mf'')) = Some sample_copy" for bs
    by (rule launched_tree(1)) (simp_all add: sample_launch_env_def LAUNCH_RECORD_NAME_def lit_def)
  obtain dto where "sample_open parse print None (Inr (Some 7)) = (Inr dto,
      put_file ?env LAUNCH_RECORD_NAME (print (record_json
        (launch_record_of ?env New_Project (lit ''p'') (lit ''f'') Orca sample_install sample_plan (lit ''a.3mf'') [] sample_copy [])))
        (with_folder [] (lit ''N'') [(lit ''a.3mf'', Child_File sample_copy)]),
      Some (lit ''N'', Inside (lit ''N'') (lit ''a.3mf''), []))"
    using choice
    by (simp add: sample_open_def open_launch_def sample_prepared sample_recorded)
      (simp add: spawn_or_clean_def sample_plan_def sample_launch_env_def)
  then show ?thesis by (rule that) (rule copied)
qed


theorem unrecorded_copy_stays_witness:
  "map_of (fst (snd (sample_open (\<lambda>_. None) (\<lambda>_. []) (Some (Other_Io (lit ''disk full''))) (Inr None)))) (lit ''N'') \<noteq> None"
proof -
  let ?w = "Some (Other_Io (lit ''disk full''))"
  obtain why where choice: "launch_choice (sample_launch_env ?w (Inr None)) New_Project None sample_config
      (\<lambda>_. Inr (sample_install, lit ''orca'')) (Inr sample_source) = Inr (sample_source, Orca, why, sample_install, lit ''orca'')"
    using sample_choice by blast
  have "la_handed sample_plan = In_Launch (lit ''a.3mf'')" by (simp add: sample_plan_def)
  from unrecorded_copy_stays [OF choice sample_prepared [of "\<lambda>_. None" "\<lambda>_. []"] this, where e = "app_error_of_io (Other_Io (lit ''disk full''))"
      and pid = "lit ''p''" and fid = "lit ''f''" and remote = False]
  show ?thesis by (simp add: sample_recorded sample_open_def) (simp add: sample_launch_env_def)
qed

theorem refused_launch_leaves_nothing_witness:
  "\<exists>e. sample_open (\<lambda>_. None) (\<lambda>_. []) None (Inl (lit ''gone'')) = (Inl e, [], None)"
proof -
  obtain why where choice: "launch_choice (sample_launch_env None (Inl (lit ''gone''))) New_Project None sample_config
      (\<lambda>_. Inr (sample_install, lit ''orca'')) (Inr sample_source) = Inr (sample_source, Orca, why, sample_install, lit ''orca'')"
    using sample_choice by blast
  obtain e t' tr where opened: "sample_open (\<lambda>_. None) (\<lambda>_. []) None (Inl (lit ''gone'')) = (Inl e, t', tr)"
    using choice by (simp add: sample_open_def open_launch_def sample_prepared sample_recorded)
      (simp add: spawn_or_clean_def sample_plan_def sample_launch_env_def)
  have "tr = None \<and> t' = []"
    using refused_launch_leaves_nothing [OF opened [unfolded sample_open_def]] choice
    by (auto simp: sample_prepared sample_recorded)
  then show ?thesis using opened by simp
qed

instance json :: countable
  by countable_datatype

theorem launch_is_session_witness:
  "\<exists>dto t' r. sample_open (\<lambda>bs. Some (from_nat (length bs))) (\<lambda>j. replicate (to_nat j) 0) None (Inr (Some 7)) =
       (Inr dto, t', Some (lit ''N'', Inside (lit ''N'') (lit ''a.3mf''), [])) \<and>
     read_record (lt_tools (sample_launch_tools (\<lambda>bs. Some (from_nat (length bs))) (\<lambda>j. replicate (to_nat j) 0))) t' (lit ''N'') = Some r \<and>
     lr_file_name r = lit ''a.3mf'' \<and> lr_file_id r = lit ''f''"
proof -
  let ?m = "\<lparr>ma_tree = [], ma_li = sample_li\<lparr>li_tracked := []\<rparr>, ma_lib = ()\<rparr>"
  let ?lt = "sample_launch_tools (\<lambda>bs. Some (from_nat (length bs))) (\<lambda>j. replicate (to_nat j) 0)"
  obtain dto t' where opened: "sample_open (\<lambda>bs. Some (from_nat (length bs))) (\<lambda>j. replicate (to_nat j) 0) None (Inr (Some 7)) =
      (Inr dto, t', Some (lit ''N'', Inside (lit ''N'') (lit ''a.3mf''), []))"
    and copy: "file_at t' (Inside (lit ''N'') (lit ''a.3mf'')) = Some sample_copy"
    by (rule sample_opened)
  have ok: "machine_ok (lt_tools ?lt) ?m"
    by (simp add: machine_ok_def tree_wf_def children_of_def memo_ok_def tracks_ok_def sample_li_def)
  have unused: "unused_id (lv_launch_id (sample_launch_env None (Inr (Some 7)))) ?m"
    by (simp add: unused_id_def sample_launch_env_def sample_li_def) (simp add: lit_def)
  have codec: "\<forall>j. t_parse (lt_tools ?lt) (t_print (lt_tools ?lt) j) = Some j"
    by (simp add: sample_launch_tools_def real_launch_tools_def real_tools_def)
  have now: "- (2 ^ 63) \<le> lv_now (sample_launch_env None (Inr (Some 7)))" "lv_now (sample_launch_env None (Inr (Some 7))) < 2 ^ 63"
    by (simp_all add: sample_launch_env_def)
  have small: "\<forall>l. file_at t' (Inside (lit ''N'') (lit ''a.3mf'')) = Some l \<longrightarrow> int (length (lf_bytes l)) < 2 ^ 63"
    by (simp add: copy) (simp add: sample_copy_def)
  have "open_launch ?lt (sample_launch_env None (Inr (Some 7))) False (lit ''f'') (lit ''p'') New_Project None (Inr sample_source)
      sample_config (\<lambda>_. Inr (sample_install, lit ''orca'')) (ma_tree ?m) = (Inr dto, t', Some (lit ''N'', Inside (lit ''N'') (lit ''a.3mf''), []))"
    using opened by (simp add: sample_open_def)
  from launch_is_session [OF this ok unused codec now small]
  show ?thesis using opened by auto
qed

end
