(* ===== verification/Wire.thy ===== *)
theory Wire
  imports Launch
begin

text \<open>
  Both ends of the HTTP interface. The server: \<^verbatim>\<open>crates/spm-http/src/percent.rs\<close>, \<^verbatim>\<open>error.rs\<close>,
  \<^verbatim>\<open>session.rs\<close>, \<^verbatim>\<open>extract.rs\<close>, \<^verbatim>\<open>origin.rs\<close>, \<^verbatim>\<open>decorate.rs\<close> and the checks of \<^verbatim>\<open>routes/files.rs\<close>. The
  client: \<^verbatim>\<open>crates/spm-shell/src/slicers/remote_files.rs\<close>. JSON text is printed and parsed by
  arguments, and the proxy that carries a request is one too. Properties: percent-encoding is a
  round trip, a session cookie is read back, and an error, a project and an upload reach the other
  end as they were sent.
\<close>

section \<open>Percent-encoding\<close>

definition hex_digit_of :: "byte \<Rightarrow> byte option" where
  "hex_digit_of b =
     (if 48 \<le> b \<and> b \<le> 57 then Some (b - 48)
      else if 97 \<le> b \<and> b \<le> 102 then Some (b - 97 + 10)
      else if 65 \<le> b \<and> b \<le> 70 then Some (b - 65 + 10)
      else None)"

fun percent_bytes :: "bytes \<Rightarrow> bytes option" where
  "percent_bytes [] = Some []"
| "percent_bytes (b # bs) =
     (if b = 37
      then (case bs of
              h # l # rest \<Rightarrow>
                Option.bind (hex_digit_of h) (\<lambda>high.
                Option.bind (hex_digit_of l) (\<lambda>low.
                  map_option ((#) (or (push_bit 4 high) low)) (percent_bytes rest)))
            | _ \<Rightarrow> None)
      else map_option ((#) b) (percent_bytes bs))"

definition utf8_strict :: "bytes \<Rightarrow> str option" where
  "utf8_strict bs = (case from_utf8 bs of (t, None) \<Rightarrow> Some t | _ \<Rightarrow> None)"

definition try_decode_uri_component :: "str \<Rightarrow> str option" where
  "try_decode_uri_component s = Option.bind (percent_bytes (utf8_encode s)) utf8_strict"

definition decode_uri_component_or_fail :: "str \<Rightarrow> str \<Rightarrow> str result" where
  "decode_uri_component_or_fail value label =
     (case try_decode_uri_component value of
        Some s \<Rightarrow> Inr s
      | None \<Rightarrow> Inl (validation (label @ lit '' is not correctly percent-encoded'')))"

definition uri_unreserved :: "nat \<Rightarrow> bool" where
  "uri_unreserved c \<longleftrightarrow> is_alpha c \<or> is_dec_digit c \<or> c \<in> set (lit ''-_.!~*'' @ [39, 40, 41])"

definition hex_upper :: "nat \<Rightarrow> nat" where
  "hex_upper d = (if d < 10 then 48 + d else 55 + d)"

definition encode_uri_byte :: "byte \<Rightarrow> str" where
  "encode_uri_byte b =
     (if uri_unreserved (unat b) then [unat b] else [37, hex_upper (unat b div 16), hex_upper (unat b mod 16)])"

definition encode_uri_component :: "str \<Rightarrow> str" where
  "encode_uri_component s = concat (map encode_uri_byte (utf8_encode s))"

section \<open>Errors\<close>

record http_answer =
  ha_status :: nat
  ha_headers :: "(str \<times> str) list"
  ha_body :: bytes

fun status_for :: "app_error_code \<Rightarrow> nat" where
  "status_for Validation = 400"
| "status_for InvalidToken = 400"
| "status_for Unauthorized = 401"
| "status_for Forbidden = 403"
| "status_for NotFound = 404"
| "status_for Conflict = 409"
| "status_for LastActiveAdmin = 409"
| "status_for TokenExpired = 410"
| "status_for LengthRequired = 411"
| "status_for QuotaExceeded = 413"
| "status_for TooManyRequests = 429"
| "status_for Internal = 500"

definition JSON_TYPE :: str where "JSON_TYPE = lit ''application/json; charset=utf-8''"

definition int_str :: "int \<Rightarrow> str" where
  "int_str n = (if n < 0 then lit ''-'' @ dec_str (nat (- n)) else dec_str (nat n))"

definition envelope_json :: "error_body \<Rightarrow> json" where
  "envelope_json b = JObj [(lit ''error'', JObj [(lit ''code'', JStr (code_as_str (body_code b))),
     (lit ''message'', JStr (body_message b)), (lit ''details'', JObj (body_details b))])]"

definition error_response :: "(json \<Rightarrow> bytes) \<Rightarrow> app_error \<Rightarrow> http_answer" where
  "error_response print e =
     \<lparr>ha_status = status_for (err_code e),
      ha_headers = (lit ''content-type'', JSON_TYPE) #
        (if err_code e = TooManyRequests
         then [(lit ''retry-after'',
                int_str (case Option.bind (Option.bind (err_details e) (\<lambda>ds. map_of ds (lit ''retryAfterSeconds''))) json_i64 of
                           Some n \<Rightarrow> n | None \<Rightarrow> 0))]
         else []),
      ha_body = print (envelope_json (to_envelope e))\<rparr>"

definition method_not_allowed :: "http_answer" where
  "method_not_allowed =
     \<lparr>ha_status = 405, ha_headers = [(lit ''content-type'', JSON_TYPE)],
      ha_body = utf8_encode (lit ''{'' @ [34] @ lit ''error'' @ [34] @ lit '':{'' @ [34] @ lit ''code'' @ [34] @ lit '':'' @ [34] @
        lit ''MethodNotAllowed'' @ [34] @ lit '','' @ [34] @ lit ''message'' @ [34] @ lit '':'' @ [34] @ lit ''method not allowed'' @ [34] @
        lit '','' @ [34] @ lit ''details'' @ [34] @ lit '':{}}}'')\<rparr>"

definition json_response :: "bytes \<Rightarrow> http_answer" where
  "json_response body = \<lparr>ha_status = 200, ha_headers = [(lit ''content-type'', JSON_TYPE)], ha_body = body\<rparr>"

definition no_content :: "http_answer" where
  "no_content = \<lparr>ha_status = 204, ha_headers = [], ha_body = []\<rparr>"

text \<open>A use case on the blocking pool: a panic becomes an internal error.\<close>

definition blocking_call :: "str \<Rightarrow> 'a outcome \<Rightarrow> 'a result" where
  "blocking_call joined work =
     (case work of
        Inr x \<Rightarrow> Inr x
      | Inl (Failed e) \<Rightarrow> Inl e
      | Inl Panic \<Rightarrow> Inl (internal (lit ''a blocking task failed: '' @ joined)))"

section \<open>The session of a request\<close>

text \<open>Header values are bytes; \<^verbatim>\<open>to_str\<close> reads the ones that are visible ASCII.\<close>

type_synonym headers = "(str \<times> bytes) list"

definition header_str :: "bytes \<Rightarrow> str option" where
  "header_str v = (if list_all (\<lambda>b. b = 9 \<or> (32 \<le> b \<and> b < 127)) v then Some (map unat v) else None)"

definition header_get :: "headers \<Rightarrow> str \<Rightarrow> str option" where
  "header_get hs name = Option.bind (map_of hs name) header_str"

definition SESSION_COOKIE :: str where "SESSION_COOKIE = lit ''spm_session''"

fun join_parts :: "str \<Rightarrow> str list \<Rightarrow> str" where
  "join_parts sep [] = []"
| "join_parts sep [p] = p"
| "join_parts sep (p # q # ps) = p @ sep @ join_parts sep (q # ps)"

definition rust_trim :: "str \<Rightarrow> str" where
  "rust_trim s = rev (dropWhile is_whitespace (rev (dropWhile is_whitespace s)))"

definition split_once :: "nat \<Rightarrow> str \<Rightarrow> (str \<times> str) option" where
  "split_once c s = (case dropWhile (\<lambda>x. x \<noteq> c) s of [] \<Rightarrow> None | _ # rest \<Rightarrow> Some (takeWhile (\<lambda>x. x \<noteq> c) s, rest))"

fun session_part :: "str list \<Rightarrow> str option" where
  "session_part [] = None"
| "session_part (part # parts) =
     (let p = rust_trim part; (name, value) = (case split_once 61 p of Some nv \<Rightarrow> nv | None \<Rightarrow> (p, [])) in
      if name = SESSION_COOKIE then try_decode_uri_component value else session_part parts)"

definition read_session_token :: "headers \<Rightarrow> str option" where
  "read_session_token hs =
     session_part (split_on (\<lambda>c. c = 59)
       (join_parts (lit ''; '') (List.map_filter (\<lambda>(n, v). if n = lit ''cookie'' then header_str v else None) hs)))"

definition request_authority :: "str option \<Rightarrow> headers \<Rightarrow> str option" where
  "request_authority uri_authority hs =
     (case uri_authority of Some a \<Rightarrow> Some a | None \<Rightarrow> header_get hs (lit ''host''))"

text \<open>\<^verbatim>\<open>rsplit_once\<close>: the parts around the last occurrence.\<close>

definition rsplit_once :: "nat \<Rightarrow> str \<Rightarrow> (str \<times> str) option" where
  "rsplit_once c s = map_option (\<lambda>(after, before). (rev before, rev after)) (split_once c (rev s))"

definition hostname :: "str \<Rightarrow> str" where
  "hostname authority =
     (let authority = rev (takeWhile (\<lambda>c. c \<noteq> 64) (rev authority));
          host = (if take 1 authority = [91]
            then (if 93 \<in> set authority then takeWhile (\<lambda>c. c \<noteq> 93) authority @ [93] else authority)
            else (case rsplit_once 58 authority of
                    Some (host, port) \<Rightarrow> if list_all is_dec_digit port then host else authority
                  | None \<Rightarrow> authority))
      in to_ascii_lowercase host)"

definition is_local_http :: "str option \<Rightarrow> bool" where
  "is_local_http authority =
     (case authority of None \<Rightarrow> False
      | Some a \<Rightarrow> hostname a = lit ''localhost'' \<or> hostname a = lit ''127.0.0.1'')"

definition cookie_attributes :: "bool \<Rightarrow> int \<Rightarrow> str" where
  "cookie_attributes local_http max_age =
     join_parts (lit ''; '') ([lit ''Path=/'', lit ''HttpOnly'', lit ''SameSite=Lax'', lit ''Max-Age='' @ int_str max_age]
       @ (if local_http then [] else [lit ''Secure'']))"

text \<open>Integer division truncates; the age is clamped at zero.\<close>

definition session_set_cookie :: "str \<Rightarrow> int \<Rightarrow> int \<Rightarrow> bool \<Rightarrow> str" where
  "session_set_cookie token expires_at now local_http =
     SESSION_COOKIE @ lit ''='' @ encode_uri_component token @ lit ''; '' @
     cookie_attributes local_http (max 0 ((expires_at - now) div 1000))"

definition session_clear_cookie :: "bool \<Rightarrow> str" where
  "session_clear_cookie local_http = SESSION_COOKIE @ lit ''=; '' @ cookie_attributes local_http 0"

datatype auth_mode = Local_Mode ctx | Session_Mode

text \<open>The user a request acts for, and the store after a session was extended.\<close>

definition request_session :: "(str \<Rightarrow> bytes) \<Rightarrow> auth_mode \<Rightarrow> headers \<Rightarrow> int \<Rightarrow> db \<Rightarrow> ctx result \<times> db" where
  "request_session sha mode hs now db =
     (case mode of
        Local_Mode c \<Rightarrow> (Inr c, db)
      | Session_Mode \<Rightarrow>
          (let (resolved, db') = (case read_session_token hs of
                 Some token \<Rightarrow> resolve_session sha token now db
               | None \<Rightarrow> (None, db)) in
           (case resolved of
              Some c \<Rightarrow> Inr c
            | None \<Rightarrow> Inl (unauthorized (lit ''a valid session is required'')), db')))"

section \<open>Origins and what a file is called on the wire\<close>

definition activation_url :: "str \<Rightarrow> str \<Rightarrow> str option \<Rightarrow> str" where
  "activation_url origin_of_request token public_origin =
     (case public_origin of Some o' \<Rightarrow> o' | None \<Rightarrow> origin_of_request) @ lit ''/activate#'' @ token"

definition FILE_URL_BASE :: str where "FILE_URL_BASE = lit ''/api''"

record file_dto =
  fd_id :: str
  fd_name :: str
  fd_kind :: file_kind
  fd_slicer :: "slicer_id option"
  fd_size_bytes :: int
  fd_preview_state :: preview_state
  fd_raw_url :: str
  fd_thumb_url :: "str option"

record project_dto =
  pd_id :: str
  pd_name :: str
  pd_website :: "str option"
  pd_notes :: "str option"
  pd_is_archived :: bool
  pd_state :: project_state
  pd_tags :: "str list"
  pd_file_counts :: file_counts
  pd_created_at :: int
  pd_updated_at :: int
  pd_cover_thumb_url :: "str option"

record project_detail_dto =
  pt_project :: project_dto
  pt_files :: "file_dto list"

definition decorate_file :: "core_file_dto \<Rightarrow> file_dto" where
  "decorate_file f =
     \<lparr>fd_id = cf_id f, fd_name = cf_name f, fd_kind = cf_kind f, fd_slicer = cf_slicer f,
      fd_size_bytes = cf_size_bytes f, fd_preview_state = cf_preview_state f,
      fd_raw_url = FILE_URL_BASE @ lit ''/files/'' @ cf_id f @ lit ''/raw'',
      fd_thumb_url = (if cf_preview_state f = PvReady
                      then Some (FILE_URL_BASE @ lit ''/files/'' @ cf_id f @ lit ''/thumb'') else None)\<rparr>"

definition decorate_project :: "core_project_dto \<Rightarrow> project_dto" where
  "decorate_project p =
     \<lparr>pd_id = cp_id p, pd_name = cp_name p, pd_website = cp_website p, pd_notes = cp_notes p,
      pd_is_archived = cp_is_archived p, pd_state = cp_state p, pd_tags = cp_tags p,
      pd_file_counts = cp_file_counts p, pd_created_at = cp_created_at p, pd_updated_at = cp_updated_at p,
      pd_cover_thumb_url = (case cp_cover_file_id p of
          Some i \<Rightarrow> if i = [] then None else Some (FILE_URL_BASE @ lit ''/files/'' @ i @ lit ''/thumb'')
        | None \<Rightarrow> None)\<rparr>"

definition decorate_project_detail :: "core_project_detail_dto \<Rightarrow> project_detail_dto" where
  "decorate_project_detail d = \<lparr>pt_project = decorate_project (cd_project d), pt_files = map decorate_file (cd_files d)\<rparr>"

section \<open>The file routes\<close>

definition UPLOAD_NAME_HEADER :: str where "UPLOAD_NAME_HEADER = lit ''x-spm-file-name''"

definition require_upload_name :: "headers \<Rightarrow> str result" where
  "require_upload_name hs =
     (case Option.bind (map_of hs UPLOAD_NAME_HEADER) header_str of
        Some (c # raw) \<Rightarrow>
          bindE (decode_uri_component_or_fail (c # raw) (UPLOAD_NAME_HEADER @ lit '' header'')) (\<lambda>decoded.
            case file_name decoded of
              Inl message \<Rightarrow>
                Inl (with_details (validation (lit ''illegal file name''))
                  [(lit ''issues'', JArr [JObj [(lit ''message'', JStr message), (lit ''path'', JArr [])]])])
            | Inr _ \<Rightarrow> Inr decoded)
      | _ \<Rightarrow> Inl (validation (UPLOAD_NAME_HEADER @ lit '' header is required'')))"

text \<open>\<^verbatim>\<open>str::parse::<u64>\<close>: digits, one leading plus allowed.\<close>

definition parse_u64 :: "str \<Rightarrow> nat option" where
  "parse_u64 s =
     (let ds = (case s of c # r \<Rightarrow> if c = 43 then r else s | [] \<Rightarrow> []);
          n = foldl (\<lambda>a d. 10 * a + (d - 48)) 0 ds in
      if ds \<noteq> [] \<and> list_all is_dec_digit ds \<and> n < 2 ^ 64 then Some n else None)"

definition require_content_length :: "headers \<Rightarrow> bool \<Rightarrow> nat result" where
  "require_content_length hs allow_empty =
     (case Option.bind (header_get hs (lit ''content-length'')) parse_u64 of
        Some n \<Rightarrow> if allow_empty \<or> 0 < n then Inr n else Inl (new_error LengthRequired (lit ''content-length is required''))
      | None \<Rightarrow> Inl (new_error LengthRequired (lit ''content-length is required'')))"

text \<open>What the upload route checks before it touches the library.\<close>

definition upload_request :: "headers \<Rightarrow> (str \<times> int) result" where
  "upload_request hs =
     bindE (require_upload_name hs) (\<lambda>name.
     bindE (require_content_length hs True) (\<lambda>n.
       if n < 2 ^ 63 then Inr (name, int n)
       else Inl (validation (lit ''the declared upload size is too large''))))"

datatype opened_for_reading = Opened bytes | Open_Missing | Open_Failed io_error

definition stream_file :: "opened_for_reading \<Rightarrow> str \<Rightarrow> str \<Rightarrow> http_answer result" where
  "stream_file f content_type name =
     (case f of
        Open_Missing \<Rightarrow> Inl (not_found (lit ''file is missing on disk''))
      | Open_Failed e \<Rightarrow> Inl (app_error_of_io e)
      | Opened bs \<Rightarrow>
          Inr \<lparr>ha_status = 200,
               ha_headers = [(lit ''content-type'', content_type), (lit ''content-length'', dec_str (length bs)),
                 (lit ''content-disposition'', lit ''inline; filename*=UTF-8'' @ [39, 39] @ encode_uri_component name)],
               ha_body = bs\<rparr>)"

definition raw_route :: "lib_place \<Rightarrow> (path \<Rightarrow> opened_for_reading) \<Rightarrow> ctx \<Rightarrow> str \<Rightarrow> db \<Rightarrow> http_answer result" where
  "raw_route lp read c i db =
     bindE (resolve_file_path lp c i db) (\<lambda>r. stream_file (read (rf_abs_path r)) (rf_content_type r) (rf_name r))"

definition thumb_route ::
  "lib_place \<Rightarrow> (path \<Rightarrow> opened_for_reading) \<Rightarrow> ctx \<Rightarrow> str \<Rightarrow> db \<Rightarrow> disk \<Rightarrow> http_answer result" where
  "thumb_route lp read c i db d =
     bindE (resolve_preview_path lp c i db d) (\<lambda>preview.
       case preview of
         None \<Rightarrow> Inl (not_found (lit ''no preview is ready for this file''))
       | Some p \<Rightarrow>
           bindE (stream_file (read p) (lit ''image/png'') (i @ lit ''.png'')) (\<lambda>a.
             Inr (a\<lparr>ha_headers := ha_headers a @ [(lit ''cache-control'', lit ''private, max-age=60'')]\<rparr>)))"

text \<open>A handler answers, or its error does.\<close>

definition answer_of :: "(json \<Rightarrow> bytes) \<Rightarrow> http_answer result \<Rightarrow> http_answer" where
  "answer_of print r = (case r of Inr a \<Rightarrow> a | Inl e \<Rightarrow> error_response print e)"

section \<open>The client\<close>

record remote_response =
  rp_status :: nat
  rp_body :: bytes

definition response_ok :: "remote_response \<Rightarrow> bool" where
  "response_ok r \<longleftrightarrow> 200 \<le> rp_status r \<and> rp_status r < 300"

record http_request =
  rq_method :: str
  rq_path :: str
  rq_headers :: "(str \<times> str) list"
  rq_body :: bytes

text \<open>What the proxy gives back: a status, and a body in chunks that may break off.\<close>

record proxied =
  px_status :: nat
  px_chunks :: "(str + bytes) list"

definition MAX_ERROR_BODY :: nat where "MAX_ERROR_BODY = 1024 * 1024"

definition UPLOAD_LENGTH_HEADER :: str where "UPLOAD_LENGTH_HEADER = lit ''x-spm-content-length''"

definition api_path :: "str \<Rightarrow> str" where "api_path path = lit ''/api'' @ path"

text \<open>\<^verbatim>\<open>axum::body::to_bytes\<close> with a limit.\<close>

fun to_bytes :: "nat \<Rightarrow> (str + bytes) list \<Rightarrow> str + bytes" where
  "to_bytes limit [] = Inr []"
| "to_bytes limit (Inl e # cs) = Inl e"
| "to_bytes limit (Inr bs # cs) =
     (if limit < length bs then Inl (lit ''length limit exceeded'')
      else map_sum id ((@) bs) (to_bytes (limit - length bs) cs))"

definition body_or_empty :: "(str + bytes) list \<Rightarrow> bytes" where
  "body_or_empty cs = (case to_bytes MAX_ERROR_BODY cs of Inr bs \<Rightarrow> bs | Inl _ \<Rightarrow> [])"

definition proxy_get :: "(http_request \<Rightarrow> str + proxied) \<Rightarrow> str \<Rightarrow> remote_response result" where
  "proxy_get proxy path =
     (case proxy \<lparr>rq_method = lit ''GET'', rq_path = api_path path, rq_headers = [], rq_body = []\<rparr> of
        Inl e \<Rightarrow> Inl (internal e)
      | Inr a \<Rightarrow>
          (case to_bytes (64 * 1024 * 1024) (px_chunks a) of
             Inl e \<Rightarrow> Inl (internal (lit ''could not read the answer: '' @ e))
           | Inr bs \<Rightarrow> Inr \<lparr>rp_status = px_status a, rp_body = bs\<rparr>))"

text \<open>The chunks that reach the file, and how the stream ends; the disk may refuse a write at any length.\<close>

fun write_chunks :: "(nat \<Rightarrow> io_error option) \<Rightarrow> (str + bytes) list \<Rightarrow> bytes \<Rightarrow> unit result \<times> bytes" where
  "write_chunks stop [] got = ((case stop (length got) of None \<Rightarrow> Inr () | Some e \<Rightarrow> Inl (app_error_of_io e)), got)"
| "write_chunks stop (Inl e # cs) got = (Inl (internal (lit ''the download broke off: '' @ e)), got)"
| "write_chunks stop (Inr bs # cs) got =
     (case stop (length got) of
        Some e \<Rightarrow> (Inl (app_error_of_io e), got)
      | None \<Rightarrow> write_chunks stop cs (got @ bs))"

text \<open>The answer, and what is at the destination (\<open>None\<close>: left alone).\<close>

definition proxy_download ::
  "(http_request \<Rightarrow> str + proxied) \<Rightarrow> io_error option \<Rightarrow> (nat \<Rightarrow> io_error option) \<Rightarrow> str \<Rightarrow> remote_response result \<times> bytes option" where
  "proxy_download proxy create_refused write_refused path =
     (case proxy \<lparr>rq_method = lit ''GET'', rq_path = api_path path, rq_headers = [], rq_body = []\<rparr> of
        Inl e \<Rightarrow> (Inl (internal e), None)
      | Inr a \<Rightarrow>
          if \<not> (200 \<le> px_status a \<and> px_status a < 300)
          then (Inr \<lparr>rp_status = px_status a, rp_body = body_or_empty (px_chunks a)\<rparr>, None)
          else
            (case create_refused of
               Some e \<Rightarrow> (Inl (app_error_of_io e), None)
             | None \<Rightarrow>
                 (case write_chunks write_refused (px_chunks a) [] of
                    (Inl e, bs) \<Rightarrow> (Inl e, Some bs)
                  | (Inr _, bs) \<Rightarrow> (Inr \<lparr>rp_status = px_status a, rp_body = []\<rparr>, Some bs))))"

definition percent_encode :: "str \<Rightarrow> str" where
  "percent_encode s = concat (map encode_uri_byte (utf8_encode s))"

definition upload_rq :: "str \<Rightarrow> str \<Rightarrow> str \<Rightarrow> bytes \<Rightarrow> nat \<Rightarrow> http_request" where
  "upload_rq path name content_type bs size_bytes =
     \<lparr>rq_method = lit ''POST'', rq_path = api_path path,
      rq_headers = [(lit ''content-type'', content_type), (UPLOAD_NAME_HEADER, percent_encode name),
        (UPLOAD_LENGTH_HEADER, dec_str size_bytes)], rq_body = bs\<rparr>"

definition proxy_upload ::
  "(http_request \<Rightarrow> str + proxied) \<Rightarrow> str \<Rightarrow> str \<Rightarrow> str \<Rightarrow> opened \<Rightarrow> nat \<Rightarrow> remote_response result" where
  "proxy_upload proxy path name content_type f size_bytes =
     (case f of
        Inl e \<Rightarrow> Inl (app_error_of_io e)
      | Inr bs \<Rightarrow>
          (case proxy (upload_rq path name content_type bs size_bytes) of
             Inl e \<Rightarrow> Inl (internal e)
           | Inr a \<Rightarrow> Inr \<lparr>rp_status = px_status a, rp_body = body_or_empty (px_chunks a)\<rparr>))"

definition json_get :: "str \<Rightarrow> json \<Rightarrow> json option" where
  "json_get key v = Option.bind (json_object v) (\<lambda>ms. map_of ms key)"

fun json_array :: "json \<Rightarrow> json list option" where
  "json_array (JArr xs) = Some xs"
| "json_array _ = None"

definition failure_of :: "(bytes \<Rightarrow> json option) \<Rightarrow> remote_response \<Rightarrow> str \<Rightarrow> app_error" where
  "failure_of parse response fallback =
     (let body = (case parse (rp_body response) of Some v \<Rightarrow> v | None \<Rightarrow> JNull);
          e = json_get (lit ''error'') body;
          code = (case Option.bind (Option.bind (Option.bind e (json_get (lit ''code''))) json_str) code_parse of
                    Some c \<Rightarrow> c | None \<Rightarrow> Internal);
          message = (case Option.bind (Option.bind e (json_get (lit ''message''))) json_str of
                       Some m \<Rightarrow> m | None \<Rightarrow> fallback);
          err = new_error code message
      in case Option.bind (Option.bind e (json_get (lit ''details''))) json_object of
           Some (d # ds) \<Rightarrow> with_details err (d # ds)
         | _ \<Rightarrow> err)"

definition remote_file_of :: "json \<Rightarrow> remote_file option" where
  "remote_file_of f =
     Option.bind (Option.bind (json_get (lit ''id'') f) json_str) (\<lambda>i.
     Option.bind (Option.bind (json_get (lit ''name'') f) json_str) (\<lambda>name.
     Option.bind (Option.bind (Option.bind (json_get (lit ''kind'') f) json_str) file_kind_parse) (\<lambda>kind.
       Some \<lparr>rm_id = i, rm_name = name, rm_kind = kind,
         rm_slicer = Option.bind (Option.bind (json_get (lit ''slicer'') f) json_str) slicer_id_parse\<rparr>)))"

definition remote_project ::
  "(bytes \<Rightarrow> json option) \<Rightarrow> (str \<Rightarrow> remote_response result) \<Rightarrow> str \<Rightarrow> remote_file list result" where
  "remote_project parse get pid =
     bindE (get (lit ''/projects/'' @ percent_encode pid)) (\<lambda>response.
       if \<not> response_ok response then Inl (failure_of parse response (lit ''could not read that project''))
       else
         let body = (case parse (rp_body response) of Some v \<Rightarrow> v | None \<Rightarrow> JNull) in
         (case (Option.bind (json_get (lit ''id'') body) json_str, Option.bind (json_get (lit ''files'') body) json_array) of
            (Some _, Some listed) \<Rightarrow> Inr (List.map_filter remote_file_of listed)
          | _ \<Rightarrow> Inl (new_error Internal (lit ''that server did not answer with a project''))))"

definition remote_download ::
  "(bytes \<Rightarrow> json option) \<Rightarrow> (str \<Rightarrow> remote_response result \<times> bytes option) \<Rightarrow> str \<Rightarrow> unit result \<times> bytes option" where
  "remote_download parse download fid =
     (case download (lit ''/files/'' @ percent_encode fid @ lit ''/raw'') of
        (Inl e, out) \<Rightarrow> (Inl e, out)
      | (Inr response, out) \<Rightarrow>
          (if response_ok response then Inr () else Inl (failure_of parse response (lit ''could not download that file'')), out))"

definition remote_upload ::
  "(bytes \<Rightarrow> json option) \<Rightarrow> (str \<Rightarrow> str \<Rightarrow> str \<Rightarrow> opened \<Rightarrow> nat \<Rightarrow> remote_response result) \<Rightarrow>
   str \<Rightarrow> str \<Rightarrow> opened \<Rightarrow> nat \<Rightarrow> str \<Rightarrow> json result" where
  "remote_upload parse upload pid name f size_bytes content_type =
     bindE (upload (lit ''/projects/'' @ percent_encode pid @ lit ''/files'') name content_type f size_bytes) (\<lambda>response.
       if \<not> response_ok response then Inl (failure_of parse response (lit ''could not upload '' @ name))
       else (case parse (rp_body response) of
               Some v \<Rightarrow> Inr v
             | None \<Rightarrow> Inl (new_error Internal (lit ''that server did not answer with a file''))))"

text \<open>How \<^verbatim>\<open>serde\<close> spells the two DTOs: an absent option is left out.\<close>

definition file_json :: "file_dto \<Rightarrow> json" where
  "file_json f = JObj
     ([(lit ''id'', JStr (fd_id f)), (lit ''name'', JStr (fd_name f)), (lit ''kind'', JStr (file_kind_as_str (fd_kind f)))]
      @ optional_field (lit ''slicer'') (\<lambda>s. JStr (slicer_id_as_str s)) (fd_slicer f)
      @ [(lit ''sizeBytes'', JNum (fd_size_bytes f)), (lit ''previewState'', JStr (preview_state_as_str (fd_preview_state f))),
         (lit ''rawUrl'', JStr (fd_raw_url f))]
      @ optional_field (lit ''thumbUrl'') JStr (fd_thumb_url f))"

definition project_json :: "project_detail_dto \<Rightarrow> json" where
  "project_json d = (let p = pt_project d in JObj
     ([(lit ''id'', JStr (pd_id p)), (lit ''name'', JStr (pd_name p))]
      @ optional_field (lit ''website'') JStr (pd_website p)
      @ optional_field (lit ''notes'') JStr (pd_notes p)
      @ [(lit ''isArchived'', JBool (pd_is_archived p)), (lit ''state'', JStr (project_state_as_str (pd_state p))),
         (lit ''tags'', JArr (map JStr (pd_tags p))),
         (lit ''fileCounts'', JObj [(lit ''model'', JNum (int (fc_model (pd_file_counts p)))),
            (lit ''slicerProject'', JNum (int (fc_slicer_project (pd_file_counts p)))), (lit ''other'', JNum (int (fc_other (pd_file_counts p))))]),
         (lit ''createdAt'', JNum (pd_created_at p)), (lit ''updatedAt'', JNum (pd_updated_at p))]
      @ optional_field (lit ''coverThumbUrl'') JStr (pd_cover_thumb_url p)
      @ [(lit ''files'', JArr (map file_json (pt_files d)))]))"

text \<open>\<^verbatim>\<open>GET /api/projects/{id}\<close>.\<close>

definition project_route :: "(json \<Rightarrow> bytes) \<Rightarrow> ctx \<Rightarrow> str \<Rightarrow> db \<Rightarrow> http_answer result" where
  "project_route print c pid db =
     bindE (get_project_in c pid db) (\<lambda>d. Inr (json_response (print (project_json (decorate_project_detail d)))))"

section \<open>Percent-encoding is a round trip\<close>

lemma hex_nibbles:
  assumes "d < 16"
  shows "hex_digit_of (of_nat (hex_upper d)) = Some (of_nat d)"
proof -
  have "\<forall>d \<in> set [0, 1, 2, 3, 4, 5, 6, 7, 8, 9, 10, 11, 12, 13, 14, 15::nat].
      hex_digit_of (of_nat (hex_upper d)) = Some (of_nat d)"
    by (simp add: hex_digit_of_def hex_upper_def)
  moreover have "d \<in> set [0, 1, 2, 3, 4, 5, 6, 7, 8, 9, 10, 11, 12, 13, 14, 15::nat]"
    using assms by (simp add: numeral_eq_Suc) arith
  ultimately show ?thesis by blast
qed

lemma byte_of_nibbles: "or (push_bit 4 (of_nat (unat b div 16) :: byte)) (of_nat (unat b mod 16)) = b"
proof -
  have "unat (drop_bit 4 b) = unat b div 16" "unat (take_bit 4 b) = unat b mod 16"
    by (simp_all add: unat_drop_bit_eq drop_bit_eq_div unsigned_take_bit_eq take_bit_eq_mod unat_div_distrib unat_mod_distrib)
  then have parts: "of_nat (unat b div 16) = drop_bit 4 b" "of_nat (unat b mod 16) = take_bit 4 b"
    by (metis of_nat_unat ucast_id)+
  have "or (push_bit 4 (drop_bit 4 b)) (take_bit 4 b) = b"
    by (rule bit_eqI) (auto simp: bit_simps)
  then show ?thesis by (simp only: parts)
qed

lemma unreserved_ascii: "uri_unreserved c \<Longrightarrow> c < 128 \<and> c \<noteq> 37"
  by (auto simp: uri_unreserved_def is_alpha_def is_dec_digit_def lit_def)

lemma utf8_ascii: "c < 128 \<Longrightarrow> utf8_encode (c # s) = of_nat c # utf8_encode s"
  by (simp add: utf8_encode_def utf8_char_def)

lemma hex_upper_bound: "d < 16 \<Longrightarrow> hex_upper d < 80"
  by (simp add: hex_upper_def)

lemma percent_bytes_byte: "percent_bytes (utf8_encode (encode_uri_byte b @ s)) = map_option ((#) b) (percent_bytes (utf8_encode s))"
proof (cases "uri_unreserved (unat b)")
  case True
  have "unat b \<noteq> 37" "unat b < 128" using unreserved_ascii [OF True] by auto
  then have "b \<noteq> 37" by auto
  then show ?thesis using True \<open>unat b < 128\<close> by (simp add: encode_uri_byte_def utf8_ascii)
next
  case False
  have small: "unat b div 16 < 16" "unat b mod 16 < 16" using byte_bound [of b] by simp_all
  then have "hex_upper (unat b div 16) < 128" "hex_upper (unat b mod 16) < 128"
    using hex_upper_bound [OF small(1)] hex_upper_bound [OF small(2)] by simp_all
  then have "utf8_encode (encode_uri_byte b @ s) =
      37 # of_nat (hex_upper (unat b div 16)) # of_nat (hex_upper (unat b mod 16)) # utf8_encode s"
    using False by (simp add: encode_uri_byte_def utf8_ascii)
  then show ?thesis using hex_nibbles [OF small(1)] hex_nibbles [OF small(2)] by (simp add: byte_of_nibbles)
qed

lemma percent_bytes_encoded: "percent_bytes (utf8_encode (concat (map encode_uri_byte bs))) = Some bs"
  by (induction bs) (simp_all add: percent_bytes_byte, simp add: utf8_encode_def)

lemma encode_chars: "c \<in> set (encode_uri_component s) \<Longrightarrow> uri_unreserved c \<or> c = 37"
proof -
  have "uri_unreserved (hex_upper d)" if "d < 16" for d
    using that by (auto simp: hex_upper_def uri_unreserved_def is_dec_digit_def is_alpha_def)
  then have "c \<in> set (encode_uri_byte b) \<Longrightarrow> uri_unreserved c \<or> c = 37" for b
    using byte_bound [of b] by (auto simp: encode_uri_byte_def split: if_splits)
  then show "c \<in> set (encode_uri_component s) \<Longrightarrow> uri_unreserved c \<or> c = 37"
    by (auto simp: encode_uri_component_def)
qed

lemma decode_encoded: "\<forall>c \<in> set s. scalar c \<Longrightarrow> try_decode_uri_component (encode_uri_component s) = Some s"
  by (simp add: try_decode_uri_component_def encode_uri_component_def percent_bytes_encoded utf8_strict_def from_utf8_encode)

section \<open>A cookie header is read back\<close>

text \<open>A cookie that the header can carry: visible, trimmed, and without the separators.\<close>

definition plain_cookie :: "str \<times> str \<Rightarrow> bool" where
  "plain_cookie c \<longleftrightarrow>
     (case c of (n, v) \<Rightarrow>
        n \<noteq> [] \<and> v \<noteq> [] \<and> 59 \<notin> set n \<and> 59 \<notin> set v \<and> 61 \<notin> set n \<and>
        \<not> is_whitespace (hd n) \<and> \<not> is_whitespace (List.last v) \<and> (\<forall>x \<in> set n \<union> set v. x = 9 \<or> (32 \<le> x \<and> x < 127)))"

definition cookie_text :: "str \<times> str \<Rightarrow> str" where
  "cookie_text c = (case c of (n, v) \<Rightarrow> n @ lit ''='' @ v)"

lemma dropWhile_kept: "s \<noteq> [] \<Longrightarrow> \<not> p (hd s) \<Longrightarrow> dropWhile p s = s"
  by (cases s) simp_all

lemma trim_kept: "s \<noteq> [] \<Longrightarrow> \<not> is_whitespace (hd s) \<Longrightarrow> \<not> is_whitespace (List.last s) \<Longrightarrow> rust_trim s = s"
  using dropWhile_kept [of s is_whitespace] dropWhile_kept [of "rev s" is_whitespace] by (simp add: rust_trim_def hd_rev)

lemma trim_space: "is_whitespace c \<Longrightarrow> rust_trim (c # s) = rust_trim s"
  by (simp add: rust_trim_def)

lemma trim_cookie: "plain_cookie c \<Longrightarrow> rust_trim (cookie_text c) = cookie_text c"
  by (cases c) (auto simp: plain_cookie_def cookie_text_def intro!: trim_kept)

lemma split_once_first: "c \<notin> set a \<Longrightarrow> split_once c (a @ c # b) = Some (a, b)"
  by (simp add: split_once_def dropWhile_append takeWhile_append)

lemma split_cookie: "plain_cookie (n, v) \<Longrightarrow> split_once 61 (cookie_text (n, v)) = Some (n, v)"
  by (simp add: plain_cookie_def cookie_text_def lit_def split_once_first)

lemma split_joined:
  "\<forall>p \<in> set ps. 59 \<notin> set p \<Longrightarrow> ps \<noteq> [] \<Longrightarrow>
     split_on (\<lambda>c. c = 59) (join_parts (lit ''; '') ps) = hd ps # map ((#) 32) (tl ps)"
proof (induction "lit ''; ''" ps rule: join_parts.induct)
  case (3 p q ps)
  then have behind: "split_on (\<lambda>c. c = 59) (32 # join_parts (lit ''; '') (q # ps)) = (32 # q) # map ((#) 32) ps"
    by simp
  have "join_parts (lit ''; '') (p # q # ps) = p @ 59 # 32 # join_parts (lit ''; '') (q # ps)" by (simp add: lit_def)
  moreover have "\<forall>x \<in> set p. \<not> x = 59" using 3 by auto
  ultimately show ?case by (simp only: split_on_sep behind) simp
qed (auto intro: split_on_none)

lemma session_part_jar:
  assumes "\<forall>c \<in> set jar. plain_cookie c" "map_of jar SESSION_COOKIE = Some v"
  shows "session_part (map ((#) 32 \<circ> cookie_text) jar) = try_decode_uri_component v"
  using assms
proof (induction jar)
  case (Cons c jar)
  obtain n w where c: "c = (n, w)" by (cases c)
  have "rust_trim (32 # cookie_text c) = cookie_text c"
    using Cons.prems trim_cookie [of c] trim_space [of 32 "cookie_text c"] by (simp add: is_whitespace_def)
  then show ?case using Cons split_cookie [of n w] by (auto simp: c Let_def)
qed simp

lemma session_part_first: "session_part ((32 # p) # ps) = session_part (p # ps)"
  by (simp add: trim_space is_whitespace_def)

lemma header_ascii: "\<forall>x \<in> set s. x = 9 \<or> (32 \<le> x \<and> x < 127) \<Longrightarrow> header_str (map of_nat s) = Some s"
proof -
  assume a: "\<forall>x \<in> set s. x = 9 \<or> (32 \<le> x \<and> x < 127)"
  have "of_nat x = (9 :: byte) \<or> (32 :: byte) \<le> of_nat x \<and> (of_nat x :: byte) < 127" if "x \<in> set s" for x
    using a that by (auto simp: word_le_nat_alt word_less_nat_alt unat_of_nat_byte)
  moreover have "map (unat \<circ> (of_nat :: nat \<Rightarrow> byte)) s = s"
    using a by (intro map_idI) (auto simp: unat_of_nat_byte)
  ultimately show ?thesis by (simp add: header_str_def list_all_iff)
qed

lemma join_chars: "x \<in> set (join_parts sep ps) \<Longrightarrow> x \<in> set sep \<or> (\<exists>p \<in> set ps. x \<in> set p)"
  by (induction sep ps rule: join_parts.induct) auto

lemma cookie_read_back:
  assumes "\<forall>c \<in> set jar. plain_cookie c" "map_of jar SESSION_COOKIE = Some v"
    "map_of hs (lit ''cookie'') = Some (map of_nat (join_parts (lit ''; '') (map cookie_text jar)))" "distinct (map fst hs)"
  shows "read_session_token hs = try_decode_uri_component v"
proof -
  let ?s = "join_parts (lit ''; '') (map cookie_text jar)"
  have "x = 9 \<or> (32 \<le> x \<and> x < 127)" if "x \<in> set ?s" for x
    using join_chars [OF that] assms(1) by (auto simp: lit_def cookie_text_def plain_cookie_def split: prod.splits)
  then have str: "header_str (map of_nat ?s) = Some ?s" by (intro header_ascii) blast
  have only: "List.map_filter (\<lambda>(n, w). if n = lit ''cookie'' then header_str w else None) hs = [?s]"
    using assms(3,4) str
  proof (induction hs)
    case (Cons h hs)
    have "List.map_filter (\<lambda>(n, w). if n = lit ''cookie'' then header_str w else None) xs = []"
      if "lit ''cookie'' \<notin> fst ` set xs" for xs :: headers
      using that by (induction xs) (auto simp: List.map_filter_def)
    then show ?case using Cons by (cases h) (auto simp: List.map_filter_simps split: if_splits)
  qed simp
  have jar: "jar \<noteq> []" using assms(2) by auto
  have no_sep: "\<forall>p \<in> set (map cookie_text jar). 59 \<notin> set p"
    using assms(1) by (auto simp: cookie_text_def plain_cookie_def lit_def)
  have "read_session_token hs = session_part (cookie_text (hd jar) # map ((#) 32) (map cookie_text (tl jar)))"
    using split_joined [OF no_sep] jar by (simp add: read_session_token_def only hd_map map_tl)
  also have "\<dots> = session_part (map ((#) 32 \<circ> cookie_text) jar)"
    using jar session_part_first [of "cookie_text (hd jar)"] by (cases jar) simp_all
  finally show ?thesis using session_part_jar [OF assms(1,2)] by simp
qed

section \<open>Errors and projects reach the client\<close>

text \<open>What of an error the wire carries: everything but its cause, and no empty details.\<close>

definition carried :: "app_error \<Rightarrow> app_error" where
  "carried e = e\<lparr>err_cause := None, err_details := (case err_details e of Some (d # ds) \<Rightarrow> Some (d # ds) | _ \<Rightarrow> None)\<rparr>"

definition as_response :: "http_answer \<Rightarrow> remote_response" where
  "as_response a = \<lparr>rp_status = ha_status a, rp_body = ha_body a\<rparr>"

lemma error_not_ok: "\<not> response_ok (as_response (error_response print e))"
  by (cases "err_code e") (simp_all add: response_ok_def as_response_def error_response_def)

lemma failure_back:
  assumes "parse (print (envelope_json (to_envelope e))) = Some (envelope_json (to_envelope e))"
  shows "failure_of parse (as_response (error_response print e)) fallback = carried e"
  using assms
  by (cases e) (auto simp: failure_of_def as_response_def error_response_def envelope_json_def json_get_def lit_def Let_def
      to_envelope_def carried_def error_defs error_code.parse_as_str split: option.splits list.splits)

lemma remote_file_back:
  "remote_file_of (file_json (decorate_file f)) = Some \<lparr>rm_id = cf_id f, rm_name = cf_name f, rm_kind = cf_kind f, rm_slicer = cf_slicer f\<rparr>"
  by (cases "cf_slicer f")
    (simp_all add: remote_file_of_def file_json_def decorate_file_def json_get_def lit_def optional_field_def
      file_kind.parse_as_str slicer_id.parse_as_str)

lemma remote_files_back:
  "List.map_filter remote_file_of (map file_json (map decorate_file fs)) =
     map (\<lambda>f. \<lparr>rm_id = cf_id f, rm_name = cf_name f, rm_kind = cf_kind f, rm_slicer = cf_slicer f\<rparr>) fs"
  by (induction fs) (auto simp: List.map_filter_simps remote_file_back)

lemma find_mapped: "find p (map f xs) = map_option f (find (p \<circ> f) xs)"
  by (induction xs) auto

lemma project_members:
  "json_get (lit ''id'') (project_json d) = Some (JStr (pd_id (pt_project d)))"
  "json_get (lit ''files'') (project_json d) = Some (JArr (map file_json (pt_files d)))"
  by (auto simp: project_json_def json_get_def lit_def optional_field_def Let_def split: option.splits)

section \<open>Properties\<close>

text \<open>C28
  A refusal of the server reaches the desktop app as the same error: same code, same message, same
  details, never taken for a success; its cause, which may hold the text of a database or disk
  error, does not influence a single byte of the answer.
\<close>

theorem error_crosses_wire:
  assumes "parse (print (envelope_json (to_envelope e))) = Some (envelope_json (to_envelope e))"
  shows "\<not> response_ok (as_response (error_response print e)) \<and>
    failure_of parse (as_response (error_response print e)) fallback = carried e \<and>
    error_response print (e\<lparr>err_cause := c\<rparr>) = error_response print e"
  using error_not_ok failure_back [of parse print e, OF assms] by (simp add: error_response_def to_envelope_def)

text \<open>C29
  A remote launch learns from the server exactly what the server's index says of the file: its name,
  kind and slicer when the file is in the project and its name is one an upload may have, and
  otherwise the refusal that applies, the server's own ones included.
\<close>

theorem project_crosses_wire:
  assumes "\<forall>j. parse (print j) = Some j"
    "get (lit ''/projects/'' @ percent_encode pid) = Inr (as_response (answer_of print (project_route print c pid db)))"
  shows "remote_source (Some (remote_project parse get)) fid pid =
    bindE (map_sum carried id (get_project_in c pid db)) (\<lambda>d.
      case find (\<lambda>f. cf_id f = fid) (cd_files d) of
        None \<Rightarrow> Inl (not_in_project fid)
      | Some f \<Rightarrow>
          if is_ok (file_name (cf_name f))
          then Inr \<lparr>so_name = cf_name f, so_indexed = \<lparr>cl_kind = cf_kind f, cl_slicer = cf_slicer f, cl_unreadable = False\<rparr>,
                 so_abs_path = None\<rparr>
          else Inl (with_details (validation (lit ''the server named that file in a way this app cannot use''))
                 [(lit ''fileId'', JStr fid)]))"
proof (cases "get_project_in c pid db")
  case (Inl e)
  then show ?thesis
    using assms error_not_ok failure_back [of parse print e]
    by (simp add: remote_source_def remote_project_def answer_of_def project_route_def)
next
  case (Inr d)
  let ?body = "project_json (decorate_project_detail d)"
  have "remote_project parse get pid = Inr (map (\<lambda>f. \<lparr>rm_id = cf_id f, rm_name = cf_name f, rm_kind = cf_kind f, rm_slicer = cf_slicer f\<rparr>) (cd_files d))"
    using assms Inr remote_files_back
    by (simp add: remote_project_def answer_of_def project_route_def as_response_def json_response_def response_ok_def
        project_members decorate_project_detail_def decorate_project_def)
  then show ?thesis
    by (simp add: remote_source_def Inr find_mapped comp_def split: option.splits)
qed

section \<open>Witnesses\<close>

theorem error_crosses_wire_witness:
  "failure_of (\<lambda>_. Some (envelope_json (to_envelope (quota_exceeded 1 2 3))))
     (as_response (error_response (\<lambda>_. []) (quota_exceeded 1 2 3))) [] = quota_exceeded 1 2 3"
proof -
  have "carried (quota_exceeded 1 2 3) = quota_exceeded 1 2 3"
    by (simp add: carried_def quota_exceeded_def error_defs lit_def)
  then show ?thesis
    using error_crosses_wire [of "\<lambda>_. Some (envelope_json (to_envelope (quota_exceeded 1 2 3)))" "\<lambda>_. []" "quota_exceeded 1 2 3" "[]"]
    by simp
qed

theorem project_crosses_wire_witness:
  "\<exists>s. remote_source (Some (remote_project (\<lambda>bs. Some (from_nat (length bs)))
       (\<lambda>_. Inr (as_response (answer_of (\<lambda>j. replicate (to_nat j) 0)
          (project_route (\<lambda>j. replicate (to_nat j) 0) \<lparr>ctx_user_id = lit ''1'', ctx_is_admin = False\<rparr> (lit ''p'') sample_filed))))))
       (lit ''f'') (lit ''p'') = Inr s \<and> so_name s = lit ''a.stl''"
proof -
  let ?c = "\<lparr>ctx_user_id = lit ''1'', ctx_is_admin = False\<rparr>"
  have "(case get_project_in ?c (lit ''p'') sample_filed of Inl _ \<Rightarrow> False
     | Inr d \<Rightarrow> (case find (\<lambda>f. cf_id f = lit ''f'') (cd_files d) of None \<Rightarrow> False | Some f \<Rightarrow> cf_name f = lit ''a.stl''))"
    by code_simp
  then obtain d f where d: "get_project_in ?c (lit ''p'') sample_filed = Inr d"
      and f: "find (\<lambda>f. cf_id f = lit ''f'') (cd_files d) = Some f" "cf_name f = lit ''a.stl''"
    by (auto split: sum.splits option.splits)
  have ok: "file_name (lit ''a.stl'') = Inr ()"
    by (simp add: file_name_def length_between_def js_len_def utf16_len_def lit_def
        is_windows_device_name_def to_ascii_lowercase_def)
  have codec: "\<forall>j :: json. (\<lambda>bs. Some (from_nat (length bs))) ((\<lambda>j. replicate (to_nat j) 0) j :: bytes) = Some j" by simp
  note crossed = project_crosses_wire [where pid = "lit ''p''" and c = ?c and db = sample_filed and fid = "lit ''f''", OF codec refl]
  show ?thesis
    unfolding crossed d by (simp add: f ok)
qed
end
