(* ===== verification/Remote_Proxy.thy ===== *)
theory Remote_Proxy
  imports Wire
begin

text \<open>
  The desktop app as a reverse proxy for one server: \<^verbatim>\<open>crates/spm-shell/src/remote.rs\<close> and
  \<^verbatim>\<open>capabilities.rs\<close>. The upstream server, the HTTP client and the url parser are arguments; a
  request and an answer carry their headers as names in lower case with the bytes of their values.
  Properties: what leaves the app goes to the one origin under \<^verbatim>\<open>/api\<close> with nothing of the page but
  three headers, the page never sees a cookie or a redirect, a session set by the server is carried
  back to it, and an upload arrives under its name and size.
\<close>

section \<open>Capabilities\<close>

record capabilities =
  requires_auth :: bool
  can_manage_users :: bool
  can_pick_local_folder :: bool
  can_launch_slicer :: bool
  can_configure_slicers :: bool
  can_browse_model_sites :: bool

definition LOCAL_SHELL_CAPABILITIES :: capabilities where
  "LOCAL_SHELL_CAPABILITIES =
     \<lparr>requires_auth = False, can_manage_users = False, can_pick_local_folder = True, can_launch_slicer = True,
      can_configure_slicers = True, can_browse_model_sites = True\<rparr>"

definition REMOTE_SHELL_CAPABILITIES :: capabilities where
  "REMOTE_SHELL_CAPABILITIES =
     \<lparr>requires_auth = False, can_manage_users = False, can_pick_local_folder = False, can_launch_slicer = True,
      can_configure_slicers = True, can_browse_model_sites = True\<rparr>"

definition UNSET_SHELL_CAPABILITIES :: capabilities where
  "UNSET_SHELL_CAPABILITIES = LOCAL_SHELL_CAPABILITIES"

definition union_capabilities :: "capabilities \<Rightarrow> capabilities \<Rightarrow> capabilities" where
  "union_capabilities shell backend =
     \<lparr>requires_auth = requires_auth shell \<or> requires_auth backend,
      can_manage_users = can_manage_users shell \<or> can_manage_users backend,
      can_pick_local_folder = can_pick_local_folder shell \<or> can_pick_local_folder backend,
      can_launch_slicer = can_launch_slicer shell \<or> can_launch_slicer backend,
      can_configure_slicers = can_configure_slicers shell \<or> can_configure_slicers backend,
      can_browse_model_sites = can_browse_model_sites shell \<or> can_browse_model_sites backend\<rparr>"

fun json_bool :: "json \<Rightarrow> bool option" where
  "json_bool (JBool b) = Some b"
| "json_bool _ = None"

definition parse_capabilities :: "json \<Rightarrow> capabilities option" where
  "parse_capabilities value =
     Option.bind (json_object value) (\<lambda>members. let flag = (\<lambda>key. Option.bind (map_of members key) json_bool) in
       Option.bind (flag (lit ''requiresAuth'')) (\<lambda>ra.
       Option.bind (flag (lit ''canManageUsers'')) (\<lambda>mu.
       Option.bind (flag (lit ''canPickLocalFolder'')) (\<lambda>pl.
       Option.bind (flag (lit ''canLaunchSlicer'')) (\<lambda>ls.
       Option.bind (flag (lit ''canConfigureSlicers'')) (\<lambda>cs.
       Option.bind (flag (lit ''canBrowseModelSites'')) (\<lambda>bm.
         Some \<lparr>requires_auth = ra, can_manage_users = mu, can_pick_local_folder = pl, can_launch_slicer = ls,
           can_configure_slicers = cs, can_browse_model_sites = bm\<rparr>)))))))"

definition capabilities_json :: "capabilities \<Rightarrow> json" where
  "capabilities_json c = JObj
     [(lit ''requiresAuth'', JBool (requires_auth c)), (lit ''canManageUsers'', JBool (can_manage_users c)),
      (lit ''canPickLocalFolder'', JBool (can_pick_local_folder c)), (lit ''canLaunchSlicer'', JBool (can_launch_slicer c)),
      (lit ''canConfigureSlicers'', JBool (can_configure_slicers c)), (lit ''canBrowseModelSites'', JBool (can_browse_model_sites c))]"

section \<open>The origin\<close>

definition API_PATH_PREFIX :: str where "API_PATH_PREFIX = lit ''/api''"

definition FORWARDED_REQUEST_HEADERS :: "str list" where
  "FORWARDED_REQUEST_HEADERS = [lit ''content-type'', lit ''accept'', lit ''x-spm-file-name'']"

definition HOP_BY_HOP :: "str list" where
  "HOP_BY_HOP = [lit ''connection'', lit ''keep-alive'', lit ''proxy-authenticate'', lit ''proxy-authorization'',
     lit ''te'', lit ''trailer'', lit ''transfer-encoding'', lit ''upgrade'']"

definition FORCED_RESPONSE_HEADERS :: "(str \<times> str) list" where
  "FORCED_RESPONSE_HEADERS = [(lit ''x-content-type-options'', lit ''nosniff''),
     (lit ''content-security-policy'', lit ''default-src '' @ [39] @ lit ''none'' @ [39] @ lit ''; sandbox'')]"

definition ALLOWED_METHODS :: "str list" where
  "ALLOWED_METHODS = [lit ''GET'', lit ''POST'', lit ''PUT'', lit ''PATCH'', lit ''DELETE'']"

definition MAX_CAPABILITIES_BYTES :: nat where "MAX_CAPABILITIES_BYTES = 1024 * 1024"

text \<open>What a \<^verbatim>\<open>Url\<close> tells of itself.\<close>

record web_url =
  wu_scheme :: str
  wu_username :: str
  wu_password :: "str option"
  wu_host :: "str option"
  wu_path :: str
  wu_query :: "str option"
  wu_fragment :: "str option"
  wu_origin :: str

definition after_separator :: "str \<Rightarrow> str" where
  "after_separator text =
     (let idx = find (\<lambda>i. starts_with (lit ''://'') (drop i text)) [0..<length text] in
      case idx of None \<Rightarrow> [] | Some i \<Rightarrow> drop (i + 3) text)"

definition typed_path :: "str \<Rightarrow> str" where
  "typed_path text =
     takeWhile (\<lambda>c. c \<noteq> 63 \<and> c \<noteq> 35) (dropWhile (\<lambda>c. c \<noteq> 47 \<and> c \<noteq> 63 \<and> c \<noteq> 35) (after_separator text))"

definition parse_remote_origin :: "(str \<Rightarrow> web_url option) \<Rightarrow> str \<Rightarrow> str result" where
  "parse_remote_origin url_parse raw =
     (let text = rust_trim raw in
      if text = [] then Inl (validation (lit ''a server URL is required''))
      else
        (case url_parse text of
           None \<Rightarrow> Inl (validation (lit ''not a URL: '' @ text))
         | Some u \<Rightarrow>
             if wu_scheme u \<noteq> lit ''http'' \<and> wu_scheme u \<noteq> lit ''https''
             then Inl (validation (lit ''a server URL must be http or https, not '' @ wu_scheme u @ lit '':''))
             else if wu_username u \<noteq> [] \<or> wu_password u \<noteq> None
             then Inl (validation (lit ''a server URL must not carry a username or a password''))
             else if (case wu_query u of None \<Rightarrow> False | Some q \<Rightarrow> q \<noteq> []) \<or> (case wu_fragment u of None \<Rightarrow> False | Some q \<Rightarrow> q \<noteq> [])
             then Inl (validation (lit ''a server URL must not carry a query string or a fragment''))
             else if \<not> (wu_path u = [] \<or> wu_path u = lit ''/'')
             then Inl (validation (lit ''a server URL must name an origin, not a path: '' @ wu_path u))
             else if \<not> (typed_path text = [] \<or> typed_path text = lit ''/'')
             then Inl (validation (lit ''a server URL must name an origin, not a path: '' @ typed_path text))
             else Inr (wu_origin u)))"

definition is_plaintext_to_another_machine :: "(str \<Rightarrow> web_url option) \<Rightarrow> str \<Rightarrow> bool" where
  "is_plaintext_to_another_machine url_parse orig =
     (case url_parse orig of
        None \<Rightarrow> False
      | Some u \<Rightarrow> wu_scheme u = lit ''http'' \<and>
          \<not> (case wu_host u of None \<Rightarrow> False
             | Some h \<Rightarrow> h \<in> {lit ''localhost'', lit ''127.0.0.1'', lit ''[::1]'', lit ''::1''}))"

definition is_redirect :: "nat \<Rightarrow> bool" where
  "is_redirect status \<longleftrightarrow> 300 \<le> status \<and> status < 400 \<and> status \<noteq> 304"

definition plain_length :: "headers \<Rightarrow> str \<Rightarrow> nat option" where
  "plain_length hs name =
     (case header_get hs name of
        Some raw \<Rightarrow> if raw \<noteq> [] \<and> list_all is_dec_digit raw then parse_u64 raw else None
      | None \<Rightarrow> None)"

definition declared_upload_length :: "headers \<Rightarrow> nat option" where
  "declared_upload_length hs =
     (case plain_length hs UPLOAD_LENGTH_HEADER of
        Some n \<Rightarrow> Some n
      | None \<Rightarrow> plain_length hs (lit ''content-length''))"

text \<open>\<^verbatim>\<open>replace("%2e", ".")\<close>.\<close>

fun decode_dots :: "str \<Rightarrow> str" where
  "decode_dots (a # b # c # s) = (if a = 37 \<and> b = 50 \<and> c = 101 then 46 # decode_dots s else a # decode_dots (b # c # s))"
| "decode_dots s = s"

definition has_dot_segment :: "str \<Rightarrow> bool" where
  "has_dot_segment path \<longleftrightarrow>
     list_ex (\<lambda>segment. let lowered = decode_dots (to_ascii_lowercase segment) in lowered = lit ''.'' \<or> lowered = lit ''..'')
       (split_on (\<lambda>c. c = 47) path) \<or> 92 \<in> set path"

section \<open>The host\<close>

record remote_host =
  ho_origin :: str
  ho_jar :: "(str \<times> str) list"
  ho_closed :: bool

definition new_host :: "str \<Rightarrow> remote_host" where
  "new_host orig = \<lparr>ho_origin = orig, ho_jar = [], ho_closed = False\<rparr>"

definition host_has_session :: "remote_host \<Rightarrow> bool" where
  "host_has_session h \<longleftrightarrow> ho_jar h \<noteq> []"

definition close_host :: "remote_host \<Rightarrow> remote_host" where
  "close_host h = h\<lparr>ho_closed := True, ho_jar := []\<rparr>"

text \<open>A body that is known to be empty is \<open>None\<close>.\<close>

record proxy_request =
  pq_method :: str
  pq_path :: str
  pq_query :: "str option"
  pq_headers :: headers
  pq_body :: "bytes option"

record upstream_request =
  ur_method :: str
  ur_url :: str
  ur_headers :: headers
  ur_body :: "bytes option"

record server_answer =
  sv_status :: nat
  sv_headers :: headers
  sv_chunks :: "(str + bytes) list"

definition ascii :: "str \<Rightarrow> bytes" where "ascii s = map of_nat s"

definition header_set :: "str \<Rightarrow> bytes \<Rightarrow> headers \<Rightarrow> headers" where
  "header_set name v hs = filter (\<lambda>(n, _). n \<noteq> name) hs @ [(name, v)]"

definition force_headers :: "headers \<Rightarrow> headers" where
  "force_headers hs = foldl (\<lambda>hs (n, v). header_set n (ascii v) hs) hs FORCED_RESPONSE_HEADERS"

definition proxy_failure :: "(json \<Rightarrow> bytes) \<Rightarrow> nat \<Rightarrow> app_error_code \<Rightarrow> str \<Rightarrow> server_answer" where
  "proxy_failure print status code message =
     \<lparr>sv_status = status,
      sv_headers = force_headers [(lit ''content-type'', ascii (lit ''application/json''))],
      sv_chunks = [Inr (print (envelope_json (to_envelope (new_error code message))))]\<rparr>"

definition cookie_header :: "remote_host \<Rightarrow> str option" where
  "cookie_header h =
     (if ho_jar h = [] then None
      else Some (join_parts (lit ''; '') (map (\<lambda>(name, v). name @ lit ''='' @ v) (ho_jar h))))"

fun str_less :: "str \<Rightarrow> str \<Rightarrow> bool" where
  "str_less _ [] = False"
| "str_less [] (b # bs) = True"
| "str_less (a # as) (b # bs) = (a < b \<or> (a = b \<and> str_less as bs))"

text \<open>A map in the order of its keys.\<close>

fun jar_put :: "str \<Rightarrow> str \<Rightarrow> (str \<times> str) list \<Rightarrow> (str \<times> str) list" where
  "jar_put n v [] = [(n, v)]"
| "jar_put n v ((m, w) # jar) =
     (if m = n then (n, v) # jar else if str_less n m then (n, v) # (m, w) # jar else (m, w) # jar_put n v jar)"

definition absorb_line :: "str \<Rightarrow> (str \<times> str) list \<Rightarrow> (str \<times> str) list" where
  "absorb_line line jar =
     (case split_on (\<lambda>c. c = 59) line of
        [] \<Rightarrow> jar
      | pair # attributes \<Rightarrow>
          (case split_once 61 pair of
             None \<Rightarrow> jar
           | Some (n, v) \<Rightarrow>
               let name = rust_trim n; val = rust_trim v;
                   expired = list_ex (\<lambda>a. to_ascii_lowercase (rust_trim a) = lit ''max-age=0'') attributes in
               if name = [] then jar
               else if val = [] \<or> expired then filter (\<lambda>(m, _). m \<noteq> name) jar
               else jar_put name val jar))"

definition absorb_cookies :: "headers \<Rightarrow> remote_host \<Rightarrow> remote_host" where
  "absorb_cookies hs h =
     h\<lparr>ho_jar := foldl (\<lambda>jar (n, v).
        if n = lit ''set-cookie'' then (case header_str v of None \<Rightarrow> jar | Some line \<Rightarrow> absorb_line line jar) else jar)
        (ho_jar h) hs\<rparr>"

definition forward_answer :: "server_answer \<Rightarrow> server_answer" where
  "forward_answer a =
     a\<lparr>sv_headers := force_headers
        (filter (\<lambda>(n, _). n \<noteq> lit ''set-cookie'' \<and> n \<notin> set HOP_BY_HOP) (sv_headers a))\<rparr>"

definition refuse_redirect :: "(json \<Rightarrow> bytes) \<Rightarrow> str \<Rightarrow> server_answer \<Rightarrow> server_answer" where
  "refuse_redirect print orig a =
     (let location = (case header_get (sv_headers a) (lit ''location'') of Some l \<Rightarrow> l | None \<Rightarrow> lit ''somewhere else'') in
      proxy_failure print 502 Internal (orig @ lit '' redirected to '' @ location @
        lit ''; this app talks to one server and does not follow redirects. Use that address directly if it is the right one.''))"

text \<open>The headers a request leaves with: the page's three, a length, and the session of the host.\<close>

definition outgoing_headers :: "remote_host \<Rightarrow> bool \<Rightarrow> headers \<Rightarrow> headers" where
  "outgoing_headers h has_body sent =
     (let kept = List.map_filter (\<lambda>name. map_option (Pair name) (map_of sent name)) FORWARDED_REQUEST_HEADERS;
          sized = (case if has_body then declared_upload_length sent else None of
                     Some n \<Rightarrow> header_set (lit ''content-length'') (ascii (dec_str n)) kept
                   | None \<Rightarrow> kept) in
      case cookie_header h of
        Some c \<Rightarrow> header_set (lit ''cookie'') (ascii c) sized
      | None \<Rightarrow> sized)"

text \<open>What is requested of the server, when the confinement lets it.\<close>

definition upstream_of :: "(str \<Rightarrow> web_url option) \<Rightarrow> remote_host \<Rightarrow> proxy_request \<Rightarrow> upstream_request option" where
  "upstream_of url_parse h rq =
     (let target = ho_origin h @ pq_path rq @ (case pq_query rq of None \<Rightarrow> [] | Some q \<Rightarrow> lit ''?'' @ q);
          has_body = (pq_method rq \<noteq> lit ''GET'' \<and> pq_body rq \<noteq> None) in
      case url_parse target of
        None \<Rightarrow> None
      | Some u \<Rightarrow>
          if wu_origin u = ho_origin h \<and> starts_with (lit ''/api/'') (wu_path u)
          then Some \<lparr>ur_method = pq_method rq, ur_url = target, ur_headers = outgoing_headers h has_body (pq_headers rq),
                      ur_body = (if has_body then pq_body rq else None)\<rparr>
          else None)"

definition send_request ::
  "(json \<Rightarrow> bytes) \<Rightarrow> (str \<Rightarrow> web_url option) \<Rightarrow> (upstream_request \<Rightarrow> str + server_answer) \<Rightarrow> remote_host \<Rightarrow> proxy_request \<Rightarrow>
   server_answer \<times> remote_host" where
  "send_request print url_parse upstream h rq =
     (case upstream_of url_parse h rq of
        None \<Rightarrow> (proxy_failure print 404 NotFound (lit ''no such path: '' @ pq_path rq), h)
      | Some ur \<Rightarrow>
          (case upstream ur of
             Inl detail \<Rightarrow> (proxy_failure print 502 Internal (lit ''could not reach '' @ ho_origin h @ lit '': '' @ detail), h)
           | Inr a \<Rightarrow>
               if is_redirect (sv_status a) then (refuse_redirect print (ho_origin h) a, h)
               else (forward_answer a, absorb_cookies (sv_headers a) h)))"

definition unioned ::
  "(bytes \<Rightarrow> json option) \<Rightarrow> (json \<Rightarrow> bytes) \<Rightarrow> str \<Rightarrow> server_answer \<Rightarrow> server_answer" where
  "unioned parse print orig a =
     (case to_bytes MAX_CAPABILITIES_BYTES (sv_chunks a) of
        Inl _ \<Rightarrow> proxy_failure print 502 Internal (orig @ lit '' answered /api/capabilities with something too large'')
      | Inr bs \<Rightarrow>
          (case Option.bind (parse bs) parse_capabilities of
             None \<Rightarrow> a\<lparr>sv_headers := filter (\<lambda>(n, _). n \<noteq> lit ''content-length'') (sv_headers a), sv_chunks := [Inr bs]\<rparr>
           | Some backend \<Rightarrow>
               let out = print (capabilities_json (union_capabilities REMOTE_SHELL_CAPABILITIES backend)) in
               a\<lparr>sv_headers := header_set (lit ''content-length'') (ascii (dec_str (length out)))
                    (header_set (lit ''content-type'') (ascii (lit ''application/json'')) (sv_headers a)),
                 sv_chunks := [Inr out]\<rparr>))"

definition proxy_request_of ::
  "(bytes \<Rightarrow> json option) \<Rightarrow> (json \<Rightarrow> bytes) \<Rightarrow> (str \<Rightarrow> web_url option) \<Rightarrow> (upstream_request \<Rightarrow> str + server_answer) \<Rightarrow>
   remote_host \<Rightarrow> proxy_request \<Rightarrow> server_answer \<times> remote_host" where
  "proxy_request_of parse print url_parse upstream h rq =
     (if ho_closed h then (proxy_failure print 503 Internal (lit ''the server connection has been closed''), h)
      else if \<not> starts_with (lit ''/api/'') (pq_path rq) \<or> has_dot_segment (pq_path rq)
      then (proxy_failure print 404 NotFound (lit ''no such path: '' @ pq_path rq), h)
      else if pq_method rq \<notin> set ALLOWED_METHODS
      then (proxy_failure print 405 Validation (pq_method rq @ lit '' is not allowed''), h)
      else
        (case send_request print url_parse upstream h rq of
           (a, h') \<Rightarrow>
             if pq_method rq = lit ''GET'' \<and> pq_path rq = lit ''/api/capabilities'' \<and> sv_status a = 200
             then (unioned parse print (ho_origin h) a, h') else (a, h')))"

definition host_capabilities ::
  "(bytes \<Rightarrow> json option) \<Rightarrow> (json \<Rightarrow> bytes) \<Rightarrow> (str \<Rightarrow> web_url option) \<Rightarrow> (upstream_request \<Rightarrow> str + server_answer) \<Rightarrow>
   remote_host \<Rightarrow> capabilities result \<times> remote_host" where
  "host_capabilities parse print url_parse upstream h =
     (case proxy_request_of parse print url_parse upstream h
         \<lparr>pq_method = lit ''GET'', pq_path = lit ''/api/capabilities'', pq_query = None, pq_headers = [], pq_body = None\<rparr> of
        (a, h') \<Rightarrow>
          let bs = (case to_bytes MAX_CAPABILITIES_BYTES (sv_chunks a) of Inr bs \<Rightarrow> bs | Inl _ \<Rightarrow> []);
              body = (case parse bs of Some v \<Rightarrow> v | None \<Rightarrow> JNull) in
          (case parse_capabilities body of
             Some c \<Rightarrow>
               if sv_status a = 200 then Inr c
               else Inl (new_error Internal (ho_origin h @ lit '' did not answer with its capabilities''))
           | None \<Rightarrow> Inl (new_error Internal (ho_origin h @ lit '' did not answer with its capabilities'')), h'))"

text \<open>The proxy as the client of \<open>Wire\<close> calls it.\<close>

definition through_host ::
  "(bytes \<Rightarrow> json option) \<Rightarrow> (json \<Rightarrow> bytes) \<Rightarrow> (str \<Rightarrow> web_url option) \<Rightarrow> (upstream_request \<Rightarrow> str + server_answer) \<Rightarrow>
   remote_host \<Rightarrow> http_request \<Rightarrow> str + proxied" where
  "through_host parse print url_parse upstream h rq =
     (let a = fst (proxy_request_of parse print url_parse upstream h
         \<lparr>pq_method = rq_method rq, pq_path = rq_path rq, pq_query = None,
          pq_headers = map (\<lambda>(n, v). (n, ascii v)) (rq_headers rq),
          pq_body = (if rq_method rq = lit ''GET'' then None else Some (rq_body rq))\<rparr>) in
      Inr \<lparr>px_status = sv_status a, px_chunks = sv_chunks a\<rparr>)"

section \<open>Headers\<close>

lemma set_header_set: "set (header_set n v hs) = {h \<in> set hs. fst h \<noteq> n} \<union> {(n, v)}"
  by (auto simp: header_set_def)

lemma map_of_header_set: "map_of (header_set n v hs) m = (if m = n then Some v else map_of hs m)"
  by (induction hs) (auto simp: header_set_def)

lemma distinct_header_set: "distinct (map fst hs) \<Longrightarrow> distinct (map fst (header_set n v hs))"
  by (auto simp: header_set_def distinct_map_filter)

lemma forced_names: "fst ` set (force_headers hs) \<subseteq> fst ` set hs \<union> {lit ''x-content-type-options'', lit ''content-security-policy''}"
  by (auto simp: force_headers_def FORCED_RESPONSE_HEADERS_def set_header_set)

lemma forced_values:
  "(n, v) \<in> set FORCED_RESPONSE_HEADERS \<Longrightarrow> (n, w) \<in> set (force_headers hs) \<longleftrightarrow> w = ascii v"
  by (auto simp: force_headers_def FORCED_RESPONSE_HEADERS_def set_header_set lit_def)

text \<open>What the page may see of an answer.\<close>

definition page_safe :: "server_answer \<Rightarrow> bool" where
  "page_safe a \<longleftrightarrow> lit ''set-cookie'' \<notin> fst ` set (sv_headers a) \<and> \<not> is_redirect (sv_status a) \<and>
     (\<forall>(n, v) \<in> set FORCED_RESPONSE_HEADERS. \<forall>w. (n, w) \<in> set (sv_headers a) \<longleftrightarrow> w = ascii v)"

lemma failure_safe: "\<not> is_redirect status \<Longrightarrow> page_safe (proxy_failure print status code message)"
  using forced_names [of "[(lit ''content-type'', ascii (lit ''application/json''))]"] forced_values
  by (auto simp: page_safe_def proxy_failure_def lit_def)

lemma forward_safe: "\<not> is_redirect (sv_status a) \<Longrightarrow> page_safe (forward_answer a)"
  using forced_names [of "filter (\<lambda>(n, _). n \<noteq> lit ''set-cookie'' \<and> n \<notin> set HOP_BY_HOP) (sv_headers a)"] forced_values
  by (auto simp: page_safe_def forward_answer_def lit_def)

lemma unioned_safe: "page_safe a \<Longrightarrow> page_safe (unioned parse print orig a)"
proof -
  assume safe: "page_safe a"
  have "page_safe (proxy_failure print 502 Internal m)" for m by (rule failure_safe) (simp add: is_redirect_def)
  then show ?thesis
    using safe
    by (auto simp: unioned_def Let_def page_safe_def set_header_set FORCED_RESPONSE_HEADERS_def lit_def image_iff
        split: sum.splits option.splits)
qed

lemma send_safe: "page_safe (fst (send_request print url_parse upstream h rq))"
  by (auto simp: send_request_def refuse_redirect_def Let_def forward_safe is_redirect_def intro!: failure_safe
      split: option.splits sum.splits)

text \<open>What may leave the app.\<close>

definition permitted :: "(str \<Rightarrow> web_url option) \<Rightarrow> remote_host \<Rightarrow> proxy_request \<Rightarrow> upstream_request \<Rightarrow> bool" where
  "permitted url_parse h rq ur \<longleftrightarrow>
     \<not> ho_closed h \<and> ur_method ur = pq_method rq \<and> pq_method rq \<in> set ALLOWED_METHODS \<and> \<not> has_dot_segment (pq_path rq) \<and>
     (\<exists>u. url_parse (ur_url ur) = Some u \<and> wu_origin u = ho_origin h \<and> starts_with (lit ''/api/'') (wu_path u)) \<and>
     (\<forall>(n, v) \<in> set (ur_headers ur).
        (n \<in> set FORWARDED_REQUEST_HEADERS \<and> map_of (pq_headers rq) n = Some v) \<or>
        (n = lit ''content-length'' \<and> (\<exists>k. v = ascii (dec_str k))) \<or>
        (n = lit ''cookie'' \<and> map_option ascii (cookie_header h) = Some v))"

lemma outgoing_only:
  "\<forall>(n, v) \<in> set (outgoing_headers h b hs).
     (n \<in> set FORWARDED_REQUEST_HEADERS \<and> map_of hs n = Some v) \<or> (n = lit ''content-length'' \<and> (\<exists>k. v = ascii (dec_str k))) \<or>
     (n = lit ''cookie'' \<and> map_option ascii (cookie_header h) = Some v)"
  by (auto simp: outgoing_headers_def Let_def set_header_set List.map_filter_def split: option.splits if_splits)

lemma distinct_kept: "distinct ks \<Longrightarrow> distinct (map fst (List.map_filter (\<lambda>k. map_option (Pair k) (f k)) ks))"
  by (induction ks) (auto simp: List.map_filter_def split: option.splits)

lemma distinct_outgoing: "distinct (map fst (outgoing_headers h b hs))"
proof -
  have "distinct FORWARDED_REQUEST_HEADERS" by (simp add: FORWARDED_REQUEST_HEADERS_def)
  from distinct_kept [OF this] show ?thesis
    by (auto simp: outgoing_headers_def Let_def distinct_header_set split: option.splits)
qed

lemma upstream_permitted:
  assumes "upstream_of url_parse h rq = Some ur" "\<not> ho_closed h" "\<not> has_dot_segment (pq_path rq)" "pq_method rq \<in> set ALLOWED_METHODS"
  shows "permitted url_parse h rq ur"
proof -
  obtain u b where "ur_headers ur = outgoing_headers h b (pq_headers rq)" "ur_method ur = pq_method rq"
      "url_parse (ur_url ur) = Some u" "wu_origin u = ho_origin h" "starts_with (lit ''/api/'') (wu_path u)"
    using assms(1) by (auto simp: upstream_of_def Let_def split: option.splits if_splits)
  then show ?thesis using assms(2-4) outgoing_only [of h b "pq_headers rq"] by (simp add: permitted_def)
qed

text \<open>C30
  Nothing leaves the app but a request with an allowed method to the one configured origin under
  \<^verbatim>\<open>/api\<close>, with at most three of the page's headers, a length and the session the app itself holds; and
  no answer carries a cookie, is a redirect, or lacks the two headers that keep it from running in
  the app's origin, whatever the page asks and whatever the server answers.
\<close>

theorem proxy_confines:
  assumes "\<forall>ur. permitted url_parse h rq ur \<longrightarrow> upstream ur = upstream' ur"
  shows "proxy_request_of parse print url_parse upstream h rq = proxy_request_of parse print url_parse upstream' h rq \<and>
    page_safe (fst (proxy_request_of parse print url_parse upstream h rq))"
proof
  show "proxy_request_of parse print url_parse upstream h rq = proxy_request_of parse print url_parse upstream' h rq"
    using assms upstream_permitted [of url_parse h rq]
    by (auto simp: proxy_request_of_def send_request_def split: option.splits)
  show "page_safe (fst (proxy_request_of parse print url_parse upstream h rq))"
    using send_safe [of print url_parse upstream h rq]
    by (auto simp: proxy_request_of_def unioned_safe is_redirect_def intro!: failure_safe split: prod.splits)
qed

theorem proxy_confines_witness:
  "fst (proxy_request_of (\<lambda>_. None) (\<lambda>_. []) (\<lambda>_. None) (\<lambda>_. Inl []) (new_host (lit ''https://h''))
       \<lparr>pq_method = lit ''GET'', pq_path = lit ''/api/x'', pq_query = None, pq_headers = [], pq_body = None\<rparr>) =
   fst (proxy_request_of (\<lambda>_. None) (\<lambda>_. []) (\<lambda>_. None) (\<lambda>ur. Inr \<lparr>sv_status = 200, sv_headers = [], sv_chunks = [Inr [1]]\<rparr>)
       (new_host (lit ''https://h''))
       \<lparr>pq_method = lit ''GET'', pq_path = lit ''/api/x'', pq_query = None, pq_headers = [], pq_body = None\<rparr>)"
  using proxy_confines [where url_parse = "\<lambda>_. None" and h = "new_host (lit ''https://h'')"
      and rq = "\<lparr>pq_method = lit ''GET'', pq_path = lit ''/api/x'', pq_query = None, pq_headers = [], pq_body = None\<rparr>"
      and upstream = "\<lambda>_. Inl []" and upstream' = "\<lambda>ur. Inr \<lparr>sv_status = 200, sv_headers = [], sv_chunks = [Inr [1]]\<rparr>"]
  by (simp add: permitted_def)

section \<open>The session of the host\<close>

lemma str_less_irrefl [simp]: "\<not> str_less a a"
  by (induction a) auto

lemma str_less_trans: "str_less a b \<Longrightarrow> str_less b c \<Longrightarrow> str_less a c"
proof (induction a b arbitrary: c rule: str_less.induct)
  case (2 b bs)
  then show ?case by (cases c) auto
next
  case (3 a as b bs)
  then show ?case by (cases c) auto
qed auto

lemma str_less_linear: "str_less a b \<or> a = b \<or> str_less b a"
proof (induction a b rule: str_less.induct)
  case (1 a)
  then show ?case by (cases a) auto
qed auto

text \<open>The jar holds plain cookies in the order of their names, each once.\<close>

definition jar_ok :: "(str \<times> str) list \<Rightarrow> bool" where
  "jar_ok jar \<longleftrightarrow> sorted_wrt (\<lambda>a b. str_less (fst a) (fst b)) jar \<and> (\<forall>c \<in> set jar. plain_cookie c)"

lemma set_jar_put: "set (jar_put n v jar) \<subseteq> insert (n, v) (set jar)"
  by (induction n v jar rule: jar_put.induct) auto

lemma jar_put_sorted:
  "sorted_wrt (\<lambda>a b. str_less (fst a) (fst b)) jar \<Longrightarrow> sorted_wrt (\<lambda>a b. str_less (fst a) (fst b)) (jar_put n v jar)"
proof (induction n v jar rule: jar_put.induct)
  case (2 n v m w jar)
  then show ?case
    using set_jar_put [of n v jar] str_less_linear [of n m] by (auto intro: str_less_trans)
qed simp

lemma map_of_jar_put: "map_of (jar_put n v jar) m = (if m = n then Some v else map_of jar m)"
  by (induction n v jar rule: jar_put.induct) auto

lemma jar_put_ok: "jar_ok jar \<Longrightarrow> plain_cookie (n, v) \<Longrightarrow> jar_ok (jar_put n v jar)"
  using set_jar_put [of n v jar] by (auto simp: jar_ok_def jar_put_sorted)

lemma set_rust_trim: "set (rust_trim s) \<subseteq> set s"
  by (auto simp: rust_trim_def dest!: set_dropWhileD)

lemma rust_trim_ends: "rust_trim s \<noteq> [] \<Longrightarrow> \<not> is_whitespace (hd (rust_trim s)) \<and> \<not> is_whitespace (List.last (rust_trim s))"
proof
  assume ne: "rust_trim s \<noteq> []"
  let ?d = "dropWhile is_whitespace s"
  have inner: "dropWhile is_whitespace (rev ?d) \<noteq> []" using ne by (simp add: rust_trim_def)
  then show "\<not> is_whitespace (List.last (rust_trim s))"
    using hd_dropWhile [OF inner] by (simp add: rust_trim_def last_rev)
  have d: "?d \<noteq> []" using inner by (metis dropWhile.simps(1) rev.simps(1))
  obtain ys where ys: "rev ?d = ys @ dropWhile is_whitespace (rev ?d)" by (metis takeWhile_dropWhile_id)
  then have "?d = rust_trim s @ rev ys" by (metis rev_append rev_rev_ident rust_trim_def)
  then have "hd (rust_trim s) = hd ?d" using ne by (metis hd_append2)
  then show "\<not> is_whitespace (hd (rust_trim s))" using hd_dropWhile [OF d] by simp
qed

lemma header_str_chars:
  assumes "header_str v = Some s"
  shows "\<forall>x \<in> set s. x = 9 \<or> (32 \<le> x \<and> x < 127)"
proof
  have byte: "b = (9 :: byte) \<or> 32 \<le> b \<and> b < 127 \<Longrightarrow> unat b = 9 \<or> 32 \<le> unat b \<and> unat b < 127" for b
    by (auto simp: word_le_nat_alt word_less_nat_alt)
  have all: "\<forall>b \<in> set v. b = 9 \<or> 32 \<le> b \<and> b < 127" and s: "s = map unat v"
    using assms by (auto simp: header_str_def list_all_iff split: if_splits)
  fix x
  assume "x \<in> set s"
  then obtain b where "b \<in> set v" "x = unat b" using s by auto
  then show "x = 9 \<or> (32 \<le> x \<and> x < 127)" using all byte by blast
qed

lemma split_once_parts: "split_once c s = Some (a, b) \<Longrightarrow> c \<notin> set a \<and> set a \<subseteq> set s \<and> set b \<subseteq> set s"
  by (auto simp: split_once_def dest: set_takeWhileD set_dropWhileD split: list.splits)
    (metis list.set_intros(2) set_dropWhileD)

lemma absorb_line_ok:
  assumes "jar_ok jar" "\<forall>x \<in> set line. x = 9 \<or> (32 \<le> x \<and> x < 127)"
  shows "jar_ok (absorb_line line jar)"
proof -
  have "plain_cookie (rust_trim n, rust_trim v)"
    if "pair \<in> set (split_on (\<lambda>c. c = 59) line)" "split_once 61 pair = Some (n, v)" "rust_trim n \<noteq> []" "rust_trim v \<noteq> []"
    for pair n v
  proof -
    have "\<forall>x \<in> set pair. x \<noteq> 59 \<and> x \<in> set line" using split_on_parts [OF that(1)] by blast
    then have "\<forall>x \<in> set n \<union> set v. x \<noteq> 59 \<and> (x = 9 \<or> (32 \<le> x \<and> x < 127))" "61 \<notin> set n"
      using split_once_parts [OF that(2)] assms(2) by blast+
    then show ?thesis
      using set_rust_trim [of n] set_rust_trim [of v] rust_trim_ends [OF that(3)] rust_trim_ends [OF that(4)] that(3,4)
      by (auto simp: plain_cookie_def)
  qed
  moreover have "jar_ok (filter (\<lambda>(m, _). m \<noteq> n) jar)" for n
    using assms(1) by (auto simp: jar_ok_def sorted_wrt_filter)
  ultimately show ?thesis
    using assms(1) by (auto simp: absorb_line_def Let_def split: list.splits option.splits) (blast intro: jar_put_ok)
qed

lemma absorb_ok: "jar_ok (ho_jar h) \<Longrightarrow> jar_ok (ho_jar (absorb_cookies hs h))"
proof -
  have "jar_ok jar \<Longrightarrow> jar_ok (foldl (\<lambda>jar (n, v). if n = lit ''set-cookie''
      then (case header_str v of None \<Rightarrow> jar | Some line \<Rightarrow> absorb_line line jar) else jar) jar hs)" for jar
    by (induction hs arbitrary: jar) (auto simp: absorb_line_ok header_str_chars split: option.splits)
  then show "jar_ok (ho_jar h) \<Longrightarrow> jar_ok (ho_jar (absorb_cookies hs h))" by (simp add: absorb_cookies_def)
qed

lemma unreserved_plain: "uri_unreserved c \<or> c = 37 \<Longrightarrow> 33 \<le> c \<and> c < 127 \<and> c \<noteq> 59 \<and> \<not> is_whitespace c"
  by (auto simp: uri_unreserved_def is_alpha_def is_dec_digit_def lit_def is_whitespace_def)

lemma dec_str_chars: "c \<in> set (dec_str n) \<Longrightarrow> 48 \<le> c \<and> c \<le> 57"
  using dec_str_digits by blast

lemma cookie_line_chars:
  assumes "\<forall>p \<in> set ps. \<forall>c \<in> set p. 32 \<le> c \<and> c < 127 \<and> c \<noteq> 59" "x \<in> set (join_parts (lit ''; '') ps)"
  shows "32 \<le> x \<and> x < 127"
proof -
  have "x \<in> set (lit ''; '') \<or> (\<exists>p \<in> set ps. x \<in> set p)" using assms(2) by (rule join_chars)
  moreover have "x \<in> set (lit ''; '') \<Longrightarrow> 32 \<le> x \<and> x < 127" by (auto simp: lit_def)
  ultimately show ?thesis using assms(1) by blast
qed

lemma session_cookie_plain:
  assumes "\<forall>c \<in> set v. 33 \<le> c \<and> c < 127 \<and> c \<noteq> 59 \<and> \<not> is_whitespace c" "v \<noteq> []"
  shows "plain_cookie (SESSION_COOKIE, v)"
proof -
  have "59 \<notin> set SESSION_COOKIE" "61 \<notin> set SESSION_COOKIE" "SESSION_COOKIE \<noteq> []" "\<not> is_whitespace (hd SESSION_COOKIE)"
      "\<forall>x \<in> set SESSION_COOKIE. 32 \<le> x \<and> x < 127"
    by (simp_all add: SESSION_COOKIE_def lit_def is_whitespace_def)
  moreover have "\<not> is_whitespace (List.last v)" "59 \<notin> set v" "\<forall>x \<in> set v. 32 \<le> x \<and> x < 127"
    using assms last_in_set [of v] by fastforce+
  ultimately show ?thesis using assms(2) unfolding plain_cookie_def prod.case by blast
qed

text \<open>The cookie a server sets is what the jar then holds.\<close>

lemma absorb_session:
  assumes "1000 \<le> expires_at - now" "token \<noteq> []"
  shows "absorb_line (session_set_cookie token expires_at now local_http) jar = jar_put SESSION_COOKIE (encode_uri_component token) jar"
    and "\<forall>x \<in> set (session_set_cookie token expires_at now local_http). x = 9 \<or> (32 \<le> x \<and> x < 127)"
    and "plain_cookie (SESSION_COOKIE, encode_uri_component token)"
proof -
  let ?enc = "encode_uri_component token" and ?n = "nat (max 0 ((expires_at - now) div 1000))"
  let ?attrs = "[lit ''Path=/'', lit ''HttpOnly'', lit ''SameSite=Lax'', lit ''Max-Age='' @ dec_str ?n] @ (if local_http then [] else [lit ''Secure''])"
  have enc: "\<forall>c \<in> set ?enc. 33 \<le> c \<and> c < 127 \<and> c \<noteq> 59 \<and> \<not> is_whitespace c" "?enc \<noteq> []"
  proof -
    show "\<forall>c \<in> set ?enc. 33 \<le> c \<and> c < 127 \<and> c \<noteq> 59 \<and> \<not> is_whitespace c" using encode_chars unreserved_plain by blast
    obtain c cs where "token = c # cs" using assms(2) by (cases token) auto
    then have "utf8_encode token \<noteq> []" by (simp add: utf8_encode_def utf8_char_def)
    then show "?enc \<noteq> []" by (cases "utf8_encode token") (simp_all add: encode_uri_component_def encode_uri_byte_def)
  qed
  have line: "session_set_cookie token expires_at now local_http = join_parts (lit ''; '') ((SESSION_COOKIE @ lit ''='' @ ?enc) # ?attrs)"
    by (simp add: session_set_cookie_def cookie_attributes_def int_str_def)
  have digits: "\<forall>c \<in> set (dec_str ?n). 48 \<le> c \<and> c \<le> 57" using dec_str_chars by blast
  have plain: "\<forall>p \<in> set ((SESSION_COOKIE @ lit ''='' @ ?enc) # ?attrs). \<forall>c \<in> set p. 32 \<le> c \<and> c < 127 \<and> c \<noteq> 59"
  proof -
    have "\<forall>c \<in> set (SESSION_COOKIE @ lit ''='' @ ?enc). 32 \<le> c \<and> c < 127 \<and> c \<noteq> 59"
      using enc(1) by (auto simp: SESSION_COOKIE_def lit_def)
    moreover have "\<forall>c \<in> set (lit ''Max-Age='' @ dec_str ?n). 32 \<le> c \<and> c < 127 \<and> c \<noteq> 59"
      using digits by (auto simp: lit_def)
    moreover have "\<forall>p \<in> {lit ''Path=/'', lit ''HttpOnly'', lit ''SameSite=Lax'', lit ''Secure''}. \<forall>c \<in> set p. 32 \<le> c \<and> c < 127 \<and> c \<noteq> 59"
      by (simp add: lit_def)
    ultimately show ?thesis by auto
  qed
  show "\<forall>x \<in> set (session_set_cookie token expires_at now local_http). x = 9 \<or> (32 \<le> x \<and> x < 127)"
  proof
    fix x
    assume "x \<in> set (session_set_cookie token expires_at now local_http)"
    then have "x \<in> set (join_parts (lit ''; '') ((SESSION_COOKIE @ lit ''='' @ ?enc) # ?attrs))" by (simp only: line)
    from cookie_line_chars [OF plain this] show "x = 9 \<or> (32 \<le> x \<and> x < 127)" by (rule disjI2)
  qed
  show cookie: "plain_cookie (SESSION_COOKIE, ?enc)"
    by (rule session_cookie_plain [OF enc])
  have "\<forall>p \<in> set ((SESSION_COOKIE @ lit ''='' @ ?enc) # ?attrs). 59 \<notin> set p" using plain by blast
  from split_joined [OF this list.distinct(2)] have split: "split_on (\<lambda>c. c = 59) (session_set_cookie token expires_at now local_http) =
      (SESSION_COOKIE @ lit ''='' @ ?enc) # map ((#) 32) ?attrs"
    by (simp only: line list.sel)
  have once: "split_once 61 (SESSION_COOKIE @ lit ''='' @ ?enc) = Some (SESSION_COOKIE, ?enc)"
    using split_cookie [OF cookie] by (simp add: cookie_text_def)
  have trims: "rust_trim SESSION_COOKIE = SESSION_COOKIE" "rust_trim ?enc = ?enc"
  proof -
    show "rust_trim SESSION_COOKIE = SESSION_COOKIE"
      by (simp add: SESSION_COOKIE_def lit_def is_whitespace_def rust_trim_def)
    show "rust_trim ?enc = ?enc"
      using enc(1) hd_in_set [OF enc(2)] last_in_set [OF enc(2)] by (intro trim_kept [OF enc(2)]) blast+
  qed
  have "?n \<noteq> 0" using assms(1) by simp
  then have "dec_str ?n \<noteq> [48]" using dec_str_value [of ?n] by auto
  moreover have "rust_trim (32 # lit ''Max-Age='' @ dec_str ?n) = lit ''Max-Age='' @ dec_str ?n"
  proof -
    have "48 \<le> List.last (dec_str ?n)" "List.last (dec_str ?n) \<le> 57" using digits by (auto intro: last_in_set)
    then have "rust_trim (lit ''Max-Age='' @ dec_str ?n) = lit ''Max-Age='' @ dec_str ?n"
      by (intro trim_kept) (auto simp: lit_def is_whitespace_def)
    then show ?thesis by (simp add: trim_space is_whitespace_def)
  qed
  moreover have "to_ascii_lowercase (lit ''Max-Age='' @ dec_str ?n) = lit ''max-age='' @ dec_str ?n"
  proof -
    have "map (\<lambda>c. if 65 \<le> c \<and> c \<le> 90 then c + 32 else c) (dec_str ?n) = dec_str ?n" using digits by (intro map_idI) auto
    then show ?thesis by (simp add: to_ascii_lowercase_def lit_def)
  qed
  ultimately have "\<not> list_ex (\<lambda>a. to_ascii_lowercase (rust_trim a) = lit ''max-age=0'') (map ((#) 32) ?attrs)"
    by (auto simp: rust_trim_def to_ascii_lowercase_def lit_def is_whitespace_def)
  then show "absorb_line (session_set_cookie token expires_at now local_http) jar = jar_put SESSION_COOKIE ?enc jar"
    using split once trims enc(2) by (simp add: absorb_line_def Let_def SESSION_COOKIE_def)
qed

lemma absorb_one:
  assumes "header_str v = Some line" "lit ''set-cookie'' \<notin> fst ` set rest"
  shows "ho_jar (absorb_cookies (before @ (lit ''set-cookie'', v) # rest) h) = absorb_line line (ho_jar (absorb_cookies before h))"
proof -
  have quiet: "foldl (\<lambda>jar (n, v). if n = lit ''set-cookie'' then (case header_str v of None \<Rightarrow> jar | Some line \<Rightarrow> absorb_line line jar) else jar)
      jar rest = jar" for jar
    using assms(2) by (induction rest) auto
  show ?thesis using assms(1) quiet by (simp add: absorb_cookies_def)
qed

lemma absorb_none: "lit ''set-cookie'' \<notin> fst ` set hs \<Longrightarrow> absorb_cookies hs h = h"
proof -
  have "lit ''set-cookie'' \<notin> fst ` set hs \<Longrightarrow>
      foldl (\<lambda>jar (n, v). if n = lit ''set-cookie'' then (case header_str v of None \<Rightarrow> jar | Some line \<Rightarrow> absorb_line line jar) else jar)
      jar hs = jar" for jar
    by (induction hs) auto
  then show "lit ''set-cookie'' \<notin> fst ` set hs \<Longrightarrow> absorb_cookies hs h = h" by (simp add: absorb_cookies_def)
qed

text \<open>The host after a number of requests, each with what the server made of it.\<close>

definition talk ::
  "(bytes \<Rightarrow> json option) \<Rightarrow> (json \<Rightarrow> bytes) \<Rightarrow> (str \<Rightarrow> web_url option) \<Rightarrow> remote_host \<Rightarrow>
   ((upstream_request \<Rightarrow> str + server_answer) \<times> proxy_request) list \<Rightarrow> remote_host" where
  "talk parse print url_parse h xs = foldl (\<lambda>h (upstream, rq). snd (proxy_request_of parse print url_parse upstream h rq)) h xs"

lemma proxied_host: "snd (proxy_request_of parse print url_parse upstream h rq) \<in>
    {h} \<union> {absorb_cookies (sv_headers a) h | a ur. upstream ur = Inr a}"
  by (auto simp: proxy_request_of_def send_request_def split: prod.splits option.splits sum.splits if_splits)

lemma talk_jar_ok: "jar_ok (ho_jar h) \<Longrightarrow> jar_ok (ho_jar (talk parse print url_parse h xs))"
proof (induction xs arbitrary: h)
  case (Cons x xs)
  obtain upstream rq where x: "x = (upstream, rq)" by (metis surj_pair)
  have "jar_ok (ho_jar (snd (proxy_request_of parse print url_parse upstream h rq)))"
    using proxied_host [of parse print url_parse upstream h rq] Cons.prems absorb_ok by auto
  then show ?case using Cons.IH x by (simp add: talk_def)
qed (simp add: talk_def)

definition sets_no_cookie :: "(upstream_request \<Rightarrow> str + server_answer) \<Rightarrow> bool" where
  "sets_no_cookie upstream \<longleftrightarrow> (\<forall>ur a. upstream ur = Inr a \<longrightarrow> lit ''set-cookie'' \<notin> fst ` set (sv_headers a))"

lemma talk_quiet: "\<forall>(upstream, rq) \<in> set xs. sets_no_cookie upstream \<Longrightarrow> talk parse print url_parse h xs = h"
proof (induction xs)
  case (Cons x xs)
  obtain upstream rq where x: "x = (upstream, rq)" by (metis surj_pair)
  have "snd (proxy_request_of parse print url_parse upstream h rq) = h"
    using proxied_host [of parse print url_parse upstream h rq] Cons.prems x by (auto simp: sets_no_cookie_def absorb_none)
  then show ?case using Cons x by (simp add: talk_def)
qed (simp add: talk_def)

lemma session_sent:
  assumes "jar_ok (ho_jar h)" "map_of (ho_jar h) SESSION_COOKIE = Some v" "upstream_of url_parse h rq = Some ur"
  shows "read_session_token (ur_headers ur) = try_decode_uri_component v"
proof (rule cookie_read_back [OF _ assms(2)])
  show "\<forall>c \<in> set (ho_jar h). plain_cookie c" using assms(1) by (simp add: jar_ok_def)
  obtain b where hs: "ur_headers ur = outgoing_headers h b (pq_headers rq)"
    using assms(3) by (auto simp: upstream_of_def Let_def split: option.splits if_splits)
  show "distinct (map fst (ur_headers ur))" unfolding hs by (rule distinct_outgoing)
  have "ho_jar h \<noteq> []" using assms(2) by auto
  then have "cookie_header h = Some (join_parts (lit ''; '') (map cookie_text (ho_jar h)))"
    by (simp add: cookie_header_def cookie_text_def [abs_def])
  then show "map_of (ur_headers ur) (lit ''cookie'') = Some (map of_nat (join_parts (lit ''; '') (map cookie_text (ho_jar h))))"
    unfolding hs by (simp add: outgoing_headers_def Let_def map_of_header_set ascii_def)
qed

text \<open>C31
  Once the server has set a session, whatever the host talked before, every request that leaves
  through it carries that session and the server reads the same token from it, for as long as no
  answer sets another cookie.
\<close>

theorem session_travels:
  assumes "send_request print url_parse upstream (talk parse print url_parse (new_host orig) before) rq = (ans, h)"
    and "upstream_of url_parse (talk parse print url_parse (new_host orig) before) rq = Some ur" "upstream ur = Inr a"
    and "\<not> is_redirect (sv_status a)"
    and "sv_headers a = hs @ (lit ''set-cookie'', ascii (session_set_cookie token expires_at now local_http)) # rest"
    and "lit ''set-cookie'' \<notin> fst ` set rest" "1000 \<le> expires_at - now" "token \<noteq> []" "\<forall>c \<in> set token. scalar c"
    and "\<forall>(upstream, rq) \<in> set quiet. sets_no_cookie upstream"
    and "upstream_of url_parse (talk parse print url_parse h quiet) later = Some sent"
  shows "read_session_token (ur_headers sent) = Some token"
proof -
  let ?h = "talk parse print url_parse (new_host orig) before"
  have h: "h = absorb_cookies (sv_headers a) ?h" using assms(1-4) by (simp add: send_request_def)
  have jar: "jar_ok (ho_jar (absorb_cookies hs ?h))" by (intro absorb_ok talk_jar_ok) (simp add: jar_ok_def new_host_def)
  note session = absorb_session [OF assms(7,8)]
  have "ho_jar h = jar_put SESSION_COOKIE (encode_uri_component token) (ho_jar (absorb_cookies hs ?h))"
    unfolding h assms(5) ascii_def by (simp only: absorb_one [OF header_ascii [OF session(2)] assms(6)] session(1))
  then have "jar_ok (ho_jar h)" "map_of (ho_jar h) SESSION_COOKIE = Some (encode_uri_component token)"
    using jar_put_ok [OF jar session(3)] by (simp_all add: map_of_jar_put)
  from session_sent [OF this] show ?thesis
    using assms(11) decode_encoded [OF assms(9)] by (simp add: talk_quiet [OF assms(10)])
qed

section \<open>An upload\<close>

lemma percent_encode_encode: "percent_encode s = encode_uri_component s"
  by (simp add: percent_encode_def encode_uri_component_def)

lemma decode_dots_other: "c \<noteq> 37 \<Longrightarrow> decode_dots (c # s) = c # decode_dots s"
proof (cases s)
  case (Cons d t)
  then show "c \<noteq> 37 \<Longrightarrow> ?thesis" by (cases t) simp_all
qed simp

lemma lower_append: "to_ascii_lowercase (s @ t) = to_ascii_lowercase s @ to_ascii_lowercase t"
  by (simp add: to_ascii_lowercase_def)

lemma hex_lower_other: "d < 16 \<Longrightarrow> to_ascii_lowercase [hex_upper d] = [c] \<Longrightarrow> c \<noteq> 37 \<and> (c = 50 \<longrightarrow> d = 2) \<and> (c = 101 \<longrightarrow> d = 14)"
  by (auto simp: to_ascii_lowercase_def hex_upper_def split: if_splits)

text \<open>An encoded text has no escaped dot.\<close>

lemma decode_dots_byte: "decode_dots (to_ascii_lowercase (encode_uri_byte b) @ s) = to_ascii_lowercase (encode_uri_byte b) @ decode_dots s"
proof (cases "uri_unreserved (unat b)")
  case True
  then have "unat b \<noteq> 37" using unreserved_ascii by blast
  then have "(if 65 \<le> unat b \<and> unat b \<le> 90 then unat b + 32 else unat b) \<noteq> 37" by simp
  then show ?thesis using True by (simp add: encode_uri_byte_def to_ascii_lowercase_def decode_dots_other)
next
  case False
  let ?h = "unat b div 16" and ?l = "unat b mod 16"
  obtain h l where hl: "to_ascii_lowercase [hex_upper ?h] = [h]" "to_ascii_lowercase [hex_upper ?l] = [l]"
    by (simp add: to_ascii_lowercase_def)
  have small: "?h < 16" "?l < 16" using byte_bound [of b] by simp_all
  note other = hex_lower_other [OF small(1) hl(1)] hex_lower_other [OF small(2) hl(2)]
  have "\<not> (h = 50 \<and> l = 101)"
  proof
    assume "h = 50 \<and> l = 101"
    then have "unat b = 46" using other div_mult_mod_eq [of "unat b" 16] by simp
    moreover have "uri_unreserved 46" by (simp add: uri_unreserved_def lit_def)
    ultimately show False using False by simp
  qed
  moreover have "to_ascii_lowercase (encode_uri_byte b) = [37, h, l]"
    using False hl by (simp add: encode_uri_byte_def to_ascii_lowercase_def)
  ultimately show ?thesis using other by (simp add: decode_dots_other)
qed

lemma decode_dots_encoded: "decode_dots (to_ascii_lowercase (encode_uri_component s)) = to_ascii_lowercase (encode_uri_component s)"
proof -
  have "decode_dots (to_ascii_lowercase (concat (map encode_uri_byte bs))) = to_ascii_lowercase (concat (map encode_uri_byte bs))" for bs
    by (induction bs) (simp_all add: lower_append decode_dots_byte, simp add: to_ascii_lowercase_def)
  then show ?thesis by (simp add: encode_uri_component_def)
qed

lemma lower_dots: "to_ascii_lowercase s = replicate n 46 \<Longrightarrow> s = replicate n 46"
proof (induction n arbitrary: s)
  case (Suc n)
  then obtain c t where s: "s = c # t" by (cases s) (auto simp: to_ascii_lowercase_def)
  then have "c = 46" "to_ascii_lowercase t = replicate n 46"
    using Suc.prems by (auto simp: to_ascii_lowercase_def split: if_splits)
  then show ?case using Suc.IH s by simp
qed (simp add: to_ascii_lowercase_def)

lemma encoded_dots:
  assumes "\<forall>c \<in> set s. scalar c" "encode_uri_component s = replicate n 46"
  shows "s = replicate n 46"
proof -
  have "encode_uri_component (replicate n 46) = replicate n 46"
    by (induction n) (simp_all add: encode_uri_component_def utf8_encode_def utf8_char_def encode_uri_byte_def uri_unreserved_def lit_def)
  moreover have "\<forall>c \<in> set (replicate n 46). scalar c" by (simp add: scalar_def)
  ultimately show ?thesis using decode_encoded [OF assms(1)] decode_encoded [of "replicate n 46"] assms(2) by simp
qed

lemma upload_path_plain:
  assumes "\<forall>c \<in> set pid. scalar c" "pid \<noteq> lit ''.''" "pid \<noteq> lit ''..''"
  shows "\<not> has_dot_segment (lit ''/api/projects/'' @ encode_uri_component pid @ lit ''/files'')"
proof -
  let ?e = "encode_uri_component pid"
  have chars: "\<forall>c \<in> set ?e. c \<noteq> 47 \<and> c \<noteq> 92"
  proof -
    have "\<not> uri_unreserved 47" "\<not> uri_unreserved 92" by (simp_all add: uri_unreserved_def is_alpha_def is_dec_digit_def lit_def)
    then show ?thesis using encode_chars [of _ pid] by force
  qed
  have "split_on (\<lambda>c. c = 47) (?e @ lit ''/files'') = [?e, lit ''files'']"
    using chars split_on_sep [of ?e "\<lambda>c. c = 47" 47 "lit ''files''"] by (simp add: lit_def)
  then have split: "split_on (\<lambda>c. c = 47) (lit ''/api/projects/'' @ ?e @ lit ''/files'') = [[], lit ''api'', lit ''projects'', ?e, lit ''files'']"
    by (simp add: lit_def)
  have dots: "lit ''.'' = replicate 1 46" "lit ''..'' = replicate (Suc 1) 46" by (simp_all add: lit_def)
  have "to_ascii_lowercase ?e \<noteq> lit ''.''" "to_ascii_lowercase ?e \<noteq> lit ''..''"
    using lower_dots encoded_dots [OF assms(1)] assms(2,3) unfolding dots by blast+
  moreover have "92 \<notin> set (lit ''/api/projects/'' @ ?e @ lit ''/files'')" using chars by (auto simp: lit_def)
  ultimately show ?thesis
    unfolding has_dot_segment_def split by (simp add: decode_dots_encoded) (simp add: to_ascii_lowercase_def lit_def)
qed

lemma parse_u64_dec: "n < 2 ^ 64 \<Longrightarrow> parse_u64 (dec_str n) = Some n"
proof -
  assume "n < 2 ^ 64"
  moreover obtain c s where "dec_str n = c # s" using dec_str_not_Nil by (meson neq_Nil_conv)
  moreover from this have "c \<noteq> 43" using dec_str_digits [of n] by auto
  moreover have "list_all is_dec_digit (dec_str n)" using dec_str_digits by (simp add: list_all_iff is_dec_digit_def)
  ultimately show ?thesis using dec_str_value [of n] by (simp add: parse_u64_def)
qed

lemma header_digits: "header_str (ascii (dec_str n)) = Some (dec_str n)"
  unfolding ascii_def using dec_str_digits [of n] by (intro header_ascii) force

lemma header_encoded: "header_str (ascii (encode_uri_component s)) = Some (encode_uri_component s)"
  unfolding ascii_def using encode_chars unreserved_plain by (intro header_ascii) force

lemma upload_headers:
  assumes "n < 2 ^ 63" "\<forall>c \<in> set name. scalar c" "is_ok (file_name name)"
  shows "upload_request (outgoing_headers h True (map (\<lambda>(n, v). (n, ascii v)) (rq_headers (upload_rq path name ct bs n)))) = Inr (name, int n)"
proof -
  let ?sent = "map (\<lambda>(n, v). (n, ascii v)) (rq_headers (upload_rq path name ct bs n))"
  have n: "n < 2 ^ 64" using assms(1) by simp
  have "plain_length ?sent UPLOAD_LENGTH_HEADER = Some n"
    using header_digits [of n] parse_u64_dec [OF n] dec_str_digits [of n] dec_str_not_Nil [of n]
    by (simp add: plain_length_def header_get_def upload_rq_def UPLOAD_LENGTH_HEADER_def UPLOAD_NAME_HEADER_def lit_def
        list_all_iff is_dec_digit_def)
  then have out: "map_of (outgoing_headers h True ?sent) UPLOAD_NAME_HEADER = Some (ascii (encode_uri_component name))"
      "map_of (outgoing_headers h True ?sent) (lit ''content-length'') = Some (ascii (dec_str n))"
    by (auto simp: outgoing_headers_def Let_def declared_upload_length_def map_of_header_set FORWARDED_REQUEST_HEADERS_def
        List.map_filter_def upload_rq_def UPLOAD_LENGTH_HEADER_def UPLOAD_NAME_HEADER_def lit_def percent_encode_encode split: option.splits)
  have "name \<noteq> []" using assms(3) by (auto simp: file_name_def length_between_def js_len_def utf16_len_def)
  then have "encode_uri_component name \<noteq> []" using decode_encoded [OF assms(2)]
    by (auto simp: try_decode_uri_component_def utf8_encode_def utf8_strict_def)
  then obtain c cs where enc: "encode_uri_component name = c # cs" by (meson neq_Nil_conv)
  have "require_upload_name (outgoing_headers h True ?sent) = Inr name"
    using assms(3) decode_encoded [OF assms(2)] header_encoded [of name]
    by (auto simp: require_upload_name_def out enc decode_uri_component_or_fail_def split: sum.splits)
  moreover have "require_content_length (outgoing_headers h True ?sent) True = Inr n"
    using parse_u64_dec [OF n] by (simp add: require_content_length_def header_get_def out header_digits)
  ultimately show ?thesis using assms(1) by (simp add: upload_request_def)
qed

text \<open>C32
  A file the desktop app uploads through the proxy reaches the server's upload route under exactly
  its name, with exactly its size and its bytes, and the app gets exactly the server's answer.
\<close>

theorem upload_travels:
  assumes "\<not> ho_closed h" "\<forall>c \<in> set pid. scalar c" "pid \<noteq> lit ''.''" "pid \<noteq> lit ''..''"
    and "\<forall>c \<in> set name. scalar c" "is_ok (file_name name)" "n < 2 ^ 63"
    and "url_parse (ho_origin h @ lit ''/api/projects/'' @ percent_encode pid @ lit ''/files'') = Some u"
      "wu_origin u = ho_origin h" "starts_with (lit ''/api/'') (wu_path u)"
    and "\<not> is_redirect (sv_status (serve (Inr (name, int n)) bs))"
  shows "remote_upload parse
      (proxy_upload (through_host parse print url_parse
        (\<lambda>ur. Inr (serve (upload_request (ur_headers ur)) (case ur_body ur of Some b \<Rightarrow> b | None \<Rightarrow> []))) h))
      pid name (Inr bs) n content_type =
    (let response = \<lparr>rp_status = sv_status (serve (Inr (name, int n)) bs), rp_body = body_or_empty (sv_chunks (serve (Inr (name, int n)) bs))\<rparr> in
     if \<not> response_ok response then Inl (failure_of parse response (lit ''could not upload '' @ name))
     else (case parse (rp_body response) of
             Some v \<Rightarrow> Inr v
           | None \<Rightarrow> Inl (new_error Internal (lit ''that server did not answer with a file''))))"
proof -
  let ?path = "lit ''/projects/'' @ percent_encode pid @ lit ''/files''"
  let ?up = "\<lambda>ur. Inr (serve (upload_request (ur_headers ur)) (case ur_body ur of Some b \<Rightarrow> b | None \<Rightarrow> []))"
  let ?hs = "map (\<lambda>(n, v). (n, ascii v)) (rq_headers (upload_rq ?path name content_type bs n))"
  let ?rq = "\<lparr>pq_method = lit ''POST'', pq_path = api_path ?path, pq_query = None, pq_headers = ?hs, pq_body = Some bs\<rparr>"
  have path: "api_path ?path = lit ''/api/projects/'' @ percent_encode pid @ lit ''/files''"
    by (simp add: api_path_def lit_def)
  have post: "lit ''POST'' \<noteq> lit ''GET''" "lit ''POST'' \<in> set ALLOWED_METHODS" by (simp_all add: lit_def ALLOWED_METHODS_def)
  have "upstream_of url_parse h ?rq = Some \<lparr>ur_method = lit ''POST'', ur_url = ho_origin h @ api_path ?path,
      ur_headers = outgoing_headers h True ?hs, ur_body = Some bs\<rparr>"
    using assms(8-10) post(1) by (simp add: upstream_of_def Let_def path)
  then have "fst (send_request print url_parse ?up h ?rq) = forward_answer (serve (Inr (name, int n)) bs)"
    using upload_headers [OF assms(7,5,6), of h ?path content_type bs] assms(11) by (simp add: send_request_def)
  moreover have "starts_with (lit ''/api/'') (api_path ?path)" unfolding path by (simp add: lit_def starts_with_def)
  ultimately have "fst (proxy_request_of parse print url_parse ?up h ?rq) = forward_answer (serve (Inr (name, int n)) bs)"
    using assms(1) upload_path_plain [OF assms(2-4), folded percent_encode_encode] post by (simp add: proxy_request_of_def path split: prod.splits)
  then have "through_host parse print url_parse ?up h (upload_rq ?path name content_type bs n) =
      Inr \<lparr>px_status = sv_status (serve (Inr (name, int n)) bs), px_chunks = sv_chunks (serve (Inr (name, int n)) bs)\<rparr>"
    using post(1) by (simp add: through_host_def upload_rq_def forward_answer_def)
  then show ?thesis by (simp add: remote_upload_def proxy_upload_def Let_def)
qed

section \<open>Witnesses\<close>

text \<open>A parser that keeps an address of one server as it stands.\<close>

definition sample_url :: "str \<Rightarrow> web_url option" where
  "sample_url s = (if starts_with (lit ''h'') s
     then Some \<lparr>wu_scheme = lit ''http'', wu_username = [], wu_password = None, wu_host = Some (lit ''h''), wu_path = drop 1 s,
            wu_query = None, wu_fragment = None, wu_origin = lit ''h''\<rparr>
     else None)"

definition sample_get :: "str \<Rightarrow> proxy_request" where
  "sample_get path = \<lparr>pq_method = lit ''GET'', pq_path = path, pq_query = None, pq_headers = [], pq_body = None\<rparr>"

lemma session_travels_witness:
  "read_session_token (outgoing_headers (snd (send_request (\<lambda>_. []) sample_url
      (\<lambda>_. Inr \<lparr>sv_status = 200, sv_headers = [(lit ''set-cookie'', ascii (session_set_cookie [233, 59] 2000 0 True))], sv_chunks = []\<rparr>)
      (new_host (lit ''h'')) (sample_get (lit ''/api/x'')))) False []) = Some [233, 59]"
proof -
  let ?a = "\<lparr>sv_status = 200, sv_headers = [(lit ''set-cookie'', ascii (session_set_cookie [233, 59] 2000 0 True))], sv_chunks = []\<rparr>"
  let ?up = "\<lambda>_. Inr ?a"
  let ?s = "send_request (\<lambda>_. []) sample_url ?up (new_host (lit ''h'')) (sample_get (lit ''/api/x''))"
  have empty: "talk (\<lambda>_. None) (\<lambda>_. []) sample_url h [] = h" for h by (simp add: talk_def)
  have orig: "ho_origin (snd ?s) = lit ''h''"
    by (simp add: send_request_def new_host_def absorb_cookies_def split: option.splits)
  have up: "upstream_of sample_url h (sample_get (lit ''/api/x'')) = Some \<lparr>ur_method = lit ''GET'', ur_url = lit ''h/api/x'',
      ur_headers = outgoing_headers h False [], ur_body = None\<rparr>" if "ho_origin h = lit ''h''" for h
    using that by (simp add: upstream_of_def sample_get_def sample_url_def starts_with_def lit_def Let_def)
  have here: "upstream_of sample_url (talk (\<lambda>_. None) (\<lambda>_. []) sample_url (new_host (lit ''h'')) []) (sample_get (lit ''/api/x'')) =
      Some \<lparr>ur_method = lit ''GET'', ur_url = lit ''h/api/x'', ur_headers = outgoing_headers (new_host (lit ''h'')) False [], ur_body = None\<rparr>"
    unfolding empty by (rule up) (simp add: new_host_def)
  have later: "upstream_of sample_url (talk (\<lambda>_. None) (\<lambda>_. []) sample_url (snd ?s) []) (sample_get (lit ''/api/x'')) =
      Some \<lparr>ur_method = lit ''GET'', ur_url = lit ''h/api/x'', ur_headers = outgoing_headers (snd ?s) False [], ur_body = None\<rparr>"
    unfolding empty by (rule up [OF orig])
  have "send_request (\<lambda>_. []) sample_url ?up (talk (\<lambda>_. None) (\<lambda>_. []) sample_url (new_host (lit ''h'')) []) (sample_get (lit ''/api/x'')) = (fst ?s, snd ?s)"
    unfolding empty by simp
  from session_travels [where a = ?a and hs = "[]" and rest = "[]" and token = "[233, 59]" and expires_at = 2000 and now = 0
      and local_http = True and quiet = "[]", OF this here refl _ _ _ _ _ _ _ later]
  show ?thesis by (simp add: is_redirect_def scalar_def)
qed

lemma upload_travels_witness:
  "remote_upload (\<lambda>bs. Some (JStr (map unat bs)))
      (proxy_upload (through_host (\<lambda>bs. Some (JStr (map unat bs))) (\<lambda>_. []) sample_url
        (\<lambda>ur. Inr (case upload_request (ur_headers ur) of
            Inr (name, n) \<Rightarrow> \<lparr>sv_status = 201, sv_headers = [], sv_chunks = [Inr (case ur_body ur of Some b \<Rightarrow> b | None \<Rightarrow> [])]\<rparr>
          | Inl _ \<Rightarrow> \<lparr>sv_status = 400, sv_headers = [], sv_chunks = []\<rparr>)) (new_host (lit ''h''))))
      (lit ''p'') (lit ''a b.stl'') (Inr [1, 2]) 2 (lit ''model/stl'') = Inr (JStr [1, 2])"
proof -
  let ?serve = "\<lambda>rq bs. case rq of
            Inr (name, n) \<Rightarrow> \<lparr>sv_status = 201, sv_headers = [], sv_chunks = [Inr bs]\<rparr>
          | Inl (_ :: app_error) \<Rightarrow> \<lparr>sv_status = 400, sv_headers = [], sv_chunks = []\<rparr>"
  have path: "lit ''h'' @ lit ''/api/projects/'' @ percent_encode (lit ''p'') @ lit ''/files'' = lit ''h/api/projects/p/files''"
    by (simp add: percent_encode_def utf8_encode_def utf8_char_def encode_uri_byte_def uri_unreserved_def is_alpha_def lit_def)
  have url: "sample_url (ho_origin (new_host (lit ''h'')) @ lit ''/api/projects/'' @ percent_encode (lit ''p'') @ lit ''/files'') =
      Some \<lparr>wu_scheme = lit ''http'', wu_username = [], wu_password = None, wu_host = Some (lit ''h''),
        wu_path = lit ''/api/projects/p/files'', wu_query = None, wu_fragment = None, wu_origin = lit ''h''\<rparr>"
    unfolding new_host_def remote_host.simps path by (simp add: sample_url_def starts_with_def lit_def)
  have name: "is_ok (file_name (lit ''a b.stl''))"
    by (simp add: file_name_def length_between_def js_len_def utf16_len_def lit_def is_windows_device_name_def to_ascii_lowercase_def)
  have scal: "\<forall>c \<in> set (lit ''p''). scalar c" "\<forall>c \<in> set (lit ''a b.stl''). scalar c" by (simp_all add: lit_def scalar_def)
  have other: "lit ''p'' \<noteq> lit ''.''" "lit ''p'' \<noteq> lit ''..''" by (simp_all add: lit_def)
  have origs: "\<not> ho_closed (new_host (lit ''h''))" "ho_origin (new_host (lit ''h'')) = lit ''h''" by (simp_all add: new_host_def)
  have api: "starts_with (lit ''/api/'') (lit ''/api/projects/p/files'')" by (simp add: starts_with_def lit_def)
  have eq: "remote_upload (\<lambda>bs. Some (JStr (map unat bs)))
      (proxy_upload (through_host (\<lambda>bs. Some (JStr (map unat bs))) (\<lambda>_. []) sample_url
        (\<lambda>ur. Inr (?serve (upload_request (ur_headers ur)) (case ur_body ur of Some b \<Rightarrow> b | None \<Rightarrow> []))) (new_host (lit ''h''))))
      (lit ''p'') (lit ''a b.stl'') (Inr [1, 2]) 2 (lit ''model/stl'') = Inr (JStr [1, 2])"
    by (subst upload_travels [where serve = ?serve and url_parse = sample_url, OF origs(1) scal(1) other scal(2) name _ url])
      (simp_all add: origs(2) api is_redirect_def Let_def response_ok_def body_or_empty_def MAX_ERROR_BODY_def)
  then show ?thesis by simp
qed

end
