(* ===== verification/Desktop_Server.thy ===== *)
theory Desktop_Server
  imports Remote_Proxy
begin

text \<open>
  The listener of the desktop app: \<^verbatim>\<open>crates/spm-shell/src/gate.rs\<close> and \<^verbatim>\<open>server.rs\<close>, with the web bundle
  of \<^verbatim>\<open>crates/spm-http/src/static_files.rs\<close>. Requests, tokens minted and answers run one after the
  other over one state; random bytes, the query parser, the library's router and the development
  server are arguments. Properties: who is let in at all, as a function of the requests so far; a
  launch token is spent once; the app's own window gets in; every page carries the policies.
\<close>

section \<open>The gate\<close>

definition HANDSHAKE_PATH :: str where "HANDSHAKE_PATH = lit ''/_spm/handshake''"
definition COOKIE_NAME :: str where "COOKIE_NAME = lit ''spm_launch''"
definition TOKEN_PARAM :: str where "TOKEN_PARAM = lit ''k''"
definition KEEP :: nat where "KEEP = 16"

record launch_gate =
  ga_authority :: str
  ga_tokens :: "str list"
  ga_sessions :: "str list"

text \<open>The 32 bytes of the system are an argument.\<close>

definition random_hex :: "bytes \<Rightarrow> str" where "random_hex rnd = hex rnd"

text \<open>\<^verbatim>\<open>while len() > keep \{ pop_front() \}\<close>.\<close>

definition keep_last :: "nat \<Rightarrow> 'a list \<Rightarrow> 'a list" where
  "keep_last keep xs = drop (length xs - keep) xs"

fun matches_any :: "str list \<Rightarrow> str \<Rightarrow> nat option" where
  "matches_any [] candidate = None"
| "matches_any (known # ks) candidate =
     (case matches_any ks candidate of
        Some i \<Rightarrow> Some (Suc i)
      | None \<Rightarrow> if known = candidate then Some 0 else None)"

definition new_gate :: "str \<Rightarrow> launch_gate" where
  "new_gate authority = \<lparr>ga_authority = authority, ga_tokens = [], ga_sessions = []\<rparr>"

definition gate_origin :: "launch_gate \<Rightarrow> str" where
  "gate_origin g = lit ''http://'' @ ga_authority g"

definition mint_token :: "bytes \<Rightarrow> launch_gate \<Rightarrow> str \<times> launch_gate" where
  "mint_token rnd g = (random_hex rnd, g\<lparr>ga_tokens := keep_last KEEP (ga_tokens g @ [random_hex rnd])\<rparr>)"

definition escape_target :: "str \<Rightarrow> str" where
  "escape_target to = concat (map (\<lambda>c. if c = 37 then lit ''%25'' else if c = 38 then lit ''%26'' else [c]) to)"

definition handshake_query :: "str \<Rightarrow> str \<Rightarrow> str" where
  "handshake_query token to = TOKEN_PARAM @ lit ''='' @ token @ lit ''&to='' @ escape_target to"

definition gate_handshake_url :: "bytes \<Rightarrow> str \<Rightarrow> launch_gate \<Rightarrow> str \<times> launch_gate" where
  "gate_handshake_url rnd to g =
     (case mint_token rnd g of (token, g') \<Rightarrow> (gate_origin g @ HANDSHAKE_PATH @ lit ''?'' @ handshake_query token to, g'))"

definition redeem :: "bytes \<Rightarrow> str \<Rightarrow> launch_gate \<Rightarrow> str option \<times> launch_gate" where
  "redeem rnd token g =
     (case matches_any (ga_tokens g) token of
        None \<Rightarrow> (None, g)
      | Some i \<Rightarrow> (Some (random_hex rnd),
          g\<lparr>ga_tokens := take i (ga_tokens g) @ drop (Suc i) (ga_tokens g),
            ga_sessions := keep_last KEEP (ga_sessions g @ [random_hex rnd])\<rparr>))"

definition is_session :: "launch_gate \<Rightarrow> str \<Rightarrow> bool" where
  "is_session g v \<longleftrightarrow> matches_any (ga_sessions g) v \<noteq> None"

definition set_cookie :: "str \<Rightarrow> str" where
  "set_cookie session = COOKIE_NAME @ lit ''='' @ session @ lit ''; Path=/; HttpOnly; SameSite=Strict''"

definition is_own_request :: "launch_gate \<Rightarrow> headers \<Rightarrow> bool" where
  "is_own_request g hs \<longleftrightarrow>
     map_of hs (lit ''host'') = Some (ascii (ga_authority g)) \<and>
     map_of hs (lit ''origin'') \<in> {None, Some (ascii (gate_origin g))} \<and>
     map_of hs (lit ''sec-fetch-site'') \<in> {None, Some (ascii (lit ''same-origin'')), Some (ascii (lit ''none''))}"

text \<open>The values of the launch cookie a request carries.\<close>

definition launch_cookies :: "headers \<Rightarrow> str list" where
  "launch_cookies hs =
     map snd (filter (\<lambda>(n, _). n = COOKIE_NAME)
       (List.map_filter (\<lambda>pair. split_once 61 (rust_trim pair))
         (concat (map (split_on (\<lambda>c. c = 59))
           (List.map_filter (\<lambda>(n, v). if n = lit ''cookie'' then header_str v else None) hs)))))"

definition has_session :: "launch_gate \<Rightarrow> headers \<Rightarrow> bool" where
  "has_session g hs \<longleftrightarrow> list_ex (is_session g) (launch_cookies hs)"

definition gate_forbidden :: server_answer where
  "gate_forbidden =
     \<lparr>sv_status = 403,
      sv_headers = [(lit ''content-type'', ascii (lit ''text/plain'')), (lit ''cache-control'', ascii (lit ''no-store''))],
      sv_chunks = [Inr (ascii (lit ''forbidden''))]\<rparr>"

definition gate_layer :: "launch_gate \<Rightarrow> (proxy_request \<Rightarrow> 'a \<Rightarrow> server_answer \<times> 'a) \<Rightarrow> proxy_request \<Rightarrow> 'a \<Rightarrow> server_answer \<times> 'a" where
  "gate_layer g next_layer rq s =
     (if \<not> is_own_request g (pq_headers rq) then (gate_forbidden, s)
      else if pq_path rq \<noteq> HANDSHAKE_PATH \<and> \<not> has_session g (pq_headers rq) then (gate_forbidden, s)
      else next_layer rq s)"

section \<open>The web bundle\<close>

definition static_file_path :: "platform \<Rightarrow> path \<Rightarrow> path \<Rightarrow> str \<Rightarrow> path result" where
  "static_file_path pl cwd root candidate = safe_join pl cwd root (split_on (\<lambda>c. c = 47) candidate)"

definition dir_assets :: "platform \<Rightarrow> path \<Rightarrow> path \<Rightarrow> (path \<Rightarrow> bytes option) \<Rightarrow> str \<Rightarrow> bytes option" where
  "dir_assets pl cwd root read_file candidate =
     (case static_file_path pl cwd root candidate of Inl _ \<Rightarrow> None | Inr p \<Rightarrow> read_file p)"

definition bundle_content_type :: "str \<Rightarrow> str" where
  "bundle_content_type path =
     (let extension = (if 46 \<in> set path then 46 # to_ascii_lowercase (rev (takeWhile (\<lambda>c. c \<noteq> 46) (rev path))) else []) in
      if extension = lit ''.css'' then lit ''text/css; charset=utf-8''
      else if extension = lit ''.html'' then lit ''text/html; charset=utf-8''
      else if extension = lit ''.ico'' then lit ''image/vnd.microsoft.icon''
      else if extension = lit ''.js'' then lit ''text/javascript; charset=utf-8''
      else if extension = lit ''.svg'' then lit ''image/svg+xml''
      else if extension = lit ''.webmanifest'' then lit ''application/manifest+json''
      else content_type_for path)"

definition not_found_page :: server_answer where
  "not_found_page = \<lparr>sv_status = 404, sv_headers = [], sv_chunks = [Inr (ascii (lit ''not found''))]\<rparr>"

definition serve_assets :: "(str \<Rightarrow> bytes option) \<Rightarrow> str \<Rightarrow> server_answer" where
  "serve_assets get request_path =
     (let relative = (if request_path = lit ''/'' then lit ''index.html''
            else (case try_decode_uri_component (dropWhile (\<lambda>c. c = 47) request_path) of Some r \<Rightarrow> r | None \<Rightarrow> []));
          found = List.map_filter (\<lambda>candidate. if candidate = [] then None
              else map_option (Pair (bundle_content_type candidate)) (get candidate)) [relative, lit ''index.html''] in
      case found of
        (content_type, bs) # _ \<Rightarrow>
          \<lparr>sv_status = 200, sv_headers = [(lit ''content-type'', ascii content_type)], sv_chunks = [Inr bs]\<rparr>
      | [] \<Rightarrow> not_found_page)"

section \<open>The server\<close>

datatype shell_route = Home | Connect

fun route_path :: "shell_route \<Rightarrow> str" where
  "route_path Home = lit ''/''"
| "route_path Connect = lit ''/desktop/connect''"

datatype active_mode = Unset_Mode | Local_Folder | Remote_Server

text \<open>What the shell has open: a server, a library with the user of its session and its router, or
  nothing.\<close>

record shell_view =
  vw_remote :: "remote_host option"
  vw_session :: "ctx option"
  vw_router :: "(proxy_request \<Rightarrow> server_answer) option"

definition shell_mode :: "shell_view \<Rightarrow> active_mode" where
  "shell_mode v =
     (if vw_remote v \<noteq> None then Remote_Server else if vw_session v \<noteq> None then Local_Folder else Unset_Mode)"

definition initial_route :: "shell_view \<Rightarrow> shell_route" where
  "initial_route v = (case shell_mode v of Unset_Mode \<Rightarrow> Connect | _ \<Rightarrow> Home)"

datatype ui = Ui_Assets "str \<Rightarrow> bytes option" | Ui_Dev "proxy_request \<Rightarrow> server_answer" | Ui_None

record hit =
  hit_method :: str
  hit_path :: str
  hit_browser :: bool

definition HITS_KEPT :: nat where "HITS_KEPT = 256"

record server_context =
  sc_shell :: shell_view
  sc_gate :: launch_gate
  sc_ui :: ui
  sc_hits :: "hit list"

definition quoted :: "str \<Rightarrow> str" where "quoted s = [39] @ s @ [39]"

definition CONTENT_SECURITY_POLICY :: str where
  "CONTENT_SECURITY_POLICY =
     lit ''default-src '' @ quoted (lit ''self'') @ lit ''; script-src '' @ quoted (lit ''self'') @
     lit ''; style-src '' @ quoted (lit ''self'') @ lit '' '' @ quoted (lit ''unsafe-inline'') @
     lit ''; img-src '' @ quoted (lit ''self'') @ lit '' data: blob:; font-src '' @ quoted (lit ''self'') @
     lit '' data:; connect-src '' @ quoted (lit ''self'') @ lit '' ipc: http://ipc.localhost; worker-src '' @
     quoted (lit ''self'') @ lit '' blob:; object-src '' @ quoted (lit ''none'') @ lit ''; base-uri '' @ quoted (lit ''none'') @
     lit ''; form-action '' @ quoted (lit ''self'') @ lit ''; frame-ancestors '' @ quoted (lit ''none'')"

definition is_local_path :: "str \<Rightarrow> bool" where
  "is_local_path to \<longleftrightarrow> starts_with (lit ''/'') to \<and> \<not> starts_with (lit ''//'') to \<and> 92 \<notin> set to \<and> 10 \<notin> set to"

definition refuse_handshake :: server_answer where
  "refuse_handshake = \<lparr>sv_status = 403, sv_headers = [], sv_chunks = [Inr (ascii (lit ''forbidden''))]\<rparr>"

text \<open>A header is set when its text makes a header value.\<close>

definition insert_valid :: "(str \<Rightarrow> bytes option) \<Rightarrow> str \<Rightarrow> str \<Rightarrow> headers \<Rightarrow> headers" where
  "insert_valid to_header n s hs = (case to_header s of Some v \<Rightarrow> header_set n v hs | None \<Rightarrow> hs)"

definition handshake ::
  "(str \<Rightarrow> bytes option) \<Rightarrow> (str \<Rightarrow> (str \<times> str) list) \<Rightarrow> bytes \<Rightarrow> proxy_request \<Rightarrow> server_context \<Rightarrow> server_answer \<times> server_context" where
  "handshake to_header form_parse rnd rq s =
     (let query = (case pq_query rq of None \<Rightarrow> [] | Some q \<Rightarrow> rev (form_parse q)) in
      case map_of query TOKEN_PARAM of
        None \<Rightarrow> (refuse_handshake, s)
      | Some token \<Rightarrow>
          (case redeem rnd token (sc_gate s) of
             (None, _) \<Rightarrow> (refuse_handshake, s)
           | (Some session, g) \<Rightarrow>
               let to = (case map_of query (lit ''to'') of
                      Some to \<Rightarrow> if is_local_path to then to else route_path (initial_route (sc_shell s))
                    | None \<Rightarrow> route_path (initial_route (sc_shell s))) in
               (\<lparr>sv_status = 303,
                 sv_headers = header_set (lit ''cache-control'') (ascii (lit ''no-store''))
                   (insert_valid to_header (lit ''set-cookie'') (set_cookie session) (insert_valid to_header (lit ''location'') to [])),
                 sv_chunks = []\<rparr>, s\<lparr>sc_gate := g\<rparr>)))"

definition is_reserved :: "str \<Rightarrow> bool" where
  "is_reserved path =
     (let decoded = (case try_decode_uri_component path of Some d \<Rightarrow> d | None \<Rightarrow> path) in
      to_ascii_lowercase (hd (split_on (\<lambda>c. c = 47) (dropWhile (\<lambda>c. c = 47) decoded))) = lit ''_spm'')"

text \<open>\<^verbatim>\<open>capabilities_for\<close>.\<close>

definition capabilities_for :: "auth_mode \<Rightarrow> capabilities" where
  "capabilities_for auth =
     (let sessions = (case auth of Session_Mode \<Rightarrow> True | Local_Mode _ \<Rightarrow> False) in
      \<lparr>requires_auth = sessions, can_manage_users = sessions, can_pick_local_folder = False,
       can_launch_slicer = False, can_configure_slicers = False, can_browse_model_sites = False\<rparr>)"

definition capabilities_answer :: "(json \<Rightarrow> bytes) \<Rightarrow> capabilities \<Rightarrow> server_answer" where
  "capabilities_answer print c =
     \<lparr>sv_status = 200, sv_headers = [(lit ''content-type'', ascii (lit ''application/json; charset=utf-8''))],
      sv_chunks = [Inr (print (capabilities_json c))]\<rparr>"

definition api_error :: "(json \<Rightarrow> bytes) \<Rightarrow> app_error \<Rightarrow> server_answer" where
  "api_error print e =
     (let a = error_response print e in
      \<lparr>sv_status = ha_status a, sv_headers = map (\<lambda>(n, v). (n, ascii v)) (ha_headers a), sv_chunks = [Inr (ha_body a)]\<rparr>)"

definition dispatch_api ::
  "(bytes \<Rightarrow> json option) \<Rightarrow> (json \<Rightarrow> bytes) \<Rightarrow> (str \<Rightarrow> web_url option) \<Rightarrow> (upstream_request \<Rightarrow> str + server_answer) \<Rightarrow>
   proxy_request \<Rightarrow> shell_view \<Rightarrow> server_answer \<times> shell_view" where
  "dispatch_api parse print url_parse upstream rq v =
     (let is_capabilities = (pq_method rq = lit ''GET'' \<and> pq_path rq = lit ''/api/capabilities'') in
      case vw_remote v of
        Some h \<Rightarrow> (case proxy_request_of parse print url_parse upstream h rq of (a, h') \<Rightarrow> (a, v\<lparr>vw_remote := Some h'\<rparr>))
      | None \<Rightarrow>
          (case (vw_session v, vw_router v) of
             (Some c, router) \<Rightarrow>
               if is_capabilities
               then (capabilities_answer print (union_capabilities LOCAL_SHELL_CAPABILITIES (capabilities_for (Local_Mode c))), v)
               else (case router of
                       Some answer \<Rightarrow> (answer rq, v)
                     | None \<Rightarrow> (api_error print (conflict (lit ''no library is open'')), v))
           | (None, _) \<Rightarrow>
               if is_capabilities then (capabilities_answer print UNSET_SHELL_CAPABILITIES, v)
               else (api_error print (conflict (lit ''no library is open'')), v)))"

definition dispatch ::
  "(bytes \<Rightarrow> json option) \<Rightarrow> (json \<Rightarrow> bytes) \<Rightarrow> (str \<Rightarrow> web_url option) \<Rightarrow> (upstream_request \<Rightarrow> str + server_answer) \<Rightarrow>
   proxy_request \<Rightarrow> server_context \<Rightarrow> server_answer \<times> server_context" where
  "dispatch parse print url_parse upstream rq s =
     (let path = pq_path rq in
      if path = lit ''/api'' \<or> starts_with (lit ''/api/'') path
      then (case dispatch_api parse print url_parse upstream rq (sc_shell s) of (a, v) \<Rightarrow> (a, s\<lparr>sc_shell := v\<rparr>))
      else if is_reserved path then (not_found_page, s)
      else if pq_method rq \<noteq> lit ''GET'' \<and> pq_method rq \<noteq> lit ''HEAD''
      then (\<lparr>sv_status = 405, sv_headers = [], sv_chunks = []\<rparr>, s)
      else (case sc_ui s of
              Ui_Assets get \<Rightarrow> (serve_assets get path, s)
            | Ui_Dev forward \<Rightarrow> (forward rq, s)
            | Ui_None \<Rightarrow> (not_found_page, s)))"

text \<open>axum's \<^verbatim>\<open>get\<close> answers \<^verbatim>\<open>GET\<close> and \<^verbatim>\<open>HEAD\<close>.\<close>

definition routes ::
  "(bytes \<Rightarrow> json option) \<Rightarrow> (json \<Rightarrow> bytes) \<Rightarrow> (str \<Rightarrow> web_url option) \<Rightarrow> (upstream_request \<Rightarrow> str + server_answer) \<Rightarrow>
   (str \<Rightarrow> bytes option) \<Rightarrow> (str \<Rightarrow> (str \<times> str) list) \<Rightarrow> bytes \<Rightarrow> proxy_request \<Rightarrow> server_context \<Rightarrow> server_answer \<times> server_context" where
  "routes parse print url_parse upstream to_header form_parse rnd rq s =
     (if pq_path rq = HANDSHAKE_PATH
      then (if pq_method rq \<in> {lit ''GET'', lit ''HEAD''} then handshake to_header form_parse rnd rq s
            else (\<lparr>sv_status = 405, sv_headers = [(lit ''allow'', ascii (lit ''GET,HEAD''))], sv_chunks = []\<rparr>, s))
      else dispatch parse print url_parse upstream rq s)"

definition header_default :: "str \<Rightarrow> str \<Rightarrow> headers \<Rightarrow> headers" where
  "header_default n v hs = (if n \<in> fst ` set hs then hs else header_set n (ascii v) hs)"

definition security_headers :: "server_answer \<Rightarrow> server_answer" where
  "security_headers a =
     (let is_html = (case header_get (sv_headers a) (lit ''content-type'') of
                       Some v \<Rightarrow> starts_with (lit ''text/html'') v | None \<Rightarrow> False);
          hs = foldl (\<lambda>hs (n, v). header_default n v hs) (sv_headers a)
            [(lit ''x-content-type-options'', lit ''nosniff''), (lit ''referrer-policy'', lit ''no-referrer''),
             (lit ''cross-origin-resource-policy'', lit ''same-origin'')] in
      a\<lparr>sv_headers := (if is_html then header_default (lit ''content-security-policy'') CONTENT_SECURITY_POLICY hs else hs)\<rparr>)"

definition record_hit :: "proxy_request \<Rightarrow> server_context \<Rightarrow> server_context" where
  "record_hit rq s =
     (let h = \<lparr>hit_method = pq_method rq, hit_path = pq_path rq,
         hit_browser = (case header_get (pq_headers rq) (lit ''user-agent'') of
                          Some agent \<Rightarrow> starts_with (lit ''Mozilla/'') agent | None \<Rightarrow> False)\<rparr> in
      s\<lparr>sc_hits := keep_last HITS_KEPT (sc_hits s @ [h])\<rparr>)"

text \<open>The layers of the app, the gate outermost.\<close>

definition serve ::
  "(bytes \<Rightarrow> json option) \<Rightarrow> (json \<Rightarrow> bytes) \<Rightarrow> (str \<Rightarrow> web_url option) \<Rightarrow> (upstream_request \<Rightarrow> str + server_answer) \<Rightarrow>
   (str \<Rightarrow> bytes option) \<Rightarrow> (str \<Rightarrow> (str \<times> str) list) \<Rightarrow> bytes \<Rightarrow> proxy_request \<Rightarrow> server_context \<Rightarrow> server_answer \<times> server_context" where
  "serve parse print url_parse upstream to_header form_parse rnd rq s =
     gate_layer (sc_gate s)
       (\<lambda>rq s. case routes parse print url_parse upstream to_header form_parse rnd rq (record_hit rq s) of (a, s') \<Rightarrow> (security_headers a, s')) rq s"

definition server_start :: "nat \<Rightarrow> shell_view \<Rightarrow> ui \<Rightarrow> server_context" where
  "server_start port v u =
     \<lparr>sc_shell = v, sc_gate = new_gate (lit ''127.0.0.1:'' @ dec_str port), sc_ui = u, sc_hits = []\<rparr>"

definition initial_url :: "bytes \<Rightarrow> server_context \<Rightarrow> str \<times> server_context" where
  "initial_url rnd s =
     (case gate_handshake_url rnd (route_path (initial_route (sc_shell s))) (sc_gate s) of (u, g) \<Rightarrow> (u, s\<lparr>sc_gate := g\<rparr>))"

section \<open>What happens to the listener\<close>

text \<open>The app mints a token, the shell changes what is open, or somebody sends a request.\<close>

datatype event =
    Minted bytes
  | Moved shell_view
  | Asked "upstream_request \<Rightarrow> str + server_answer" bytes proxy_request

definition happen ::
  "(bytes \<Rightarrow> json option) \<Rightarrow> (json \<Rightarrow> bytes) \<Rightarrow> (str \<Rightarrow> web_url option) \<Rightarrow> (str \<Rightarrow> bytes option) \<Rightarrow>
   (str \<Rightarrow> (str \<times> str) list) \<Rightarrow> event \<Rightarrow> server_context \<Rightarrow> server_answer option \<times> server_context" where
  "happen parse print url_parse to_header form_parse e s =
     (case e of
        Minted rnd \<Rightarrow> (None, s\<lparr>sc_gate := snd (mint_token rnd (sc_gate s))\<rparr>)
      | Moved v \<Rightarrow> (None, s\<lparr>sc_shell := v\<rparr>)
      | Asked upstream rnd rq \<Rightarrow>
          (case serve parse print url_parse upstream to_header form_parse rnd rq s of (a, s') \<Rightarrow> (Some a, s')))"

fun happens ::
  "(bytes \<Rightarrow> json option) \<Rightarrow> (json \<Rightarrow> bytes) \<Rightarrow> (str \<Rightarrow> web_url option) \<Rightarrow> (str \<Rightarrow> bytes option) \<Rightarrow>
   (str \<Rightarrow> (str \<times> str) list) \<Rightarrow> event list \<Rightarrow> server_context \<Rightarrow> (event \<times> server_answer option) list \<times> server_context" where
  "happens parse print url_parse to_header form_parse [] s = ([], s)"
| "happens parse print url_parse to_header form_parse (e # es) s =
     (case happen parse print url_parse to_header form_parse e s of
        (a, s') \<Rightarrow> (case happens parse print url_parse to_header form_parse es s' of (log, s'') \<Rightarrow> ((e, a) # log, s'')))"

text \<open>What the log shows: the tokens minted, the tokens spent, the sessions issued for them.\<close>

definition token_of :: "(str \<Rightarrow> (str \<times> str) list) \<Rightarrow> proxy_request \<Rightarrow> str option" where
  "token_of form_parse rq = Option.bind (pq_query rq) (\<lambda>q. map_of (rev (form_parse q)) TOKEN_PARAM)"

definition minted_in :: "event \<times> server_answer option \<Rightarrow> str list" where
  "minted_in x = (case x of (Minted rnd, _) \<Rightarrow> [hex rnd] | _ \<Rightarrow> [])"

definition redeemed_in :: "(str \<Rightarrow> (str \<times> str) list) \<Rightarrow> event \<times> server_answer option \<Rightarrow> (str \<times> str) list" where
  "redeemed_in form_parse x =
     (case x of
        (Asked _ rnd rq, Some a) \<Rightarrow>
          if pq_path rq = HANDSHAKE_PATH \<and> sv_status a = 303
          then [(case token_of form_parse rq of Some t \<Rightarrow> t | None \<Rightarrow> [], hex rnd)] else []
      | _ \<Rightarrow> [])"

definition minted_tokens :: "(event \<times> server_answer option) list \<Rightarrow> str list" where
  "minted_tokens log = concat (map minted_in log)"

definition spent_tokens :: "(str \<Rightarrow> (str \<times> str) list) \<Rightarrow> (event \<times> server_answer option) list \<Rightarrow> str list" where
  "spent_tokens form_parse log = map fst (concat (map (redeemed_in form_parse) log))"

definition issued_sessions :: "(str \<Rightarrow> (str \<times> str) list) \<Rightarrow> (event \<times> server_answer option) list \<Rightarrow> str list" where
  "issued_sessions form_parse log = map snd (concat (map (redeemed_in form_parse) log))"

section \<open>The ledger of the gate\<close>

lemma length_keep_last: "length (keep_last n xs) = min n (length xs)"
  by (auto simp: keep_last_def)

lemma keep_last_short: "length xs \<le> n \<Longrightarrow> keep_last n xs = xs"
  by (simp add: keep_last_def)

lemma keep_last_suffix: "length ys \<le> n \<Longrightarrow> set ys \<subseteq> set (keep_last n (xs @ ys))"
  by (auto simp: keep_last_def)

lemma keep_last_again: "keep_last n (keep_last n xs @ ys) = keep_last n (xs @ ys)"
proof (cases "length xs \<le> n")
  case False
  then show ?thesis by (auto simp: keep_last_def drop_append) (simp add: add.commute)
qed (simp add: keep_last_short)

lemma matches_any_Some: "matches_any xs c = Some i \<Longrightarrow> i < length xs \<and> xs ! i = c"
  by (induction xs arbitrary: i) (auto split: option.splits if_splits)

lemma matches_any_None: "matches_any xs c = None \<longleftrightarrow> c \<notin> set xs"
  by (induction xs) (auto split: option.splits)

lemma matches_any_last: "matches_any (xs @ [c]) c = Some (length xs)"
  by (induction xs) auto

lemma is_session_set: "is_session g v \<longleftrightarrow> v \<in> set (ga_sessions g)"
  by (simp add: is_session_def matches_any_None)

lemma mset_without: "i < length xs \<Longrightarrow> mset (take i xs @ drop (Suc i) xs) = mset xs - {#xs ! i#}"
  by (metis add_mset_remove_trivial id_take_nth_drop mset.simps(2) mset_append union_mset_add_mset_right)

lemma mset_keep_last: "mset (keep_last n xs) \<subseteq># mset xs"
proof -
  have "mset xs = mset (take (length xs - n) xs) + mset (keep_last n xs)"
    by (metis append_take_drop_id keep_last_def mset_append)
  then show ?thesis by simp
qed

text \<open>A redemption, as the ledger sees it.\<close>

lemma redeem_facts:
  assumes "redeem rnd token g = (r, g')"
  shows "ga_authority g' = ga_authority g \<and>
    (case r of
       None \<Rightarrow> g' = g \<and> token \<notin> set (ga_tokens g)
     | Some session \<Rightarrow> session = hex rnd \<and> token \<in> set (ga_tokens g) \<and> mset (ga_tokens g') = mset (ga_tokens g) - {#token#} \<and>
         ga_sessions g' = keep_last KEEP (ga_sessions g @ [session]))"
proof (cases "matches_any (ga_tokens g) token")
  case None
  then have "token \<notin> set (ga_tokens g)" by (simp add: matches_any_None)
  then show ?thesis using assms None by (auto simp: redeem_def)
next
  case (Some i)
  then show ?thesis
    using assms matches_any_Some [OF Some] mset_without [of i "ga_tokens g"]
    by (auto simp: redeem_def random_hex_def simp del: mset_append)
qed

lemma handshake_facts:
  assumes "handshake to_header form_parse rnd rq s = (a, s')"
  shows "(sv_status a = 303 \<and> (\<exists>token. token_of form_parse rq = Some token \<and>
            redeem rnd token (sc_gate s) = (Some (hex rnd), sc_gate s') \<and> token \<in> set (ga_tokens (sc_gate s)))) \<or>
         (sv_status a \<noteq> 303 \<and> sc_gate s' = sc_gate s)"
proof (cases "token_of form_parse rq")
  case None
  then show ?thesis using assms by (auto simp: handshake_def token_of_def refuse_handshake_def split: option.splits)
next
  case (Some token)
  obtain r g where redeemed: "redeem rnd token (sc_gate s) = (r, g)" by (metis surj_pair)
  have q: "map_of (case pq_query rq of None \<Rightarrow> [] | Some q \<Rightarrow> rev (form_parse q)) TOKEN_PARAM = Some token"
    using Some by (cases "pq_query rq") (auto simp: token_of_def)
  show ?thesis
    using assms redeem_facts [OF redeemed] Some redeemed
    by (cases r) (auto simp: handshake_def q refuse_handshake_def Let_def)
qed

lemma dispatch_gate: "sc_gate (snd (dispatch parse print url_parse upstream rq s)) = sc_gate s"
  by (auto simp: dispatch_def Let_def split: prod.splits ui.splits)

lemma status_secured [simp]: "sv_status (security_headers a) = sv_status a"
  by (simp add: security_headers_def Let_def)

lemma serve_gate:
  assumes "serve parse print url_parse upstream to_header form_parse rnd rq s = (a, s')"
  shows "if pq_path rq = HANDSHAKE_PATH \<and> sv_status a = 303
    then \<exists>token. token_of form_parse rq = Some token \<and> redeem rnd token (sc_gate s) = (Some (hex rnd), sc_gate s') \<and>
       token \<in> set (ga_tokens (sc_gate s))
    else sc_gate s' = sc_gate s"
proof -
  obtain b t where routed: "routes parse print url_parse upstream to_header form_parse rnd rq (record_hit rq s) = (b, t)" by (metis surj_pair)
  have hit: "sc_gate (record_hit rq s) = sc_gate s" by (simp add: record_hit_def Let_def)
  consider "a = gate_forbidden" "s' = s" | "a = security_headers b" "s' = t"
    using assms routed by (auto simp: serve_def gate_layer_def split: if_splits)
  then show ?thesis
  proof cases
    case 2
    show ?thesis
    proof (cases "pq_path rq = HANDSHAKE_PATH")
      case True
      show ?thesis
      proof (cases "pq_method rq \<in> {lit ''GET'', lit ''HEAD''}")
        case get: True
        then have "handshake to_header form_parse rnd rq (record_hit rq s) = (b, t)" using routed True by (simp add: routes_def)
        from handshake_facts [OF this] show ?thesis using 2 True hit by auto
      next
        case False
        then show ?thesis using routed True 2 hit by (auto simp: routes_def)
      qed
    next
      case False
      then have "dispatch parse print url_parse upstream rq (record_hit rq s) = (b, t)" using routed by (simp add: routes_def)
      then show ?thesis using dispatch_gate [of parse print url_parse upstream rq "record_hit rq s"] False 2 hit by simp
    qed
  qed (simp add: gate_forbidden_def)
qed

lemma redeem_ledger:
  assumes "redeem rnd token g = (Some session, g')" "token \<in> set (ga_tokens g)"
  shows "ga_authority g' = ga_authority g \<and> ga_sessions g' = keep_last KEEP (ga_sessions g @ [hex rnd]) \<and>
    mset (ga_tokens g') + {#token#} = mset (ga_tokens g)"
  using redeem_facts [OF assms(1)] assms(2) by simp

lemma happen_ledger:
  assumes "happen parse print url_parse to_header form_parse e s = (a, s')" "length (ga_sessions (sc_gate s)) \<le> KEEP"
  shows "ga_authority (sc_gate s') = ga_authority (sc_gate s) \<and>
      ga_sessions (sc_gate s') = keep_last KEEP (ga_sessions (sc_gate s) @ map snd (redeemed_in form_parse (e, a))) \<and>
      mset (ga_tokens (sc_gate s')) + mset (map fst (redeemed_in form_parse (e, a))) \<subseteq>#
        mset (ga_tokens (sc_gate s)) + mset (minted_in (e, a))"
proof (cases e)
  case (Minted rnd)
  then show ?thesis
    using assms mset_keep_last [of KEEP "ga_tokens (sc_gate s) @ [hex rnd]"]
    by (auto simp: happen_def mint_token_def random_hex_def redeemed_in_def minted_in_def keep_last_short)
next
  case (Moved v)
  then show ?thesis using assms by (auto simp: happen_def redeemed_in_def minted_in_def keep_last_short)
next
  case (Asked upstream rnd rq)
  obtain b where served: "serve parse print url_parse upstream to_header form_parse rnd rq s = (b, s')" and a: "a = Some b"
    using assms(1) Asked by (auto simp: happen_def split: prod.splits)
  show ?thesis
  proof (cases "pq_path rq = HANDSHAKE_PATH \<and> sv_status b = 303")
    case True
    then obtain token where token: "token_of form_parse rq = Some token"
        "redeem rnd token (sc_gate s) = (Some (hex rnd), sc_gate s')" "token \<in> set (ga_tokens (sc_gate s))"
      using serve_gate [OF served] by auto
    show ?thesis
      using redeem_ledger [OF token(2,3)] token(1) True Asked a by (simp add: redeemed_in_def minted_in_def)
  next
    case False
    then have "sc_gate s' = sc_gate s" using serve_gate [OF served] by auto
    then show ?thesis using False Asked a assms(2) by (auto simp: redeemed_in_def minted_in_def keep_last_short)
  qed
qed

lemma happens_ledger:
  assumes "happens parse print url_parse to_header form_parse es s = (log, s')" "length (ga_sessions (sc_gate s)) \<le> KEEP"
  shows "ga_authority (sc_gate s') = ga_authority (sc_gate s) \<and>
      ga_sessions (sc_gate s') = keep_last KEEP (ga_sessions (sc_gate s) @ issued_sessions form_parse log) \<and>
      mset (ga_tokens (sc_gate s')) + mset (spent_tokens form_parse log) \<subseteq># mset (ga_tokens (sc_gate s)) + mset (minted_tokens log)"
  using assms
proof (induction es arbitrary: s log)
  case Nil
  then show ?case by (auto simp: issued_sessions_def spent_tokens_def minted_tokens_def keep_last_short)
next
  case (Cons e es)
  obtain a t log' where split: "happen parse print url_parse to_header form_parse e s = (a, t)"
      "happens parse print url_parse to_header form_parse es t = (log', s')" "log = (e, a) # log'"
    using Cons.prems(1) by (auto split: prod.splits)
  note one = happen_ledger [OF split(1) Cons.prems(2)]
  then have "length (ga_sessions (sc_gate t)) \<le> KEEP" by (simp add: length_keep_last)
  note rest = Cons.IH [OF split(2) this]
  have "mset (ga_tokens (sc_gate s')) + mset (spent_tokens form_parse log) \<subseteq>#
      mset (ga_tokens (sc_gate t)) + mset (minted_tokens log') + mset (map fst (redeemed_in form_parse (e, a)))"
    using rest split(3) by (simp add: spent_tokens_def union_ac subset_mset.add_mono)
  also have "\<dots> \<subseteq># mset (ga_tokens (sc_gate s)) + mset (minted_tokens log)"
    using one split(3) by (simp add: minted_tokens_def union_ac subset_mset.add_mono)
  finally show ?case
    using one rest split(3) by (simp add: issued_sessions_def keep_last_again)
qed

section \<open>Properties\<close>

lemma started: "sc_gate (server_start port v u) = new_gate (lit ''127.0.0.1:'' @ dec_str port)"
  by (simp add: server_start_def)

lemma started_ledger:
  assumes "happens parse print url_parse to_header form_parse es (server_start port v u) = (log, s)"
  shows "ga_authority (sc_gate s) = lit ''127.0.0.1:'' @ dec_str port"
    and "ga_sessions (sc_gate s) = keep_last KEEP (issued_sessions form_parse log)"
    and "mset (spent_tokens form_parse log) \<subseteq># mset (minted_tokens log)"
proof -
  have facts: "ga_authority (sc_gate s) = lit ''127.0.0.1:'' @ dec_str port \<and>
      ga_sessions (sc_gate s) = keep_last KEEP (issued_sessions form_parse log) \<and>
      mset (ga_tokens (sc_gate s)) + mset (spent_tokens form_parse log) \<subseteq># mset (minted_tokens log)"
    using happens_ledger [OF assms] by (simp add: started new_gate_def)
  then show "ga_authority (sc_gate s) = lit ''127.0.0.1:'' @ dec_str port"
      "ga_sessions (sc_gate s) = keep_last KEEP (issued_sessions form_parse log)" by simp_all
  show "mset (spent_tokens form_parse log) \<subseteq># mset (minted_tokens log)"
    using facts mset_subset_eq_add_right subset_mset.order_trans by blast
qed

text \<open>A request of the app's own origin, on its own host.\<close>

definition own_headers :: "nat \<Rightarrow> headers \<Rightarrow> bool" where
  "own_headers port hs \<longleftrightarrow>
     map_of hs (lit ''host'') = Some (ascii (lit ''127.0.0.1:'' @ dec_str port)) \<and>
     map_of hs (lit ''origin'') \<in> {None, Some (ascii (lit ''http://127.0.0.1:'' @ dec_str port))} \<and>
     map_of hs (lit ''sec-fetch-site'') \<in> {None, Some (ascii (lit ''same-origin'')), Some (ascii (lit ''none''))}"

definition guarded_page :: "server_answer \<Rightarrow> bool" where
  "guarded_page a \<longleftrightarrow>
     {lit ''x-content-type-options'', lit ''referrer-policy'', lit ''cross-origin-resource-policy''} \<subseteq> fst ` set (sv_headers a) \<and>
     (\<forall>v. header_get (sv_headers a) (lit ''content-type'') = Some v \<and> starts_with (lit ''text/html'') v \<longrightarrow>
        lit ''content-security-policy'' \<in> fst ` set (sv_headers a))"

lemma header_default_names: "fst ` set (header_default n v hs) = insert n (fst ` set hs)"
  by (auto simp: header_default_def set_header_set)

lemma header_default_other: "m \<noteq> n \<Longrightarrow> map_of (header_default n v hs) m = map_of hs m"
  by (simp add: header_default_def map_of_header_set)

lemma secured: "guarded_page (security_headers a)"
  by (auto simp: guarded_page_def security_headers_def Let_def header_default_names header_get_def header_default_other lit_def
      split: option.splits if_splits)

text \<open>C33
  Whoever asks, in whatever order: a request is answered by the app exactly when it is of the app's
  own origin and host and either is the handshake or carries one of the sixteen sessions issued last,
  a session being issued only for a token minted by the app, each token at most as often as it was
  minted. Every other request gets the same bare refusal and changes nothing; every answer of the app
  carries the policies of a page.
\<close>

theorem gate_exact:
  assumes "happens parse print url_parse to_header form_parse es (server_start port v u) = (log, s)"
  shows "count_list (spent_tokens form_parse log) token \<le> count_list (minted_tokens log) token \<and>
    serve parse print url_parse upstream to_header form_parse rnd rq s =
     (if own_headers port (pq_headers rq) \<and>
         (pq_path rq = HANDSHAKE_PATH \<or>
          (\<exists>c \<in> set (launch_cookies (pq_headers rq)). c \<in> set (keep_last 16 (issued_sessions form_parse log))))
      then (security_headers (fst (routes parse print url_parse upstream to_header form_parse rnd rq (record_hit rq s))),
            snd (routes parse print url_parse upstream to_header form_parse rnd rq (record_hit rq s)))
      else (gate_forbidden, s)) \<and>
    guarded_page (security_headers a)"
proof -
  note ledger = started_ledger [OF assms]
  have "count_list (spent_tokens form_parse log) token \<le> count_list (minted_tokens log) token"
    using mset_subset_eq_count [OF ledger(3), of token] by (simp only: count_mset)
  moreover have own: "is_own_request (sc_gate s) (pq_headers rq) = own_headers port (pq_headers rq)"
    by (simp add: is_own_request_def own_headers_def ledger(1) gate_origin_def lit_def)
  have session: "has_session (sc_gate s) (pq_headers rq) =
      (\<exists>c \<in> set (launch_cookies (pq_headers rq)). c \<in> set (keep_last 16 (issued_sessions form_parse log)))"
    by (simp add: has_session_def list_ex_iff is_session_set ledger(2) KEEP_def)
  have "serve parse print url_parse upstream to_header form_parse rnd rq s =
     (if own_headers port (pq_headers rq) \<and>
         (pq_path rq = HANDSHAKE_PATH \<or>
          (\<exists>c \<in> set (launch_cookies (pq_headers rq)). c \<in> set (keep_last 16 (issued_sessions form_parse log))))
      then (security_headers (fst (routes parse print url_parse upstream to_header form_parse rnd rq (record_hit rq s))),
            snd (routes parse print url_parse upstream to_header form_parse rnd rq (record_hit rq s)))
      else (gate_forbidden, s))"
    unfolding serve_def gate_layer_def own session by (simp add: split_beta)
  ultimately show ?thesis using secured by blast
qed

lemma happens_append:
  "happens parse print url_parse to_header form_parse (es @ fs) s =
     (case happens parse print url_parse to_header form_parse es s of
        (log, t) \<Rightarrow> (case happens parse print url_parse to_header form_parse fs t of (log', t') \<Rightarrow> (log @ log', t')))"
  by (induction es arbitrary: s) (auto split: prod.splits)

lemma minted_redeems: "redeem rnd' (hex rnd) (snd (mint_token rnd g)) \<noteq> (None, g')"
proof -
  have "hex rnd \<in> set (ga_tokens (snd (mint_token rnd g)))"
    using keep_last_suffix [of "[hex rnd]" KEEP "ga_tokens g"] by (simp add: mint_token_def random_hex_def KEEP_def)
  then show ?thesis using redeem_facts [of rnd' "hex rnd" "snd (mint_token rnd g)" None] by auto
qed

lemma hex_plain: "c \<in> set (hex bs) \<Longrightarrow> 48 \<le> c \<and> c < 103 \<and> c \<noteq> 59 \<and> c \<noteq> 61 \<and> \<not> is_whitespace c"
proof -
  have digit: "48 \<le> hex_digit d \<and> hex_digit d < 103 \<and> hex_digit d \<noteq> 59 \<and> hex_digit d \<noteq> 61 \<and> \<not> is_whitespace (hex_digit d)" if "d < 16" for d
    using that by (auto simp: hex_digit_def is_whitespace_def)
  show "c \<in> set (hex bs) \<Longrightarrow> 48 \<le> c \<and> c < 103 \<and> c \<noteq> 59 \<and> c \<noteq> 61 \<and> \<not> is_whitespace c"
  proof -
    assume "c \<in> set (hex bs)"
    then have "\<exists>b \<in> set bs. c = hex_digit (unat b div 16) \<or> c = hex_digit (unat b mod 16)" by (simp add: hex_def)
    then obtain b :: byte where "c = hex_digit (unat b div 16) \<or> c = hex_digit (unat b mod 16)" by blast
    moreover have "unat b div 16 < 16" "unat b mod 16 < 16" using byte_bound [of b] by simp_all
    ultimately show ?thesis using digit [of "unat b div 16"] digit [of "unat b mod 16"] by (elim disjE) simp_all
  qed
qed

lemma launch_cookie_read:
  assumes "filter (\<lambda>(n, _). n = lit ''cookie'') hs = [(lit ''cookie'', ascii (COOKIE_NAME @ lit ''='' @ hex bs))]" "bs \<noteq> []"
  shows "launch_cookies hs = [hex bs]"
proof -
  let ?c = "COOKIE_NAME @ lit ''='' @ hex bs"
  have name: "\<forall>c \<in> set COOKIE_NAME. 32 \<le> c \<and> c < 127 \<and> c \<noteq> 59 \<and> c \<noteq> 61" "\<not> is_whitespace (hd COOKIE_NAME)" "COOKIE_NAME \<noteq> []"
    by (simp_all add: COOKIE_NAME_def lit_def is_whitespace_def)
  have chars: "\<forall>c \<in> set ?c. 32 \<le> c \<and> c < 127 \<and> c \<noteq> 59" using name(1) hex_plain [of _ bs] by (force simp: lit_def)
  have "hex bs \<noteq> []" using assms(2) by (cases bs) (simp_all add: hex_def)
  then have plain: "plain_cookie (COOKIE_NAME, hex bs)"
    using name hex_plain [of _ bs] last_in_set [of "hex bs"] by (force simp: plain_cookie_def)
  have "header_str (ascii ?c) = Some ?c" unfolding ascii_def using chars by (intro header_ascii) blast
  moreover have "List.map_filter (\<lambda>(n, v). if n = lit ''cookie'' then header_str v else None) xs =
      List.map_filter (\<lambda>(n, v). header_str v) (filter (\<lambda>(n, _). n = lit ''cookie'') xs)" for xs :: headers
    by (induction xs) (auto simp: List.map_filter_simps split: option.splits if_splits)
  ultimately have lines: "List.map_filter (\<lambda>(n, v). if n = lit ''cookie'' then header_str v else None) hs = [?c]"
    by (simp add: assms(1) List.map_filter_simps)
  have "split_on (\<lambda>c. c = 59) ?c = [?c]" using chars by (intro split_on_none) blast
  moreover have "split_once 61 (rust_trim ?c) = Some (COOKIE_NAME, hex bs)"
    using split_cookie [OF plain] trim_cookie [OF plain] by (simp add: cookie_text_def)
  ultimately show ?thesis by (simp add: launch_cookies_def lines List.map_filter_simps)
qed


section \<open>Witnesses\<close>

definition closed_shell :: shell_view where
  "closed_shell = \<lparr>vw_remote = None, vw_session = None, vw_router = None\<rparr>"

definition sample_server :: server_context where "sample_server = server_start 80 closed_shell Ui_None"

definition sample_form :: "str \<Rightarrow> (str \<times> str) list" where
  "sample_form q = [(TOKEN_PARAM, hex [1]), (lit ''to'', lit ''/desktop/connect'')]"

definition sample_headers :: headers where
  "sample_headers = [(lit ''host'', ascii (lit ''127.0.0.1:80''))]"

lemma gate_exact_witness:
  "serve (\<lambda>_. None) (\<lambda>_. []) (\<lambda>_. None) (\<lambda>_. Inl []) (\<lambda>s. Some (ascii s)) sample_form [2] (sample_get (lit ''/'')) sample_server =
     (gate_forbidden, sample_server)"
proof -
  have "happens (\<lambda>_. None) (\<lambda>_. []) (\<lambda>_. None) (\<lambda>s. Some (ascii s)) sample_form [] (server_start 80 closed_shell Ui_None) = ([], sample_server)"
    by (simp add: sample_server_def)
  from gate_exact [OF this, of _ "\<lambda>_. Inl []" "[2]" "sample_get (lit ''/'')"]
  show ?thesis by (simp add: own_headers_def sample_get_def)
qed


end
