(* ===== verification/Json_Store.thy ===== *)
theory Json_Store
  imports Remote_Proxy
begin

text \<open>
  The atomic writer of the small documents of the app: \<^verbatim>\<open>crates/spm-shell/src/json_store.rs\<close>, over a
  disk that may fail at any operation and lose power between any two of them. What a crash leaves of
  a file is its content when it was synced, and anything otherwise; a rename is atomic and may be
  undone by a crash. Property: whatever fails and whenever the power goes, the document is the old
  one or the new one.
\<close>

section \<open>The disk\<close>

text \<open>A file has its content and whether it is known to be on the platter.\<close>

type_synonym kept_file = "bytes \<times> bool"

record doc_disk =
  dd_files :: "str \<Rightarrow> kept_file option"
  dd_undo :: "(str \<Rightarrow> kept_file option) option"

datatype store_op = Op_Create_Dir | Op_Open | Op_Write | Op_Fsync | Op_Close | Op_Rename | Op_Remove

text \<open>A failing operation, with how many bytes a failing write still wrote.\<close>

type_synonym store_faults = "store_op \<Rightarrow> (io_error \<times> nat) option"

definition io_open :: "str \<Rightarrow> doc_disk \<Rightarrow> doc_disk" where
  "io_open path d = d\<lparr>dd_files := (dd_files d)(path \<mapsto> ([], False))\<rparr>"

definition io_write :: "str \<Rightarrow> bytes \<Rightarrow> doc_disk \<Rightarrow> doc_disk" where
  "io_write path data d =
     d\<lparr>dd_files := (dd_files d)(path := map_option (\<lambda>(old, _). (old @ data, False)) (dd_files d path))\<rparr>"

definition io_fsync :: "str \<Rightarrow> doc_disk \<Rightarrow> doc_disk" where
  "io_fsync path d = d\<lparr>dd_files := (dd_files d)(path := map_option (\<lambda>(old, _). (old, True)) (dd_files d path))\<rparr>"

definition io_rename :: "str \<Rightarrow> str \<Rightarrow> doc_disk \<Rightarrow> doc_disk" where
  "io_rename src dest d =
     d\<lparr>dd_files := (dd_files d)(dest := dd_files d src, src := None), dd_undo := Some (dd_files d)\<rparr>"

definition io_remove :: "str \<Rightarrow> doc_disk \<Rightarrow> doc_disk" where
  "io_remove path d = d\<lparr>dd_files := (dd_files d)(path := None)\<rparr>"

text \<open>What may be read after the power was lost: the state before the last rename or after it, and
  for a file that was not synced anything.\<close>

definition survives :: "(str \<Rightarrow> kept_file option) \<Rightarrow> str \<Rightarrow> bytes option \<Rightarrow> bool" where
  "survives kept path seen \<longleftrightarrow>
     (case kept path of None \<Rightarrow> seen = None | Some (c, synced) \<Rightarrow> \<not> synced \<or> seen = Some c)"

definition after_crash :: "doc_disk \<Rightarrow> str \<Rightarrow> bytes option \<Rightarrow> bool" where
  "after_crash d path seen \<longleftrightarrow>
     survives (dd_files d) path seen \<or> (\<exists>kept. dd_undo d = Some kept \<and> survives kept path seen)"

section \<open>The writer\<close>

definition temp_path :: "nat \<Rightarrow> str \<Rightarrow> str" where
  "temp_path pid file_path = file_path @ lit ''.'' @ dec_str pid @ lit ''.tmp''"

text \<open>The text that is written, when the document prints, between opening the file and closing it.\<close>

definition write_temp ::
  "store_faults \<Rightarrow> str \<Rightarrow> (str + bytes) \<Rightarrow> doc_disk \<Rightarrow> io_error option \<times> doc_disk list" where
  "write_temp faults temp printed d =
     (case printed of
        Inl e \<Rightarrow> (Some (Other_Io e), [])
      | Inr out \<Rightarrow>
          (case faults Op_Write of
             Some (e, n) \<Rightarrow> (Some e, [io_write temp (take n (out @ [10])) d])
           | None \<Rightarrow>
               (let d1 = io_write temp (out @ [10]) d in
                case faults Op_Fsync of
                  Some (e, _) \<Rightarrow> (Some e, [d1])
                | None \<Rightarrow> (None, [d1, io_fsync temp d1]))))"

text \<open>Everything up to the rename, as the result and the disks in between.\<close>

definition write_steps ::
  "store_faults \<Rightarrow> str \<Rightarrow> str \<Rightarrow> (str + bytes) \<Rightarrow> doc_disk \<Rightarrow> io_error option \<times> doc_disk list" where
  "write_steps faults temp file_path printed d =
     (case faults Op_Open of
        Some (e, _) \<Rightarrow> (Some e, [])
      | None \<Rightarrow>
          (let d1 = io_open temp d; (failed, ds) = write_temp faults temp printed d1; d2 = last (d1 # ds) in
           case failed of
             Some e \<Rightarrow> (Some e, d1 # ds)
           | None \<Rightarrow>
               (case faults Op_Close of
                  Some (e, _) \<Rightarrow> (Some e, d1 # ds)
                | None \<Rightarrow>
                    (case faults Op_Rename of
                       Some (e, _) \<Rightarrow> (Some e, d1 # ds)
                     | None \<Rightarrow> (None, d1 # ds @ [io_rename temp file_path d2])))))"

definition write_json_file_with ::
  "store_faults \<Rightarrow> nat \<Rightarrow> str \<Rightarrow> (str + bytes) \<Rightarrow> doc_disk \<Rightarrow> io_error option \<times> doc_disk list" where
  "write_json_file_with faults pid file_path printed d =
     (case faults Op_Create_Dir of
        Some (e, _) \<Rightarrow> (Some e, [])
      | None \<Rightarrow>
          (let temp = temp_path pid file_path; (failed, ds) = write_steps faults temp file_path printed d in
           case failed of
             None \<Rightarrow> (None, ds)
           | Some e \<Rightarrow> (Some e, ds @ (if faults Op_Remove = None then [io_remove temp (last (d # ds))] else []))))"

text \<open>The disk afterwards.\<close>

definition written_disk :: "doc_disk \<Rightarrow> io_error option \<times> doc_disk list \<Rightarrow> doc_disk" where
  "written_disk d w = last (d # snd w)"

section \<open>The document is the old one or the new one\<close>

lemma temp_other: "temp_path pid p \<noteq> p"
  by (simp add: temp_path_def)

lemma temp_steps:
  assumes "write_temp faults temp printed d = (failed, ds)" "p \<noteq> temp" "x \<in> set ds"
  shows "dd_files x p = dd_files d p \<and> dd_undo x = dd_undo d"
  using assms by (auto simp: write_temp_def io_write_def io_fsync_def Let_def split: sum.splits option.splits)

lemma temp_written:
  assumes "write_temp faults temp printed (io_open temp d) = (None, ds)"
  shows "\<exists>out. printed = Inr out \<and> ds \<noteq> [] \<and> dd_files (last ds) temp = Some (out @ [10], True)"
  using assms by (auto simp: write_temp_def io_write_def io_fsync_def io_open_def Let_def split: sum.splits option.splits)

text \<open>A disk on the way has the old document; the disk after the rename has the new one, and a crash
  may bring the old one back.\<close>

definition on_the_way :: "str \<Rightarrow> (str + bytes) \<Rightarrow> doc_disk \<Rightarrow> doc_disk \<Rightarrow> bool" where
  "on_the_way p printed d x \<longleftrightarrow> dd_files x p = dd_files d p \<and> dd_undo x = dd_undo d"

definition replaced :: "str \<Rightarrow> (str + bytes) \<Rightarrow> doc_disk \<Rightarrow> doc_disk \<Rightarrow> bool" where
  "replaced p printed d x \<longleftrightarrow>
     (\<exists>out before. printed = Inr out \<and> dd_files x p = Some (out @ [10], True) \<and> dd_undo x = Some before \<and> before p = dd_files d p)"

lemma steps_facts:
  assumes "write_steps faults temp p printed d = (failed, ds)" "p \<noteq> temp"
  shows "case failed of
      Some _ \<Rightarrow> (\<forall>x \<in> set ds. on_the_way p printed d x)
    | None \<Rightarrow> ds \<noteq> [] \<and> (\<forall>x \<in> set (butlast ds). on_the_way p printed d x) \<and> replaced p printed d (last ds)"
proof -
  let ?d1 = "io_open temp d"
  obtain w ws where temp: "write_temp faults temp printed ?d1 = (w, ws)" by (metis surj_pair)
  have way: "on_the_way p printed d x" if "x \<in> set (?d1 # ws)" for x
    using temp_steps [OF temp assms(2)] that assms(2) by (auto simp: on_the_way_def io_open_def)
  have "replaced p printed d (io_rename temp p (last (?d1 # ws)))" if none: "w = None"
  proof -
    have "write_temp faults temp printed ?d1 = (None, ws)" using temp none by simp
    from temp_written [OF this]
    obtain out where "printed = Inr out" "ws \<noteq> []" "dd_files (last ws) temp = Some (out @ [10], True)"
      by blast
    moreover have "on_the_way p printed d (last (?d1 # ws))" by (rule way) simp
    ultimately show ?thesis using assms(2) by (auto simp: replaced_def io_rename_def on_the_way_def)
  qed
  then show ?thesis
    using assms(1) temp way by (auto simp: write_steps_def Let_def butlast_append split: option.splits if_splits)
qed

lemma writer_facts:
  assumes "write_json_file_with faults pid p printed d = (failed, ds)"
  shows "case failed of
      Some _ \<Rightarrow> (\<forall>x \<in> set ds. on_the_way p printed d x)
    | None \<Rightarrow> ds \<noteq> [] \<and> (\<forall>x \<in> set (butlast ds). on_the_way p printed d x) \<and> replaced p printed d (last ds)"
proof (cases "faults Op_Create_Dir")
  case None
  obtain w ws where steps: "write_steps faults (temp_path pid p) p printed d = (w, ws)" by (metis surj_pair)
  note facts = steps_facts [OF steps temp_other [symmetric]]
  show ?thesis
  proof (cases w)
    case None
    then show ?thesis using facts steps assms \<open>faults Op_Create_Dir = None\<close> by (auto simp: write_json_file_with_def Let_def)
  next
    case (Some e)
    have "on_the_way p printed d (last (d # ws))"
      using facts Some by (cases ws) (auto simp: on_the_way_def)
    then have "on_the_way p printed d (io_remove (temp_path pid p) (last (d # ws)))"
      using temp_other [of pid p] by (auto simp: on_the_way_def io_remove_def)
    then show ?thesis
      using facts steps Some assms \<open>faults Op_Create_Dir = None\<close> by (auto simp: write_json_file_with_def Let_def)
  qed
next
  case (Some e)
  then show ?thesis using assms by (auto simp: write_json_file_with_def split: prod.splits)
qed

text \<open>C35
  Whatever fails while a document is written and whenever the power goes, what is read afterwards is
  the old document or the whole new one; a write that failed leaves the old one, and a write that
  succeeded leaves the new one for as long as the power stays.
\<close>

theorem document_old_or_new:
  assumes "dd_files d p = Some (old, True)" "dd_undo d = None"
    and "write_json_file_with faults pid p printed d = (failed, ds)"
  shows "(x \<in> set (d # ds) \<and> after_crash x p seen \<longrightarrow> seen = Some old \<or> (\<exists>out. printed = Inr out \<and> seen = Some (out @ [10]))) \<and>
    (case failed of
       Some _ \<Rightarrow> dd_files (written_disk d (failed, ds)) p = Some (old, True)
     | None \<Rightarrow> \<exists>out. printed = Inr out \<and> map_option fst (dd_files (written_disk d (failed, ds)) p) = Some (out @ [10]))"
proof -
  have way: "after_crash x p seen \<Longrightarrow> seen = Some old" if "on_the_way p printed d x" for x
    using that assms(1,2) by (auto simp: on_the_way_def after_crash_def survives_def)
  have new: "after_crash x p seen \<Longrightarrow> seen = Some old \<or> (\<exists>out. printed = Inr out \<and> seen = Some (out @ [10]))"
    if "replaced p printed d x" for x
    using that assms(1) by (auto simp: replaced_def after_crash_def survives_def)
  have start: "on_the_way p printed d d" by (simp add: on_the_way_def)
  show ?thesis
  proof (cases failed)
    case (Some e)
    then have all: "\<forall>x \<in> set (d # ds). on_the_way p printed d x" using writer_facts [OF assms(3)] start by simp
    then have "on_the_way p printed d (last (d # ds))" using last_in_set [of "d # ds"] by blast
    then show ?thesis using all way Some assms(1) by (auto simp: written_disk_def on_the_way_def)
  next
    case None
    then have facts: "ds \<noteq> []" "\<forall>x \<in> set (butlast ds). on_the_way p printed d x" "replaced p printed d (last ds)"
      using writer_facts [OF assms(3)] by auto
    have "x = d \<or> x \<in> set (butlast ds) \<or> x = last ds" if "x \<in> set (d # ds)"
      using that facts(1) append_butlast_last_id [OF facts(1)] by (metis Un_iff empty_iff list.set(1) set_ConsD set_append)
    then have "x \<in> set (d # ds) \<Longrightarrow> after_crash x p seen \<Longrightarrow> seen = Some old \<or> (\<exists>out. printed = Inr out \<and> seen = Some (out @ [10]))"
      using facts start way new by blast
    moreover have "\<exists>out. printed = Inr out \<and> map_option fst (dd_files (written_disk d (failed, ds)) p) = Some (out @ [10])"
      using facts(1,3) by (auto simp: written_disk_def replaced_def)
    ultimately show ?thesis using None by simp
  qed
qed

definition sample_doc :: doc_disk where
  "sample_doc = \<lparr>dd_files = [lit ''s'' \<mapsto> ([1], True)], dd_undo = None\<rparr>"

lemma document_old_or_new_witness:
  "map_option fst (dd_files (written_disk sample_doc (write_json_file_with (\<lambda>_. None) 7 (lit ''s'') (Inr [2]) sample_doc)) (lit ''s'')) = Some [2, 10]"
proof -
  obtain failed ds where w: "write_json_file_with (\<lambda>_. None) 7 (lit ''s'') (Inr [2]) sample_doc = (failed, ds)" by (metis surj_pair)
  then have "failed = None"
    by (auto simp: write_json_file_with_def write_steps_def write_temp_def Let_def)
  moreover have "dd_files sample_doc (lit ''s'') = Some ([1], True)" "dd_undo sample_doc = None" by (simp_all add: sample_doc_def)
  ultimately show ?thesis
    using document_old_or_new [OF _ _ w, of "[1]" sample_doc "Some [1]"] w by simp
qed

end
