(* ===== verification/Shell_Mode.thy ===== *)
theory Shell_Mode
  imports Desktop_Server Json_Store "HOL-Library.AList"
begin

text \<open>
  What the desktop app looks at: \<^verbatim>\<open>crates/spm-shell/src/shell.rs\<close>, \<^verbatim>\<open>library.rs\<close> and \<^verbatim>\<open>state.rs\<close>. The
  state is the document on disk, the open folder, the connected server and what the page was told;
  an operation is one of the app's commands with the user's answers. Opening a library and the user
  of its session, the url parser and the platform's paths are arguments. Properties: a folder and a
  server are never open at once; a server the app talks to was named by the operator, remembered or
  confirmed; and what was chosen last is what the next start plans.
\<close>

section \<open>What is remembered\<close>

datatype mode_kept = Keep_Local | Keep_Remote

fun mode_str :: "mode_kept \<Rightarrow> str" where
  "mode_str Keep_Local = lit ''local''"
| "mode_str Keep_Remote = lit ''remote''"

definition REMEMBERED_DIR_KEY :: str where "REMEMBERED_DIR_KEY = lit ''libraryDir''"
definition MODE_KEY :: str where "MODE_KEY = lit ''mode''"
definition REMOTE_URL_KEY :: str where "REMOTE_URL_KEY = lit ''remoteUrl''"

text \<open>Whatever cannot be read is nothing remembered.\<close>

definition read_state :: "(bytes \<Rightarrow> json option) \<Rightarrow> str \<Rightarrow> doc_disk \<Rightarrow> (str \<times> json) list" where
  "read_state parse state_file d =
     (case Option.bind (map_option fst (dd_files d state_file)) parse of
        Some (JObj members) \<Rightarrow> members
      | _ \<Rightarrow> [])"

definition read_string :: "str \<Rightarrow> (str \<times> json) list \<Rightarrow> str option" where
  "read_string key state =
     (case map_of state key of Some (JStr s) \<Rightarrow> if s = [] then None else Some s | _ \<Rightarrow> None)"

definition read_remembered_dir :: "(str \<times> json) list \<Rightarrow> str option" where
  "read_remembered_dir = read_string REMEMBERED_DIR_KEY"

definition read_remembered_remote :: "(str \<times> json) list \<Rightarrow> str option" where
  "read_remembered_remote = read_string REMOTE_URL_KEY"

definition read_remembered_mode :: "(str \<times> json) list \<Rightarrow> mode_kept option" where
  "read_remembered_mode state =
     (case map_of state MODE_KEY of
        Some v \<Rightarrow>
          if v = JStr (lit ''local'') then Some Keep_Local
          else if v = JStr (lit ''remote'') then Some Keep_Remote
          else None
      | None \<Rightarrow> map_option (\<lambda>_. Keep_Local) (read_remembered_dir state))"

definition set_choice :: "mode_kept \<Rightarrow> str \<Rightarrow> (str \<times> json) list \<Rightarrow> (str \<times> json) list" where
  "set_choice mode target state =
     AList.update (case mode of Keep_Local \<Rightarrow> REMEMBERED_DIR_KEY | Keep_Remote \<Rightarrow> REMOTE_URL_KEY) (JStr target)
       (AList.update MODE_KEY (JStr (mode_str mode)) state)"

definition remember_choice ::
  "(bytes \<Rightarrow> json option) \<Rightarrow> (json \<Rightarrow> bytes) \<Rightarrow> nat \<Rightarrow> str \<Rightarrow> store_faults \<Rightarrow> mode_kept \<Rightarrow> str \<Rightarrow> doc_disk \<Rightarrow> doc_disk" where
  "remember_choice parse print pid state_file faults mode target d =
     written_disk d (write_json_file_with faults pid state_file
       (Inr (print (JObj (set_choice mode target (read_state parse state_file d))))) d)"

section \<open>What the app asks\<close>

datatype picker_language = En | De

definition picker_language :: "str option \<Rightarrow> picker_language" where
  "picker_language locale =
     (case locale of Some l \<Rightarrow> if starts_with (lit ''de'') (to_ascii_lowercase l) then De else En | None \<Rightarrow> En)"

datatype prompt_reason = Missing_Dir str | Unopenable_Dir str str

fun picker_title :: "picker_language \<Rightarrow> str" where
  "picker_title En = lit ''Choose a library folder''"
| "picker_title De = lit ''Bibliotheksordner ausw'' @ [228] @ lit ''hlen''"

fun picker_button :: "picker_language \<Rightarrow> str" where
  "picker_button En = lit ''Open''"
| "picker_button De = [214] @ lit ''ffnen''"

fun explain_reason :: "prompt_reason \<Rightarrow> picker_language \<Rightarrow> str" where
  "explain_reason (Missing_Dir dir) En = lit ''the last folder is no longer there ('' @ dir @ lit '')''"
| "explain_reason (Missing_Dir dir) De =
     lit ''Der zuletzt ge'' @ [246] @ lit ''ffnete Ordner ist nicht mehr vorhanden ('' @ dir @ lit '')''"
| "explain_reason (Unopenable_Dir dir detail) En = lit ''the last folder could not be opened ('' @ dir @ lit ''): '' @ detail"
| "explain_reason (Unopenable_Dir dir detail) De =
     lit ''Der zuletzt ge'' @ [246] @ lit ''ffnete Ordner konnte nicht ge'' @ [246] @ lit ''ffnet werden ('' @ dir @ lit ''): '' @ detail"

record folder_picker =
  fp_title :: str
  fp_message :: str
  fp_button :: str
  fp_directory :: bool
  fp_create :: bool

definition folder_picker_options :: "prompt_reason option \<Rightarrow> picker_language \<Rightarrow> folder_picker" where
  "folder_picker_options reason language =
     (let explanation = map_option (\<lambda>r. explain_reason r language) reason in
      \<lparr>fp_title = (case explanation of Some e \<Rightarrow> picker_title language @ [32, 8212, 32] @ e | None \<Rightarrow> picker_title language),
       fp_message = (case explanation of Some e \<Rightarrow> e | None \<Rightarrow> picker_title language),
       fp_button = picker_button language, fp_directory = True, fp_create = True\<rparr>)"

datatype mode_choice = Choose_Local | Choose_Remote | Choose_Cancel

definition MODE_CHOICES :: "mode_choice list" where "MODE_CHOICES = [Choose_Local, Choose_Remote, Choose_Cancel]"

record mode_picker =
  mp_title :: str
  mp_message :: str
  mp_buttons :: "str list"
  mp_default :: nat
  mp_cancel :: nat

definition mode_picker_options :: "picker_language \<Rightarrow> mode_picker" where
  "mode_picker_options language =
     (case language of
        En \<Rightarrow> \<lparr>mp_title = lit ''Slicer Project Manager'', mp_message = lit ''Where is your library?'',
          mp_buttons = [lit ''Open a local folder'' @ [8230], lit ''Connect to a server'' @ [8230], lit ''Not now''],
          mp_default = 0, mp_cancel = 2\<rparr>
      | De \<Rightarrow> \<lparr>mp_title = lit ''Slicer Project Manager'', mp_message = lit ''Wo liegt Ihre Bibliothek?'',
          mp_buttons = [lit ''Lokalen Ordner '' @ [246] @ lit ''ffnen'' @ [8230], lit ''Mit einem Server verbinden'' @ [8230], lit ''Sp'' @ [228] @ lit ''ter''],
          mp_default = 0, mp_cancel = 2\<rparr>)"

definition mode_choice_at :: "nat \<Rightarrow> mode_choice" where
  "mode_choice_at index = (if index < length MODE_CHOICES then MODE_CHOICES ! index else Choose_Cancel)"

record confirm_dialog =
  cd_title :: str
  cd_message :: str
  cd_detail :: str
  cd_buttons :: "str list"
  cd_default :: nat
  cd_cancel :: nat

definition confirm_remote_options :: "str \<Rightarrow> picker_language \<Rightarrow> confirm_dialog" where
  "confirm_remote_options orig language =
     (case language of
        En \<Rightarrow> \<lparr>cd_title = lit ''Connect to a server'', cd_message = lit ''Connect this app to '' @ orig @ lit ''?'',
          cd_detail = lit ''The app will send your sign-in and every request to that address until you change it. Only continue if you recognise it.'',
          cd_buttons = [lit ''Cancel'', lit ''Connect''], cd_default = 0, cd_cancel = 0\<rparr>
      | De \<Rightarrow> \<lparr>cd_title = lit ''Mit einem Server verbinden'', cd_message = lit ''Diese App mit '' @ orig @ lit '' verbinden?'',
          cd_detail = lit ''Die App sendet Ihre Anmeldung und jede Anfrage an diese Adresse, bis Sie sie '' @ [228] @
            lit ''ndern. Fahren Sie nur fort, wenn Sie die Adresse kennen.'',
          cd_buttons = [lit ''Abbrechen'', lit ''Verbinden''], cd_default = 0, cd_cancel = 0\<rparr>)"

definition confirmed_at :: "nat \<Rightarrow> bool" where "confirmed_at index \<longleftrightarrow> index = 1"

fun menu_strings :: "picker_language \<Rightarrow> str \<times> str" where
  "menu_strings En = (lit ''Library'', lit ''Choose library'' @ [8230])"
| "menu_strings De = (lit ''Bibliothek'', lit ''Bibliothek ausw'' @ [228] @ lit ''hlen'' @ [8230])"

definition unopenable_reason :: "str \<Rightarrow> app_error \<Rightarrow> prompt_reason" where
  "unopenable_reason dir e = Unopenable_Dir dir (case err_cause e of Some c \<Rightarrow> c | None \<Rightarrow> err_message e)"

section \<open>The shell\<close>

text \<open>What the platform and the other crates answer.\<close>

record outside =
  ot_parse :: "bytes \<Rightarrow> json option"
  ot_print :: "json \<Rightarrow> bytes"
  ot_url_parse :: "str \<Rightarrow> web_url option"
  ot_pid :: nat
  ot_state_file :: str
  ot_absolute :: "str \<Rightarrow> str"
  ot_open :: "str \<Rightarrow> ctx result"
  ot_router :: "ctx \<Rightarrow> proxy_request \<Rightarrow> server_answer"

record open_folder =
  of_dir :: str
  of_session :: ctx

datatype told = Navigate shell_route | Reload

record shell =
  sl_disk :: doc_disk
  sl_current :: "open_folder option"
  sl_generation :: nat
  sl_remote :: "remote_host option"
  sl_released :: "str list"
  sl_told :: "told list"

definition new_shell :: "doc_disk \<Rightarrow> shell" where
  "new_shell d = \<lparr>sl_disk = d, sl_current = None, sl_generation = 0, sl_remote = None, sl_released = [], sl_told = []\<rparr>"

definition view_of :: "outside \<Rightarrow> shell \<Rightarrow> shell_view" where
  "view_of ot s = \<lparr>vw_remote = sl_remote s, vw_session = map_option of_session (sl_current s),
     vw_router = map_option (ot_router ot \<circ> of_session) (sl_current s)\<rparr>"

definition tell :: "told \<Rightarrow> shell \<Rightarrow> shell" where
  "tell t s = s\<lparr>sl_told := sl_told s @ [t]\<rparr>"

definition remember :: "outside \<Rightarrow> store_faults \<Rightarrow> mode_kept \<Rightarrow> str \<Rightarrow> shell \<Rightarrow> shell" where
  "remember ot faults mode target s =
     s\<lparr>sl_disk := remember_choice (ot_parse ot) (ot_print ot) (ot_pid ot) (ot_state_file ot) faults mode target (sl_disk s)\<rparr>"

definition library_changed :: "shell \<Rightarrow> shell" where
  "library_changed s = (if sl_remote s \<noteq> None then s else tell Reload s)"

definition release_folder :: "shell \<Rightarrow> shell" where
  "release_folder s =
     (case sl_current s of None \<Rightarrow> s | Some previous \<Rightarrow> s\<lparr>sl_current := None, sl_released := sl_released s @ [of_dir previous]\<rparr>)"

definition host_open :: "outside \<Rightarrow> store_faults \<Rightarrow> str \<Rightarrow> bool \<Rightarrow> shell \<Rightarrow> str result \<times> shell" where
  "host_open ot faults dir remembering s =
     (let resolved = ot_absolute ot dir in
      if map_option of_dir (sl_current s) = Some resolved then (Inr resolved, s)
      else
        (case ot_open ot resolved of
           Inl e \<Rightarrow> (Inl e, s)
         | Inr session \<Rightarrow>
             let opened = (release_folder (s\<lparr>sl_generation := sl_generation s + 1\<rparr>))
                   \<lparr>sl_current := Some \<lparr>of_dir = resolved, of_session = session\<rparr>\<rparr>;
                 kept = (if remembering then remember ot faults Keep_Local resolved opened else opened) in
             (Inr resolved, library_changed kept)))"

text \<open>The rescan that adopts a folder found something; it was started with the generation of its folder.\<close>

definition adoption_found :: "nat \<Rightarrow> shell \<Rightarrow> shell" where
  "adoption_found generation s = (if sl_generation s = generation then library_changed s else s)"

definition close_current :: "shell \<Rightarrow> shell" where
  "close_current s = release_folder (s\<lparr>sl_generation := sl_generation s + 1\<rparr>)"

definition release_remote :: "shell \<Rightarrow> shell" where
  "release_remote s = s\<lparr>sl_remote := None\<rparr>"

definition become_local :: "shell \<Rightarrow> shell" where
  "become_local s = (if sl_remote s \<noteq> None then tell (Navigate Home) (release_remote s) else s)"

definition adopt_remote :: "outside \<Rightarrow> store_faults \<Rightarrow> str \<Rightarrow> bool \<Rightarrow> bool \<Rightarrow> shell \<Rightarrow> shell" where
  "adopt_remote ot faults orig remembering replace_page s =
     (let previous = map_option ho_origin (sl_remote s);
          connected = (close_current (release_remote s))\<lparr>sl_remote := Some (new_host orig)\<rparr>;
          kept = (if remembering then remember ot faults Keep_Remote orig connected else connected) in
      if replace_page \<and> previous \<noteq> Some orig then tell (Navigate Home) kept else kept)"

text \<open>The folder dialog and its answer.\<close>

definition prompt_folder :: "outside \<Rightarrow> store_faults \<Rightarrow> str option \<Rightarrow> shell \<Rightarrow> str option result \<times> shell" where
  "prompt_folder ot faults picked s =
     (case picked of
        None \<Rightarrow> (Inr None, s)
      | Some dir \<Rightarrow> (case host_open ot faults dir True s of (Inr d, s') \<Rightarrow> (Inr (Some d), s') | (Inl e, s') \<Rightarrow> (Inl e, s')))"

definition pick_local_folder :: "outside \<Rightarrow> store_faults \<Rightarrow> str option \<Rightarrow> shell \<Rightarrow> str option result \<times> shell" where
  "pick_local_folder ot faults picked s =
     (case prompt_folder ot faults picked s of
        (Inr (Some d), s') \<Rightarrow> (Inr (Some d), become_local s')
      | other \<Rightarrow> other)"

definition ask_for_mode :: "outside \<Rightarrow> store_faults \<Rightarrow> mode_choice \<Rightarrow> str option \<Rightarrow> shell \<Rightarrow> shell" where
  "ask_for_mode ot faults choice picked s =
     (case choice of
        Choose_Local \<Rightarrow> snd (pick_local_folder ot faults picked s)
      | Choose_Remote \<Rightarrow> tell (Navigate Connect) (release_remote s)
      | Choose_Cancel \<Rightarrow> s)"

definition connect_remote :: "outside \<Rightarrow> store_faults \<Rightarrow> str \<Rightarrow> bool \<Rightarrow> shell \<Rightarrow> str option result \<times> shell" where
  "connect_remote ot faults url confirmed s =
     (case parse_remote_origin (ot_url_parse ot) url of
        Inl e \<Rightarrow> (Inl e, s)
      | Inr orig \<Rightarrow>
          if map_option ho_origin (sl_remote s) = Some orig then (Inr (Some orig), s)
          else if confirmed then (Inr (Some orig), adopt_remote ot faults orig True True s)
          else (Inr None, s))"

section \<open>Startup\<close>

definition LIBRARY_DIR_ENV :: str where "LIBRARY_DIR_ENV = lit ''SPM_LIBRARY_DIR''"
definition REMOTE_URL_ENV :: str where "REMOTE_URL_ENV = lit ''SPM_REMOTE_URL''"

definition env_value :: "str option \<Rightarrow> str option" where
  "env_value v = (case v of Some [] \<Rightarrow> None | _ \<Rightarrow> v)"

definition resolve_library_dir :: "(str \<Rightarrow> str) \<Rightarrow> (str \<Rightarrow> str option) \<Rightarrow> str option" where
  "resolve_library_dir absolute env = map_option absolute (env_value (env LIBRARY_DIR_ENV))"

datatype plan_source = From_Env | From_Memory

datatype startup_plan = Plan_Local plan_source str | Plan_Remote plan_source str | Plan_Picker prompt_reason | Plan_Ask

definition plan_startup :: "outside \<Rightarrow> (str \<Rightarrow> str option) \<Rightarrow> (str \<Rightarrow> bool) \<Rightarrow> doc_disk \<Rightarrow> startup_plan result" where
  "plan_startup ot env is_directory d =
     (case (resolve_library_dir (ot_absolute ot) env, env_value (env REMOTE_URL_ENV)) of
        (Some _, Some _) \<Rightarrow>
          Inl (conflict (LIBRARY_DIR_ENV @ lit '' and '' @ REMOTE_URL_ENV @ lit '' are both set; they name two different libraries''))
      | (Some dir, None) \<Rightarrow> Inr (Plan_Local From_Env dir)
      | (None, Some raw) \<Rightarrow> bindE (parse_remote_origin (ot_url_parse ot) raw) (\<lambda>orig. Inr (Plan_Remote From_Env orig))
      | (None, None) \<Rightarrow>
          (let state = read_state (ot_parse ot) (ot_state_file ot) d in
           case read_remembered_mode state of
             None \<Rightarrow> Inr Plan_Ask
           | Some Keep_Remote \<Rightarrow>
               (case read_remembered_remote state of
                  None \<Rightarrow> Inr Plan_Ask
                | Some orig \<Rightarrow>
                    (case parse_remote_origin (ot_url_parse ot) orig of
                       Inr orig \<Rightarrow> Inr (Plan_Remote From_Memory orig)
                     | Inl _ \<Rightarrow> Inr Plan_Ask))
           | Some Keep_Local \<Rightarrow>
               (case read_remembered_dir state of
                  None \<Rightarrow> Inr Plan_Ask
                | Some remembered \<Rightarrow>
                    if is_directory remembered then Inr (Plan_Local From_Memory remembered)
                    else Inr (Plan_Picker (Missing_Dir remembered)))))"

datatype start_outcome = Opened_At_Start | Ask_First "prompt_reason option"

definition start_shell ::
  "outside \<Rightarrow> store_faults \<Rightarrow> (str \<Rightarrow> str option) \<Rightarrow> (str \<Rightarrow> bool) \<Rightarrow> shell \<Rightarrow> start_outcome result \<times> shell" where
  "start_shell ot faults env is_directory s =
     (case plan_startup ot env is_directory (sl_disk s) of
        Inl e \<Rightarrow> (Inl e, s)
      | Inr Plan_Ask \<Rightarrow> (Inr (Ask_First None), s)
      | Inr (Plan_Remote _ orig) \<Rightarrow> (Inr Opened_At_Start, adopt_remote ot faults orig False False s)
      | Inr (Plan_Picker reason) \<Rightarrow> (Inr (Ask_First (Some reason)), s)
      | Inr (Plan_Local source dir) \<Rightarrow>
          (case host_open ot faults dir (source \<noteq> From_Env) s of
             (Inr _, s') \<Rightarrow> (Inr Opened_At_Start, become_local s')
           | (Inl e, s') \<Rightarrow>
               if source = From_Env then (Inl e, s')
               else (Inr (Ask_First (Some (unopenable_reason dir e))), s')))"

definition shutdown :: "shell \<Rightarrow> shell" where
  "shutdown s = close_current (release_remote s)"

section \<open>The commands in any order\<close>

datatype shell_op =
    Start store_faults "str \<Rightarrow> str option" "str \<Rightarrow> bool"
  | Ask_Mode store_faults mode_choice "str option"
  | Pick_Folder store_faults "str option"
  | Connect_To store_faults str bool
  | Adoption nat
  | Serve_Request "upstream_request \<Rightarrow> str + server_answer" proxy_request
  | Shut_Down

definition serve_request :: "outside \<Rightarrow> (upstream_request \<Rightarrow> str + server_answer) \<Rightarrow> proxy_request \<Rightarrow> shell \<Rightarrow> shell" where
  "serve_request ot upstream rq s =
     s\<lparr>sl_remote := vw_remote (snd (dispatch_api (ot_parse ot) (ot_print ot) (ot_url_parse ot) upstream rq (view_of ot s)))\<rparr>"

fun shell_step :: "outside \<Rightarrow> shell_op \<Rightarrow> shell \<Rightarrow> shell" where
  "shell_step ot (Start faults env is_directory) s = snd (start_shell ot faults env is_directory s)"
| "shell_step ot (Ask_Mode faults choice picked) s = ask_for_mode ot faults choice picked s"
| "shell_step ot (Pick_Folder faults picked) s = snd (pick_local_folder ot faults picked s)"
| "shell_step ot (Connect_To faults url confirmed) s = snd (connect_remote ot faults url confirmed s)"
| "shell_step ot (Adoption generation) s = adoption_found generation s"
| "shell_step ot (Serve_Request upstream rq) s = serve_request ot upstream rq s"
| "shell_step ot Shut_Down s = shutdown s"

definition shell_run :: "outside \<Rightarrow> shell_op list \<Rightarrow> shell \<Rightarrow> shell" where
  "shell_run ot ops s = foldl (\<lambda>s op. shell_step ot op s) s ops"

named_theorems shell_defs

lemmas [shell_defs] = start_shell_def ask_for_mode_def pick_local_folder_def prompt_folder_def connect_remote_def
  adoption_found_def serve_request_def shutdown_def host_open_def release_folder_def library_changed_def tell_def remember_def
  close_current_def release_remote_def become_local_def adopt_remote_def Let_def

section \<open>A folder or a server, never both\<close>

definition shell_ok :: "shell \<Rightarrow> bool" where
  "shell_ok s \<longleftrightarrow> (sl_remote s = None \<or> sl_current s = None) \<and>
     (case sl_remote s of None \<Rightarrow> True | Some h \<Rightarrow> \<not> ho_closed h \<and> jar_ok (ho_jar h))"

lemma proxied_kept:
  "ho_origin (snd (proxy_request_of parse print url_parse upstream h rq)) = ho_origin h \<and>
   ho_closed (snd (proxy_request_of parse print url_parse upstream h rq)) = ho_closed h \<and>
   (jar_ok (ho_jar h) \<longrightarrow> jar_ok (ho_jar (snd (proxy_request_of parse print url_parse upstream h rq))))"
  using proxied_host [of parse print url_parse upstream h rq] absorb_ok by (auto simp: absorb_cookies_def)

lemma served_remote:
  "sl_remote (serve_request ot upstream rq s) =
     map_option (\<lambda>h. snd (proxy_request_of (ot_parse ot) (ot_print ot) (ot_url_parse ot) upstream h rq)) (sl_remote s)"
  by (auto simp: serve_request_def dispatch_api_def view_of_def Let_def split: option.splits prod.splits)

lemma served_current: "sl_current (serve_request ot upstream rq s) = sl_current s" "sl_disk (serve_request ot upstream rq s) = sl_disk s"
  by (simp_all add: serve_request_def)

lemma host_open_remote: "sl_remote (snd (host_open ot faults dir r s)) = sl_remote s"
  by (auto simp: shell_defs split: sum.splits option.splits)

lemma become_local_remote: "sl_remote (become_local s) = None"
  by (simp add: shell_defs)

lemma host_open_fails: "host_open ot faults dir r s = (Inl e, s') \<Longrightarrow> s' = s"
  by (auto simp: host_open_def Let_def split: sum.splits if_splits)

lemma pick_cases:
  obtains d s' where "host_open ot faults d True s = (Inr (ot_absolute ot d), s')" "pick_local_folder ot faults picked s = (Inr (Some (ot_absolute ot d)), become_local s')"
  | "snd (pick_local_folder ot faults picked s) = s" "\<forall>d. fst (pick_local_folder ot faults picked s) \<noteq> Inr (Some d)"
proof (cases picked)
  case None
  then show ?thesis using that(2) by (simp add: pick_local_folder_def prompt_folder_def)
next
  case (Some d)
  obtain r s' where opened: "host_open ot faults d True s = (r, s')" by (metis surj_pair)
  show ?thesis
  proof (cases r)
    case (Inl e)
    then have "s' = s" using opened host_open_fails by blast
    then show ?thesis using that(2) Some Inl opened by (simp add: pick_local_folder_def prompt_folder_def)
  next
    case (Inr d')
    then have "d' = ot_absolute ot d" using opened by (auto simp: host_open_def Let_def split: sum.splits if_splits)
    then show ?thesis using that(1) [of d s'] Some Inr opened by (simp add: pick_local_folder_def prompt_folder_def)
  qed
qed

lemma adopt_ok: "shell_ok (adopt_remote ot faults orig r p s)"
  by (auto simp: shell_defs shell_ok_def new_host_def jar_ok_def split: option.splits)

lemma become_local_ok: "shell_ok (become_local s)"
  by (simp add: shell_ok_def become_local_remote)

text \<open>What a step makes of the connected server.\<close>

lemma pick_remote: "sl_remote (snd (pick_local_folder ot faults picked s)) = None \<or> snd (pick_local_folder ot faults picked s) = s"
  by (rule pick_cases [of ot faults s picked]) (simp_all add: become_local_remote)

lemma pick_ok: "shell_ok s \<Longrightarrow> shell_ok (snd (pick_local_folder ot faults picked s))"
  by (rule pick_cases [of ot faults s picked]) (simp_all add: become_local_ok)

lemma start_cases:
  obtains "snd (start_shell ot faults env is_directory s) = s"
  | orig source where "plan_startup ot env is_directory (sl_disk s) = Inr (Plan_Remote source orig)"
      "snd (start_shell ot faults env is_directory s) = adopt_remote ot faults orig False False s"
  | dir r s' where "host_open ot faults dir r s = (Inr (ot_absolute ot dir), s')"
      "snd (start_shell ot faults env is_directory s) = become_local s'"
proof (cases "plan_startup ot env is_directory (sl_disk s)")
  case (Inr plan)
  show ?thesis
  proof (cases plan)
    case (Plan_Local source dir)
    obtain r s' where opened: "host_open ot faults dir (source \<noteq> From_Env) s = (r, s')" by (metis surj_pair)
    show ?thesis
    proof (cases r)
      case (Inl e)
      then have "s' = s" using opened host_open_fails by blast
      then show ?thesis using that(1) Inr Plan_Local Inl opened by (simp add: start_shell_def)
    next
      case (Inr d')
      then have "d' = ot_absolute ot dir" using opened by (auto simp: host_open_def Let_def split: sum.splits if_splits)
      then show ?thesis using that(3) [of dir _ s'] Inr opened \<open>plan_startup _ _ _ _ = _\<close> Plan_Local by (simp add: start_shell_def)
    qed
  next
    case (Plan_Remote source orig)
    then show ?thesis using that(2) Inr by (simp add: start_shell_def)
  qed (use that(1) Inr in \<open>simp_all add: start_shell_def\<close>)
qed (use that(1) in \<open>simp add: start_shell_def\<close>)

lemma shell_ok_step:
  assumes ok: "shell_ok s"
  shows "shell_ok (shell_step ot op s)"
proof (cases op)
  case (Start faults env is_directory)
  show ?thesis
    by (rule start_cases [of ot faults env is_directory s]) (simp_all add: Start ok adopt_ok become_local_ok)
next
  case (Ask_Mode faults choice picked)
  with ok show ?thesis
    by (cases choice) (simp_all add: ask_for_mode_def pick_ok, simp add: shell_ok_def shell_defs)
next
  case (Connect_To faults url confirmed)
  with ok show ?thesis
    by (auto simp: connect_remote_def adopt_ok split: sum.splits)
next
  case (Serve_Request upstream rq)
  with ok show ?thesis
    using proxied_kept by (cases "sl_remote s") (simp_all add: shell_ok_def served_remote served_current)
next
  case (Adoption generation)
  with ok show ?thesis by (simp add: shell_ok_def shell_defs)
next
  case Shut_Down
  with ok show ?thesis by (auto simp: shell_ok_def shell_defs split: option.splits)
qed (use ok in \<open>simp add: pick_ok\<close>)

lemma shell_ok_run: "shell_ok s \<Longrightarrow> shell_ok (shell_run ot ops s)"
  by (induction ops arbitrary: s) (simp_all add: shell_run_def shell_ok_step)


section \<open>Which server the app talks to\<close>

lemma read_state_after:
  assumes "\<forall>j. parse (print j @ [10]) = Some j"
  shows "read_state parse p (remember_choice parse print pid p faults mode target d) \<in>
     {read_state parse p d, set_choice mode target (read_state parse p d)}"
    and "faults = (\<lambda>_. None) \<Longrightarrow> read_state parse p (remember_choice parse print pid p faults mode target d) =
      set_choice mode target (read_state parse p d)"
proof -
  let ?new = "JObj (set_choice mode target (read_state parse p d))"
  obtain failed ds where w: "write_json_file_with faults pid p (Inr (print ?new)) d = (failed, ds)" by (metis surj_pair)
  have same: "read_state parse p x = read_state parse p d" if "on_the_way p printed d x" for x printed
    using that by (simp add: on_the_way_def read_state_def)
  have new: "read_state parse p x = set_choice mode target (read_state parse p d)" if "replaced p (Inr (print ?new)) d x" for x
    using that assms by (auto simp: replaced_def read_state_def)
  have way: "on_the_way p (Inr (print ?new)) d (last (d # ds))" if "failed = Some e" for e
  proof -
    have "\<forall>x \<in> set (d # ds). on_the_way p (Inr (print ?new)) d x"
      using writer_facts [OF w] that by (auto simp: on_the_way_def)
    then show ?thesis using last_in_set [of "d # ds"] by blast
  qed
  have none: "failed = None \<Longrightarrow> replaced p (Inr (print ?new)) d (last (d # ds))" using writer_facts [OF w] by auto
  have after: "remember_choice parse print pid p faults mode target d = last (d # ds)"
    using w by (simp add: remember_choice_def written_disk_def)
  show "read_state parse p (remember_choice parse print pid p faults mode target d) \<in>
     {read_state parse p d, set_choice mode target (read_state parse p d)}"
    unfolding after using way none same new by (cases failed) blast+
  show "read_state parse p (remember_choice parse print pid p faults mode target d) = set_choice mode target (read_state parse p d)"
    if "faults = (\<lambda>_. None)"
  proof -
    have "failed = None" using w that by (auto simp: write_json_file_with_def write_steps_def write_temp_def Let_def)
    then show ?thesis unfolding after using none new by blast
  qed
qed

lemma remembered_choice:
  "read_remembered_remote (set_choice Keep_Remote target state) = (if target = [] then None else Some target)"
  "read_remembered_remote (set_choice Keep_Local target state) = read_remembered_remote state"
  "read_remembered_dir (set_choice Keep_Local target state) = (if target = [] then None else Some target)"
  "read_remembered_mode (set_choice mode target state) = Some mode"
  by (cases mode; simp add: read_remembered_remote_def read_remembered_dir_def read_remembered_mode_def read_string_def set_choice_def
      update_conv' REMEMBERED_DIR_KEY_def REMOTE_URL_KEY_def MODE_KEY_def lit_def; fail)+

text \<open>What the operator, the memory of the app or the user named.\<close>

fun named_by :: "shell_op \<Rightarrow> str list" where
  "named_by (Start faults env is_directory) = (case env_value (env REMOTE_URL_ENV) of Some raw \<Rightarrow> [raw] | None \<Rightarrow> [])"
| "named_by (Connect_To faults url confirmed) = (if confirmed then [url] else [])"
| "named_by _ = []"

definition remembered_remote :: "outside \<Rightarrow> doc_disk \<Rightarrow> str option" where
  "remembered_remote ot d = read_remembered_remote (read_state (ot_parse ot) (ot_state_file ot) d)"

definition origins_of :: "outside \<Rightarrow> str set \<Rightarrow> str set" where
  "origins_of ot raws = {orig. \<exists>raw \<in> raws. parse_remote_origin (ot_url_parse ot) raw = Inr orig}"

definition origin_named :: "outside \<Rightarrow> str set \<Rightarrow> shell \<Rightarrow> bool" where
  "origin_named ot raws s \<longleftrightarrow>
     (\<forall>h. sl_remote s = Some h \<longrightarrow> ho_origin h \<in> origins_of ot raws) \<and>
     (\<forall>r orig. remembered_remote ot (sl_disk s) = Some r \<and> parse_remote_origin (ot_url_parse ot) r = Inr orig \<longrightarrow> orig \<in> origins_of ot raws)"

definition round_trips :: "outside \<Rightarrow> bool" where
  "round_trips ot \<longleftrightarrow> (\<forall>j. ot_parse ot (ot_print ot j @ [10]) = Some j)"

lemma remember_local_named: "round_trips ot \<Longrightarrow> origin_named ot raws s \<Longrightarrow> origin_named ot raws (remember ot faults Keep_Local target s)"
proof -
  assume trips: "round_trips ot" and named: "origin_named ot raws s"
  have "remembered_remote ot (sl_disk (remember ot faults Keep_Local target s)) = remembered_remote ot (sl_disk s)"
    using read_state_after(1) [OF trips [unfolded round_trips_def], of "ot_state_file ot" "ot_pid ot" faults Keep_Local target "sl_disk s"]
    by (auto simp: remember_def remembered_remote_def remembered_choice)
  moreover have "sl_remote (remember ot faults Keep_Local target s) = sl_remote s" by (simp add: remember_def)
  ultimately show ?thesis using named unfolding origin_named_def by auto
qed

lemma remember_remote_named:
  assumes "round_trips ot" "origin_named ot raws s" "orig \<in> origins_of ot raws" "\<forall>raw o'. parse_remote_origin (ot_url_parse ot) raw = Inr o' \<longrightarrow> parse_remote_origin (ot_url_parse ot) o' = Inr o'"
  shows "origin_named ot raws (remember ot faults Keep_Remote orig s)"
proof -
  have "remembered_remote ot (sl_disk (remember ot faults Keep_Remote orig s)) \<in> {remembered_remote ot (sl_disk s), None, Some orig}"
    using read_state_after(1) [OF assms(1) [unfolded round_trips_def], of "ot_state_file ot" "ot_pid ot" faults Keep_Remote orig "sl_disk s"]
    by (auto simp: remember_def remembered_remote_def remembered_choice split: if_splits)
  moreover have "parse_remote_origin (ot_url_parse ot) orig = Inr orig" using assms(3,4) by (auto simp: origins_of_def)
  moreover have "sl_remote (remember ot faults Keep_Remote orig s) = sl_remote s" by (simp add: remember_def)
  ultimately show ?thesis using assms(2,3) by (auto simp: origin_named_def)
qed

lemma origin_named_same: "sl_disk t = sl_disk s \<Longrightarrow> sl_remote t = None \<Longrightarrow> origin_named ot raws s \<Longrightarrow> origin_named ot raws t"
  unfolding origin_named_def by auto

lemma origin_named_cong: "sl_disk t = sl_disk s \<Longrightarrow> sl_remote t = sl_remote s \<Longrightarrow> origin_named ot raws s \<Longrightarrow> origin_named ot raws t"
  unfolding origin_named_def by auto

lemma released_same: "sl_disk (release_folder s) = sl_disk s" "sl_remote (release_folder s) = sl_remote s"
  by (simp_all add: release_folder_def split: option.splits)

lemma told_same: "sl_disk (library_changed s) = sl_disk s" "sl_remote (library_changed s) = sl_remote s"
    "sl_disk (tell t s) = sl_disk s" "sl_remote (tell t s) = sl_remote s"
  by (simp_all add: library_changed_def tell_def)

lemma host_open_named:
  assumes "round_trips ot" "origin_named ot raws s"
  shows "origin_named ot raws (snd (host_open ot faults dir r s))"
proof -
  have step: "origin_named ot raws (library_changed (if r then remember ot faults Keep_Local d t else t))"
    if "sl_disk t = sl_disk s" "sl_remote t = sl_remote s" for t d
  proof -
    have "origin_named ot raws t" by (rule origin_named_cong [OF that assms(2)])
    then have "origin_named ot raws (if r then remember ot faults Keep_Local d t else t)" using remember_local_named [OF assms(1)] by simp
    then show ?thesis by (rule origin_named_cong [OF told_same(1,2)])
  qed
  let ?t = "\<lambda>session. (release_folder (s\<lparr>sl_generation := sl_generation s + 1\<rparr>))
      \<lparr>sl_current := Some \<lparr>of_dir = ot_absolute ot dir, of_session = session\<rparr>\<rparr>"
  have "origin_named ot raws (library_changed (if r then remember ot faults Keep_Local (ot_absolute ot dir) (?t session) else ?t session))" for session
    by (rule step) (simp_all add: released_same)
  then show ?thesis
    using assms(2) by (cases r; cases "ot_open ot (ot_absolute ot dir)") (simp_all add: host_open_def Let_def)
qed

lemma become_local_named: "origin_named ot raws s \<Longrightarrow> origin_named ot raws (become_local s)"
  by (rule origin_named_same) (simp_all add: become_local_remote, simp add: become_local_def told_same release_remote_def)

lemma adopt_named:
  assumes "round_trips ot" "origin_named ot raws s" "orig \<in> origins_of ot raws"
    "\<forall>raw o'. parse_remote_origin (ot_url_parse ot) raw = Inr o' \<longrightarrow> parse_remote_origin (ot_url_parse ot) o' = Inr o'"
  shows "origin_named ot raws (adopt_remote ot faults orig r p s)"
proof -
  let ?t = "(close_current (release_remote s))\<lparr>sl_remote := Some (new_host orig)\<rparr>"
  have "origin_named ot raws ?t"
    using assms(2,3) unfolding origin_named_def by (auto simp: close_current_def released_same release_remote_def new_host_def)
  then have "origin_named ot raws (if r then remember ot faults Keep_Remote orig ?t else ?t)"
    using remember_remote_named [OF assms(1) _ assms(3,4)] by simp
  from origin_named_cong [OF told_same(3,4) this] this show ?thesis by (auto simp: adopt_remote_def Let_def)
qed

lemma pick_named:
  "round_trips ot \<Longrightarrow> origin_named ot raws s \<Longrightarrow> origin_named ot raws (snd (pick_local_folder ot faults picked s))"
proof -
  assume facts: "round_trips ot" "origin_named ot raws s"
  show ?thesis
  proof (rule pick_cases [of ot faults s picked])
    fix d s'
    assume opened: "host_open ot faults d True s = (Inr (ot_absolute ot d), s')"
      "pick_local_folder ot faults picked s = (Inr (Some (ot_absolute ot d)), become_local s')"
    have "origin_named ot raws s'" using host_open_named [OF facts, of faults d True] opened(1) by simp
    then show ?thesis using become_local_named opened(2) by simp
  qed (use facts in simp)
qed

lemma plan_named:
  assumes "plan_startup ot env is_directory (sl_disk s) = Inr (Plan_Remote source orig)" "origin_named ot raws s"
    "set (case env_value (env REMOTE_URL_ENV) of Some raw \<Rightarrow> [raw] | None \<Rightarrow> []) \<subseteq> raws"
  shows "orig \<in> origins_of ot raws"
proof (cases "env_value (env REMOTE_URL_ENV)")
  case (Some raw)
  then have "parse_remote_origin (ot_url_parse ot) raw = Inr orig"
    using assms(1) by (auto simp: plan_startup_def bindE_eq_Inr split: option.splits)
  then show ?thesis using Some assms(3) by (auto simp: origins_of_def)
next
  case None
  then have "\<exists>r. remembered_remote ot (sl_disk s) = Some r \<and> parse_remote_origin (ot_url_parse ot) r = Inr orig"
    using assms(1) by (auto simp: plan_startup_def remembered_remote_def Let_def split: option.splits mode_kept.splits sum.splits if_splits)
  then show ?thesis using assms(2) unfolding origin_named_def by blast
qed

lemma origin_named_step:
  assumes "round_trips ot" "\<forall>raw o'. parse_remote_origin (ot_url_parse ot) raw = Inr o' \<longrightarrow> parse_remote_origin (ot_url_parse ot) o' = Inr o'"
    and named: "origin_named ot raws s" and raws: "set (named_by op) \<subseteq> raws"
  shows "origin_named ot raws (shell_step ot op s)"
proof (cases op)
  case (Start faults env is_directory)
  show ?thesis
  proof (rule start_cases [of ot faults env is_directory s])
    fix orig source
    assume plan: "plan_startup ot env is_directory (sl_disk s) = Inr (Plan_Remote source orig)"
      "snd (start_shell ot faults env is_directory s) = adopt_remote ot faults orig False False s"
    have "orig \<in> origins_of ot raws" using plan_named [OF plan(1) named] raws Start by simp
    from adopt_named [OF assms(1) named this assms(2)] show ?thesis using plan(2) Start by simp
  next
    fix dir r s'
    assume opened: "host_open ot faults dir r s = (Inr (ot_absolute ot dir), s')"
      "snd (start_shell ot faults env is_directory s) = become_local s'"
    have "origin_named ot raws s'" using host_open_named [OF assms(1) named, of faults dir r] opened(1) by simp
    then show ?thesis using become_local_named opened(2) Start by simp
  qed (use Start named in simp)
next
  case (Ask_Mode faults choice picked)
  have "origin_named ot raws (tell (Navigate Connect) (release_remote s))"
    by (rule origin_named_same [OF _ _ named]) (simp_all add: told_same release_remote_def)
  then show ?thesis using Ask_Mode named pick_named [OF assms(1) named] by (cases choice) (simp_all add: ask_for_mode_def)
next
  case (Connect_To faults url confirmed)
  have "origin_named ot raws (adopt_remote ot faults orig True True s)"
    if "parse_remote_origin (ot_url_parse ot) url = Inr orig" confirmed for orig
  proof (rule adopt_named [OF assms(1) named _ assms(2)])
    show "orig \<in> origins_of ot raws" using that raws Connect_To by (auto simp: origins_of_def)
  qed
  then show ?thesis using Connect_To named by (auto simp: connect_remote_def split: sum.splits)
next
  case (Serve_Request upstream rq)
  have "map_option ho_origin (sl_remote (serve_request ot upstream rq s)) = map_option ho_origin (sl_remote s)"
    using proxied_kept by (cases "sl_remote s") (simp_all add: served_remote)
  then have "\<forall>h. sl_remote (serve_request ot upstream rq s) = Some h \<longrightarrow> ho_origin h \<in> origins_of ot raws"
    using named unfolding origin_named_def by (metis (no_types, lifting) map_option_eq_Some)
  then show ?thesis using named Serve_Request unfolding origin_named_def by (auto simp: served_current)
next
  case (Adoption generation)
  then show ?thesis using origin_named_cong [OF told_same(1,2) named] named by (simp add: adoption_found_def)
next
  case Shut_Down
  have "origin_named ot raws (shutdown s)"
    by (rule origin_named_same [OF _ _ named]) (simp_all add: shutdown_def close_current_def released_same release_remote_def)
  then show ?thesis using Shut_Down by simp
qed (use pick_named [OF assms(1) named] in simp)

text \<open>C37
  The server the app talks to is always one that the operator named in the environment, that was
  remembered before, or that the user confirmed by its address in the app's own dialog: no sequence of
  requests of the page makes the app connect anywhere else.
\<close>

theorem server_was_named:
  assumes "round_trips ot"
    and "\<forall>raw orig. parse_remote_origin (ot_url_parse ot) raw = Inr orig \<longrightarrow> parse_remote_origin (ot_url_parse ot) orig = Inr orig"
    and "sl_remote (shell_run ot ops (new_shell d)) = Some h"
  shows "\<exists>raw \<in> set (concat (map named_by ops)) \<union> set_option (remembered_remote ot d).
    parse_remote_origin (ot_url_parse ot) raw = Inr (ho_origin h)"
proof -
  let ?raws = "set (concat (map named_by ops)) \<union> set_option (remembered_remote ot d)"
  have run: "origin_named ot raws (shell_run ot ops s)" if "origin_named ot raws s" "set (concat (map named_by ops)) \<subseteq> raws" for raws s ops
    using that origin_named_step [OF assms(1,2)] by (induction ops arbitrary: s) (simp_all add: shell_run_def)
  have "origin_named ot ?raws (new_shell d)"
    unfolding origin_named_def by (auto simp: new_shell_def origins_of_def)
  from run [OF this, of ops] show ?thesis using assms(3) by (auto simp: origin_named_def origins_of_def)
qed

lemma planned_again:
  assumes "round_trips ot" "env_value (env LIBRARY_DIR_ENV) = None" "env_value (env REMOTE_URL_ENV) = None" "target \<noteq> []"
    and "d' = remember_choice (ot_parse ot) (ot_print ot) (ot_pid ot) (ot_state_file ot) (\<lambda>_. None) mode target d"
  shows "plan_startup ot env is_directory d' =
    (case mode of
       Keep_Remote \<Rightarrow> (case parse_remote_origin (ot_url_parse ot) target of Inr orig \<Rightarrow> Inr (Plan_Remote From_Memory orig) | Inl _ \<Rightarrow> Inr Plan_Ask)
     | Keep_Local \<Rightarrow> Inr (if is_directory target then Plan_Local From_Memory target else Plan_Picker (Missing_Dir target)))"
proof -
  have "read_state (ot_parse ot) (ot_state_file ot) d' = set_choice mode target (read_state (ot_parse ot) (ot_state_file ot) d)"
    using read_state_after(2) [OF assms(1) [unfolded round_trips_def]] assms(5) by simp
  then show ?thesis
    using assms(2-4) by (cases mode) (simp_all add: plan_startup_def resolve_library_dir_def remembered_choice Let_def)
qed


section \<open>Witnesses\<close>

definition sample_address :: "str \<Rightarrow> web_url option" where
  "sample_address s = (if s = lit ''http://h''
     then Some \<lparr>wu_scheme = lit ''http'', wu_username = [], wu_password = None, wu_host = Some (lit ''h''), wu_path = lit ''/'',
            wu_query = None, wu_fragment = None, wu_origin = lit ''http://h''\<rparr>
     else None)"

definition sample_outside :: outside where
  "sample_outside = \<lparr>ot_parse = (\<lambda>bs. Some (from_nat (length bs - 1))), ot_print = (\<lambda>j. replicate (to_nat j) 0),
     ot_url_parse = sample_address, ot_pid = 7, ot_state_file = lit ''s'', ot_absolute = (\<lambda>d. d),
     ot_open = (\<lambda>_. Inr \<lparr>ctx_user_id = lit ''u'', ctx_is_admin = True\<rparr>), ot_router = (\<lambda>_ _. not_found_page)\<rparr>"

definition empty_doc_disk :: doc_disk where
  "empty_doc_disk = \<lparr>dd_files = (\<lambda>_. None), dd_undo = None\<rparr>"

lemma sample_trips: "round_trips sample_outside"
  by (simp add: round_trips_def sample_outside_def)

lemma sample_origin: "parse_remote_origin sample_address (lit ''http://h'') = Inr (lit ''http://h'')"
  by (simp add: parse_remote_origin_def sample_address_def rust_trim_def is_whitespace_def typed_path_def after_separator_def
      starts_with_def lit_def upt_rec)

lemma sample_origin_stable: "parse_remote_origin sample_address raw = Inr orig \<Longrightarrow> parse_remote_origin sample_address orig = Inr orig"
proof -
  assume "parse_remote_origin sample_address raw = Inr orig"
  then have "orig = lit ''http://h''"
    by (auto simp: parse_remote_origin_def sample_address_def Let_def split: if_splits)
  then show ?thesis by (simp add: sample_origin)
qed

definition sample_connected :: shell where
  "sample_connected = adopt_remote sample_outside (\<lambda>_. None) (lit ''http://h'') True True (new_shell empty_doc_disk)"

lemma sample_connects: "connect_remote sample_outside (\<lambda>_. None) (lit ''http://h'') True (new_shell empty_doc_disk) =
    (Inr (Some (lit ''http://h'')), sample_connected)"
  using sample_origin by (simp add: connect_remote_def sample_connected_def new_shell_def sample_outside_def)

lemma server_was_named_witness:
  "\<exists>raw \<in> {lit ''http://h''}. parse_remote_origin sample_address raw = Inr (lit ''http://h'')"
proof -
  have "sl_remote (shell_run sample_outside [Connect_To (\<lambda>_. None) (lit ''http://h'') True] (new_shell empty_doc_disk)) =
      Some (new_host (lit ''http://h''))"
    using sample_connects by (simp add: shell_run_def) (simp add: sample_connected_def adopt_remote_def Let_def told_same remember_def)
  from server_was_named [OF sample_trips _ this] sample_origin_stable show ?thesis
    by (auto simp: sample_outside_def new_host_def remembered_remote_def read_state_def empty_doc_disk_def
        read_remembered_remote_def read_string_def)
qed


end
