(* ===== verification/Connecting.thy ===== *)
theory Connecting
  imports Prelude
begin

text \<open>
  Several callers at once: the shared question of \<^verbatim>\<open>crates/spm-shell/src/sync.rs\<close> and the callers of
  \<^verbatim>\<open>Shell::connect_remote\<close> in \<^verbatim>\<open>shell.rs\<close>, each a thread that takes one step at a time under the locks
  the code takes. Properties: one question at a time, and no caller hears of a connection the user
  did not confirm; and what the check for a pending connection misses.
\<close>

section \<open>One question shared\<close>

datatype 'a flight_outcome = Pending | Ready 'a | Abandoned

text \<open>A flight is named by the caller that leads it and a count of the flights so far.\<close>

record 'a single_flight =
  sf_current :: "nat option"
  sf_outcomes :: "'a flight_outcome list"

definition no_flight :: "'a single_flight" where
  "no_flight = \<lparr>sf_current = None, sf_outcomes = []\<rparr>"

text \<open>Joining: the open flight, or a new one that the caller leads.\<close>

definition sf_join :: "'a single_flight \<Rightarrow> (nat \<times> bool) \<times> 'a single_flight" where
  "sf_join f =
     (case sf_current f of
        Some i \<Rightarrow> ((i, False), f)
      | None \<Rightarrow> ((length (sf_outcomes f), True),
          f\<lparr>sf_current := Some (length (sf_outcomes f)), sf_outcomes := sf_outcomes f @ [Pending]\<rparr>))"

definition sf_answer :: "nat \<Rightarrow> 'a \<Rightarrow> 'a single_flight \<Rightarrow> 'a single_flight" where
  "sf_answer i a f = f\<lparr>sf_outcomes := (sf_outcomes f)[i := Ready a]\<rparr>"

text \<open>The guard of the leader, however it ends.\<close>

definition sf_leave :: "nat \<Rightarrow> 'a single_flight \<Rightarrow> 'a single_flight" where
  "sf_leave i f =
     f\<lparr>sf_outcomes := (if i < length (sf_outcomes f) \<and> sf_outcomes f ! i = Pending then (sf_outcomes f)[i := Abandoned] else sf_outcomes f),
       sf_current := (if sf_current f = Some i then None else sf_current f)\<rparr>"

definition is_open :: "'a single_flight \<Rightarrow> bool" where
  "is_open f \<longleftrightarrow> sf_current f \<noteq> None"

section \<open>The callers of a connection\<close>

datatype connect_answer = Connected str | Declined | Conflicted

datatype caller =
    Absent
  | Called str
  | Checked str
  | Passed str
  | Leading str nat
  | Adopted str nat connect_answer
  | Cleared str nat connect_answer
  | Leaving str nat connect_answer
  | Waiting str nat
  | Answered str connect_answer

record connecting =
  cn_callers :: "caller list"
  cn_remote :: "str option"
  cn_connecting_to :: "str option"
  cn_flight :: "connect_answer single_flight"
  cn_dialogs :: "(str \<times> bool) list"

definition connecting_start :: "nat \<Rightarrow> str option \<Rightarrow> connecting" where
  "connecting_start n remote =
     \<lparr>cn_callers = replicate n Absent, cn_remote = remote, cn_connecting_to = None, cn_flight = no_flight, cn_dialogs = []\<rparr>"

text \<open>A step: caller \<open>i\<close> calls with an origin, or goes on; the leader goes on with the answer of the
  user, or with none when it panics.\<close>

datatype move = Call nat str | Go nat "bool option"

definition put_caller :: "nat \<Rightarrow> caller \<Rightarrow> connecting \<Rightarrow> connecting" where
  "put_caller i c s = s\<lparr>cn_callers := (cn_callers s)[i := c]\<rparr>"

definition go_on :: "nat \<Rightarrow> bool option \<Rightarrow> connecting \<Rightarrow> connecting" where
  "go_on i user s =
     (case cn_callers s ! i of
        Called orig \<Rightarrow>
          if cn_remote s = Some orig then put_caller i (Answered orig (Connected orig)) s
          else put_caller i (Checked orig) s
      | Checked orig \<Rightarrow>
          (case cn_connecting_to s of
             Some other \<Rightarrow>
               if other \<noteq> orig then put_caller i (Answered orig Conflicted) s else put_caller i (Passed orig) s
           | None \<Rightarrow> put_caller i (Passed orig) (s\<lparr>cn_connecting_to := Some orig\<rparr>))
      | Passed orig \<Rightarrow>
          (case sf_join (cn_flight s) of
             ((n, leader), f) \<Rightarrow>
               if leader then put_caller i (Leading orig n) (s\<lparr>cn_flight := f\<rparr>)
               else put_caller i (Waiting orig n) s)
      | Leading orig n \<Rightarrow>
          (case user of
             None \<Rightarrow> put_caller i Absent (s\<lparr>cn_flight := sf_leave n (cn_flight s)\<rparr>)
           | Some confirmed \<Rightarrow>
               put_caller i (Adopted orig n (if confirmed then Connected orig else Declined))
                 (s\<lparr>cn_remote := (if confirmed then Some orig else cn_remote s), cn_dialogs := cn_dialogs s @ [(orig, confirmed)]\<rparr>))
      | Adopted orig n answer \<Rightarrow> put_caller i (Cleared orig n answer) (s\<lparr>cn_connecting_to := None\<rparr>)
      | Cleared orig n answer \<Rightarrow> put_caller i (Leaving orig n answer) (s\<lparr>cn_flight := sf_answer n answer (cn_flight s)\<rparr>)
      | Leaving orig n answer \<Rightarrow> put_caller i (Answered orig answer) (s\<lparr>cn_flight := sf_leave n (cn_flight s)\<rparr>)
      | Waiting orig n \<Rightarrow>
          (case sf_outcomes (cn_flight s) ! n of
             Ready answer \<Rightarrow> put_caller i (Answered orig answer) s
           | Abandoned \<Rightarrow> put_caller i (Passed orig) s
           | Pending \<Rightarrow> s)
      | _ \<Rightarrow> s)"

fun connect_move :: "move \<Rightarrow> connecting \<Rightarrow> connecting" where
  "connect_move (Call i orig) s =
     (if i < length (cn_callers s) \<and> cn_callers s ! i = Absent then put_caller i (Called orig) s else s)"
| "connect_move (Go i user) s = (if i < length (cn_callers s) then go_on i user s else s)"

definition connect_moves :: "move list \<Rightarrow> connecting \<Rightarrow> connecting" where
  "connect_moves ms s = foldl (\<lambda>s m. connect_move m s) s ms"

section \<open>One question at a time, and nobody connects unasked\<close>

text \<open>The flight a caller leads, and the answer a caller was given.\<close>

fun flight_led :: "caller \<Rightarrow> nat option" where
  "flight_led (Leading orig n) = Some n"
| "flight_led (Adopted orig n a) = Some n"
| "flight_led (Cleared orig n a) = Some n"
| "flight_led (Leaving orig n a) = Some n"
| "flight_led _ = None"

fun answer_of_caller :: "caller \<Rightarrow> connect_answer option" where
  "answer_of_caller (Adopted orig n a) = Some a"
| "answer_of_caller (Cleared orig n a) = Some a"
| "answer_of_caller (Leaving orig n a) = Some a"
| "answer_of_caller (Answered orig a) = Some a"
| "answer_of_caller _ = None"

definition was_confirmed :: "str option \<Rightarrow> connecting \<Rightarrow> connect_answer \<Rightarrow> bool" where
  "was_confirmed remote s a \<longleftrightarrow> (\<forall>orig. a = Connected orig \<longrightarrow> remote = Some orig \<or> (orig, True) \<in> set (cn_dialogs s))"

definition answers_ok :: "str option \<Rightarrow> connecting \<Rightarrow> bool" where
  "answers_ok remote s \<longleftrightarrow>
     (\<forall>orig. cn_remote s = Some orig \<longrightarrow> was_confirmed remote s (Connected orig)) \<and>
     (\<forall>a. Ready a \<in> set (sf_outcomes (cn_flight s)) \<longrightarrow> was_confirmed remote s a) \<and>
     (\<forall>c \<in> set (cn_callers s). \<forall>a. answer_of_caller c = Some a \<longrightarrow> was_confirmed remote s a)"

lemma confirmed_same: "cn_dialogs t = cn_dialogs s \<Longrightarrow> was_confirmed remote t a = was_confirmed remote s a"
  by (simp add: was_confirmed_def)

lemma confirmed_more: "set (cn_dialogs s) \<subseteq> set (cn_dialogs t) \<Longrightarrow> was_confirmed remote s a \<Longrightarrow> was_confirmed remote t a"
  by (auto simp: was_confirmed_def)

lemma put_fields: "cn_remote (put_caller i c s) = cn_remote s" "cn_dialogs (put_caller i c s) = cn_dialogs s"
    "cn_flight (put_caller i c s) = cn_flight s" "cn_callers (put_caller i c s) = (cn_callers s)[i := c]"
  by (simp_all add: put_caller_def)

lemma answers_put:
  assumes "answers_ok remote s" "\<forall>a. answer_of_caller c = Some a \<longrightarrow> was_confirmed remote s a"
  shows "answers_ok remote (put_caller i c s)"
proof -
  have "\<forall>d \<in> set ((cn_callers s)[i := c]). \<forall>a. answer_of_caller d = Some a \<longrightarrow> was_confirmed remote s a"
    using assms set_update_subset_insert [of "cn_callers s" i c] unfolding answers_ok_def by blast
  then show ?thesis
    using assms(1) unfolding answers_ok_def put_fields confirmed_same [OF put_fields(2)] by blast
qed

lemma answers_ok_change:
  assumes "answers_ok remote s" "cn_callers t = cn_callers s" "set (cn_dialogs s) \<subseteq> set (cn_dialogs t)"
    and "\<forall>orig. cn_remote t = Some orig \<longrightarrow> cn_remote s = Some orig \<or> was_confirmed remote t (Connected orig)"
    and "\<forall>a. Ready a \<in> set (sf_outcomes (cn_flight t)) \<longrightarrow> Ready a \<in> set (sf_outcomes (cn_flight s)) \<or> was_confirmed remote t a"
  shows "answers_ok remote t"
  using assms confirmed_more [OF assms(3), of remote] unfolding answers_ok_def by metis

lemma answers_okD:
  assumes "answers_ok remote s"
  shows "cn_remote s = Some orig \<Longrightarrow> was_confirmed remote s (Connected orig)"
    and "Ready a \<in> set (sf_outcomes (cn_flight s)) \<Longrightarrow> was_confirmed remote s a"
  using assms unfolding answers_ok_def by blast+

lemma leave_outcomes: "Ready a \<in> set (sf_outcomes (sf_leave n f)) \<Longrightarrow> Ready a \<in> set (sf_outcomes f)"
  using set_update_subset_insert [of "sf_outcomes f" n Abandoned] by (auto simp: sf_leave_def split: if_splits)

lemma join_outcomes: "sf_join f = (r, f') \<Longrightarrow> Ready a \<in> set (sf_outcomes f') \<Longrightarrow> Ready a \<in> set (sf_outcomes f)"
  by (auto simp: sf_join_def split: option.splits)

lemma answer_outcomes: "Ready b \<in> set (sf_outcomes (sf_answer n a f)) \<Longrightarrow> b = a \<or> Ready b \<in> set (sf_outcomes f)"
  using set_update_subset_insert [of "sf_outcomes f" n "Ready a"] by (auto simp: sf_answer_def)

text \<open>Every caller that waits, waits for a flight there is; one caller leads the open flight.\<close>

definition leaders_ok :: "connecting \<Rightarrow> bool" where
  "leaders_ok s \<longleftrightarrow>
     (\<forall>n. sf_current (cn_flight s) = Some n \<longrightarrow> n < length (sf_outcomes (cn_flight s))) \<and>
     (\<forall>i < length (cn_callers s). \<forall>n. flight_led (cn_callers s ! i) = Some n \<longrightarrow> sf_current (cn_flight s) = Some n) \<and>
     (\<forall>i < length (cn_callers s). \<forall>j < length (cn_callers s).
        flight_led (cn_callers s ! i) \<noteq> None \<longrightarrow> flight_led (cn_callers s ! j) \<noteq> None \<longrightarrow> i = j) \<and>
     (\<forall>i < length (cn_callers s). \<forall>orig n. cn_callers s ! i = Waiting orig n \<longrightarrow> n < length (sf_outcomes (cn_flight s)))"

lemma answers_step:
  assumes ok: "answers_ok remote s" and leads: "leaders_ok s"
  shows "answers_ok remote (connect_move m s)"
proof (cases m)
  case (Call i orig)
  then show ?thesis using ok by (auto intro: answers_put)
next
  case (Go i user)
  show ?thesis
  proof (cases "i < length (cn_callers s)")
    case True
    have caller: "cn_callers s ! i \<in> set (cn_callers s)" using True by simp
    have "answers_ok remote (go_on i user s)"
    proof (cases "cn_callers s ! i")
      case (Called orig)
      then show ?thesis using ok answers_okD(1) [OF ok] by (auto simp: go_on_def intro!: answers_put)
    next
      case (Checked orig)
      have "answers_ok remote (s\<lparr>cn_connecting_to := Some orig\<rparr>)" by (rule answers_ok_change [OF ok]) simp_all
      then show ?thesis using Checked ok
        by (auto simp: go_on_def was_confirmed_def intro!: answers_put split: option.splits)
    next
      case (Passed orig)
      obtain n leader f where join: "sf_join (cn_flight s) = ((n, leader), f)" by (metis surj_pair)
      have "answers_ok remote (s\<lparr>cn_flight := f\<rparr>)"
        by (rule answers_ok_change [OF ok]) (use join_outcomes [OF join] in simp_all)
      then show ?thesis using Passed ok join by (auto simp: go_on_def intro!: answers_put)
    next
      case (Leading orig n)
      have "answers_ok remote (s\<lparr>cn_flight := sf_leave n (cn_flight s)\<rparr>)"
        by (rule answers_ok_change [OF ok]) (use leave_outcomes in auto)
      moreover have given: "answers_ok remote (s\<lparr>cn_remote := (if b then Some orig else cn_remote s), cn_dialogs := cn_dialogs s @ [(orig, b)]\<rparr>)" for b
        by (rule answers_ok_change [OF ok]) (auto simp: was_confirmed_def)
      ultimately show ?thesis using Leading given [of True] given [of False]
        by (auto simp: go_on_def was_confirmed_def intro!: answers_put split: option.splits)
    next
      case (Adopted orig n a)
      have "answers_ok remote (s\<lparr>cn_connecting_to := None\<rparr>)" by (rule answers_ok_change [OF ok]) simp_all
      moreover have "was_confirmed remote s a" using ok caller Adopted unfolding answers_ok_def by fastforce
      ultimately show ?thesis using Adopted by (auto simp: go_on_def was_confirmed_def intro!: answers_put)
    next
      case (Cleared orig n a)
      have a: "was_confirmed remote s a" using ok caller Cleared unfolding answers_ok_def by fastforce
      then have "answers_ok remote (s\<lparr>cn_flight := sf_answer n a (cn_flight s)\<rparr>)"
        by (intro answers_ok_change [OF ok]) (auto simp: was_confirmed_def dest: answer_outcomes)
      then show ?thesis using Cleared a by (auto simp: go_on_def was_confirmed_def intro!: answers_put)
    next
      case (Leaving orig n a)
      have "answers_ok remote (s\<lparr>cn_flight := sf_leave n (cn_flight s)\<rparr>)"
        by (rule answers_ok_change [OF ok]) (use leave_outcomes in auto)
      moreover have "was_confirmed remote s a" using ok caller Leaving unfolding answers_ok_def by fastforce
      ultimately show ?thesis using Leaving by (auto simp: go_on_def was_confirmed_def intro!: answers_put)
    next
      case (Waiting orig n)
      have "n < length (sf_outcomes (cn_flight s))" using leads True Waiting unfolding leaders_ok_def by blast
      then have "Ready a \<in> set (sf_outcomes (cn_flight s))" if "sf_outcomes (cn_flight s) ! n = Ready a" for a
        using that by (metis nth_mem)
      then show ?thesis using Waiting ok
          answers_okD(2) [OF ok] by (auto simp: go_on_def intro!: answers_put split: flight_outcome.splits)
    qed (use ok in \<open>simp_all add: go_on_def\<close>)
    then show ?thesis using Go True by simp
  qed (use ok Go in simp)
qed

lemma leaders_put:
  assumes "leaders_ok s" "flight_led c = None \<or> flight_led c = flight_led (cn_callers s ! i)"
    "\<forall>orig n. c = Waiting orig n \<longrightarrow> n < length (sf_outcomes (cn_flight s))"
  shows "leaders_ok (put_caller i c s)"
proof (cases "i < length (cn_callers s)")
  case True
  have led: "flight_led (cn_callers s ! j) = Some n" if "flight_led ((cn_callers s)[i := c] ! j) = Some n" "j < length (cn_callers s)" for j n
    using assms(2) that by (cases "j = i") auto
  show ?thesis
    unfolding leaders_ok_def put_fields length_list_update
  proof (intro conjI allI impI)
    fix j n
    show "sf_current (cn_flight s) = Some n \<Longrightarrow> n < length (sf_outcomes (cn_flight s))"
      using assms(1) unfolding leaders_ok_def by blast
    show "j < length (cn_callers s) \<Longrightarrow> flight_led ((cn_callers s)[i := c] ! j) = Some n \<Longrightarrow> sf_current (cn_flight s) = Some n"
      using assms(1) led unfolding leaders_ok_def by blast
  next
    fix j k
    assume "j < length (cn_callers s)" "k < length (cn_callers s)"
      "flight_led ((cn_callers s)[i := c] ! j) \<noteq> None" "flight_led ((cn_callers s)[i := c] ! k) \<noteq> None"
    then have "flight_led (cn_callers s ! j) \<noteq> None" "flight_led (cn_callers s ! k) \<noteq> None" using led by blast+
    then show "j = k" using assms(1) \<open>j < _\<close> \<open>k < _\<close> unfolding leaders_ok_def by blast
  next
    fix j orig n
    assume "j < length (cn_callers s)" "(cn_callers s)[i := c] ! j = Waiting orig n"
    then show "n < length (sf_outcomes (cn_flight s))"
      using assms(1,3) unfolding leaders_ok_def by (cases "j = i") auto
  qed
next
  case False
  then show ?thesis using assms(1) by (simp add: put_caller_def leaders_ok_def list_update_beyond)
qed

lemma leaders_left:
  assumes "leaders_ok s" "i < length (cn_callers s)" "flight_led (cn_callers s ! i) = Some n"
    "flight_led c = None" "\<forall>orig n. c \<noteq> Waiting orig n"
  shows "leaders_ok (put_caller i c (s\<lparr>cn_flight := sf_leave n (cn_flight s)\<rparr>))"
proof -
  let ?f = "sf_leave n (cn_flight s)" and ?cs = "(cn_callers s)[i := c]"
  have other: "\<forall>j < length (cn_callers s). j \<noteq> i \<longrightarrow> flight_led (cn_callers s ! j) = None"
    using assms(1-3) unfolding leaders_ok_def by blast
  have none: "flight_led (?cs ! j) = None" if "j < length (cn_callers s)" for j
    using other assms(4) that by (cases "j = i") auto
  have same: "length (sf_outcomes ?f) = length (sf_outcomes (cn_flight s))" by (simp add: sf_leave_def)
  have current: "m < length (sf_outcomes (cn_flight s))" if "sf_current ?f = Some m" for m
    using that assms(1) by (auto simp: sf_leave_def leaders_ok_def split: if_splits)
  have waits: "m < length (sf_outcomes (cn_flight s))" if "j < length (cn_callers s)" "?cs ! j = Waiting orig m" for j orig m
    using that assms(1,5) unfolding leaders_ok_def by (cases "j = i") auto
  have fields: "cn_flight (put_caller i c (s\<lparr>cn_flight := ?f\<rparr>)) = ?f" "cn_callers (put_caller i c (s\<lparr>cn_flight := ?f\<rparr>)) = ?cs"
    by (simp_all add: put_caller_def)
  show ?thesis
    unfolding leaders_ok_def fields same length_list_update using none current waits by auto
qed

lemma leaders_step:
  assumes ok: "leaders_ok s"
  shows "leaders_ok (connect_move m s)"
proof (cases m)
  case (Call i orig)
  then show ?thesis using ok by (auto simp: leaders_ok_def put_caller_def nth_list_update)
next
  case (Go i user)
  show ?thesis
  proof (cases "i < length (cn_callers s)")
    case True
    have idle: "leaders_ok (put_caller i c t)" if "leaders_ok t" "flight_led c = None" "\<forall>orig n. c \<noteq> Waiting orig n" for c t
      using leaders_put [OF that(1)] that(2,3) by blast
    have "leaders_ok (go_on i user s)"
    proof (cases "cn_callers s ! i")
      case (Called orig)
      then show ?thesis using idle [OF ok] by (simp add: go_on_def)
    next
      case (Checked orig)
      have "leaders_ok (s\<lparr>cn_connecting_to := Some orig\<rparr>)" using ok by (simp add: leaders_ok_def)
      then show ?thesis using idle [OF ok] Checked by (cases "cn_connecting_to s") (simp_all add: go_on_def idle)
    next
      case (Passed orig)
      show ?thesis
      proof (cases "sf_current (cn_flight s)")
        case (Some n)
        then have "n < length (sf_outcomes (cn_flight s))" using ok unfolding leaders_ok_def by blast
        then have "leaders_ok (put_caller i (Waiting orig n) s)" by (intro leaders_put [OF ok]) simp_all
        then show ?thesis using Passed Some by (simp add: go_on_def sf_join_def)
      next
        case None
        then have "\<forall>j < length (cn_callers s). flight_led (cn_callers s ! j) = None" using ok by (fastforce simp: leaders_ok_def)
        then show ?thesis
          using ok None Passed True
          by (auto simp: go_on_def sf_join_def leaders_ok_def put_caller_def nth_list_update less_Suc_eq)
      qed
    next
      case (Leading orig n)
      have leave: "leaders_ok (put_caller i c (s\<lparr>cn_flight := sf_leave n (cn_flight s)\<rparr>))" if "flight_led c = None" "\<forall>orig n. c \<noteq> Waiting orig n" for c
        using leaders_left [OF ok True _ that] Leading by simp
      show ?thesis
      proof (cases user)
        case None
        then show ?thesis using leave [of Absent] Leading by (simp add: go_on_def)
      next
        case (Some b)
        have adopt: "leaders_ok (put_caller i (Adopted orig n a) (s\<lparr>cn_remote := r, cn_dialogs := ds\<rparr>))" for r a ds
        proof (rule leaders_put)
          show "leaders_ok (s\<lparr>cn_remote := r, cn_dialogs := ds\<rparr>)" using ok by (simp add: leaders_ok_def)
        qed (use Leading in simp_all)
        note given = adopt [where r = "cn_remote s"] adopt [where r = "Some orig"]
        show ?thesis using Some Leading given by (cases b) (simp_all add: go_on_def)
      qed
    next
      case (Adopted orig n a)
      have "leaders_ok (put_caller i (Cleared orig n a) (s\<lparr>cn_connecting_to := None\<rparr>))"
      proof (rule leaders_put)
        show "leaders_ok (s\<lparr>cn_connecting_to := None\<rparr>)" using ok by (simp add: leaders_ok_def)
      qed (use Adopted in simp_all)
      then show ?thesis using Adopted by (simp add: go_on_def)
    next
      case (Cleared orig n a)
      have "leaders_ok (put_caller i (Leaving orig n a) (s\<lparr>cn_flight := sf_answer n a (cn_flight s)\<rparr>))"
      proof (rule leaders_put)
        show "leaders_ok (s\<lparr>cn_flight := sf_answer n a (cn_flight s)\<rparr>)" using ok by (simp add: leaders_ok_def sf_answer_def)
      qed (use Cleared in simp_all)
      then show ?thesis using Cleared by (simp add: go_on_def)
    next
      case (Leaving orig n a)
      have "leaders_ok (put_caller i c (s\<lparr>cn_flight := sf_leave n (cn_flight s)\<rparr>))" if "flight_led c = None" "\<forall>orig n. c \<noteq> Waiting orig n" for c
        using leaders_left [OF ok True _ that] Leaving by simp
      then show ?thesis using Leaving by (simp add: go_on_def)
    next
      case (Waiting orig n)
      then show ?thesis using idle [OF ok] ok by (simp add: go_on_def split: flight_outcome.splits)
    qed (use ok in \<open>simp_all add: go_on_def\<close>)
    then show ?thesis using Go True by simp
  qed (use ok Go in simp)
qed

text \<open>C39
  However the calls of the page overlap, and whether or not a question is cut short: one question is
  open at a time, and a caller hears that it is connected to a server only when that server was
  connected before or the user confirmed it.
\<close>

theorem asked_first:
  assumes "s = connect_moves ms (connecting_start n remote)"
  shows "(i < length (cn_callers s) \<and> j < length (cn_callers s) \<and> cn_callers s ! i = Leading a k \<and> cn_callers s ! j = Leading b l \<longrightarrow> i = j) \<and>
    (i < length (cn_callers s) \<and> cn_callers s ! i = Answered orig (Connected told) \<longrightarrow> remote = Some told \<or> (told, True) \<in> set (cn_dialogs s))"
proof -
  have run: "leaders_ok (connect_moves ms t) \<and> answers_ok remote (connect_moves ms t)" if "leaders_ok t" "answers_ok remote t" for t
    using that by (induction ms arbitrary: t) (simp_all add: connect_moves_def leaders_step answers_step)
  have "leaders_ok (connecting_start n remote)" "answers_ok remote (connecting_start n remote)"
    by (auto simp: leaders_ok_def answers_ok_def connecting_start_def no_flight_def was_confirmed_def)
  from run [OF this] have ok: "leaders_ok s" "answers_ok remote s" using assms by simp_all
  have one: "i = j" if "i < length (cn_callers s)" "j < length (cn_callers s)" "cn_callers s ! i = Leading a k" "cn_callers s ! j = Leading b l"
    using ok(1) that unfolding leaders_ok_def by fastforce
  have "was_confirmed remote s (Connected told)" if "i < length (cn_callers s)" "cn_callers s ! i = Answered orig (Connected told)"
  proof -
    have "answer_of_caller (cn_callers s ! i) = Some (Connected told)" "cn_callers s ! i \<in> set (cn_callers s)"
      using that nth_mem [OF that(1)] by simp_all
    then show ?thesis using ok(2) unfolding answers_ok_def by blast
  qed
  then show ?thesis using one by (auto simp: was_confirmed_def)
qed


lemma asked_first_witness:
  "(lit ''https://h'', True) \<in> set (cn_dialogs
     (connect_moves [Call 0 (lit ''https://h''), Go 0 None, Go 0 None, Go 0 None, Go 0 (Some True), Go 0 None, Go 0 None, Go 0 None] (connecting_start 1 None)))"
proof -
  let ?ms = "[Call 0 (lit ''https://h''), Go 0 None, Go 0 None, Go 0 None, Go 0 (Some True), Go 0 None, Go 0 None, Go 0 None]"
  have "cn_callers (connect_moves ?ms (connecting_start 1 None)) = [Answered (lit ''https://h'') (Connected (lit ''https://h''))]"
    by (simp add: connect_moves_def connecting_start_def go_on_def put_caller_def sf_join_def sf_answer_def sf_leave_def no_flight_def Let_def)
  then show ?thesis using asked_first [OF refl, of 0 ?ms 1 None] by simp
qed


end
