(* ===== verification/Spec2Isabelle.thy ===== *)
theory Spec2Isabelle
  imports Rate_Limiter Chunks Zip_Writer Previews Shell_Mode Connecting
begin

text \<open>
  A verification library for Slicer Project Manager, a library of 3D-printing projects that runs as
  a server (\<^verbatim>\<open>spm-server\<close>, axum routes in \<^verbatim>\<open>spm-http\<close>) and as a desktop app (\<^verbatim>\<open>spm-shell\<close> under Tauri).
  Both put a transport over \<^verbatim>\<open>spm-core\<close>: accounts and sessions, projects and their files, the zip
  code, the preview queue, and the hand-over of files to slicers. Paths below are relative to
  \<^verbatim>\<open>src/crates\<close>.

  \<^bold>\<open>How the code is modelled.\<close> A Rust \<^verbatim>\<open>String\<close> is the list of its scalar values, bytes are 8-bit words;
  an \<^verbatim>\<open>i64\<close> time is an integer, a size or an offset a natural number with the wrap-around or the
  check of the code written out. A struct is a record, an enum a datatype, a \<^verbatim>\<open>Result\<close> a sum with the
  error on the left (\<open>result\<close>), and code that can panic returns an \<open>outcome\<close>, where a panic is a
  value. The database is the record \<open>db\<close> of its tables as lists of rows, with the constraints of
  the migrations as the invariant \<open>db_ok\<close>; a transaction gives back the old tables on an error.
  Where the code releases the lock of the database or touches the disk, the model takes what others
  do meanwhile as an argument (\<open>env\<close> functions, the outcome of each disk operation), so a property
  holds for every interleaving at these points. Third-party code is an argument of the definitions
  that use it: the inflater, CRC-32, SHA-256 and PBKDF2, random tokens and ids, the clock, the
  url parser, Unicode lowercasing beyond ASCII, the JSON text.

  \<^bold>\<open>Theories and the code they model.\<close>
  \<^item> \<open>Prelude\<close>: shared vocabulary, results, tables, the collections of rewrite rules.
  \<^item> \<open>App_Error\<close>: \<^verbatim>\<open>spm-core/src/error.rs\<close> and the stored enumerations of \<^verbatim>\<open>dto/mod.rs\<close>; the locale
    \<open>wire_enum\<close> is the contract of every enumeration that is spelled on the wire.
  \<^item> \<open>Rate_Limiter\<close>: \<^verbatim>\<open>spm-http/src/rate_limit.rs\<close> and its middleware. One check implements an
    abstract fixed-window counter; the tables stay bounded, and a peer spends only its own budget.
  \<^item> \<open>Utf8\<close>, \<open>Fs_Io\<close>, \<open>Chunks\<close>: decoding, \<^verbatim>\<open>files/fsio.rs\<close> and \<^verbatim>\<open>files/chunks.rs\<close>. Streaming a file
    into the line splitter gives the lines of the decoded whole.
  \<^item> \<open>Zip_Reader\<close>, \<open>Zip_Writer\<close>: \<^verbatim>\<open>files/zip.rs\<close>, \<^verbatim>\<open>files/zip_write.rs\<close>. No content of a file makes the
    reader panic; a rewritten archive reads back as the kept entries.
  \<^item> \<open>Validate\<close>: \<^verbatim>\<open>validate.rs\<close>; \<open>Paths\<close>: \<^verbatim>\<open>files/paths.rs\<close>, the path join on both platforms;
    \<open>Classify\<close>: \<^verbatim>\<open>files/classify.rs\<close>.
  \<^item> \<open>Library_Db\<close>: the migrations of \<^verbatim>\<open>spm-core/src/db\<close>; \<open>Accounts\<close>: \<^verbatim>\<open>users/repo.rs\<close>, \<^verbatim>\<open>users/usage.rs\<close>,
    \<^verbatim>\<open>auth/password.rs\<close>; \<open>Activation\<close>, \<open>Sessions\<close>, \<open>Login\<close>: the rest of \<^verbatim>\<open>auth\<close>; \<open>Users\<close>:
    \<^verbatim>\<open>users/admin.rs\<close>, \<^verbatim>\<open>account.rs\<close>, \<^verbatim>\<open>bootstrap.rs\<close>. Account operations interleave in any order.
  \<^item> \<open>Queries\<close>, \<open>Projects\<close>: \<^verbatim>\<open>projects/queries.rs\<close>, \<^verbatim>\<open>projects/usecases.rs\<close>; \<open>Disk\<close>, \<open>Files\<close>:
    \<^verbatim>\<open>files/usecases.rs\<close> over the part of \<^verbatim>\<open>std::fs\<close> it rests on; \<open>Rescan\<close>: \<^verbatim>\<open>projects/rescan.rs\<close>.
  \<^item> \<open>Previews\<close>: \<^verbatim>\<open>previews/queue.rs\<close> as a machine whose steps interleave with rescans and edits.
  \<^item> \<open>Entry_Hash\<close>, \<open>Strip3mf\<close>: \<^verbatim>\<open>files/entry_hash.rs\<close>, \<^verbatim>\<open>files/strip3mf.rs\<close>.
  \<^item> \<open>Slicer_Sessions\<close>: \<^verbatim>\<open>spm-shell/src/slicers/sessions.rs\<close> as a machine over a directory that
    slicers and users change at any time; \<open>Launch\<close>: \<^verbatim>\<open>slicers/launch.rs\<close> and \<^verbatim>\<open>registry.rs\<close>, whose
    successful launch is a step that machine allows.
  \<^item> \<open>Wire\<close>: percent-encoding, error envelope, session cookie and file routes of \<^verbatim>\<open>spm-http\<close>, and the
    client of \<^verbatim>\<open>slicers/remote_files.rs\<close> that reads them back; \<open>Remote_Proxy\<close>: \<^verbatim>\<open>spm-shell/src/remote.rs\<close> and
    \<^verbatim>\<open>capabilities.rs\<close>, the reverse proxy between the two.
  \<^item> \<open>Desktop_Server\<close>: \<^verbatim>\<open>spm-shell/src/gate.rs\<close>, \<^verbatim>\<open>server.rs\<close> and the web bundle of
    \<^verbatim>\<open>spm-http/src/static_files.rs\<close>. Who is let in is a function of the requests so far.
  \<^item> \<open>Json_Store\<close>: \<^verbatim>\<open>spm-shell/src/json_store.rs\<close> over a disk that loses power; \<open>Shell_Mode\<close>:
    \<^verbatim>\<open>shell.rs\<close>, \<^verbatim>\<open>library.rs\<close> and \<^verbatim>\<open>state.rs\<close>, the commands that open a folder or connect a server.
    \<open>Connecting\<close>: the shared question of \<^verbatim>\<open>sync.rs\<close> and overlapping calls of \<^verbatim>\<open>connect_remote\<close>.

  \<^bold>\<open>How they interact.\<close> \<open>Login\<close>, \<open>Users\<close> and \<open>Sessions\<close> share the token contract of \<open>Activation\<close>; the
  use cases of \<open>Projects\<close> and \<open>Files\<close> go through the ownership queries of \<open>Queries\<close> and the path
  join of \<open>Paths\<close>; \<open>Rescan\<close> resets the preview rows that \<open>Previews\<close> claims; \<open>Launch\<close> strips with
  \<open>Strip3mf\<close>, hashes with \<open>Entry_Hash\<close> and hands its directory to \<open>Slicer_Sessions\<close>, which imports
  through the upload of \<open>Files\<close> or of a server, which \<open>Wire\<close> reaches through \<open>Remote_Proxy\<close>.
  \<open>Shell_Mode\<close> decides which of the two \<open>Desktop_Server\<close> answers from and writes its choice with
  \<open>Json_Store\<close>.

  \<^bold>\<open>Loops and bounds.\<close> Loops over data are structural or carry a measure. Two searches for a free
  name may in principle run on: the folder name of a project (\<open>unique_loop\<close>) is a partial function
  whose return is a property, and the derived file name of an import stops after the bound the code
  has. The settle loop is bounded by its window: 120 seconds in steps of one give 121 comparisons.

  \<^bold>\<open>Not modelled.\<close> The web packages are TypeScript. \<^verbatim>\<open>src/apps/desktop\<close> is Tauri glue: windows, menus,
  dialogs, the webview and its smoke runs. Of \<^verbatim>\<open>spm-http\<close> the routes call the use cases modelled here
  and translate their results. The rasterizer and the mesh readers compute in floating point.
  Logging, progress lines, the development proxy, process spawning and the detection of installed
  programs are input and output. The manifest lists each part with its reason.
\<close>

end
